(* ===== verification/PM_Prelude.thy ===== *)
theory PM_Prelude
  imports Main "HOL-Library.Word" "HOL-Library.Monad_Syntax"
begin

text \<open>
  Shared vocabulary of the development: the C types of the LP64 targets the library is built
  for, the page geometry of \<open>pm_util.h\<close>, and the generic facts on words, lists and the
  option monad that the component theories use.

  Conventions. A C function that touches memory returns \<open>option\<close>: \<open>None\<close> means that the
  call does not return (it reads or writes memory that is not mapped, waits for a lock nobody
  releases, or loops forever). Error \<^emph>\<open>codes\<close> of the program are ordinary values inside
  \<open>Some\<close>. So \<open>f x = Some y\<close> states that the call is memory safe, terminates and returns
  \<open>y\<close>.
\<close>

unbundle bit_operations_syntax

section \<open>C types\<close>

type_synonym u64 = "64 word"
type_synonym size_t = "64 word"
type_synonym c_uint = "32 word"
type_synonym byte = "8 word"
type_synonym ptr = "64 word"

abbreviation (input) NULL :: ptr where
  "NULL \<equiv> 0"

text \<open>\<open>MAP_FAILED\<close> is \<open>(void * ) -1\<close>, \<open>ULONG_MAX\<close> and \<open>SIZE_MAX\<close> are all ones.\<close>

abbreviation (input) MAP_FAILED :: ptr where
  "MAP_FAILED \<equiv> - 1"

abbreviation (input) ULONG_MAX :: u64 where
  "ULONG_MAX \<equiv> - 1"

abbreviation (input) SIZE_MAX :: size_t where
  "SIZE_MAX \<equiv> - 1"

text \<open>
  The null check of \<open>pm_ptr_util.h\<close>: a null pointer is logged and the action (a \<open>return\<close> at every
  use) is taken, otherwise the rest of the function runs.
\<close>

definition IF_NULL_LOG_ACTION :: "bool \<Rightarrow> 'r \<Rightarrow> 'r \<Rightarrow> 'r" where
  [simp]: "IF_NULL_LOG_ACTION is_null act rest = (if is_null then act else rest)"

section \<open>Page geometry and mapping flags (\<open>pm_util.h\<close>)\<close>

definition PAGE_SHIFT :: nat where
  "PAGE_SHIFT = 12"

definition PAGE_SIZE :: size_t where
  "PAGE_SIZE = push_bit PAGE_SHIFT 1"

definition MAP_PURGEABLE :: c_uint where
  "MAP_PURGEABLE = 0x04"

definition MAP_USEREXPTE :: c_uint where
  "MAP_USEREXPTE = 0x08"

text \<open>The POSIX constants of \<open>sys/mman.h\<close> the sources combine with them.\<close>

definition MAP_PRIVATE :: c_uint where
  "MAP_PRIVATE = 0x02"

definition MAP_ANONYMOUS :: c_uint where
  "MAP_ANONYMOUS = 0x20"

definition PROT_RW :: c_uint where
  "PROT_RW = 0x1 OR 0x2"

lemma PAGE_SIZE_eq: "PAGE_SIZE = 4096"
  by (simp add: PAGE_SIZE_def PAGE_SHIFT_def)

lemma unat_PAGE_SIZE [simp]: "unat PAGE_SIZE = 4096"
  by (simp add: PAGE_SIZE_eq)

section \<open>Collections\<close>

named_theorems uxpt_arith \<open>page-table arithmetic read through unat\<close>
named_theorems frame \<open>fields an operation leaves alone\<close>

section \<open>Words\<close>

lemma two_64: "(2::nat) ^ 64 = 18446744073709551616"
  by simp

lemma unat_lt_2p64: "unat (x :: u64) < 18446744073709551616"
  using unsigned_less [of x, where ?'a = nat] by simp

lemma unat_add_u64:
  "unat (a + b :: u64) = (if unat a + unat b < 2 ^ 64 then unat a + unat b
                          else unat a + unat b - 2 ^ 64)"
proof -
  have "unat (a + b) = (unat a + unat b) mod 2 ^ 64"
    by (simp add: unat_word_ariths)
  then show ?thesis
    using unat_lt_2p64 [of a] unat_lt_2p64 [of b]
    by (simp add: mod_if le_mod_geq)
qed

lemma unat_add_no_wrap:
  "unat a + unat b < 2 ^ 64 \<Longrightarrow> unat (a + b :: u64) = unat a + unat b"
  by (simp add: unat_add_u64)

lemma unat_diff_le: "b \<le> a \<Longrightarrow> unat (a - b :: u64) = unat a - unat b"
  by (simp add: unat_sub)

lemma unat_mult_no_wrap:
  "unat a * unat b < 2 ^ 64 \<Longrightarrow> unat (a * b :: u64) = unat a * unat b"
  by (simp add: unat_word_ariths)

lemma unat_max_minus: "unat (ULONG_MAX - v :: u64) = 2 ^ 64 - 1 - unat v"
proof -
  have "unat (ULONG_MAX :: u64) = 2 ^ 64 - 1"
    by (simp add: unsigned_minus_1_eq_mask mask_eq_exp_minus_1)
  then show ?thesis by (simp add: unat_diff_le word_order.extremum)
qed

text \<open>
  The overflow test the sources write before every addition,
  \<open>a + b < a \<or> a + b < b\<close>, is exact.
\<close>

lemma add_overflow_test:
  "(a + b < a \<or> a + b < b) \<longleftrightarrow> 2 ^ 64 \<le> unat (a :: u64) + unat b"
  using unat_lt_2p64 [of a] unat_lt_2p64 [of b]
  by (auto simp: word_less_nat_alt unat_add_u64 split: if_splits)

lemma unat_drop_bit_u64 [uxpt_arith]: "unat (drop_bit n (x :: u64)) = unat x div 2 ^ n"
  by (simp add: unat_drop_bit_eq) (simp add: drop_bit_eq_div)

lemma unat_and_mask_u64: "unat (x AND mask n :: u64) = unat x mod 2 ^ n"
  by (simp add: unsigned_take_bit_eq flip: take_bit_eq_mask) (simp add: take_bit_eq_mod)

text \<open>Clearing the low \<open>n\<close> bits rounds down to a multiple of \<open>2 ^ n\<close>.\<close>

lemma unat_and_not_mask_u64:
  "unat (x AND NOT (mask n) :: u64) = unat x - unat x mod 2 ^ n"
proof -
  have "x AND NOT (mask n) = x AND NOT (x AND mask n)"
    by (simp add: bit_eq_iff bit_simps) auto
  also have "\<dots> = x - (x AND mask n)"
    by (rule disjunctive_diff_eq_and_not [symmetric]) (simp add: bit_eq_iff bit_simps)
  finally have "x AND NOT (mask n) = x - (x AND mask n)" .
  moreover have "x AND mask n \<le> x"
    by (rule word_and_le2)
  ultimately show ?thesis
    by (simp add: unat_diff_le unat_and_mask_u64)
qed

section \<open>The option monad\<close>

lemma bind_eq_Some: "Option.bind m f = Some y \<longleftrightarrow> (\<exists>x. m = Some x \<and> f x = Some y)"
  by (cases m) auto

end
