(* ===== verification/Purg_Builder.thy ===== *)
theory Purg_Builder
  imports PM_Prelude
begin

text \<open>
  The builder chain of \<open>c/src/purgeable_mem_builder_c.c\<close>: a singly linked list of heap nodes,
  each with a user function and its parameter, that is replayed to rebuild purged content. The
  heap is an explicit store, so that aliasing, freed nodes and cycles are visible; an access to a
  node that is not allocated does not return.

  A user function gets the content (a byte list, whose length is the \<open>size\<close> argument) and its
  parameter, and returns its verdict and the new content. \<open>None\<close> is the NULL function pointer.
\<close>

section \<open>Nodes and operations\<close>

type_synonym modify_func = "byte list \<Rightarrow> ptr \<Rightarrow> bool \<times> byte list"

record PurgMemBuilder =
  nextBuilder :: ptr
  Build :: "modify_func option"
  bparam :: ptr
  bname :: "string option"

type_synonym bheap = "ptr \<Rightarrow> PurgMemBuilder option"

text \<open>\<open>newp\<close> is what \<open>malloc\<close> answers (NULL when there is no memory).\<close>

definition PurgMemBuilderCreate ::
  "ptr \<Rightarrow> modify_func option \<Rightarrow> ptr \<Rightarrow> string option \<Rightarrow> bheap \<Rightarrow> ptr \<times> bheap" where
  "PurgMemBuilderCreate newp func param nm h =
     IF_NULL_LOG_ACTION (func = None) (NULL, h)
     (if newp = NULL then (NULL, h)
      else (newp, h(newp \<mapsto> \<lparr>nextBuilder = NULL, Build = func, bparam = param, bname = nm\<rparr>)))"

partial_function (option) Destroy_loop :: "ptr \<Rightarrow> bheap \<Rightarrow> bheap option" where
  "Destroy_loop cur h =
     (if cur = NULL then Some h
      else do { nd \<leftarrow> h cur; Destroy_loop (nextBuilder nd) (h(cur := None)) })"

definition PurgMemBuilderDestroy :: "ptr \<Rightarrow> bheap \<Rightarrow> (bool \<times> bheap) option" where
  "PurgMemBuilderDestroy builder h =
     IF_NULL_LOG_ACTION (builder = NULL) (Some (True, h))
     (do { h1 \<leftarrow> Destroy_loop builder h; Some (True, h1) })"

partial_function (option) AppendBuilder :: "ptr \<Rightarrow> ptr \<Rightarrow> bheap \<Rightarrow> bheap option" where
  "AppendBuilder head newcomer h =
     (if head = NULL then Some h
      else do {
        nd \<leftarrow> h head;
        if nextBuilder nd = NULL then Some (h(head \<mapsto> nd\<lparr>nextBuilder := newcomer\<rparr>))
        else AppendBuilder (nextBuilder nd) newcomer h
      })"

definition PurgMemBuilderAppendFunc ::
  "ptr \<Rightarrow> ptr \<Rightarrow> modify_func option \<Rightarrow> ptr \<Rightarrow> string option \<Rightarrow> bheap \<Rightarrow> (bool \<times> bheap) option" where
  "PurgMemBuilderAppendFunc newp builder func param nm h =
     IF_NULL_LOG_ACTION (builder = NULL) (Some (False, h))
     (IF_NULL_LOG_ACTION (func = None) (Some (False, h))
      (let (newcomer, h1) = PurgMemBuilderCreate newp func param nm h
       in IF_NULL_LOG_ACTION (newcomer = NULL) (Some (False, h1))
          (do { h2 \<leftarrow> AppendBuilder builder newcomer h1; Some (True, h2) })))"

definition PurgMemBuilderAppendBuilder :: "ptr \<Rightarrow> ptr \<Rightarrow> bheap \<Rightarrow> (bool \<times> bheap) option" where
  "PurgMemBuilderAppendBuilder builder newcomer h =
     IF_NULL_LOG_ACTION (builder = NULL) (Some (False, h))
     (IF_NULL_LOG_ACTION (newcomer = NULL) (Some (False, h))
      (do { h1 \<leftarrow> AppendBuilder builder newcomer h; Some (True, h1) }))"

partial_function (option) PurgMemBuilderBuildAll ::
  "ptr \<Rightarrow> byte list \<Rightarrow> bheap \<Rightarrow> (bool \<times> byte list) option" where
  "PurgMemBuilderBuildAll builder data h =
     (if builder = NULL then Some (False, data)
      else do {
        nd \<leftarrow> h builder;
        case Build nd of
          None \<Rightarrow> Some (True, data)
        | Some func \<Rightarrow>
            (let (succ, data1) = func data (bparam nd)
             in if \<not> succ then Some (False, data1)
                else if nextBuilder nd = NULL then Some (True, data1)
                else PurgMemBuilderBuildAll (nextBuilder nd) data1 h)
      })"

section \<open>Specification: a list of modifications\<close>

type_synonym mod_step = "modify_func \<times> ptr"

text \<open>Replay the modifications in order, stop at the first one that fails.\<close>

fun run_steps :: "mod_step list \<Rightarrow> byte list \<Rightarrow> bool \<times> byte list" where
  "run_steps [] data = (True, data)"
| "run_steps ((func, p) # xs) data =
     (let (succ, data1) = func data p in if succ then run_steps xs data1 else (False, data1))"

lemma run_steps_append:
  "run_steps (xs @ ys) data =
     (let (succ, data1) = run_steps xs data in if succ then run_steps ys data1 else (False, data1))"
  by (induction xs arbitrary: data) (auto simp: Let_def split: prod.splits)

text \<open>User functions stay inside the buffer they are given.\<close>

definition in_buffer :: "modify_func \<Rightarrow> bool" where
  "in_buffer func \<longleftrightarrow> (\<forall>data p. length (snd (func data p)) = length data)"

lemma run_steps_length:
  assumes "\<forall>(func, p) \<in> set xs. in_buffer func"
  shows "length (snd (run_steps xs data)) = length data"
  using assms
proof (induction xs arbitrary: data)
  case (Cons x xs)
  obtain func p where x: "x = (func, p)" by (cases x)
  have "length (snd (func data p)) = length data" using Cons.prems x by (auto simp: in_buffer_def)
  then show ?case using Cons x by (auto simp: Let_def split: prod.splits)
qed simp

text \<open>
  A chain of builders: the nodes \<open>A\<close> at \<open>p\<close> hold the modifications \<open>xs\<close>. The operations a
  client uses, and what they promise about it.
\<close>

locale builder_chain =
  fixes chain :: "'h \<Rightarrow> ptr \<Rightarrow> ptr set \<Rightarrow> mod_step list \<Rightarrow> bool"
    and append_to :: "ptr \<Rightarrow> ptr \<Rightarrow> 'h \<Rightarrow> (bool \<times> 'h) option"
    and build_all :: "ptr \<Rightarrow> byte list \<Rightarrow> 'h \<Rightarrow> (bool \<times> byte list) option"
    and release :: "ptr \<Rightarrow> 'h \<Rightarrow> (bool \<times> 'h) option"
    and allocated :: "'h \<Rightarrow> ptr set"
  assumes append_to: "\<lbrakk>chain h b A xs; chain h c C ys; b \<noteq> NULL; c \<noteq> NULL; A \<inter> C = {}\<rbrakk> \<Longrightarrow>
      \<exists>h'. append_to b c h = Some (True, h') \<and> chain h' b (A \<union> C) (xs @ ys) \<and>
           allocated h' = allocated h"
    and build_all: "\<lbrakk>chain h b A xs; b \<noteq> NULL\<rbrakk> \<Longrightarrow> build_all b data h = Some (run_steps xs data)"
    and release: "chain h b A xs \<Longrightarrow>
      \<exists>h'. release b h = Some (True, h') \<and> allocated h' = allocated h - A"
begin

text \<open>
  The reason a purgeable object can be rebuilt: if its log reproduces the present content from
  scratch, then after a successful modification has been logged it reproduces the new content.
\<close>

lemma logged_modification:
  assumes "chain h b A xs" "chain h c C ys" "b \<noteq> NULL" "c \<noteq> NULL" "A \<inter> C = {}"
    and "run_steps xs z = (True, d)" "run_steps ys d = (True, d')"
  shows "\<exists>h'. append_to b c h = Some (True, h') \<and> build_all b z h' = Some (True, d')"
proof -
  obtain h' where "append_to b c h = Some (True, h')" "chain h' b (A \<union> C) (xs @ ys)"
    using append_to [OF assms(1-5)] by blast
  moreover have "run_steps (xs @ ys) z = (True, d')"
    using assms(6,7) by (simp add: run_steps_append)
  ultimately show ?thesis using build_all assms(3) by fastforce
qed

end

section \<open>The linked list implements it\<close>

fun bchain :: "bheap \<Rightarrow> ptr \<Rightarrow> ptr list \<Rightarrow> mod_step list \<Rightarrow> bool" where
  "bchain h p [] xs = (p = NULL \<and> xs = [])"
| "bchain h p (a # as) xs =
     (p = a \<and> a \<noteq> NULL \<and>
      (case h a of None \<Rightarrow> False
       | Some nd \<Rightarrow> (case Build nd of None \<Rightarrow> False
           | Some func \<Rightarrow> (case xs of [] \<Rightarrow> False
               | x # xs' \<Rightarrow> x = (func, bparam nd) \<and> bchain h (nextBuilder nd) as xs'))))"

lemma bchain_Cons:
  "bchain h p (a # as) xs \<longleftrightarrow>
     p = a \<and> a \<noteq> NULL \<and> (\<exists>nd func xs'. h a = Some nd \<and> Build nd = Some func \<and>
       xs = (func, bparam nd) # xs' \<and> bchain h (nextBuilder nd) as xs')"
  by (auto split: option.splits list.splits)

declare bchain.simps(2) [simp del]

lemma bchain_NULL [simp]: "bchain h NULL as xs \<longleftrightarrow> as = [] \<and> xs = []"
  by (cases as) (auto simp: bchain_Cons)

lemma bchain_nonnull: "bchain h p as xs \<Longrightarrow> p \<noteq> NULL \<Longrightarrow> \<exists>as'. as = p # as'"
  by (cases as) (auto simp: bchain_Cons)

lemma bchain_upd [simp]: "a \<notin> set as \<Longrightarrow> bchain (h(a := v)) p as xs = bchain h p as xs"
  by (induction as arbitrary: p xs) (auto simp: bchain_Cons)

lemma bchain_allocated: "bchain h p as xs \<Longrightarrow> a \<in> set as \<Longrightarrow> \<exists>nd. h a = Some nd"
  by (induction as arbitrary: p xs) (auto simp: bchain_Cons)

lemma bchain_length: "bchain h p as xs \<Longrightarrow> length xs = length as"
  by (induction as arbitrary: p xs) (auto simp: bchain_Cons)

lemma bchain_unique: "bchain h p as xs \<Longrightarrow> bchain h p bs ys \<Longrightarrow> as = bs"
proof (induction as arbitrary: p xs bs ys)
  case (Cons a as)
  then show ?case by (cases bs) (auto simp: bchain_Cons)
qed simp

lemma bchain_append_split:
  "bchain h p (as @ b # bs) xs \<Longrightarrow> \<exists>ys. bchain h b (b # bs) ys"
proof (induction as arbitrary: p xs)
  case Nil
  then show ?case by (metis append_Nil bchain_Cons)
next
  case (Cons a as)
  then show ?case by (auto simp: bchain_Cons [of _ _ a])
qed

text \<open>A NULL-terminated chain has no repeated node.\<close>

lemma bchain_distinct: "bchain h p as xs \<Longrightarrow> distinct as"
proof (induction as arbitrary: p xs)
  case (Cons a as)
  then obtain nd ys where nd: "h a = Some nd" and tl: "bchain h (nextBuilder nd) as ys"
    by (auto simp: bchain_Cons)
  have "a \<notin> set as"
  proof
    assume "a \<in> set as"
    then obtain us vs where as: "as = us @ a # vs" by (meson split_list)
    then obtain zs where "bchain h a (a # vs) zs" using tl bchain_append_split by blast
    then have "a # as = a # vs" using Cons.prems bchain_unique by (metis bchain_Cons)
    then show False using as by simp
  qed
  then show ?case using Cons.IH [OF tl] by simp
qed simp

lemma AppendBuilder_bchain:
  assumes "bchain h p as xs" "as \<noteq> []" "bchain h c cs ys" "set as \<inter> set cs = {}"
  shows "\<exists>nd. h (last as) = Some nd \<and>
           AppendBuilder p c h = Some (h(last as \<mapsto> nd\<lparr>nextBuilder := c\<rparr>)) \<and>
           bchain (h(last as \<mapsto> nd\<lparr>nextBuilder := c\<rparr>)) p (as @ cs) (xs @ ys)"
  using assms
proof (induction as arbitrary: p xs)
  case (Cons a as)
  then obtain nd func xs' where a: "p = a" "a \<noteq> NULL" "h a = Some nd" "Build nd = Some func"
    "xs = (func, bparam nd) # xs'" "bchain h (nextBuilder nd) as xs'" by (auto simp: bchain_Cons)
  have "a \<notin> set as" using bchain_distinct [OF Cons.prems(1)] by simp
  have disj: "set as \<inter> set cs = {}" using Cons.prems(4) by simp
  show ?case
  proof (cases "as = []")
    case True
    then show ?thesis
      using a Cons.prems(3,4) by (subst AppendBuilder.simps) (auto simp: bchain_Cons)
  next
    case False
    then have nn: "nextBuilder nd \<noteq> NULL" using a(6) by (cases as) (auto simp: bchain_Cons)
    obtain nl where nl: "h (last as) = Some nl"
      "AppendBuilder (nextBuilder nd) c h = Some (h(last as \<mapsto> nl\<lparr>nextBuilder := c\<rparr>))"
      "bchain (h(last as \<mapsto> nl\<lparr>nextBuilder := c\<rparr>)) (nextBuilder nd) (as @ cs) (xs' @ ys)"
      using Cons.IH [OF a(6) False Cons.prems(3)] disj by blast
    have "last as \<noteq> a" using False \<open>a \<notin> set as\<close> by (metis last_in_set)
    then show ?thesis
      using nl a nn False by (subst AppendBuilder.simps) (auto simp: bchain_Cons)
  qed
qed simp

lemma BuildAll_bchain:
  assumes "bchain h p as xs" "p \<noteq> NULL"
  shows "PurgMemBuilderBuildAll p data h = Some (run_steps xs data)"
  using assms
proof (induction as arbitrary: p xs data)
  case (Cons a as)
  then obtain nd func xs' where a: "p = a" "h a = Some nd" "Build nd = Some func"
    "xs = (func, bparam nd) # xs'" "bchain h (nextBuilder nd) as xs'" by (auto simp: bchain_Cons)
  show ?case
  proof (cases "nextBuilder nd = NULL")
    case True
    then show ?thesis
      using a Cons.prems(2) by (subst PurgMemBuilderBuildAll.simps) (auto split: prod.splits)
  next
    case False
    then show ?thesis
      using a Cons.prems(2) Cons.IH [OF a(5) False]
      by (subst PurgMemBuilderBuildAll.simps) (auto split: prod.splits)
  qed
qed simp

lemma Destroy_loop_bchain:
  assumes "bchain h p as xs"
  shows "Destroy_loop p h = Some (\<lambda>a. if a \<in> set as then None else h a)"
  using assms
proof (induction as arbitrary: p xs h)
  case Nil
  then show ?case by (subst Destroy_loop.simps) simp
next
  case (Cons a as)
  then obtain nd ys where a: "p = a" "a \<noteq> NULL" "h a = Some nd" "bchain h (nextBuilder nd) as ys"
    by (auto simp: bchain_Cons)
  have "a \<notin> set as" using bchain_distinct [OF Cons.prems] by simp
  then have "bchain (h(a := None)) (nextBuilder nd) as ys" using a(4) by simp
  note IH = Cons.IH [OF this]
  have "(\<lambda>x. if x \<in> set as then None else (h(a := None)) x) =
        (\<lambda>x. if x \<in> set (a # as) then None else h x)" by auto
  then show ?case using a IH by (subst Destroy_loop.simps) (simp only: if_False bind.simps)
qed

definition heap_chain :: "bheap \<Rightarrow> ptr \<Rightarrow> ptr set \<Rightarrow> mod_step list \<Rightarrow> bool" where
  "heap_chain h p A xs \<longleftrightarrow> (\<exists>as. bchain h p as xs \<and> set as = A)"

text \<open>A fresh node is a chain of its own and leaves the others alone.\<close>

lemma heap_chain_new:
  assumes "heap_chain h b A xs" "h newp = None" "newp \<noteq> NULL"
  shows "heap_chain (h(newp \<mapsto> \<lparr>nextBuilder = NULL, Build = Some f, bparam = q, bname = nm\<rparr>)) b A xs"
    "heap_chain (h(newp \<mapsto> \<lparr>nextBuilder = NULL, Build = Some f, bparam = q, bname = nm\<rparr>)) newp {newp} [(f, q)]"
    "newp \<notin> A"
proof -
  let ?nd = "\<lparr>nextBuilder = NULL, Build = Some f, bparam = q, bname = nm\<rparr>"
  obtain as where as: "bchain h b as xs" "set as = A" using assms(1) by (auto simp: heap_chain_def)
  show new: "newp \<notin> A" using bchain_allocated [OF as(1)] as(2) assms(2) by force
  then show "heap_chain (h(newp \<mapsto> ?nd)) b A xs"
    using as unfolding heap_chain_def by (intro exI [of _ as]) simp
  have "bchain (h(newp \<mapsto> ?nd)) newp [newp] [(f, q)]" using assms(3) by (simp add: bchain_Cons)
  then show "heap_chain (h(newp \<mapsto> ?nd)) newp {newp} [(f, q)]"
    unfolding heap_chain_def by (intro exI [of _ "[newp]"]) simp
qed

interpretation purg_builder:
  builder_chain heap_chain PurgMemBuilderAppendBuilder PurgMemBuilderBuildAll
    PurgMemBuilderDestroy dom
proof unfold_locales
  fix h b A xs c C ys
  assume "heap_chain h b A xs" "heap_chain h c C ys" and nn: "b \<noteq> NULL" "c \<noteq> NULL" and "A \<inter> C = {}"
  then obtain as cs where as: "bchain h b as xs" "set as = A" and cs: "bchain h c cs ys" "set cs = C"
    by (auto simp: heap_chain_def)
  have "as \<noteq> []" using as nn by auto
  then obtain nd where nd: "h (last as) = Some nd"
      "AppendBuilder b c h = Some (h(last as \<mapsto> nd\<lparr>nextBuilder := c\<rparr>))"
      "bchain (h(last as \<mapsto> nd\<lparr>nextBuilder := c\<rparr>)) b (as @ cs) (xs @ ys)"
    using AppendBuilder_bchain [OF as(1) _ cs(1)] as(2) cs(2) \<open>A \<inter> C = {}\<close> by blast
  moreover have "set (as @ cs) = A \<union> C" using as cs by simp
  moreover have "dom (h(last as \<mapsto> nd\<lparr>nextBuilder := c\<rparr>)) = dom h" using nd(1) by auto
  ultimately show "\<exists>h'. PurgMemBuilderAppendBuilder b c h = Some (True, h') \<and>
      heap_chain h' b (A \<union> C) (xs @ ys) \<and> dom h' = dom h"
    using nn by (auto simp: PurgMemBuilderAppendBuilder_def heap_chain_def)
next
  fix h b A xs data
  assume "heap_chain h b A xs" "b \<noteq> NULL"
  then show "PurgMemBuilderBuildAll b data h = Some (run_steps xs data)"
    by (auto simp: heap_chain_def intro: BuildAll_bchain)
next
  fix h b A xs
  assume "heap_chain h b A xs"
  then obtain as where as: "bchain h b as xs" "set as = A" by (auto simp: heap_chain_def)
  show "\<exists>h'. PurgMemBuilderDestroy b h = Some (True, h') \<and> dom h' = dom h - A"
    using Destroy_loop_bchain [OF as(1)] as
    by (auto simp: PurgMemBuilderDestroy_def dom_def split: if_splits)
qed

end
