(* ===== verification/PM_State.thy ===== *)
theory PM_State
  imports PM_Prelude
begin

text \<open>
  The inner states of the purgeable memory library: the enumeration \<open>PMState\<close> of
  \<open>common/include/pm_state_c.h\<close> and the name table of \<open>common/src/pm_state_c.c\<close>.
  The enumerators carry the codes the C compiler gives them (consecutive from \<open>PM_OK = 0\<close>);
  \<open>GetPMStateName\<close> receives a code, which in C may be any integer.
\<close>

datatype PMState =
    PM_OK
  | PM_BUILDER_NULL
  | PM_MMAP_PURG_FAIL
  | PM_MMAP_UXPT_FAIL
  | PM_UNMAP_PURG_SUCC
  | PM_UNMAP_PURG_FAIL
  | PM_UNMAP_UXPT_FAIL
  | PM_UXPT_OUT_RANGE
  | PM_UXPT_PRESENT_DATA_PURGED
  | PM_UXPT_NO_PRESENT
  | PM_LOCK_INIT_FAIL
  | PM_LOCK_READ_SUCC
  | PM_LOCK_READ_FAIL
  | PM_LOCK_WRITE_FAIL
  | PM_UNLOCK_READ_FAIL
  | PM_UNLOCK_WRITE_FAIL
  | PM_DATA_PURGED
  | PM_DATA_NO_PURGED
  | PMB_BUILD_ALL_SUCC
  | PMB_BUILD_ALL_FAIL
  | PMB_DESTORY_FAIL
  | PM_ERR_TYPES

text \<open>The enumerators in declaration order; the code of one is its position.\<close>

definition PMState_list :: "PMState list" where
  "PMState_list =
     [PM_OK, PM_BUILDER_NULL, PM_MMAP_PURG_FAIL, PM_MMAP_UXPT_FAIL, PM_UNMAP_PURG_SUCC,
      PM_UNMAP_PURG_FAIL, PM_UNMAP_UXPT_FAIL, PM_UXPT_OUT_RANGE, PM_UXPT_PRESENT_DATA_PURGED,
      PM_UXPT_NO_PRESENT, PM_LOCK_INIT_FAIL, PM_LOCK_READ_SUCC, PM_LOCK_READ_FAIL,
      PM_LOCK_WRITE_FAIL, PM_UNLOCK_READ_FAIL, PM_UNLOCK_WRITE_FAIL, PM_DATA_PURGED,
      PM_DATA_NO_PURGED, PMB_BUILD_ALL_SUCC, PMB_BUILD_ALL_FAIL, PMB_DESTORY_FAIL,
      PM_ERR_TYPES]"

fun PMState_code :: "PMState \<Rightarrow> int" where
  "PMState_code PM_OK = 0"
| "PMState_code PM_BUILDER_NULL = 1"
| "PMState_code PM_MMAP_PURG_FAIL = 2"
| "PMState_code PM_MMAP_UXPT_FAIL = 3"
| "PMState_code PM_UNMAP_PURG_SUCC = 4"
| "PMState_code PM_UNMAP_PURG_FAIL = 5"
| "PMState_code PM_UNMAP_UXPT_FAIL = 6"
| "PMState_code PM_UXPT_OUT_RANGE = 7"
| "PMState_code PM_UXPT_PRESENT_DATA_PURGED = 8"
| "PMState_code PM_UXPT_NO_PRESENT = 9"
| "PMState_code PM_LOCK_INIT_FAIL = 10"
| "PMState_code PM_LOCK_READ_SUCC = 11"
| "PMState_code PM_LOCK_READ_FAIL = 12"
| "PMState_code PM_LOCK_WRITE_FAIL = 13"
| "PMState_code PM_UNLOCK_READ_FAIL = 14"
| "PMState_code PM_UNLOCK_WRITE_FAIL = 15"
| "PMState_code PM_DATA_PURGED = 16"
| "PMState_code PM_DATA_NO_PURGED = 17"
| "PMState_code PMB_BUILD_ALL_SUCC = 18"
| "PMState_code PMB_BUILD_ALL_FAIL = 19"
| "PMState_code PMB_DESTORY_FAIL = 20"
| "PMState_code PM_ERR_TYPES = 21"

definition PMStateNames :: "string list" where
  "PMStateNames =
     [''OK'', ''BuilderPtrNULL'', ''MmapPurgMemFail'', ''MmapUxptFail'', ''UnmapPurgMemSucc'',
      ''UnmapPurgMemFail'', ''UnmapUxptFail'', ''UxpteOutOfRange'', ''UxptePresentDataPurged'',
      ''UxpteNoPresent'', ''LockInitFail'', ''ReadLockSucc'', ''ReadLockFail'', ''WriteLockFail'',
      ''ReadUnlockFail'', ''WriteUnlockFail'', ''DataPurged'', ''DataNoPurged'',
      ''BuilderBuildAllSucc'', ''BuilderBuildAllFail'', ''BuilderDestoryFailed'']"

definition GetPMStateName :: "int \<Rightarrow> string" where
  "GetPMStateName state =
     (if state < 0 \<or> state \<ge> PMState_code PM_ERR_TYPES then ''NONE''
      else PMStateNames ! nat state)"

section \<open>The table and the enumeration agree\<close>

lemma length_PMStateNames: "int (length PMStateNames) = PMState_code PM_ERR_TYPES"
  by (simp add: PMStateNames_def)

lemma distinct_PMStateNames: "distinct (''NONE'' # PMStateNames)"
  by (simp add: PMStateNames_def)

lemma PMState_code_nth: "PMState_list ! nat (PMState_code st) = st"
  by (cases st) (simp_all add: PMState_list_def)

lemma PMState_code_inj: "PMState_code a = PMState_code b \<longleftrightarrow> a = b"
  by (metis PMState_code_nth)

text \<open>C compares enumerators by their codes.\<close>

instantiation PMState :: linorder
begin

definition less_eq_PMState :: "PMState \<Rightarrow> PMState \<Rightarrow> bool" where
  "less_eq_PMState a b \<longleftrightarrow> PMState_code a \<le> PMState_code b"

definition less_PMState :: "PMState \<Rightarrow> PMState \<Rightarrow> bool" where
  "less_PMState a b \<longleftrightarrow> PMState_code a < PMState_code b"

instance
  by standard (auto simp: less_eq_PMState_def less_PMState_def PMState_code_inj)

end

lemma PMState_code_range: "0 \<le> PMState_code st \<and> PMState_code st \<le> 21"
  by (cases st) simp_all

lemma GetPMStateName_inj_on_codes:
  assumes "0 \<le> i" "i < 21" "0 \<le> j" "j < 21" "GetPMStateName i = GetPMStateName j"
  shows "i = j"
proof -
  have len: "length PMStateNames = 21" by (simp add: PMStateNames_def)
  have dist: "distinct PMStateNames" using distinct_PMStateNames by simp
  have "PMStateNames ! nat i = PMStateNames ! nat j"
    using assms by (simp add: GetPMStateName_def)
  then have "nat i = nat j"
    using assms dist len by (simp add: nth_eq_iff_index_eq)
  then show ?thesis using assms by simp
qed

lemma GetPMStateName_in_table:
  assumes "0 \<le> i" "i < 21"
  shows "GetPMStateName i \<in> set PMStateNames"
proof -
  have len: "length PMStateNames = 21" by (simp add: PMStateNames_def)
  have "GetPMStateName i = PMStateNames ! nat i"
    using assms by (simp add: GetPMStateName_def)
  then show ?thesis using assms len by simp
qed

end
