(* ===== verification/Ux_Arith.thy ===== *)
theory Ux_Arith
  imports PM_Prelude
begin

text \<open>
  The address arithmetic of \<open>common/src/ux_page_table_c.c\<close>: page numbers, positions of
  entries in the user extended page table, rounding, and the size of the table that covers a
  data range. All of it on 64-bit words with the overflow tests of the source.
\<close>

section \<open>Definitions\<close>

type_synonym uxpte_t = u64

definition UXPTE_SIZE_SHIFT :: nat where
  "UXPTE_SIZE_SHIFT = 3"

definition UXPTE_PER_PAGE_SHIFT :: nat where
  "UXPTE_PER_PAGE_SHIFT = PAGE_SHIFT - UXPTE_SIZE_SHIFT"

definition UXPTE_PER_PAGE :: size_t where
  "UXPTE_PER_PAGE = push_bit UXPTE_PER_PAGE_SHIFT 1"

definition VirtPageNo :: "u64 \<Rightarrow> u64" where
  "VirtPageNo vaddr = drop_bit PAGE_SHIFT vaddr"

definition UxptePageNo :: "u64 \<Rightarrow> u64" where
  "UxptePageNo vaddr = drop_bit UXPTE_PER_PAGE_SHIFT (VirtPageNo vaddr)"

definition UxpteOffset :: "u64 \<Rightarrow> u64" where
  "UxpteOffset vaddr = VirtPageNo vaddr AND (UXPTE_PER_PAGE - 1)"

definition UXPTE_PRESENT_BIT :: nat where
  "UXPTE_PRESENT_BIT = 1"

definition UXPTE_PRESENT_MASK :: size_t where
  "UXPTE_PRESENT_MASK = push_bit UXPTE_PRESENT_BIT 1 - 1"

definition UXPTE_REFCNT_ONE :: size_t where
  "UXPTE_REFCNT_ONE = push_bit UXPTE_PRESENT_BIT 1"

definition UXPTE_UNDER_RECLAIM :: uxpte_t where
  "UXPTE_UNDER_RECLAIM = - UXPTE_REFCNT_ONE"

definition IsUxptePresent :: "uxpte_t \<Rightarrow> bool" where
  "IsUxptePresent pte \<longleftrightarrow> pte AND UXPTE_PRESENT_MASK \<noteq> 0"

definition IsUxpteUnderReclaim :: "uxpte_t \<Rightarrow> bool" where
  "IsUxpteUnderReclaim pte \<longleftrightarrow> pte = UXPTE_UNDER_RECLAIM"

definition GetUxPageSize :: "u64 \<Rightarrow> size_t \<Rightarrow> size_t" where
  "GetUxPageSize dataAddr dataSize =
     (if dataAddr + dataSize < dataAddr \<or> dataAddr + dataSize < dataSize \<or>
         dataAddr + dataSize < 1 then 0
      else let pageNoEnd = UxptePageNo (dataAddr + dataSize - 1);
               pageNoStart = UxptePageNo dataAddr
           in if pageNoEnd < pageNoStart then 0
              else if pageNoEnd - pageNoStart + 1 > SIZE_MAX div PAGE_SIZE then 0
              else (pageNoEnd - pageNoStart + 1) * PAGE_SIZE)"

definition RoundUp :: "u64 \<Rightarrow> size_t \<Rightarrow> u64" where
  "RoundUp val algn =
     (if val + algn < val \<or> val + algn < algn then val
      else if algn = 0 then val
      else ((val + algn - 1) div algn) * algn)"

definition RoundDown :: "u64 \<Rightarrow> size_t \<Rightarrow> u64" where
  "RoundDown val algn = (if algn = 0 then val else val AND (NOT (algn - 1)))"

definition GetIndexInUxpte :: "u64 \<Rightarrow> u64 \<Rightarrow> size_t" where
  "GetIndexInUxpte startAddr currAddr =
     UxpteOffset startAddr + (VirtPageNo currAddr - VirtPageNo startAddr)"

section \<open>Values read as natural numbers\<close>

lemma UXPTE_consts [simp]:
  "UXPTE_PER_PAGE_SHIFT = 9" "UXPTE_PER_PAGE = 512" "UXPTE_PRESENT_MASK = 1"
  "UXPTE_REFCNT_ONE = 2" "UXPTE_UNDER_RECLAIM = - 2"
  by (simp_all add: UXPTE_PER_PAGE_SHIFT_def UXPTE_SIZE_SHIFT_def UXPTE_PER_PAGE_def PAGE_SHIFT_def
      UXPTE_PRESENT_MASK_def UXPTE_PRESENT_BIT_def UXPTE_REFCNT_ONE_def UXPTE_UNDER_RECLAIM_def)

lemma unat_VirtPageNo [uxpt_arith]: "unat (VirtPageNo a) = unat a div 4096"
  by (simp add: VirtPageNo_def PAGE_SHIFT_def unat_drop_bit_u64)

lemma unat_UxptePageNo [uxpt_arith]: "unat (UxptePageNo a) = unat a div 4096 div 512"
  by (simp add: UxptePageNo_def unat_drop_bit_u64 unat_VirtPageNo)

lemma unat_UxpteOffset [uxpt_arith]: "unat (UxpteOffset a) = (unat a div 4096) mod 512"
proof -
  have "UXPTE_PER_PAGE - 1 = mask 9" by (simp add: mask_eq_exp_minus_1)
  then have "unat (UxpteOffset a) = unat (VirtPageNo a) mod 2 ^ 9"
    unfolding UxpteOffset_def by (simp only: unat_and_mask_u64)
  then show ?thesis by (simp add: unat_VirtPageNo)
qed

text \<open>Bit 0 of an entry is the present flag; the reference count is what is above it.\<close>

definition uxpte_refcnt :: "uxpte_t \<Rightarrow> nat" where
  "uxpte_refcnt pte = unat pte div 2"

lemma IsUxptePresent_bit: "IsUxptePresent pte \<longleftrightarrow> odd pte"
  by (simp add: IsUxptePresent_def and_one_eq odd_iff_mod_2_eq_one)

lemma IsUxptePresent_odd: "IsUxptePresent pte \<longleftrightarrow> odd (unat pte)"
proof -
  have "odd (unat pte) \<longleftrightarrow> bit (unat pte) 0" by (simp add: bit_0)
  also have "\<dots> \<longleftrightarrow> bit pte 0" by (simp add: bit_unsigned_iff)
  finally show ?thesis by (simp add: IsUxptePresent_bit bit_0)
qed

lemma IsUxptePresent_add_two [simp]:
  "IsUxptePresent (pte + 2) \<longleftrightarrow> IsUxptePresent pte"
  "IsUxptePresent (pte - 2) \<longleftrightarrow> IsUxptePresent pte"
  by (simp_all add: IsUxptePresent_bit)

section \<open>Rounding\<close>

lemma RoundUp_overflow: "2 ^ 64 \<le> unat val + unat algn \<Longrightarrow> RoundUp val algn = val"
  by (simp add: RoundUp_def add_overflow_test)

lemma unat_RoundUp:
  assumes "unat val + unat algn < 2 ^ 64" "algn \<noteq> 0"
  shows "unat (RoundUp val algn) = (unat val + unat algn - 1) div unat algn * unat algn"
proof -
  have pos: "0 < unat algn" using assms(2) by (simp add: unat_gt_0)
  have sum: "unat (val + algn) = unat val + unat algn" using assms(1) by (rule unat_add_no_wrap)
  have "1 \<le> val + algn" using pos sum by (simp add: word_le_nat_alt)
  then have "unat (val + algn - 1) = unat val + unat algn - 1"
    using sum by (simp add: unat_diff_le)
  then have dv: "unat ((val + algn - 1) div algn) = (unat val + unat algn - 1) div unat algn"
    by (simp add: unat_div)
  have "(unat val + unat algn - 1) div unat algn * unat algn \<le> unat val + unat algn - 1"
    by (rule div_times_less_eq_dividend)
  then have "(unat val + unat algn - 1) div unat algn * unat algn < 2 ^ 64"
    using assms(1) by linarith
  then have "unat (((val + algn - 1) div algn) * algn) =
             (unat val + unat algn - 1) div unat algn * unat algn"
    using dv by (simp add: unat_mult_no_wrap)
  then show ?thesis using assms by (simp add: RoundUp_def add_overflow_test)
qed

text \<open>Rounding a number up to a positive multiple.\<close>

lemma nat_round_up:
  fixes v a :: nat
  assumes "0 < a"
  shows "a dvd (v + a - 1) div a * a" "v \<le> (v + a - 1) div a * a"
    "(v + a - 1) div a * a < v + a"
proof -
  let ?r = "(v + a - 1) div a * a"
  have split: "?r + (v + a - 1) mod a = v + a - 1" by simp
  have "(v + a - 1) mod a < a" using assms by simp
  with split show "v \<le> ?r" by linarith
  show "?r < v + a" using split assms by linarith
  show "a dvd ?r" by simp
qed

lemma RoundUp_props:
  assumes "unat val + unat algn < 2 ^ 64" "algn \<noteq> 0"
  shows "unat algn dvd unat (RoundUp val algn)" "unat val \<le> unat (RoundUp val algn)"
    "unat (RoundUp val algn) < unat val + unat algn"
proof -
  have pos: "0 < unat algn" using assms(2) by (simp add: unat_gt_0)
  show "unat algn dvd unat (RoundUp val algn)" "unat val \<le> unat (RoundUp val algn)"
    "unat (RoundUp val algn) < unat val + unat algn"
    unfolding unat_RoundUp [OF assms] by (rule nat_round_up [OF pos])+
qed

lemma RoundUp_page_aligned:
  assumes "unat val mod 4096 = 0"
  shows "RoundUp val PAGE_SIZE = val"
proof (cases "unat val + 4096 < 2 ^ 64")
  case True
  then have "unat (RoundUp val PAGE_SIZE) = (unat val + 4096 - 1) div 4096 * 4096"
    by (simp add: unat_RoundUp PAGE_SIZE_eq)
  also have "\<dots> = unat val"
  proof -
    obtain k where k: "unat val = 4096 * k" using assms by (auto elim: dvdE simp: mod_eq_0_iff_dvd)
    have "(4096 * k + 4096 - 1) div 4096 = k" by simp
    then show ?thesis using k by simp
  qed
  finally show ?thesis by (simp only: word_unat_eq_iff)
next
  case False
  then show ?thesis by (simp add: RoundUp_overflow)
qed

lemma unat_RoundDown_page [uxpt_arith]:
  "unat (RoundDown val PAGE_SIZE) = unat val div 4096 * 4096"
proof -
  have m: "PAGE_SIZE - 1 = mask 12" and "PAGE_SIZE \<noteq> 0"
    by (simp_all add: PAGE_SIZE_eq mask_eq_exp_minus_1)
  then have "unat (RoundDown val PAGE_SIZE) = unat val - unat val mod 2 ^ 12"
    unfolding RoundDown_def m by (simp only: unat_and_not_mask_u64 if_False)
  also have "\<dots> = unat val div 4096 * 4096"
    by (simp add: minus_mod_eq_div_mult)
  finally show ?thesis .
qed

section \<open>Entries of the table\<close>

text \<open>
  The kernel keeps the entry of virtual page \<open>v\<close> in table page \<open>v div 512\<close> at offset
  \<open>v mod 512\<close>, and the library maps the table from page \<open>UxptePageNo dataAddr\<close> on. The
  index it computes therefore designates the entry of the address it was asked for.
\<close>

lemma unat_GetIndexInUxpte:
  assumes "unat a \<le> unat b"
  shows "unat (GetIndexInUxpte a b) = unat a div 4096 mod 512 + (unat b div 4096 - unat a div 4096)"
proof -
  have le: "VirtPageNo a \<le> VirtPageNo b"
    using assms by (simp add: word_le_nat_alt unat_VirtPageNo div_le_mono)
  have "unat b div 4096 < 2 ^ 52" using unat_lt_2p64 [of b] by simp
  then have "unat (UxpteOffset a) + unat (VirtPageNo b - VirtPageNo a) < 2 ^ 64"
    using le by (simp add: unat_diff_le unat_UxpteOffset unat_VirtPageNo)
  then show ?thesis
    using le by (simp add: GetIndexInUxpte_def unat_add_no_wrap unat_diff_le
        unat_UxpteOffset unat_VirtPageNo)
qed

lemma index_is_kernel_entry:
  assumes "unat a \<le> unat b"
  shows "unat (UxptePageNo a) * 512 + unat (GetIndexInUxpte a b) = unat (VirtPageNo b)"
proof -
  have "unat a div 4096 \<le> unat b div 4096" using assms by (rule div_le_mono)
  moreover have "unat a div 4096 div 512 * 512 + unat a div 4096 mod 512 = unat a div 4096"
    by simp
  ultimately show ?thesis
    by (simp only: unat_GetIndexInUxpte [OF assms] unat_UxptePageNo unat_VirtPageNo) linarith
qed

lemma GetIndexInUxpte_inj:
  assumes "unat s \<le> unat a" "unat s \<le> unat b"
  shows "GetIndexInUxpte s a = GetIndexInUxpte s b \<longleftrightarrow> VirtPageNo a = VirtPageNo b"
  using index_is_kernel_entry [OF assms(1)] index_is_kernel_entry [OF assms(2)]
  by (metis add_left_cancel word_unat_eq_iff)

section \<open>The size of the table\<close>

lemma unat_GetUxPageSize:
  assumes "0 < unat sz" "unat a + unat sz < 2 ^ 64"
  shows "unat (GetUxPageSize a sz) =
         ((unat a + unat sz - 1) div 4096 div 512 - unat a div 4096 div 512 + 1) * 4096"
proof -
  let ?e = "UxptePageNo (a + sz - 1)" and ?s = "UxptePageNo a"
  have sum: "unat (a + sz) = unat a + unat sz" using assms(2) by (rule unat_add_no_wrap)
  have "1 \<le> a + sz" using assms(1) sum by (simp add: word_le_nat_alt)
  then have last: "unat (a + sz - 1) = unat a + unat sz - 1"
    using sum by (simp add: unat_diff_le)
  have e: "unat ?e = (unat a + unat sz - 1) div 4096 div 512"
    and s: "unat ?s = unat a div 4096 div 512"
    by (simp_all add: unat_UxptePageNo last)
  have le: "?s \<le> ?e" using assms(1) e s by (simp add: word_le_nat_alt div_le_mono)
  have small: "unat ?e < 2 ^ 44" using e unat_lt_2p64 [of "a + sz - 1"] last by simp
  then have n: "unat (?e - ?s + 1) = unat ?e - unat ?s + 1"
    using le by (simp add: unat_add_no_wrap unat_diff_le)
  have "unat ((?e - ?s + 1) * PAGE_SIZE) = (unat ?e - unat ?s + 1) * 4096"
    using small n by (simp add: unat_mult_no_wrap)
  moreover have "\<not> SIZE_MAX div PAGE_SIZE < ?e - ?s + 1"
    using small n by (simp add: word_less_nat_alt PAGE_SIZE_eq)
  moreover have "\<not> (a + sz < a \<or> a + sz < sz)"
    using assms(2) by (subst add_overflow_test) simp
  moreover have "\<not> a + sz < 1" using \<open>1 \<le> a + sz\<close> by (simp only: not_less)
  ultimately show ?thesis
    using le by (simp add: GetUxPageSize_def Let_def e s)
qed

lemma table_slots:
  fixes v l f i :: nat
  assumes "v div 512 \<le> l" "f * 512 + i = v" "f \<le> l"
  shows "i < (l - f + 1) * 512"
proof -
  obtain d where d: "l = f + d" using assms(3) by (auto simp: le_iff_add)
  have "v < (l + 1) * 512"
    using assms(1) by (simp add: less_Suc_eq_le flip: div_less_iff_less_mult)
  with assms(2) d show ?thesis by simp
qed

lemma index_in_table:
  assumes "0 < unat sz" "unat a + unat sz < 2 ^ 64" "unat a \<le> unat x" "unat x < unat a + unat sz"
  shows "unat (GetIndexInUxpte a x) < unat (GetUxPageSize a sz) div 8"
proof -
  let ?l = "(unat a + unat sz - 1) div 4096 div 512" and ?f = "unat a div 4096 div 512"
  have "unat x div 4096 div 512 \<le> ?l"
    using assms(4) by (intro div_le_mono) simp
  moreover have "?f * 512 + unat (GetIndexInUxpte a x) = unat x div 4096"
    using index_is_kernel_entry [OF assms(3)] by (simp only: unat_UxptePageNo unat_VirtPageNo)
  moreover have "unat (GetUxPageSize a sz) div 8 = (?l - ?f + 1) * 512"
    using unat_GetUxPageSize [OF assms(1,2)] by simp
  moreover have "?f \<le> ?l" using assms(1) by (intro div_le_mono) simp
  ultimately show ?thesis
    by (simp only: table_slots [of "unat x div 4096" ?l ?f])
qed

end
