(* ===== verification/Ux_Page_Table.thy ===== *)
theory Ux_Page_Table
  imports PM_State Ux_Arith
begin

text \<open>
  The user extended page table of \<open>common/src/ux_page_table_c.c\<close> (the build with
  \<open>USE_UXPT > 0\<close>): the state it works on, the compare-and-swap loops on single entries, the
  page loop \<open>UxpteOps\<close>, and the exported operations.

  The entries live in memory shared with the kernel and with every other thread of the process.
  \<open>ptes\<close> holds the mapped entries by address; an access outside it does not return. Whatever
  the others do is the parameter \<open>ux_sched\<close>: before every atomic access of the thread under
  consideration it may change the state arbitrarily. \<open>tick\<close> counts the calls that leave the
  library, so that the parameter can answer each of them differently. Log calls are not modelled.
\<close>

section \<open>State and environment\<close>

record UxPageTableStruct =
  dataAddr :: u64
  dataSize :: size_t
  uxpte :: ptr

record uxpt_st =
  tick :: nat
  g_supportUxpt :: bool
  ptes :: "ptr \<Rightarrow> uxpte_t option"
  upts :: "ptr \<Rightarrow> UxPageTableStruct option"

text \<open>
  The operating system: what other agents do between two accesses, the answer of \<open>mmap\<close>
  (arguments: length, protection, flags, offset), the value a freshly mapped entry has, and the
  return code of \<open>munmap\<close>.
\<close>

record uxpt_os =
  ux_sched :: "nat \<Rightarrow> uxpt_st \<Rightarrow> uxpt_st"
  ux_mmap :: "nat \<Rightarrow> size_t \<Rightarrow> c_uint \<Rightarrow> c_uint \<Rightarrow> u64 \<Rightarrow> ptr"
  ux_fill :: "nat \<Rightarrow> ptr \<Rightarrow> uxpte_t"
  ux_munmap :: "nat \<Rightarrow> ptr \<Rightarrow> size_t \<Rightarrow> int"

datatype UxpteOp = UPT_GET | UPT_PUT | UPT_CLEAR | UPT_IS_PRESENT

definition interfere :: "uxpt_os \<Rightarrow> uxpt_st \<Rightarrow> uxpt_st" where
  "interfere os s = (ux_sched os (tick s) s)\<lparr>tick := Suc (tick s)\<rparr>"

text \<open>The environment in which nobody else runs.\<close>

definition quieten :: "uxpt_os \<Rightarrow> uxpt_os" where
  "quieten os = os\<lparr>ux_sched := (\<lambda>_ s. s)\<rparr>"

section \<open>Atomic accesses and the loops built on them\<close>

definition UxpteLoad :: "uxpt_os \<Rightarrow> ptr \<Rightarrow> uxpt_st \<Rightarrow> (uxpte_t \<times> uxpt_st) option" where
  "UxpteLoad os pte s =
     (let s1 = interfere os s in
      case ptes s1 pte of None \<Rightarrow> None | Some v \<Rightarrow> Some (v, s1))"

definition UxpteCAS :: "uxpt_os \<Rightarrow> ptr \<Rightarrow> uxpte_t \<Rightarrow> uxpte_t \<Rightarrow> uxpt_st \<Rightarrow> (bool \<times> uxpt_st) option" where
  "UxpteCAS os pte old newVal s =
     (let s1 = interfere os s in
      case ptes s1 pte of
        None \<Rightarrow> None
      | Some v \<Rightarrow> if v = old then Some (True, s1\<lparr>ptes := (ptes s1)(pte \<mapsto> newVal)\<rparr>)
                  else Some (False, s1))"

text \<open>
  The body of \<open>UxpteAdd\<close> with the two locals that survive an iteration. The \<open>continue\<close> of
  the source sits in a \<open>do ... while\<close>, so it jumps to the loop condition: the compare-and-swap
  is executed there too, with the \<open>newVal\<close> of the previous iteration (0 in the first one).
\<close>

partial_function (option) UxpteAdd_loop ::
  "uxpt_os \<Rightarrow> ptr \<Rightarrow> size_t \<Rightarrow> uxpte_t \<Rightarrow> uxpt_st \<Rightarrow> uxpt_st option" where
  "UxpteAdd_loop os pte incNum newVal s =
     do {
       (old, s1) \<leftarrow> UxpteLoad os pte s;
       if IsUxpteUnderReclaim old then
         do {
           (ok, s2) \<leftarrow> UxpteCAS os pte old newVal s1;
           if ok then Some s2 else UxpteAdd_loop os pte incNum newVal s2
         }
       else if old + incNum < old \<or> old + incNum < incNum then Some s1
       else if ULONG_MAX - old < incNum then Some s1
       else
         do {
           (ok, s2) \<leftarrow> UxpteCAS os pte old (old + incNum) s1;
           if ok then Some s2 else UxpteAdd_loop os pte incNum (old + incNum) s2
         }
     }"

definition UxpteAdd :: "uxpt_os \<Rightarrow> ptr \<Rightarrow> size_t \<Rightarrow> uxpt_st \<Rightarrow> uxpt_st option" where
  "UxpteAdd os pte incNum s = UxpteAdd_loop os pte incNum 0 s"

partial_function (option) UxpteSub ::
  "uxpt_os \<Rightarrow> ptr \<Rightarrow> size_t \<Rightarrow> uxpt_st \<Rightarrow> uxpt_st option" where
  "UxpteSub os pte decNum s =
     do {
       (old, s1) \<leftarrow> UxpteLoad os pte s;
       (ok, s2) \<leftarrow> UxpteCAS os pte old (old - decNum) s1;
       if ok then Some s2 else UxpteSub os pte decNum s2
     }"

partial_function (option) UxpteClear_loop :: "uxpt_os \<Rightarrow> ptr \<Rightarrow> uxpt_st \<Rightarrow> uxpt_st option" where
  "UxpteClear_loop os pte s =
     do {
       (old, s1) \<leftarrow> UxpteLoad os pte s;
       (ok, s2) \<leftarrow> UxpteCAS os pte old 0 s1;
       if ok then Some s2 else UxpteClear_loop os pte s2
     }"

definition UxpteClear_one :: "uxpt_os \<Rightarrow> ptr \<Rightarrow> uxpt_st \<Rightarrow> uxpt_st option" where
  "UxpteClear_one os pte s =
     do {
       (old, s1) \<leftarrow> UxpteLoad os pte s;
       if old = 0 then Some s1 else UxpteClear_loop os pte s1
     }"

section \<open>One page\<close>

text \<open>\<open>&(upt->uxpte[index])\<close> for an address: eight bytes per entry.\<close>

definition uxpte_slot :: "UxPageTableStruct \<Rightarrow> u64 \<Rightarrow> ptr" where
  "uxpte_slot t addr = uxpte t + GetIndexInUxpte (dataAddr t) addr * 8"

definition GetUxpteAt :: "uxpt_os \<Rightarrow> ptr \<Rightarrow> u64 \<Rightarrow> uxpt_st \<Rightarrow> uxpt_st option" where
  "GetUxpteAt os uxpt addr s =
     (if uxpt = NULL then Some s
      else do { t \<leftarrow> upts s uxpt; UxpteAdd os (uxpte_slot t addr) UXPTE_REFCNT_ONE s })"

definition PutUxpteAt :: "uxpt_os \<Rightarrow> ptr \<Rightarrow> u64 \<Rightarrow> uxpt_st \<Rightarrow> uxpt_st option" where
  "PutUxpteAt os uxpt addr s =
     (if uxpt = NULL then Some s
      else do { t \<leftarrow> upts s uxpt; UxpteSub os (uxpte_slot t addr) UXPTE_REFCNT_ONE s })"

definition ClearUxpteAt :: "uxpt_os \<Rightarrow> ptr \<Rightarrow> u64 \<Rightarrow> uxpt_st \<Rightarrow> uxpt_st option" where
  "ClearUxpteAt os uxpt addr s =
     (if uxpt = NULL then Some s
      else do { t \<leftarrow> upts s uxpt; UxpteClear_one os (uxpte_slot t addr) s })"

text \<open>\<open>IsPresentAt\<close> reads the entry once, without a barrier; others may still run before it.\<close>

definition IsPresentAt :: "uxpt_os \<Rightarrow> ptr \<Rightarrow> u64 \<Rightarrow> uxpt_st \<Rightarrow> (bool \<times> uxpt_st) option" where
  "IsPresentAt os uxpt addr s =
     do {
       t \<leftarrow> upts s uxpt;
       (v, s1) \<leftarrow> UxpteLoad os (uxpte_slot t addr) s;
       Some (IsUxptePresent v, s1)
     }"

section \<open>All pages of a range\<close>

text \<open>
  The \<open>switch\<close> of \<open>UxpteOps\<close>: \<open>None\<close> in the first component is \<open>break\<close> (go on with the
  next page), \<open>Some st\<close> is \<open>return st\<close>.
\<close>

definition UxpteOps_switch ::
  "uxpt_os \<Rightarrow> ptr \<Rightarrow> UxpteOp \<Rightarrow> u64 \<Rightarrow> uxpt_st \<Rightarrow> (PMState option \<times> uxpt_st) option" where
  "UxpteOps_switch os uxpt opn off s =
     (case opn of
        UPT_GET \<Rightarrow> do { s1 \<leftarrow> GetUxpteAt os uxpt off s; Some (None, s1) }
      | UPT_PUT \<Rightarrow> do { s1 \<leftarrow> PutUxpteAt os uxpt off s; Some (None, s1) }
      | UPT_CLEAR \<Rightarrow> do { s1 \<leftarrow> ClearUxpteAt os uxpt off s; Some (None, s1) }
      | UPT_IS_PRESENT \<Rightarrow>
          do { (present, s1) \<leftarrow> IsPresentAt os uxpt off s;
               if \<not> present then Some (Some PM_UXPT_NO_PRESENT, s1) else Some (None, s1) })"

partial_function (option) UxpteOps_loop ::
  "uxpt_os \<Rightarrow> ptr \<Rightarrow> UxpteOp \<Rightarrow> u64 \<Rightarrow> u64 \<Rightarrow> uxpt_st \<Rightarrow> (PMState \<times> uxpt_st) option" where
  "UxpteOps_loop os uxpt opn off endv s =
     (if off < endv then
        do {
          (ret, s1) \<leftarrow> UxpteOps_switch os uxpt opn off s;
          case ret of
            None \<Rightarrow> UxpteOps_loop os uxpt opn (off + PAGE_SIZE) endv s1
          | Some st \<Rightarrow> Some (st, s1)
        }
      else Some (PM_OK, s))"

definition UxpteOps ::
  "uxpt_os \<Rightarrow> ptr \<Rightarrow> u64 \<Rightarrow> size_t \<Rightarrow> UxpteOp \<Rightarrow> uxpt_st \<Rightarrow> (PMState \<times> uxpt_st) option" where
  "UxpteOps os uxpt addr len opn s =
     (if uxpt = NULL then Some (PM_BUILDER_NULL, s)
      else do {
        t \<leftarrow> upts s uxpt;
        let start = RoundDown addr PAGE_SIZE;
            endv = RoundUp (addr + len) PAGE_SIZE
        in if start < dataAddr t \<or> endv > dataAddr t + dataSize t then Some (PM_UXPT_OUT_RANGE, s)
           else UxpteOps_loop os uxpt opn start endv s
      })"

section \<open>The exported operations\<close>

definition UxpteIsEnabled :: "uxpt_st \<Rightarrow> bool" where
  "UxpteIsEnabled s = g_supportUxpt s"

text \<open>\<open>sizeof(UxPageTableStruct)\<close>: three 8-byte fields.\<close>

definition UxPageTableSize :: size_t where
  "UxPageTableSize = 24"

definition UxpteGet :: "uxpt_os \<Rightarrow> ptr \<Rightarrow> u64 \<Rightarrow> size_t \<Rightarrow> uxpt_st \<Rightarrow> uxpt_st option" where
  "UxpteGet os uxpt addr len s =
     (if \<not> g_supportUxpt s then Some s
      else do { (_, s1) \<leftarrow> UxpteOps os uxpt addr len UPT_GET s; Some s1 })"

definition UxptePut :: "uxpt_os \<Rightarrow> ptr \<Rightarrow> u64 \<Rightarrow> size_t \<Rightarrow> uxpt_st \<Rightarrow> uxpt_st option" where
  "UxptePut os uxpt addr len s =
     (if \<not> g_supportUxpt s then Some s
      else do { (_, s1) \<leftarrow> UxpteOps os uxpt addr len UPT_PUT s; Some s1 })"

definition UxpteClear :: "uxpt_os \<Rightarrow> ptr \<Rightarrow> u64 \<Rightarrow> size_t \<Rightarrow> uxpt_st \<Rightarrow> uxpt_st option" where
  "UxpteClear os uxpt addr len s =
     (if \<not> g_supportUxpt s then Some s
      else do { (_, s1) \<leftarrow> UxpteOps os uxpt addr len UPT_CLEAR s; Some s1 })"

definition UxpteIsPresent ::
  "uxpt_os \<Rightarrow> ptr \<Rightarrow> u64 \<Rightarrow> size_t \<Rightarrow> uxpt_st \<Rightarrow> (bool \<times> uxpt_st) option" where
  "UxpteIsPresent os uxpt addr len s =
     (if \<not> g_supportUxpt s then Some (True, s)
      else do { (ret, s1) \<leftarrow> UxpteOps os uxpt addr len UPT_IS_PRESENT s; Some (ret = PM_OK, s1) })"

subsection \<open>Mapping and unmapping the table\<close>

text \<open>The entry addresses of a mapping of \<open>sz\<close> bytes at \<open>p\<close>.\<close>

definition in_mapping :: "ptr \<Rightarrow> size_t \<Rightarrow> ptr \<Rightarrow> bool" where
  "in_mapping p sz a \<longleftrightarrow> p \<le> a \<and> unat a - unat p < unat sz \<and> (unat a - unat p) mod 8 = 0"

definition mmap_uxpt ::
  "uxpt_os \<Rightarrow> size_t \<Rightarrow> c_uint \<Rightarrow> c_uint \<Rightarrow> u64 \<Rightarrow> uxpt_st \<Rightarrow> ptr \<times> uxpt_st" where
  "mmap_uxpt os sz prot flags offset s =
     (let p = ux_mmap os (tick s) sz prot flags offset;
          s1 = s\<lparr>tick := Suc (tick s)\<rparr>
      in if p = MAP_FAILED then (p, s1)
         else (p, s1\<lparr>ptes := (\<lambda>a. if in_mapping p sz a then Some (ux_fill os (tick s) a)
                                   else ptes s a)\<rparr>))"

definition munmap_uxpt :: "uxpt_os \<Rightarrow> ptr \<Rightarrow> size_t \<Rightarrow> uxpt_st \<Rightarrow> int \<times> uxpt_st" where
  "munmap_uxpt os p sz s =
     (let rc = ux_munmap os (tick s) p sz;
          s1 = s\<lparr>tick := Suc (tick s)\<rparr>
      in if rc \<noteq> 0 then (rc, s1)
         else (rc, s1\<lparr>ptes := (\<lambda>a. if in_mapping p sz a then None else ptes s a)\<rparr>))"

definition MapUxptePages :: "uxpt_os \<Rightarrow> u64 \<Rightarrow> size_t \<Rightarrow> uxpt_st \<Rightarrow> ptr \<times> uxpt_st" where
  "MapUxptePages os addr len s =
     (let sz = GetUxPageSize addr len;
          (p, s1) = mmap_uxpt os sz PROT_RW (MAP_ANONYMOUS OR MAP_USEREXPTE)
                      (UxptePageNo addr * PAGE_SIZE) s
      in if p = MAP_FAILED then (NULL, s1) else (p, s1))"

definition UnmapUxptePages :: "uxpt_os \<Rightarrow> ptr \<Rightarrow> size_t \<Rightarrow> uxpt_st \<Rightarrow> int \<times> uxpt_st" where
  "UnmapUxptePages os p sz s = munmap_uxpt os p sz s"

definition InitUxPageTable ::
  "uxpt_os \<Rightarrow> ptr \<Rightarrow> u64 \<Rightarrow> size_t \<Rightarrow> uxpt_st \<Rightarrow> (PMState \<times> uxpt_st) option" where
  "InitUxPageTable os uxpt addr len s =
     (if \<not> g_supportUxpt s then Some (PM_OK, s)
      else if uxpt = NULL then Some (PM_MMAP_UXPT_FAIL, s)
      else do {
        t \<leftarrow> upts s uxpt;
        let (p, s1) = MapUxptePages os addr len s;
            s2 = s1\<lparr>upts := (upts s1)(uxpt \<mapsto> t\<lparr>dataAddr := addr, dataSize := len, uxpte := p\<rparr>)\<rparr>
        in if p = NULL then Some (PM_MMAP_UXPT_FAIL, s2)
           else do { s3 \<leftarrow> UxpteClear os uxpt addr len s2; Some (PM_OK, s3) }
      })"

definition DeinitUxPageTable :: "uxpt_os \<Rightarrow> ptr \<Rightarrow> uxpt_st \<Rightarrow> (PMState \<times> uxpt_st) option" where
  "DeinitUxPageTable os uxpt s =
     (if \<not> g_supportUxpt s then Some (PM_OK, s)
      else if uxpt = NULL then Some (PM_MMAP_UXPT_FAIL, s)
      else do {
        t \<leftarrow> upts s uxpt;
        let sz = GetUxPageSize (dataAddr t) (dataSize t);
            (unmapRet, s1) = (if uxpte t \<noteq> NULL then UnmapUxptePages os (uxpte t) sz s else (0, s))
        in if uxpte t \<noteq> NULL \<and> unmapRet \<noteq> 0 then Some (PM_UNMAP_UXPT_FAIL, s1)
           else Some (PM_OK, s1\<lparr>upts := (upts s1)(uxpt \<mapsto>
                               t\<lparr>dataAddr := 0, dataSize := 0, uxpte := NULL\<rparr>)\<rparr>)
      })"

text \<open>
  The load-time constructor \<open>CheckUxpt\<close>: map one purgeable page, then the table page of that
  address; support is what the second mapping says. Return codes of the two \<open>munmap\<close> are
  only logged. The data page itself holds no table entries.
\<close>

definition CheckUxpt :: "uxpt_os \<Rightarrow> uxpt_st \<Rightarrow> uxpt_st" where
  "CheckUxpt os s =
     (let dataPtr = ux_mmap os (tick s) PAGE_SIZE PROT_RW (MAP_ANONYMOUS OR MAP_PURGEABLE) 0;
          s1 = s\<lparr>tick := Suc (tick s)\<rparr>
      in if dataPtr = MAP_FAILED then s1\<lparr>g_supportUxpt := False\<rparr>
         else let uptSize = GetUxPageSize dataPtr PAGE_SIZE;
                  (p, s2) = mmap_uxpt os uptSize PROT_RW (MAP_ANONYMOUS OR MAP_USEREXPTE)
                              (UxptePageNo dataPtr * PAGE_SIZE) s1;
                  s3 = (if p \<noteq> MAP_FAILED
                        then snd (munmap_uxpt os p uptSize (s2\<lparr>g_supportUxpt := True\<rparr>))
                        else s2\<lparr>g_supportUxpt := False\<rparr>)
              in s3\<lparr>tick := Suc (tick s3)\<rparr>)"

section \<open>The build without tables\<close>

text \<open>The second half of the file, compiled when \<open>USE_UXPT\<close> is off; the struct has no fields.\<close>

definition NoUxpt_UxpteIsEnabled :: bool where
  "NoUxpt_UxpteIsEnabled = False"

definition NoUxpt_UxPageTableSize :: size_t where
  "NoUxpt_UxPageTableSize = 0"

definition NoUxpt_InitUxPageTable :: "ptr \<Rightarrow> u64 \<Rightarrow> size_t \<Rightarrow> uxpt_st \<Rightarrow> PMState \<times> uxpt_st" where
  "NoUxpt_InitUxPageTable uxpt addr len s = (PM_OK, s)"

definition NoUxpt_DeinitUxPageTable :: "ptr \<Rightarrow> uxpt_st \<Rightarrow> PMState \<times> uxpt_st" where
  "NoUxpt_DeinitUxPageTable uxpt s = (PM_OK, s)"

definition NoUxpt_UxpteGet :: "ptr \<Rightarrow> u64 \<Rightarrow> size_t \<Rightarrow> uxpt_st \<Rightarrow> uxpt_st" where
  "NoUxpt_UxpteGet uxpt addr len s = s"

definition NoUxpt_UxptePut :: "ptr \<Rightarrow> u64 \<Rightarrow> size_t \<Rightarrow> uxpt_st \<Rightarrow> uxpt_st" where
  "NoUxpt_UxptePut uxpt addr len s = s"

definition NoUxpt_UxpteIsPresent :: "ptr \<Rightarrow> u64 \<Rightarrow> size_t \<Rightarrow> uxpt_st \<Rightarrow> bool \<times> uxpt_st" where
  "NoUxpt_UxpteIsPresent uxpt addr len s = (True, s)"

end
