(* ===== verification/Ux_Seq.thy ===== *)
theory Ux_Seq
  imports Ux_Page_Table
begin

text \<open>
  Sequential correctness of the user extended page table: what every operation does when no
  other agent touches the table while it runs (\<open>quieten\<close>). The page loop is verified once, in
  the locale \<open>page_op\<close>, for any per-page operation that acts on one entry; it is then
  interpreted for get, put and clear.
\<close>

section \<open>Entries\<close>

text \<open>What get, put and clear do to the value of one entry.\<close>

definition uxpte_inc :: "uxpte_t \<Rightarrow> uxpte_t" where
  "uxpte_inc v = (if v = UXPTE_UNDER_RECLAIM then 0
                  else if 2 ^ 64 \<le> unat v + 2 then v
                  else v + 2)"

definition uxpte_dec :: "uxpte_t \<Rightarrow> uxpte_t" where
  "uxpte_dec v = v - 2"

definition uxpte_zero :: "uxpte_t \<Rightarrow> uxpte_t" where
  "uxpte_zero v = 0"

lemma interfere_quieten [simp]: "interfere (quieten os) s = s\<lparr>tick := Suc (tick s)\<rparr>"
  by (simp add: interfere_def quieten_def)

lemma quieten_simps [simp]:
  "ux_mmap (quieten os) = ux_mmap os" "ux_fill (quieten os) = ux_fill os"
  "ux_munmap (quieten os) = ux_munmap os" "quieten (quieten os) = quieten os"
  by (simp_all add: quieten_def)

lemma UxpteLoad_quiet:
  "ptes s p = Some v \<Longrightarrow> UxpteLoad (quieten os) p s = Some (v, s\<lparr>tick := Suc (tick s)\<rparr>)"
  by (simp add: UxpteLoad_def)

lemma UxpteCAS_quiet:
  "ptes s p = Some v \<Longrightarrow>
   UxpteCAS (quieten os) p v w s = Some (True, s\<lparr>tick := Suc (tick s), ptes := (ptes s)(p \<mapsto> w)\<rparr>)"
  by (simp add: UxpteCAS_def)

lemmas atomic_quiet = UxpteLoad_quiet UxpteCAS_quiet

lemma overflow_two: "(v + 2 < v \<or> v + 2 < (2::u64)) \<longleftrightarrow> 2 ^ 64 \<le> unat v + 2"
  using add_overflow_test [of v 2] by simp

lemma room_two: "(ULONG_MAX - v < (2::u64)) \<longleftrightarrow> 2 ^ 64 \<le> unat v + 2"
  using unat_lt_2p64 [of v] by (auto simp: word_less_nat_alt unat_max_minus)

lemma UxpteAdd_quiet:
  assumes "ptes s p = Some v"
  shows "\<exists>k. UxpteAdd (quieten os) p 2 s = Some (s\<lparr>tick := k, ptes := (ptes s)(p \<mapsto> uxpte_inc v)\<rparr>)"
  using assms
  by (subst UxpteAdd_def, subst UxpteAdd_loop.simps)
    (auto simp: atomic_quiet IsUxpteUnderReclaim_def uxpte_inc_def overflow_two room_two fun_upd_idem)

lemma UxpteSub_quiet:
  assumes "ptes s p = Some v"
  shows "\<exists>k. UxpteSub (quieten os) p 2 s = Some (s\<lparr>tick := k, ptes := (ptes s)(p \<mapsto> uxpte_dec v)\<rparr>)"
  using assms by (subst UxpteSub.simps) (auto simp: atomic_quiet uxpte_dec_def)

lemma UxpteClear_quiet:
  assumes "ptes s p = Some v"
  shows "\<exists>k. UxpteClear_one (quieten os) p s =
             Some (s\<lparr>tick := k, ptes := (ptes s)(p \<mapsto> uxpte_zero v)\<rparr>)"
  using assms
  by (subst UxpteClear_one_def, subst UxpteClear_loop.simps)
    (auto simp: atomic_quiet uxpte_zero_def fun_upd_idem)

section \<open>Applying an entry operation to a set of slots\<close>

definition touch :: "(uxpte_t \<Rightarrow> uxpte_t) \<Rightarrow> ptr list \<Rightarrow> (ptr \<Rightarrow> uxpte_t option) \<Rightarrow> ptr \<Rightarrow> uxpte_t option" where
  "touch f ps m = (\<lambda>a. if a \<in> set ps then map_option f (m a) else m a)"

lemma touch_Nil [simp]: "touch f [] m = m"
  by (simp add: touch_def)

lemma touch_Cons:
  assumes "m p = Some v" "p \<notin> set ps"
  shows "touch f ps (m(p \<mapsto> f v)) = touch f (p # ps) m"
  using assms by (auto simp: touch_def)

lemma touch_other [simp]: "a \<notin> set ps \<Longrightarrow> touch f ps m a = m a"
  by (simp add: touch_def)

lemma touch_mem: "a \<in> set ps \<Longrightarrow> touch f ps m a = map_option f (m a)"
  by (simp add: touch_def)

lemma touch_eq_None_iff [simp]: "touch f ps m a = None \<longleftrightarrow> m a = None"
  by (simp add: touch_def)

lemma touch_touch: "touch g ps (touch f ps m) = touch (g \<circ> f) ps m"
  by (auto simp: touch_def option.map_comp)

lemma touch_id:
  assumes "\<And>a v. a \<in> set ps \<Longrightarrow> m a = Some v \<Longrightarrow> f v = v"
  shows "touch f ps m = m"
  by (rule ext) (auto simp: touch_def assms map_option_case split: option.splits)

section \<open>The pages of a request\<close>

definition page_range :: "u64 \<Rightarrow> nat \<Rightarrow> u64 list" where
  "page_range off n = map (\<lambda>i. off + of_nat i * PAGE_SIZE) [0..<n]"

lemma page_range_0 [simp]: "page_range off 0 = []"
  by (simp add: page_range_def)

lemma page_range_Suc: "page_range off (Suc n) = off # page_range (off + PAGE_SIZE) n"
proof -
  have "[0..<Suc n] = 0 # map Suc [0..<n]" by (simp add: upt_conv_Cons map_Suc_upt del: upt_Suc)
  then show ?thesis by (simp add: page_range_def o_def algebra_simps del: upt_Suc)
qed

lemma page_range_bounds:
  assumes "x \<in> set (page_range off n)" "unat off + 4096 * n < 2 ^ 64"
  shows "\<exists>i < n. unat x = unat off + 4096 * i"
proof -
  obtain i where i: "i < n" "x = off + of_nat i * PAGE_SIZE"
    using assms(1) by (auto simp: page_range_def)
  have "unat (of_nat i :: u64) = i"
    using i(1) assms(2) by (simp add: unat_of_nat take_bit_nat_eq_self)
  then have "unat (of_nat i * PAGE_SIZE) = i * 4096"
    using i(1) assms(2) by (simp add: unat_mult_no_wrap)
  then have "unat x = unat off + 4096 * i"
    using i assms(2) by (simp add: unat_add_no_wrap)
  with i(1) show ?thesis by blast
qed

section \<open>Well-formed tables\<close>

text \<open>
  A table in use: the struct exists, its range does not touch the last page of the address
  space, the mapped entries cover the range, and the mapping does not wrap. \<open>InitUxPageTable\<close>
  establishes this (below).
\<close>

definition upt_ok :: "uxpt_st \<Rightarrow> ptr \<Rightarrow> UxPageTableStruct \<Rightarrow> bool" where
  "upt_ok s uxpt t \<longleftrightarrow>
     uxpt \<noteq> NULL \<and> upts s uxpt = Some t \<and>
     0 < unat (dataSize t) \<and> unat (dataAddr t) + unat (dataSize t) + 4096 < 2 ^ 64 \<and>
     unat (uxpte t) + unat (GetUxPageSize (dataAddr t) (dataSize t)) < 2 ^ 64 \<and>
     (\<forall>i < unat (GetUxPageSize (dataAddr t) (dataSize t)) div 8.
        ptes s (uxpte t + of_nat i * 8) \<noteq> None)"

definition in_data :: "UxPageTableStruct \<Rightarrow> u64 \<Rightarrow> bool" where
  "in_data t a \<longleftrightarrow> dataAddr t \<le> a \<and> unat a < unat (dataAddr t) + unat (dataSize t)"

lemma upt_ok_upts: "upt_ok s uxpt t \<Longrightarrow> upts s uxpt = Some t"
  and upt_ok_nonnull: "upt_ok s uxpt t \<Longrightarrow> uxpt \<noteq> NULL"
  by (simp_all add: upt_ok_def)

lemma upt_ok_cong:
  assumes "upt_ok s uxpt t" "upts s' uxpt = upts s uxpt" "\<And>a. ptes s' a = None \<longleftrightarrow> ptes s a = None"
  shows "upt_ok s' uxpt t"
  using assms by (simp add: upt_ok_def)

lemma upt_ok_touch [simp]:
  "upt_ok s uxpt t \<Longrightarrow> upt_ok (s\<lparr>tick := k, ptes := touch f ps (ptes s)\<rparr>) uxpt t"
  by (erule upt_ok_cong) simp_all

lemma upt_ok_index:
  assumes "upt_ok s uxpt t" "in_data t a"
  shows "unat (GetIndexInUxpte (dataAddr t) a) <
         unat (GetUxPageSize (dataAddr t) (dataSize t)) div 8"
  using assms by (intro index_in_table) (auto simp: upt_ok_def in_data_def word_le_nat_alt)

lemma unat_uxpte_slot:
  assumes "upt_ok s uxpt t" "in_data t a"
  shows "unat (uxpte_slot t a) = unat (uxpte t) + 8 * unat (GetIndexInUxpte (dataAddr t) a)"
proof -
  let ?i = "GetIndexInUxpte (dataAddr t) a" and ?sz = "GetUxPageSize (dataAddr t) (dataSize t)"
  have "8 * unat ?i < unat ?sz" using upt_ok_index [OF assms] by linarith
  moreover have "unat (uxpte t) + unat ?sz < 2 ^ 64" using assms(1) by (simp add: upt_ok_def)
  ultimately show ?thesis
    by (simp add: uxpte_slot_def unat_add_no_wrap unat_mult_no_wrap mult.commute)
qed

text \<open>Every address of the data range has a mapped entry.\<close>

lemma slot_mapped:
  assumes "upt_ok s uxpt t" "in_data t a"
  shows "\<exists>v. ptes s (uxpte_slot t a) = Some v"
proof -
  let ?i = "GetIndexInUxpte (dataAddr t) a"
  have "ptes s (uxpte t + of_nat (unat ?i) * 8) \<noteq> None"
    using assms(1) upt_ok_index [OF assms] by (simp only: upt_ok_def) blast
  then show ?thesis by (simp add: uxpte_slot_def)
qed

text \<open>Different pages have different entries.\<close>

lemma slot_inj:
  assumes "upt_ok s uxpt t" "in_data t a" "in_data t b"
  shows "uxpte_slot t a = uxpte_slot t b \<longleftrightarrow> VirtPageNo a = VirtPageNo b"
proof -
  have "uxpte_slot t a = uxpte_slot t b \<longleftrightarrow>
        GetIndexInUxpte (dataAddr t) a = GetIndexInUxpte (dataAddr t) b"
    using unat_uxpte_slot [OF assms(1,2)] unat_uxpte_slot [OF assms(1,3)]
    by (auto simp: word_unat_eq_iff)
  then show ?thesis
    using assms(2,3) by (simp add: GetIndexInUxpte_inj in_data_def word_le_nat_alt)
qed

section \<open>The page loop\<close>

text \<open>The pages a request covers, as the source rounds it, and the entries they have.\<close>

definition req_pages :: "u64 \<Rightarrow> size_t \<Rightarrow> u64 list" where
  "req_pages addr len =
     (let start = RoundDown addr PAGE_SIZE; endv = RoundUp (addr + len) PAGE_SIZE
      in page_range start ((unat endv - unat start) div 4096))"

definition req_slots :: "UxPageTableStruct \<Rightarrow> u64 \<Rightarrow> size_t \<Rightarrow> ptr list" where
  "req_slots t addr len = map (uxpte_slot t) (req_pages addr len)"

text \<open>The bounds check of \<open>UxpteOps\<close>.\<close>

definition req_ok :: "UxPageTableStruct \<Rightarrow> u64 \<Rightarrow> size_t \<Rightarrow> bool" where
  "req_ok t addr len \<longleftrightarrow>
     \<not> (RoundDown addr PAGE_SIZE < dataAddr t \<or>
        RoundUp (addr + len) PAGE_SIZE > dataAddr t + dataSize t)"

lemma req_end_aligned:
  assumes "upt_ok s uxpt t" "req_ok t addr len"
  shows "unat (RoundUp (addr + len) PAGE_SIZE) mod 4096 = 0"
    and "unat (RoundUp (addr + len) PAGE_SIZE) \<le> unat (dataAddr t) + unat (dataSize t)"
proof -
  let ?e = "RoundUp (addr + len) PAGE_SIZE"
  have lim: "unat (dataAddr t) + unat (dataSize t) + 4096 < 2 ^ 64"
    using assms(1) by (simp add: upt_ok_def)
  then have "unat (dataAddr t + dataSize t) = unat (dataAddr t) + unat (dataSize t)"
    by (intro unat_add_no_wrap) simp
  moreover have "?e \<le> dataAddr t + dataSize t" using assms(2) by (simp add: req_ok_def not_less)
  ultimately show le: "unat ?e \<le> unat (dataAddr t) + unat (dataSize t)"
    by (simp add: word_le_nat_alt)
  have "unat (addr + len) + unat PAGE_SIZE < 2 ^ 64"
  proof (rule ccontr)
    assume "\<not> unat (addr + len) + unat PAGE_SIZE < 2 ^ 64"
    then have big: "2 ^ 64 \<le> unat (addr + len) + unat PAGE_SIZE" by simp
    then have "?e = addr + len" by (rule RoundUp_overflow)
    with big le lim show False by simp
  qed
  from RoundUp_props(1) [OF this] show "unat ?e mod 4096 = 0"
    by (simp add: PAGE_SIZE_eq mod_eq_0_iff_dvd)
qed

lemma req_steps:
  assumes "upt_ok s uxpt t" "req_ok t addr len"
    and n: "n = (unat (RoundUp (addr + len) PAGE_SIZE) - unat (RoundDown addr PAGE_SIZE)) div 4096"
    and lt: "RoundDown addr PAGE_SIZE < RoundUp (addr + len) PAGE_SIZE"
  shows "unat (RoundDown addr PAGE_SIZE) + 4096 * n = unat (RoundUp (addr + len) PAGE_SIZE)"
proof -
  obtain j where "unat (RoundUp (addr + len) PAGE_SIZE) = 4096 * j"
    using req_end_aligned(1) [OF assms(1,2)] by (auto simp: mod_eq_0_iff_dvd elim: dvdE)
  moreover obtain i where "unat (RoundDown addr PAGE_SIZE) = 4096 * i"
    by (simp add: unat_RoundDown_page)
  moreover have "4096 * j - 4096 * i = 4096 * (j - i)" by simp
  ultimately show ?thesis using n lt by (simp add: word_less_nat_alt)
qed

lemma req_pages_in_data:
  assumes "upt_ok s uxpt t" "req_ok t addr len" "x \<in> set (req_pages addr len)"
  shows "in_data t x"
proof -
  let ?s = "RoundDown addr PAGE_SIZE" and ?e = "RoundUp (addr + len) PAGE_SIZE"
  define n where "n = (unat ?e - unat ?s) div 4096"
  have x: "x \<in> set (page_range ?s n)" using assms(3) by (simp add: req_pages_def n_def Let_def)
  then have "n \<noteq> 0" by (cases n) simp_all
  then have "?s < ?e" by (auto simp: n_def word_less_nat_alt)
  from req_steps [OF assms(1,2) n_def this] have sum: "unat ?s + 4096 * n = unat ?e" .
  then have "unat ?s + 4096 * n < 2 ^ 64" using unat_lt_2p64 [of ?e] by simp
  from page_range_bounds [OF x this] obtain i where "i < n" "unat x = unat ?s + 4096 * i" by blast
  moreover have "unat (dataAddr t) \<le> unat ?s"
    using assms(2) by (simp add: req_ok_def word_le_nat_alt not_less)
  moreover have "unat ?s + 4096 * i < unat ?e" using sum \<open>i < n\<close> by linarith
  ultimately show ?thesis
    using req_end_aligned(2) [OF assms(1,2)] by (simp add: in_data_def word_le_nat_alt)
qed

lemma first_page_fresh:
  assumes ok: "upt_ok s uxpt t" and bnd: "unat off + 4096 * Suc n < 2 ^ 64"
    and data: "\<forall>x \<in> set (page_range off (Suc n)). in_data t x"
  shows "uxpte_slot t off \<notin> set (map (uxpte_slot t) (page_range (off + PAGE_SIZE) n))"
proof
  assume "uxpte_slot t off \<in> set (map (uxpte_slot t) (page_range (off + PAGE_SIZE) n))"
  then obtain x where x: "x \<in> set (page_range (off + PAGE_SIZE) n)"
    and eq: "uxpte_slot t off = uxpte_slot t x" by auto
  have "unat (off + PAGE_SIZE) = unat off + 4096"
    using bnd by (simp add: unat_add_no_wrap)
  then obtain i where "unat x = unat off + 4096 + 4096 * i"
    using page_range_bounds [OF x] bnd by auto
  then have "unat (VirtPageNo x) \<noteq> unat (VirtPageNo off)" by (simp add: unat_VirtPageNo)
  moreover have "VirtPageNo off = VirtPageNo x"
    using eq data x slot_inj [OF ok] by (simp add: page_range_Suc)
  ultimately show False by simp
qed

text \<open>
  A per-page operation of the loop that acts on the entry of its page and on nothing else.
\<close>

locale page_op =
  fixes os :: uxpt_os
    and opn :: UxpteOp
    and f :: "uxpte_t \<Rightarrow> uxpte_t"
  assumes switch_effect:
    "\<lbrakk>uxpt \<noteq> NULL; upts s uxpt = Some t; ptes s (uxpte_slot t off) = Some v\<rbrakk> \<Longrightarrow>
     \<exists>k. UxpteOps_switch os uxpt opn off s =
         Some (None, s\<lparr>tick := k, ptes := (ptes s)(uxpte_slot t off \<mapsto> f v)\<rparr>)"
begin

lemma loop_effect:
  assumes "upt_ok s uxpt t" "unat off + 4096 * n = unat endv"
    and "\<forall>x \<in> set (page_range off n). in_data t x"
  shows "\<exists>k. UxpteOps_loop os uxpt opn off endv s =
         Some (PM_OK, s\<lparr>tick := k, ptes := touch f (map (uxpte_slot t) (page_range off n)) (ptes s)\<rparr>)"
  using assms
proof (induction n arbitrary: off s)
  case 0
  then have "\<not> off < endv" by (simp add: word_less_nat_alt)
  then show ?case by (subst UxpteOps_loop.simps) (auto intro: exI [of _ "tick s"])
next
  case (Suc n)
  let ?p = "uxpte_slot t off" and ?ps = "map (uxpte_slot t) (page_range (off + PAGE_SIZE) n)"
  have bnd: "unat off + 4096 * Suc n < 2 ^ 64" using Suc.prems(2) unat_lt_2p64 [of endv] by simp
  have "in_data t off" using Suc.prems(3) by (simp add: page_range_Suc)
  then obtain v where v: "ptes s ?p = Some v" using slot_mapped [OF Suc.prems(1)] by blast
  obtain k where sw: "UxpteOps_switch os uxpt opn off s =
      Some (None, s\<lparr>tick := k, ptes := (ptes s)(?p \<mapsto> f v)\<rparr>)" (is "_ = Some (None, ?s1)")
    using switch_effect [OF upt_ok_nonnull upt_ok_upts v] Suc.prems(1) by blast
  have "upt_ok ?s1 uxpt t" by (rule upt_ok_cong [OF Suc.prems(1)]) (use v in auto)
  moreover have "unat (off + PAGE_SIZE) + 4096 * n = unat endv"
    using Suc.prems(2) bnd by (simp add: unat_add_no_wrap)
  moreover have "\<forall>x \<in> set (page_range (off + PAGE_SIZE) n). in_data t x"
    using Suc.prems(3) by (simp add: page_range_Suc)
  ultimately obtain k' where
    "UxpteOps_loop os uxpt opn (off + PAGE_SIZE) endv ?s1 =
       Some (PM_OK, ?s1\<lparr>tick := k', ptes := touch f ?ps (ptes ?s1)\<rparr>)"
    using Suc.IH by blast
  moreover have "touch f ?ps (ptes ?s1) = touch f (?p # ?ps) (ptes s)"
    using touch_Cons [where m = "ptes s", OF v first_page_fresh [OF Suc.prems(1) bnd Suc.prems(3)]] by simp
  moreover have "off < endv" using Suc.prems(2) by (simp add: word_less_nat_alt)
  ultimately show ?case
    using sw by (subst UxpteOps_loop.simps) (auto simp: page_range_Suc)
qed

lemma ops_effect:
  assumes ok: "upt_ok s uxpt t"
  shows "\<exists>k. UxpteOps os uxpt addr len opn s =
     Some (if req_ok t addr len
           then (PM_OK, s\<lparr>tick := k, ptes := touch f (req_slots t addr len) (ptes s)\<rparr>)
           else (PM_UXPT_OUT_RANGE, s))"
proof (cases "req_ok t addr len")
  case False
  then show ?thesis
    using ok by (auto simp: UxpteOps_def upt_ok_def req_ok_def Let_def)
next
  case True
  let ?s = "RoundDown addr PAGE_SIZE" and ?e = "RoundUp (addr + len) PAGE_SIZE"
  define n where "n = (unat ?e - unat ?s) div 4096"
  have slots: "req_slots t addr len = map (uxpte_slot t) (page_range ?s n)"
    by (simp add: req_slots_def req_pages_def n_def Let_def)
  have unf: "UxpteOps os uxpt addr len opn s = UxpteOps_loop os uxpt opn ?s ?e s"
    using ok True by (simp add: UxpteOps_def upt_ok_def req_ok_def Let_def)
  show ?thesis
  proof (cases "?s < ?e")
    case lt: True
    have "\<forall>x \<in> set (page_range ?s n). in_data t x"
      using req_pages_in_data [OF ok True] by (simp add: req_pages_def n_def Let_def)
    from loop_effect [OF ok req_steps [OF ok True n_def lt] this]
    show ?thesis using True by (simp add: unf slots)
  next
    case False
    then have "n = 0" by (simp add: n_def word_less_nat_alt)
    then show ?thesis
      using False True by (subst unf, subst UxpteOps_loop.simps)
        (auto simp: slots intro: exI [of _ "tick s"])
  qed
qed

end

interpretation get: page_op "quieten os" UPT_GET uxpte_inc for os
  by unfold_locales (drule UxpteAdd_quiet [of _ _ _ os],
      auto simp: UxpteOps_switch_def GetUxpteAt_def)

interpretation put: page_op "quieten os" UPT_PUT uxpte_dec for os
  by unfold_locales (drule UxpteSub_quiet [of _ _ _ os],
      auto simp: UxpteOps_switch_def PutUxpteAt_def)

interpretation clear: page_op "quieten os" UPT_CLEAR uxpte_zero for os
  by unfold_locales (drule UxpteClear_quiet [of _ _ _ os],
      auto simp: UxpteOps_switch_def ClearUxpteAt_def)

section \<open>The presence test\<close>

definition page_present :: "uxpt_st \<Rightarrow> UxPageTableStruct \<Rightarrow> u64 \<Rightarrow> bool" where
  "page_present s t a =
     (case ptes s (uxpte_slot t a) of None \<Rightarrow> False | Some v \<Rightarrow> IsUxptePresent v)"

lemma page_present_cong: "ptes s' = ptes s \<Longrightarrow> page_present s' t a = page_present s t a"
  by (simp add: page_present_def)

lemma upt_ok_tick [simp]: "upt_ok s uxpt t \<Longrightarrow> upt_ok (s\<lparr>tick := k\<rparr>) uxpt t"
  by (erule upt_ok_cong) simp_all

lemma switch_present:
  assumes "upt_ok s uxpt t" "in_data t off"
  shows "UxpteOps_switch (quieten os) uxpt UPT_IS_PRESENT off s =
     Some (if page_present s t off then None else Some PM_UXPT_NO_PRESENT, s\<lparr>tick := Suc (tick s)\<rparr>)"
proof -
  obtain v where v: "ptes s (uxpte_slot t off) = Some v" using slot_mapped [OF assms] by blast
  then show ?thesis
    using upt_ok_upts [OF assms(1)]
    by (simp add: UxpteOps_switch_def IsPresentAt_def UxpteLoad_quiet [OF v] page_present_def)
qed

lemma present_loop:
  assumes "upt_ok s uxpt t" "unat off + 4096 * n = unat endv"
    and "\<forall>x \<in> set (page_range off n). in_data t x"
  shows "\<exists>k. UxpteOps_loop (quieten os) uxpt UPT_IS_PRESENT off endv s =
         Some (if \<forall>x \<in> set (page_range off n). page_present s t x then PM_OK
               else PM_UXPT_NO_PRESENT, s\<lparr>tick := k\<rparr>)"
  using assms
proof (induction n arbitrary: off s)
  case 0
  then have "\<not> off < endv" by (simp add: word_less_nat_alt)
  then show ?case by (subst UxpteOps_loop.simps) (auto intro: exI [of _ "tick s"])
next
  case (Suc n)
  let ?s1 = "s\<lparr>tick := Suc (tick s)\<rparr>"
  have lt: "off < endv" using Suc.prems(2) by (simp add: word_less_nat_alt)
  have "in_data t off" using Suc.prems(3) by (simp add: page_range_Suc)
  note sw = switch_present [OF Suc.prems(1) this, of os]
  have "unat (off + PAGE_SIZE) + 4096 * n = unat endv"
    using Suc.prems(2) unat_lt_2p64 [of endv] by (simp add: unat_add_no_wrap)
  moreover have "\<forall>x \<in> set (page_range (off + PAGE_SIZE) n). in_data t x"
    using Suc.prems(3) by (simp add: page_range_Suc)
  ultimately obtain k where
    "UxpteOps_loop (quieten os) uxpt UPT_IS_PRESENT (off + PAGE_SIZE) endv ?s1 =
       Some (if \<forall>x \<in> set (page_range (off + PAGE_SIZE) n). page_present ?s1 t x then PM_OK
             else PM_UXPT_NO_PRESENT, ?s1\<lparr>tick := k\<rparr>)"
    using Suc.IH [of ?s1 "off + PAGE_SIZE"] Suc.prems(1) by auto
  then show ?case
    using sw lt by (subst UxpteOps_loop.simps)
      (auto simp: page_range_Suc page_present_cong [of ?s1 s])
qed

lemma present_ops:
  assumes ok: "upt_ok s uxpt t"
  shows "\<exists>k. UxpteOps (quieten os) uxpt addr len UPT_IS_PRESENT s =
     Some (if \<not> req_ok t addr len then (PM_UXPT_OUT_RANGE, s)
           else (if \<forall>x \<in> set (req_pages addr len). page_present s t x then PM_OK
                 else PM_UXPT_NO_PRESENT, s\<lparr>tick := k\<rparr>))"
proof (cases "req_ok t addr len")
  case False
  then show ?thesis
    using ok by (auto simp: UxpteOps_def upt_ok_def req_ok_def Let_def)
next
  case True
  let ?s = "RoundDown addr PAGE_SIZE" and ?e = "RoundUp (addr + len) PAGE_SIZE"
  define n where "n = (unat ?e - unat ?s) div 4096"
  have pages: "req_pages addr len = page_range ?s n" by (simp add: req_pages_def n_def Let_def)
  have unf: "UxpteOps (quieten os) uxpt addr len UPT_IS_PRESENT s =
      UxpteOps_loop (quieten os) uxpt UPT_IS_PRESENT ?s ?e s"
    using ok True by (simp add: UxpteOps_def upt_ok_def req_ok_def Let_def)
  show ?thesis
  proof (cases "?s < ?e")
    case lt: True
    have "\<forall>x \<in> set (page_range ?s n). in_data t x"
      using req_pages_in_data [OF ok True] by (simp add: pages)
    from present_loop [OF ok req_steps [OF ok True n_def lt] this]
    show ?thesis using True by (simp add: unf pages)
  next
    case False
    then have "n = 0" by (simp add: n_def word_less_nat_alt)
    then show ?thesis
      using False True by (subst unf, subst UxpteOps_loop.simps)
        (auto simp: pages intro: exI [of _ "tick s"])
  qed
qed

section \<open>Exported operations\<close>

text \<open>
  The effect of a pin, an unpin or a clear on the entries: nothing when the kernel has no such
  tables or the request is out of range, otherwise one step on the entry of every page.
\<close>

definition range_effect ::
  "(uxpte_t \<Rightarrow> uxpte_t) \<Rightarrow> UxPageTableStruct \<Rightarrow> u64 \<Rightarrow> size_t \<Rightarrow> uxpt_st \<Rightarrow> ptr \<Rightarrow> uxpte_t option" where
  "range_effect f t addr len s =
     (if g_supportUxpt s \<and> req_ok t addr len then touch f (req_slots t addr len) (ptes s) else ptes s)"

lemma UxpteGet_effect:
  assumes "upt_ok s uxpt t"
  shows "\<exists>k. UxpteGet (quieten os) uxpt addr len s =
         Some (s\<lparr>tick := k, ptes := range_effect uxpte_inc t addr len s\<rparr>)"
  using get.ops_effect [OF assms, of os addr len]
  by (auto simp: UxpteGet_def range_effect_def intro: exI [of _ "tick s"])

lemma UxptePut_effect:
  assumes "upt_ok s uxpt t"
  shows "\<exists>k. UxptePut (quieten os) uxpt addr len s =
         Some (s\<lparr>tick := k, ptes := range_effect uxpte_dec t addr len s\<rparr>)"
  using put.ops_effect [OF assms, of os addr len]
  by (auto simp: UxptePut_def range_effect_def intro: exI [of _ "tick s"])

lemma UxpteClear_effect:
  assumes "upt_ok s uxpt t"
  shows "\<exists>k. UxpteClear (quieten os) uxpt addr len s =
         Some (s\<lparr>tick := k, ptes := range_effect uxpte_zero t addr len s\<rparr>)"
  using clear.ops_effect [OF assms, of os addr len]
  by (auto simp: UxpteClear_def range_effect_def intro: exI [of _ "tick s"])

text \<open>
  The contract of an exported range operation, as its callers use it: on a table in order it acts
  with \<open>f\<close> on the entries of the request, and without kernel support it does nothing.
\<close>

locale range_op =
  fixes ux_op :: "uxpt_os \<Rightarrow> ptr \<Rightarrow> u64 \<Rightarrow> size_t \<Rightarrow> uxpt_st \<Rightarrow> uxpt_st option"
    and f :: "uxpte_t \<Rightarrow> uxpte_t"
  assumes range_step: "upt_ok s uxpt t \<Longrightarrow>
      \<exists>k. ux_op (quieten os) uxpt addr len s =
          Some (s\<lparr>tick := k, ptes := range_effect f t addr len s\<rparr>)"
    and unsupported: "\<not> g_supportUxpt s \<Longrightarrow> ux_op os uxpt addr len s = Some s"

interpretation pin: range_op UxpteGet uxpte_inc
  by unfold_locales (erule UxpteGet_effect, simp add: UxpteGet_def)

interpretation unpin: range_op UxptePut uxpte_dec
  by unfold_locales (erule UxptePut_effect, simp add: UxptePut_def)

interpretation wipe: range_op UxpteClear uxpte_zero
  by unfold_locales (erule UxpteClear_effect, simp add: UxpteClear_def)

text \<open>What \<open>UxpteIsPresent\<close> answers: every page of the request has its present bit.\<close>

definition range_present :: "uxpt_st \<Rightarrow> UxPageTableStruct \<Rightarrow> u64 \<Rightarrow> size_t \<Rightarrow> bool" where
  "range_present s t addr len \<longleftrightarrow>
     (if g_supportUxpt s
      then req_ok t addr len \<and> (\<forall>x \<in> set (req_pages addr len). page_present s t x)
      else True)"

lemma tick_ex: "\<exists>k. s = s\<lparr>tick := k\<rparr>"
  by (rule exI [of _ "tick s"]) simp

lemma tick_ex_upd: "\<exists>k. s\<lparr>tick := n\<rparr> = s\<lparr>tick := k\<rparr>"
  by blast

lemma UxpteIsPresent_effect:
  assumes "upt_ok s uxpt t"
  shows "\<exists>k. UxpteIsPresent (quieten os) uxpt addr len s =
         Some (range_present s t addr len, s\<lparr>tick := k\<rparr>)"
  using present_ops [OF assms, of os addr len]
  by (auto simp: UxpteIsPresent_def range_present_def tick_ex tick_ex_upd split: if_splits)

lemma range_present_cong:
  "ptes s' = ptes s \<Longrightarrow> g_supportUxpt s' = g_supportUxpt s \<Longrightarrow>
   range_present s' t addr len = range_present s t addr len"
  by (simp add: range_present_def page_present_def)

lemma range_effect_cong:
  "ptes s' = ptes s \<Longrightarrow> g_supportUxpt s' = g_supportUxpt s \<Longrightarrow>
   range_effect f t addr len s' = range_effect f t addr len s"
  by (simp add: range_effect_def)

lemma range_effect_None [simp]: "range_effect f t addr len s a = None \<longleftrightarrow> ptes s a = None"
  by (simp add: range_effect_def)

subsection \<open>Pin and unpin\<close>

lemma uxpte_dec_inc: "uxpte_dec (uxpte_inc v) = v \<longleftrightarrow> v \<noteq> ULONG_MAX"
proof -
  have "2 ^ 64 \<le> unat v + 2 \<longleftrightarrow> v = ULONG_MAX \<or> v = UXPTE_UNDER_RECLAIM"
  proof
    assume "2 ^ 64 \<le> unat v + 2"
    then have "unat (ULONG_MAX - v) = 0 \<or> unat (ULONG_MAX - v) = unat (1 :: u64)"
      using unat_lt_2p64 [of v] by (simp add: unat_max_minus) linarith
    then have "ULONG_MAX - v = 0 \<or> ULONG_MAX - v = 1"
      by (simp only: unat_eq_zero word_unat_eq_iff [symmetric])
    moreover have "v = ULONG_MAX - (ULONG_MAX - v)" by simp
    ultimately have "v = ULONG_MAX - 0 \<or> v = ULONG_MAX - 1" by (elim disjE) simp_all
    then show "v = ULONG_MAX \<or> v = UXPTE_UNDER_RECLAIM" by simp
  qed (auto simp: unsigned_minus_1_eq_mask mask_eq_exp_minus_1)
  then show ?thesis by (auto simp: uxpte_inc_def uxpte_dec_def)
qed

lemma touch_dec_inc:
  assumes "\<And>a. a \<in> set ps \<Longrightarrow> m a \<noteq> Some ULONG_MAX"
  shows "touch uxpte_dec ps (touch uxpte_inc ps m) = m"
  unfolding touch_touch by (rule touch_id) (use assms in \<open>auto simp: uxpte_dec_inc\<close>)

lemma IsUxptePresent_inc: "v \<noteq> UXPTE_UNDER_RECLAIM \<Longrightarrow> IsUxptePresent (uxpte_inc v) = IsUxptePresent v"
  by (simp add: uxpte_inc_def)

lemma IsUxptePresent_inc_reclaim: "\<not> IsUxptePresent (uxpte_inc UXPTE_UNDER_RECLAIM)"
  "\<not> IsUxptePresent UXPTE_UNDER_RECLAIM"
  by (simp_all add: uxpte_inc_def IsUxptePresent_bit)

lemma page_present_inc:
  assumes "ptes s' = range_effect uxpte_inc t addr len s"
  shows "page_present s' t a = page_present s t a"
proof -
  have "IsUxptePresent (uxpte_inc v) = IsUxptePresent v" for v
    using IsUxptePresent_inc IsUxptePresent_inc_reclaim by (cases "v = UXPTE_UNDER_RECLAIM") auto
  then show ?thesis
    using assms by (auto simp: page_present_def range_effect_def touch_def split: option.splits)
qed

lemma page_present_dec:
  assumes "ptes s' = range_effect uxpte_dec t addr len s"
  shows "page_present s' t a = page_present s t a"
  using assms
  by (auto simp: page_present_def range_effect_def touch_def uxpte_dec_def split: option.splits)

section \<open>Setting a table up and tearing it down\<close>

lemma in_mapping_slot:
  assumes "i < unat sz div 8" "unat p + unat sz < 2 ^ 64"
  shows "in_mapping p sz (p + of_nat i * 8)"
proof -
  have "8 * i < unat sz" using assms(1) by linarith
  moreover from this have "unat (of_nat i :: u64) = i"
    using unat_lt_2p64 [of sz] by (simp add: unat_of_nat take_bit_nat_eq_self)
  ultimately have "unat (p + of_nat i * 8) = unat p + 8 * i"
    using assms(2) by (simp add: unat_add_no_wrap unat_mult_no_wrap mult.commute)
  with \<open>8 * i < unat sz\<close> show ?thesis by (simp add: in_mapping_def word_le_nat_alt)
qed

text \<open>A request that is exactly the data range passes the bounds check when it is page aligned.\<close>

lemma req_ok_whole:
  assumes "unat (dataAddr t) mod 4096 = 0" "unat (dataSize t) mod 4096 = 0"
    "unat (dataAddr t) + unat (dataSize t) < 2 ^ 64"
  shows "req_ok t (dataAddr t) (dataSize t)"
proof -
  have "unat (RoundDown (dataAddr t) PAGE_SIZE) = unat (dataAddr t)"
    using assms(1) by (simp add: unat_RoundDown_page mod_eq_0_iff_dvd)
  moreover have "unat (dataAddr t + dataSize t) mod 4096 = 0"
    using assms by (simp add: unat_add_no_wrap mod_eq_0_iff_dvd)
  ultimately show ?thesis
    by (simp add: req_ok_def RoundUp_page_aligned word_less_nat_alt)
qed

text \<open>
  What a kernel that honours the request gives \<open>InitUxPageTable\<close>: a mapping that is not at
  NULL, does not wrap, and does not overlay entries already mapped.
\<close>

definition mmap_fresh :: "ptr \<Rightarrow> size_t \<Rightarrow> uxpt_st \<Rightarrow> bool" where
  "mmap_fresh p sz s \<longleftrightarrow>
     p \<noteq> NULL \<and> p \<noteq> MAP_FAILED \<and> unat p + unat sz < 2 ^ 64 \<and>
     (\<forall>a. in_mapping p sz a \<longrightarrow> ptes s a = None)"

abbreviation table_mmap :: "uxpt_os \<Rightarrow> nat \<Rightarrow> u64 \<Rightarrow> size_t \<Rightarrow> ptr" where
  "table_mmap os n addr len \<equiv>
     ux_mmap os n (GetUxPageSize addr len) PROT_RW (MAP_ANONYMOUS OR MAP_USEREXPTE)
       (UxptePageNo addr * PAGE_SIZE)"

lemma table_overwrite:
  "(t :: UxPageTableStruct)\<lparr>dataAddr := a, dataSize := l, uxpte := p\<rparr> =
   \<lparr>dataAddr = a, dataSize = l, uxpte = p\<rparr>"
  by simp

lemma Init_step:
  assumes sup: "g_supportUxpt s" and u: "uxpt \<noteq> NULL" "upts s uxpt = Some t0"
    and len: "0 < unat len" "unat addr + unat len + 4096 < 2 ^ 64"
    and p: "p = table_mmap os (tick s) addr len" "mmap_fresh p (GetUxPageSize addr len) s"
  shows "\<exists>s2 k. InitUxPageTable (quieten os) uxpt addr len s =
           Some (PM_OK, s2\<lparr>tick := k, ptes := range_effect uxpte_zero
                           \<lparr>dataAddr = addr, dataSize = len, uxpte = p\<rparr> addr len s2\<rparr>) \<and>
         g_supportUxpt s2 \<and>
         upts s2 = (upts s)(uxpt \<mapsto> \<lparr>dataAddr = addr, dataSize = len, uxpte = p\<rparr>) \<and>
         upt_ok s2 uxpt \<lparr>dataAddr = addr, dataSize = len, uxpte = p\<rparr> \<and>
         (\<forall>a. \<not> in_mapping p (GetUxPageSize addr len) a \<longrightarrow> ptes s2 a = ptes s a)"
proof -
  let ?sz = "GetUxPageSize addr len" and ?t = "\<lparr>dataAddr = addr, dataSize = len, uxpte = p\<rparr>"
  define s2 where "s2 = s\<lparr>tick := Suc (tick s),
      ptes := (\<lambda>a. if in_mapping p ?sz a then Some (ux_fill os (tick s) a) else ptes s a),
      upts := (upts s)(uxpt \<mapsto> ?t)\<rparr>"
  have p': "p \<noteq> NULL" "p \<noteq> MAP_FAILED" "unat p + unat ?sz < 2 ^ 64"
    using p(2) by (simp_all add: mmap_fresh_def)
  have ok: "upt_ok s2 uxpt ?t"
    using u(1) len p' in_mapping_slot [of _ ?sz p] by (simp add: upt_ok_def s2_def)
  obtain k where "UxpteClear (quieten os) uxpt addr len s2 =
      Some (s2\<lparr>tick := k, ptes := range_effect uxpte_zero ?t addr len s2\<rparr>)"
    using UxpteClear_effect [OF ok] by blast
  moreover have "InitUxPageTable (quieten os) uxpt addr len s =
      do { s3 \<leftarrow> UxpteClear (quieten os) uxpt addr len s2; Some (PM_OK, s3) }"
    using sup u p'
    by (simp add: InitUxPageTable_def MapUxptePages_def mmap_uxpt_def Let_def s2_def
        table_overwrite p(1) [symmetric] cong: if_cong)
  moreover have "g_supportUxpt s2" "upts s2 = (upts s)(uxpt \<mapsto> ?t)"
    "\<forall>a. \<not> in_mapping p ?sz a \<longrightarrow> ptes s2 a = ptes s a"
    using sup by (simp_all add: s2_def)
  ultimately show ?thesis using ok by auto
qed

lemma touch_zero_cleared:
  assumes "upt_ok s uxpt t" "g_supportUxpt s" "req_ok t addr len" "x \<in> set (req_pages addr len)"
  shows "range_effect uxpte_zero t addr len s (uxpte_slot t x) = Some 0"
proof -
  obtain v where "ptes s (uxpte_slot t x) = Some v"
    using slot_mapped [OF assms(1) req_pages_in_data [OF assms(1,3,4)]] by blast
  moreover have "uxpte_slot t x \<in> set (req_slots t addr len)"
    using assms(4) by (simp add: req_slots_def)
  ultimately show ?thesis
    using assms(2,3) by (simp add: range_effect_def touch_mem uxpte_zero_def)
qed

text \<open>A slot of the data range lies in the mapping.\<close>

lemma slot_in_mapping:
  assumes "upt_ok s uxpt t" "in_data t a"
  shows "in_mapping (uxpte t) (GetUxPageSize (dataAddr t) (dataSize t)) (uxpte_slot t a)"
  using unat_uxpte_slot [OF assms] upt_ok_index [OF assms]
  by (simp add: in_mapping_def word_le_nat_alt)

lemma Init_effect:
  assumes sup: "g_supportUxpt s" and u: "uxpt \<noteq> NULL" "upts s uxpt = Some t0"
    and len: "0 < unat len" "unat addr + unat len + 4096 < 2 ^ 64"
    and p: "p = table_mmap os (tick s) addr len" "mmap_fresh p (GetUxPageSize addr len) s"
    and t: "t = \<lparr>dataAddr = addr, dataSize = len, uxpte = p\<rparr>"
  shows "\<exists>s1. InitUxPageTable (quieten os) uxpt addr len s = Some (PM_OK, s1) \<and> g_supportUxpt s1 \<and>
           upts s1 = (upts s)(uxpt \<mapsto> t) \<and> upt_ok s1 uxpt t \<and>
           (\<forall>a. \<not> in_mapping p (GetUxPageSize addr len) a \<longrightarrow> ptes s1 a = ptes s a) \<and>
           (req_ok t addr len \<longrightarrow> (\<forall>x \<in> set (req_pages addr len). ptes s1 (uxpte_slot t x) = Some 0))"
proof -
  obtain s2 k where s2: "InitUxPageTable (quieten os) uxpt addr len s =
      Some (PM_OK, s2\<lparr>tick := k, ptes := range_effect uxpte_zero t addr len s2\<rparr>)"
    "g_supportUxpt s2" "upts s2 = (upts s)(uxpt \<mapsto> t)" "upt_ok s2 uxpt t"
    "\<forall>a. \<not> in_mapping p (GetUxPageSize addr len) a \<longrightarrow> ptes s2 a = ptes s a"
    using Init_step [OF sup u len p] unfolding t by blast
  have "range_effect uxpte_zero t addr len s2 a = ptes s a" if "\<not> in_mapping p (GetUxPageSize addr len) a" for a
  proof (cases "req_ok t addr len")
    case True
    have "a \<notin> set (req_slots t addr len)"
      using slot_in_mapping [OF s2(4) req_pages_in_data [OF s2(4) True]] that
      by (auto simp: req_slots_def t)
    then show ?thesis using s2(5) that by (simp add: range_effect_def)
  qed (use s2(5) that in \<open>simp add: range_effect_def\<close>)
  moreover have "upt_ok (s2\<lparr>tick := k, ptes := range_effect uxpte_zero t addr len s2\<rparr>) uxpt t"
    by (rule upt_ok_cong [OF s2(4)]) simp_all
  ultimately show ?thesis using s2 touch_zero_cleared [OF s2(4,2)] by simp
qed

lemma Deinit_effect:
  assumes "g_supportUxpt s" "uxpt \<noteq> NULL" "upts s uxpt = Some t" "uxpte t \<noteq> NULL"
  defines "sz \<equiv> GetUxPageSize (dataAddr t) (dataSize t)"
  shows "DeinitUxPageTable (quieten os) uxpt s =
    (if ux_munmap os (tick s) (uxpte t) sz = 0
     then Some (PM_OK, s\<lparr>tick := Suc (tick s),
            ptes := (\<lambda>a. if in_mapping (uxpte t) sz a then None else ptes s a),
            upts := (upts s)(uxpt \<mapsto> \<lparr>dataAddr = 0, dataSize = 0, uxpte = NULL\<rparr>)\<rparr>)
     else Some (PM_UNMAP_UXPT_FAIL, s\<lparr>tick := Suc (tick s)\<rparr>))"
  using assms
  by (simp add: DeinitUxPageTable_def UnmapUxptePages_def munmap_uxpt_def Let_def table_overwrite)

end
