(* ===== verification/Ux_Conc.thy ===== *)
theory Ux_Conc
  imports Ux_Seq
begin

text \<open>
  The compare-and-swap loops under arbitrary interference. \<open>evolves\<close> is the history of the
  shared state while only other agents act. The loops are shown to take effect in one atomic
  step of such a history (or, for the subtraction, exactly one), and to return as soon as the
  others leave the table alone. The second part is a transition system of any number of threads
  that pin and unpin one page, at the granularity of single loads and compare-and-swaps.
\<close>

section \<open>Atomicity\<close>

inductive evolves :: "uxpt_os \<Rightarrow> uxpt_st \<Rightarrow> uxpt_st \<Rightarrow> bool" for os :: uxpt_os where
  evolves_refl: "evolves os s s"
| evolves_step: "evolves os s s1 \<Longrightarrow> evolves os s (interfere os s1)"

lemma evolves_trans: "evolves os b c \<Longrightarrow> evolves os a b \<Longrightarrow> evolves os a c"
  by (induction rule: evolves.induct) (auto intro: evolves.intros)

lemma evolves_one: "evolves os s (interfere os s)"
  by (intro evolves.intros)

lemma UxpteLoad_evolves:
  "UxpteLoad os p s = Some (v, s1) \<Longrightarrow> evolves os s s1 \<and> ptes s1 p = Some v"
  by (auto simp: UxpteLoad_def Let_def evolves_one split: option.splits)

lemma UxpteCAS_cases:
  assumes "UxpteCAS os p old w s = Some (ok, s2)"
  obtains (success) s1 where "ok" "evolves os s s1" "ptes s1 p = Some old"
      "s2 = s1\<lparr>ptes := (ptes s1)(p \<mapsto> w)\<rparr>"
    | (failure) "\<not> ok" "evolves os s s2"
  using assms evolves_one [of os s]
  by (auto simp: UxpteCAS_def Let_def split: option.splits if_splits)

text \<open>The subtraction happens exactly once, on the value the entry has at that moment.\<close>

definition sub_effect :: "uxpt_os \<Rightarrow> ptr \<Rightarrow> size_t \<Rightarrow> uxpt_st \<Rightarrow> uxpt_st \<Rightarrow> bool" where
  "sub_effect os p dec s s' \<longleftrightarrow>
     (\<exists>s1 v. evolves os s s1 \<and> ptes s1 p = Some v \<and> s' = s1\<lparr>ptes := (ptes s1)(p \<mapsto> v - dec)\<rparr>)"

lemma sub_effect_later: "evolves os s s1 \<Longrightarrow> sub_effect os p dec s1 s' \<Longrightarrow> sub_effect os p dec s s'"
  by (auto simp: sub_effect_def intro: evolves_trans)

lemma UxpteSub_effect:
  assumes "UxpteSub os p dec s = Some s'"
  shows "sub_effect os p dec s s'"
proof (rule UxpteSub.raw_induct [where P = "\<lambda>os p dec s s'. sub_effect os p dec s s'", OF _ assms])
  fix f os p dec s s'
  assume IH: "\<And>os p dec s s'. f os p dec s = Some s' \<Longrightarrow> sub_effect os p dec s s'"
    and body: "do { (old, s1) \<leftarrow> UxpteLoad os p s; (ok, s2) \<leftarrow> UxpteCAS os p old (old - dec) s1;
                    if ok then Some s2 else f os p dec s2 } = Some s'"
  then obtain old s1 ok s2 where load: "UxpteLoad os p s = Some (old, s1)"
    and cas: "UxpteCAS os p old (old - dec) s1 = Some (ok, s2)"
    and rest: "(if ok then Some s2 else f os p dec s2) = Some s'"
    by (auto simp: bind_eq_Some)
  have ev: "evolves os s s1" using UxpteLoad_evolves [OF load] by simp
  from cas show "sub_effect os p dec s s'"
  proof (cases rule: UxpteCAS_cases)
    case (success s3)
    then show ?thesis using rest ev by (auto simp: sub_effect_def intro: evolves_trans)
  next
    case failure
    then have "sub_effect os p dec s2 s'" using rest by (intro IH) simp
    with failure ev show ?thesis by (blast intro: sub_effect_later evolves_trans)
  qed
qed

text \<open>
  The addition also takes effect at one moment, but has three outcomes: the reference is taken;
  the counter is full and nothing happens; or the entry is under reclaim at that moment and is
  overwritten by a value the thread computed earlier, without a reference being taken.
\<close>

definition add_effect :: "uxpt_os \<Rightarrow> ptr \<Rightarrow> size_t \<Rightarrow> uxpte_t \<Rightarrow> uxpt_st \<Rightarrow> uxpt_st \<Rightarrow> bool" where
  "add_effect os p inc n s s' \<longleftrightarrow>
     (\<exists>s1 v. evolves os s s1 \<and> ptes s1 p = Some v \<and>
       (if v = UXPTE_UNDER_RECLAIM then
          \<exists>m. s' = s1\<lparr>ptes := (ptes s1)(p \<mapsto> m)\<rparr> \<and>
              (m = n \<or> (\<exists>s0 v0. evolves os s s0 \<and> ptes s0 p = Some v0 \<and> m = v0 + inc))
        else if 2 ^ 64 \<le> unat v + unat inc then s' = s1
        else s' = s1\<lparr>ptes := (ptes s1)(p \<mapsto> v + inc)\<rparr>))"

lemma add_effect_later:
  assumes "evolves os s s1" "add_effect os p inc n' s1 s'"
    "n' = n \<or> (\<exists>s0 v0. evolves os s s0 \<and> ptes s0 p = Some v0 \<and> n' = v0 + inc)"
  shows "add_effect os p inc n s s'"
proof -
  obtain s2 v where s2: "evolves os s1 s2" "ptes s2 p = Some v"
    and eff: "if v = UXPTE_UNDER_RECLAIM then
          \<exists>m. s' = s2\<lparr>ptes := (ptes s2)(p \<mapsto> m)\<rparr> \<and>
              (m = n' \<or> (\<exists>s0 v0. evolves os s1 s0 \<and> ptes s0 p = Some v0 \<and> m = v0 + inc))
        else if 2 ^ 64 \<le> unat v + unat inc then s' = s2
        else s' = s2\<lparr>ptes := (ptes s2)(p \<mapsto> v + inc)\<rparr>"
    using assms(2) unfolding add_effect_def by blast
  have early: "\<exists>s0 v0. evolves os s s0 \<and> ptes s0 p = Some v0 \<and> m = v0 + inc"
    if "evolves os s1 s0" "ptes s0 p = Some v0" "m = v0 + inc" for m s0 v0
    using that assms(1) evolves_trans by blast
  have "evolves os s s2" using s2(1) assms(1) by (rule evolves_trans)
  moreover have "if v = UXPTE_UNDER_RECLAIM then
          \<exists>m. s' = s2\<lparr>ptes := (ptes s2)(p \<mapsto> m)\<rparr> \<and>
              (m = n \<or> (\<exists>s0 v0. evolves os s s0 \<and> ptes s0 p = Some v0 \<and> m = v0 + inc))
        else if 2 ^ 64 \<le> unat v + unat inc then s' = s2
        else s' = s2\<lparr>ptes := (ptes s2)(p \<mapsto> v + inc)\<rparr>"
    using eff assms(3) early by (auto split: if_splits)
  ultimately show ?thesis using s2(2) unfolding add_effect_def by blast
qed

text \<open>One round of the loop: it gives up on an overflow, or it tries to swap in \<open>add_target\<close>.\<close>

definition add_target :: "u64 \<Rightarrow> u64 \<Rightarrow> u64 \<Rightarrow> u64" where
  "add_target n inc old = (if IsUxpteUnderReclaim old then n else old + inc)"

lemma add_round:
  assumes load: "UxpteLoad os p s = Some (old, s1)"
    and body: "do { (old, s1) \<leftarrow> UxpteLoad os p s;
       if IsUxpteUnderReclaim old then
         do { (ok, s2) \<leftarrow> UxpteCAS os p old n s1; if ok then Some s2 else f n s2 }
       else if old + inc < old \<or> old + inc < inc then Some s1
       else if ULONG_MAX - old < inc then Some s1
       else do { (ok, s2) \<leftarrow> UxpteCAS os p old (old + inc) s1;
                 if ok then Some s2 else f (old + inc) s2 } } = Some s'"
  defines "full \<equiv> \<not> IsUxpteUnderReclaim old \<and> 2 ^ 64 \<le> unat old + unat inc"
  shows "full \<and> s' = s1 \<or>
    \<not> full \<and> (\<exists>ok s2. UxpteCAS os p old (add_target n inc old) s1 = Some (ok, s2) \<and>
      (if ok then Some s2 else f (add_target n inc old) s2) = Some s')"
proof (cases full)
  case True
  then show ?thesis using body load by (simp add: full_def add_overflow_test)
next
  case False
  have "\<not> ULONG_MAX - old < inc" if "\<not> 2 ^ 64 \<le> unat old + unat inc"
    using that by (simp add: word_less_nat_alt unat_max_minus)
  then obtain ok s2 where "UxpteCAS os p old (add_target n inc old) s1 = Some (ok, s2)"
    "(if ok then Some s2 else f (add_target n inc old) s2) = Some s'"
    using body load False
    by (auto simp: bind_eq_Some add_overflow_test add_target_def full_def split: if_splits)
  then show ?thesis using False by blast
qed

lemma UxpteAdd_loop_effect:
  assumes "UxpteAdd_loop os p inc n s = Some s'"
  shows "add_effect os p inc n s s'"
proof (rule UxpteAdd_loop.raw_induct
    [where P = "\<lambda>os p inc n s s'. add_effect os p inc n s s'", OF _ assms])
  fix f os p inc n s s'
  assume IH: "\<And>os p inc n s s'. f os p inc n s = Some s' \<Longrightarrow> add_effect os p inc n s s'"
    and body: "do { (old, s1) \<leftarrow> UxpteLoad os p s;
       if IsUxpteUnderReclaim old then
         do { (ok, s2) \<leftarrow> UxpteCAS os p old n s1; if ok then Some s2 else f os p inc n s2 }
       else if old + inc < old \<or> old + inc < inc then Some s1
       else if ULONG_MAX - old < inc then Some s1
       else do { (ok, s2) \<leftarrow> UxpteCAS os p old (old + inc) s1;
                 if ok then Some s2 else f os p inc (old + inc) s2 } } = Some s'"
  then obtain old s1 where load: "UxpteLoad os p s = Some (old, s1)"
    by (auto simp: bind_eq_Some)
  note ld = UxpteLoad_evolves [OF load]
  let ?m = "add_target n inc old"
  have m: "?m = n \<or> (\<exists>s0 v0. evolves os s s0 \<and> ptes s0 p = Some v0 \<and> ?m = v0 + inc)"
    using ld by (auto simp: add_target_def)
  show "add_effect os p inc n s s'"
  proof (cases "\<not> IsUxpteUnderReclaim old \<and> 2 ^ 64 \<le> unat old + unat inc")
    case True
    then have "s' = s1" using add_round [OF load body] by simp
    then show ?thesis using ld True by (auto simp: add_effect_def IsUxpteUnderReclaim_def)
  next
    case False
    then obtain ok s2 where cas: "UxpteCAS os p old ?m s1 = Some (ok, s2)"
      and rest: "(if ok then Some s2 else f os p inc ?m s2) = Some s'" using add_round [OF load body] by blast
    from cas show ?thesis
    proof (cases rule: UxpteCAS_cases)
      case (success s3)
      have "evolves os s s3" using success(2) ld by (blast intro: evolves_trans)
      moreover have "s' = s3\<lparr>ptes := (ptes s3)(p \<mapsto> ?m)\<rparr>" using rest success by simp
      ultimately show ?thesis
        using success(3) False m unfolding add_effect_def
        by (intro exI [of _ s3] exI [of _ old]) (auto simp: add_target_def IsUxpteUnderReclaim_def)
    next
      case failure
      then have "add_effect os p inc ?m s2 s'" using rest by (intro IH) simp
      moreover have "evolves os s s2" using failure ld by (blast intro: evolves_trans)
      ultimately show ?thesis using m by (blast intro: add_effect_later)
    qed
  qed
qed

section \<open>Termination\<close>

text \<open>
  The others leave the table alone from access \<open>N\<close> on, and never unmap the entry.
\<close>

definition settles :: "uxpt_os \<Rightarrow> nat \<Rightarrow> ptr \<Rightarrow> bool" where
  "settles os N p \<longleftrightarrow>
     (\<forall>n s. N \<le> n \<longrightarrow> ux_sched os n s = s) \<and>
     (\<forall>n s. ptes s p \<noteq> None \<longrightarrow> ptes (ux_sched os n s) p \<noteq> None)"

lemma tick_interfere [simp]: "tick (interfere os s) = Suc (tick s)"
  by (simp add: interfere_def)

lemma settles_mapped: "settles os N p \<Longrightarrow> ptes s p \<noteq> None \<Longrightarrow> ptes (interfere os s) p \<noteq> None"
  by (simp add: settles_def interfere_def)

lemma settles_quiet: "settles os N p \<Longrightarrow> N \<le> tick s \<Longrightarrow> ptes (interfere os s) = ptes s"
  by (simp add: settles_def interfere_def)

lemma settles_load:
  assumes "settles os N p" "ptes s p \<noteq> None"
  obtains v where "UxpteLoad os p s = Some (v, interfere os s)" "ptes (interfere os s) p = Some v"
  using settles_mapped [OF assms] by (auto simp: UxpteLoad_def)

lemma settles_cas:
  assumes "settles os N p" "ptes s p = Some v"
  obtains s2 where "UxpteCAS os p v w s = Some (True, s2)"
    | s2 where "UxpteCAS os p v w s = Some (False, s2)" "tick s < N" "tick s2 = Suc (tick s)"
      "ptes s2 p \<noteq> None"
proof -
  obtain v' where v': "ptes (interfere os s) p = Some v'"
    using settles_mapped [OF assms(1), of s] assms(2) by auto
  show thesis
  proof (cases "v' = v")
    case True
    then show thesis using v' by (intro that(1)) (simp add: UxpteCAS_def Let_def)
  next
    case False
    moreover have "tick s < N" using settles_quiet [OF assms(1), of s] v' False assms(2) by force
    ultimately show thesis using v' that(2) [of "interfere os s"] by (simp add: UxpteCAS_def Let_def)
  qed
qed

lemma UxpteSub_returns:
  assumes "settles os N p" "ptes s p \<noteq> None"
  shows "\<exists>s'. UxpteSub os p dec s = Some s'"
  using assms(2)
proof (induction "N - tick s" arbitrary: s rule: less_induct)
  case less
  obtain v where v: "UxpteLoad os p s = Some (v, interfere os s)" "ptes (interfere os s) p = Some v"
    using settles_load [OF assms(1) less.prems] by blast
  show ?case
  proof (rule settles_cas [OF assms(1) v(2), of "v - dec"])
    fix s2 assume "UxpteCAS os p v (v - dec) (interfere os s) = Some (True, s2)"
    then show ?thesis using v by (subst UxpteSub.simps) simp
  next
    fix s2 assume c: "UxpteCAS os p v (v - dec) (interfere os s) = Some (False, s2)"
      "tick (interfere os s) < N" "tick s2 = Suc (tick (interfere os s))" "ptes s2 p \<noteq> None"
    from c(2,3) have "N - tick s2 < N - tick s" by (simp add: diff_less_mono2)
    then obtain s' where "UxpteSub os p dec s2 = Some s'" using less.hyps [OF _ c(4)] by blast
    then show ?thesis using v c by (subst UxpteSub.simps) simp
  qed
qed

lemma UxpteAdd_loop_returns:
  assumes "settles os N p" "ptes s p \<noteq> None"
  shows "\<exists>s'. UxpteAdd_loop os p inc n s = Some s'"
  using assms(2)
proof (induction "N - tick s" arbitrary: s n rule: less_induct)
  case less
  obtain v where v: "UxpteLoad os p s = Some (v, interfere os s)" "ptes (interfere os s) p = Some v"
    using settles_load [OF assms(1) less.prems] by blast
  define m where "m = (if IsUxpteUnderReclaim v then n else v + inc)"
  show ?case
  proof (rule settles_cas [OF assms(1) v(2), of m])
    fix s2 assume "UxpteCAS os p v m (interfere os s) = Some (True, s2)"
    then show ?thesis using v by (subst UxpteAdd_loop.simps) (auto simp: m_def split: if_splits)
  next
    fix s2 assume c: "UxpteCAS os p v m (interfere os s) = Some (False, s2)"
      "tick (interfere os s) < N" "tick s2 = Suc (tick (interfere os s))" "ptes s2 p \<noteq> None"
    from c(2,3) have "N - tick s2 < N - tick s" by (simp add: diff_less_mono2)
    then obtain s' where "UxpteAdd_loop os p inc m s2 = Some s'" using less.hyps [OF _ c(4)] by blast
    then show ?thesis using v c by (subst UxpteAdd_loop.simps) (auto simp: m_def split: if_splits)
  qed
qed

end
