(* ===== verification/Thread_Count.thy ===== *)
theory Thread_Count
  imports PM_Prelude
begin

text \<open>
  Counting threads: how many of the first \<open>n\<close> threads are at a control point of a given kind, and
  the total of a measure over them. One thread moves at a time.
\<close>

definition tally :: "('a \<Rightarrow> bool) \<Rightarrow> nat \<Rightarrow> (nat \<Rightarrow> 'a) \<Rightarrow> nat" where
  "tally P n f = card {i. i < n \<and> P (f i)}"

lemma tally_le: "tally P n f \<le> n"
proof -
  have "card {i. i < n \<and> P (f i)} \<le> card {..< n}" by (rule card_mono) auto
  then show ?thesis by (simp add: tally_def)
qed

lemma tally_upd:
  assumes "i < n"
  shows "tally P n (f(i := x)) + of_bool (P (f i)) = tally P n f + of_bool (P x)"
proof -
  let ?R = "{j. j < n \<and> j \<noteq> i \<and> P (f j)}"
  have split: "{j. j < n \<and> P (q j)} = (if P (q i) then insert i ?R else ?R)"
    if "\<And>j. j \<noteq> i \<Longrightarrow> q j = f j" for q using assms that by (auto, metis)
  have "tally P n f = card ?R + of_bool (P (f i))"
    unfolding tally_def by (subst split [of f]) auto
  moreover have "tally P n (f(i := x)) = card ?R + of_bool (P x)"
    unfolding tally_def using split [of "f(i := x)"] by auto
  ultimately show ?thesis by simp
qed

lemma tally_pos: "0 < tally P n f \<longleftrightarrow> (\<exists>i < n. P (f i))"
  by (auto simp: tally_def card_gt_0_iff)

lemma tally_zero: "tally P n f = 0 \<longleftrightarrow> (\<forall>i < n. \<not> P (f i))"
  using tally_pos [of P n f] by auto

text \<open>Two different threads count twice.\<close>

lemma tally_two:
  assumes "i < n" "j < n" "i \<noteq> j" "P (f i)" "P (f j)"
  shows "2 \<le> tally P n f"
proof -
  have "card {i, j} \<le> card {k. k < n \<and> P (f k)}" using assms by (intro card_mono) auto
  then show ?thesis using assms(3) by (simp add: tally_def)
qed

definition total_rank :: "('a \<Rightarrow> nat) \<Rightarrow> nat \<Rightarrow> (nat \<Rightarrow> 'a) \<Rightarrow> nat" where
  "total_rank r n f = (\<Sum>i < n. r (f i))"

lemma total_rank_upd:
  assumes "i < n"
  shows "total_rank r n (f(i := x)) + r (f i) = total_rank r n f + r x"
proof -
  have "(\<Sum>j < n. r (g j)) = r (g i) + (\<Sum>j \<in> {..< n} - {i}. r (g j))" for g
    using assms by (intro sum.remove) auto
  moreover have "(\<Sum>j \<in> {..< n} - {i}. r ((f(i := x)) j)) = (\<Sum>j \<in> {..< n} - {i}. r (f j))"
    by (intro sum.cong) auto
  ultimately show ?thesis by (simp add: total_rank_def)
qed

lemma total_rank_le:
  assumes "\<And>i. i < n \<Longrightarrow> r (f i) \<le> b"
  shows "total_rank r n f \<le> n * b"
  using sum_bounded_above [of "{..< n}" "\<lambda>i. r (f i)" b] assms by (simp add: total_rank_def)

end
