(* ===== verification/Ux_Threads.thy ===== *)
theory Ux_Threads
  imports Ux_Seq Thread_Count
begin

text \<open>
  Any number of threads that pin and unpin the same page. A thread is in one of the control
  points of the loops \<open>UxpteAdd\<close> and \<open>UxpteSub\<close> (with the locals \<open>old\<close> and \<open>newVal\<close>);
  one step is one load or one compare-and-swap. The kernel may set the present bit when a page
  is touched, and, when \<open>rec\<close> is on, mark an entry that nobody references as under reclaim and
  later finish the reclaim.
\<close>

section \<open>The transition system\<close>

datatype pin_pc =
    Idle
  | GetLoad uxpte_t
  | GetCas uxpte_t uxpte_t
  | Held
  | PutLoad
  | PutCas uxpte_t

text \<open>The next control point of a thread and the new value of the entry.\<close>

fun thread_step :: "pin_pc \<Rightarrow> uxpte_t \<Rightarrow> pin_pc \<times> uxpte_t" where
  "thread_step Idle cell = (GetLoad 0, cell)"
| "thread_step (GetLoad newVal) cell =
     (if IsUxpteUnderReclaim cell then (GetCas cell newVal, cell)
      else if cell + UXPTE_REFCNT_ONE < cell \<or> cell + UXPTE_REFCNT_ONE < UXPTE_REFCNT_ONE
        then (Held, cell)
      else if ULONG_MAX - cell < UXPTE_REFCNT_ONE then (Held, cell)
      else (GetCas cell (cell + UXPTE_REFCNT_ONE), cell))"
| "thread_step (GetCas old newVal) cell =
     (if cell = old then (Held, newVal) else (GetLoad newVal, cell))"
| "thread_step Held cell = (PutLoad, cell)"
| "thread_step PutLoad cell = (PutCas cell, cell)"
| "thread_step (PutCas old) cell =
     (if cell = old then (Idle, old - UXPTE_REFCNT_ONE) else (PutLoad, cell))"

record pin_sys =
  cell :: uxpte_t
  pcs :: "nat \<Rightarrow> pin_pc"

inductive pin_step :: "bool \<Rightarrow> nat \<Rightarrow> pin_sys \<Rightarrow> pin_sys \<Rightarrow> bool" for rec :: bool and n :: nat where
  thread: "i < n \<Longrightarrow> thread_step (pcs s i) (cell s) = (pc', c') \<Longrightarrow>
     pin_step rec n s (s\<lparr>cell := c', pcs := (pcs s)(i := pc')\<rparr>)"
| fault: "\<not> IsUxpteUnderReclaim (cell s) \<Longrightarrow> pin_step rec n s (s\<lparr>cell := cell s OR 1\<rparr>)"
| reclaim: "rec \<Longrightarrow> cell s \<in> {0, 1} \<Longrightarrow> pin_step rec n s (s\<lparr>cell := UXPTE_UNDER_RECLAIM\<rparr>)"
| reclaimed: "IsUxpteUnderReclaim (cell s) \<Longrightarrow> pin_step rec n s (s\<lparr>cell := 0\<rparr>)"

definition pin_init :: pin_sys where
  "pin_init = \<lparr>cell = 0, pcs = (\<lambda>_. Idle)\<rparr>"

inductive pin_reach :: "bool \<Rightarrow> nat \<Rightarrow> pin_sys \<Rightarrow> bool" for rec :: bool and n :: nat where
  start: "pin_reach rec n pin_init"
| step: "pin_reach rec n s \<Longrightarrow> pin_step rec n s s' \<Longrightarrow> pin_reach rec n s'"

inductive_cases pin_stepE: "pin_step rec n s s'"

text \<open>A thread whose get has returned and whose put has not taken effect yet.\<close>

fun holds :: "pin_pc \<Rightarrow> bool" where
  "holds Held = True"
| "holds PutLoad = True"
| "holds (PutCas _) = True"
| "holds _ = False"

definition holders :: "nat \<Rightarrow> pin_sys \<Rightarrow> nat" where
  "holders n s = tally holds n (pcs s)"

section \<open>The system runs the code\<close>

text \<open>Undisturbed, the control points of a thread compute the entry functions of the code.\<close>

lemma thread_get_alone:
  assumes "thread_step (GetLoad 0) c = (pc1, c1)" "thread_step pc1 c1 = (pc2, c2)"
    and "\<not> (2 ^ 64 \<le> unat c + 2 \<and> c \<noteq> UXPTE_UNDER_RECLAIM)"
  shows "pc2 = Held \<and> c2 = uxpte_inc c"
  using assms overflow_two [of c] room_two [of c]
  by (auto simp: uxpte_inc_def IsUxpteUnderReclaim_def split: if_splits)

lemma thread_put_alone:
  assumes "thread_step PutLoad c = (pc1, c1)" "thread_step pc1 c1 = (pc2, c2)"
  shows "pc2 = Idle \<and> c2 = uxpte_dec c"
  using assms by (auto simp: uxpte_dec_def)

section \<open>Reference counting without reclaim\<close>

text \<open>A pending compare-and-swap of a get adds one reference to the value it expects.\<close>

fun pc_ok :: "pin_pc \<Rightarrow> bool" where
  "pc_ok (GetCas old newVal) = (newVal = old + 2 \<and> unat old + 2 < 2 ^ 64)"
| "pc_ok _ = True"

definition pin_inv :: "nat \<Rightarrow> pin_sys \<Rightarrow> bool" where
  "pin_inv n s \<longleftrightarrow> uxpte_refcnt (cell s) = holders n s \<and> (\<forall>i < n. pc_ok (pcs s i))"

lemma holders_le: "holders n s \<le> n"
  by (simp add: holders_def tally_le)

lemma holders_upd:
  assumes "i < n"
  shows "holders n (s\<lparr>cell := c, pcs := (pcs s)(i := pc')\<rparr>) + of_bool (holds (pcs s i)) =
         holders n s + of_bool (holds pc')"
  using tally_upd [OF assms, of holds "pcs s" pc'] by (simp add: holders_def)

lemma refcnt_add: "unat c + 2 < 2 ^ 64 \<Longrightarrow> uxpte_refcnt (c + 2) = Suc (uxpte_refcnt c)"
  by (simp add: uxpte_refcnt_def unat_add_no_wrap)

lemma refcnt_sub: "0 < uxpte_refcnt c \<Longrightarrow> Suc (uxpte_refcnt (c - 2)) = uxpte_refcnt c"
proof -
  assume "0 < uxpte_refcnt c"
  then have "2 \<le> unat c" by (auto simp: uxpte_refcnt_def)
  then show ?thesis by (simp add: uxpte_refcnt_def unat_diff_le word_le_nat_alt)
qed

lemma refcnt_or_one: "uxpte_refcnt (c OR 1) = uxpte_refcnt c"
proof -
  have "drop_bit 1 (c OR 1) = drop_bit 1 c"
    by (rule bit_word_eqI) (simp add: bit_drop_bit_eq bit_or_iff bit_1_iff)
  then have "unat (drop_bit 1 (c OR 1)) = unat (drop_bit 1 c)" by (rule arg_cong)
  then show ?thesis by (simp only: uxpte_refcnt_def unat_drop_bit_u64 power_one_right)
qed

text \<open>Few enough threads: the counter stays away from its top values.\<close>

lemma refcnt_small:
  assumes "pin_inv n s" "n < 2 ^ 62"
  shows "unat (cell s) + 2 < 2 ^ 64" "\<not> IsUxpteUnderReclaim (cell s)"
proof -
  have "uxpte_refcnt (cell s) < 2 ^ 62"
    using assms holders_le [of n s] by (simp add: pin_inv_def)
  then show small: "unat (cell s) + 2 < 2 ^ 64"
    by (simp add: uxpte_refcnt_def)
  show "\<not> IsUxpteUnderReclaim (cell s)"
    using small by (auto simp: IsUxpteUnderReclaim_def)
qed

lemma thread_keeps_inv:
  assumes inv: "pin_inv n s" and n: "n < 2 ^ 62" and i: "i < n"
    and step: "thread_step (pcs s i) (cell s) = (pc', c')"
  shows "pin_inv n (s\<lparr>cell := c', pcs := (pcs s)(i := pc')\<rparr>)"
proof -
  have cnt: "uxpte_refcnt (cell s) = holders n s" and ok: "pc_ok (pcs s i)"
    using inv i by (simp_all add: pin_inv_def)
  have pos: "0 < holders n s" if "holds (pcs s i)"
    using that i by (auto simp: holders_def tally_pos)
  have "uxpte_refcnt c' + of_bool (holds (pcs s i)) = holders n s + of_bool (holds pc') \<and> pc_ok pc'"
    using step ok cnt pos refcnt_small [OF inv n] overflow_two [of "cell s"] room_two [of "cell s"]
    by (cases "pcs s i") (auto simp: refcnt_add refcnt_sub split: if_splits)
  then show ?thesis
    using holders_upd [OF i, of s pc' c'] inv by (auto simp: pin_inv_def)
qed

lemma pin_reach_inv:
  assumes "pin_reach False n s" "n < 2 ^ 62"
  shows "pin_inv n s"
  using assms
proof (induction rule: pin_reach.induct)
  case start
  show ?case by (simp add: pin_inv_def pin_init_def holders_def tally_def uxpte_refcnt_def)
next
  case (step s s')
  then have inv: "pin_inv n s" by simp
  from step.hyps(2) show ?case
  proof (cases rule: pin_step.cases)
    case (thread i pc' c')
    then show ?thesis using thread_keeps_inv [OF inv step.prems] by simp
  next
    case fault
    then show ?thesis using inv by (simp add: pin_inv_def refcnt_or_one holders_def)
  qed (use refcnt_small [OF inv step.prems] in auto)
qed

end
