(* ===== verification/Ux_Props.thy ===== *)
theory Ux_Props
  imports Ux_Conc Ux_Threads
begin

text \<open>
  The properties of the user extended page table: address arithmetic, memory safety and effect
  of the page loop, pin and unpin, life cycle, behaviour under interference. Each is followed by
  a witness at a concrete input where it has hypotheses.
\<close>

section \<open>A concrete table\<close>

text \<open>
  One data page at \<open>0x2000\<close> (page 2), table mapped at \<open>0x10000\<close>; entry 2 is the entry of the
  page and carries the present bit.
\<close>

definition ex_table :: UxPageTableStruct where
  "ex_table = \<lparr>dataAddr = 0x2000, dataSize = 0x1000, uxpte = 0x10000\<rparr>"

definition ex_ptes :: "ptr \<Rightarrow> uxpte_t option" where
  "ex_ptes = (\<lambda>a. if in_mapping 0x10000 0x1000 a then Some (if a = 0x10010 then 1 else 0) else None)"

definition ex_st :: uxpt_st where
  "ex_st = \<lparr>tick = 0, g_supportUxpt = True, ptes = ex_ptes, upts = [8 \<mapsto> ex_table]\<rparr>"

definition ex_os :: uxpt_os where
  "ex_os = \<lparr>ux_sched = (\<lambda>_ s. s), ux_mmap = (\<lambda>_ _ _ _ _. 0x10000), ux_fill = (\<lambda>_ _. 5),
            ux_munmap = (\<lambda>_ _ _. 0)\<rparr>"

lemma ex_size: "GetUxPageSize 0x2000 0x1000 = 0x1000"
  by (simp add: GetUxPageSize_def UxptePageNo_def VirtPageNo_def PAGE_SHIFT_def PAGE_SIZE_eq)

lemma ex_ok: "upt_ok ex_st 8 ex_table"
proof -
  have "ex_ptes (0x10000 + of_nat i * 8) \<noteq> None" if "i < 512" for i
    using in_mapping_slot [of i "0x1000" "0x10000"] that by (simp add: ex_ptes_def)
  then show ?thesis by (simp add: upt_ok_def ex_st_def ex_table_def ex_size)
qed

lemma ex_slot: "uxpte_slot ex_table 0x2000 = 0x10010"
  by (simp add: uxpte_slot_def ex_table_def GetIndexInUxpte_def UxpteOffset_def VirtPageNo_def
      PAGE_SHIFT_def)

lemma ex_pages: "req_pages 0x2000 0x10 = [0x2000]"
  by (simp add: req_pages_def RoundDown_def RoundUp_def PAGE_SIZE_eq page_range_def)

lemma ex_req: "req_ok ex_table 0x2000 0x10"
  by (simp add: req_ok_def ex_table_def RoundDown_def RoundUp_def PAGE_SIZE_eq)

section \<open>Address arithmetic\<close>

text \<open>
  C32. For every address of the data range, the index the library computes is inside the table
  it maps (no access out of bounds), and it designates the kernel's entry of that address: the
  table starts at the entry number \<open>UxptePageNo dataAddr * 512\<close>, and this plus the index is the
  number of the virtual page.
\<close>

theorem index_in_bounds_and_exact:
  assumes "0 < unat sz" "unat start + unat sz < 2 ^ 64"
    and "unat start \<le> unat addr" "unat addr < unat start + unat sz"
  shows "8 * unat (GetIndexInUxpte start addr) + 8 \<le> unat (GetUxPageSize start sz) \<and>
         unat (UxptePageNo start) * unat UXPTE_PER_PAGE + unat (GetIndexInUxpte start addr) =
           unat (VirtPageNo addr)"
  using index_in_table [OF assms] index_is_kernel_entry [OF assms(3)]
    unat_GetUxPageSize [OF assms(1,2)] by simp

theorem index_in_bounds_and_exact_witness:
  "8 * unat (GetIndexInUxpte 0x1FF000 0x201234) + 8 \<le> unat (GetUxPageSize 0x1FF000 0x3000) \<and>
   unat (UxptePageNo 0x1FF000) * unat UXPTE_PER_PAGE + unat (GetIndexInUxpte 0x1FF000 0x201234) =
     unat (VirtPageNo 0x201234)"
  by (rule index_in_bounds_and_exact) simp_all

text \<open>
  \<open>RoundUp\<close> returns the least multiple of the alignment that is not below the value when
  \<open>val + align\<close> fits 64 bits, and the value itself otherwise; \<open>RoundDown\<close> to a page returns
  the greatest page boundary not above the value.
\<close>

theorem rounding:
  assumes "algn \<noteq> 0"
  shows "(if unat val + unat algn < 2 ^ 64
          then unat algn dvd unat (RoundUp val algn) \<and> unat val \<le> unat (RoundUp val algn) \<and>
               unat (RoundUp val algn) < unat val + unat algn
          else RoundUp val algn = val) \<and>
         unat (RoundDown val PAGE_SIZE) mod 4096 = 0 \<and>
         unat (RoundDown val PAGE_SIZE) \<le> unat val \<and>
         unat val < unat (RoundDown val PAGE_SIZE) + 4096"
proof -
  have down: "unat (RoundDown val PAGE_SIZE) + unat val mod 4096 = unat val"
    by (simp only: unat_RoundDown_page div_mult_mod_eq)
  have "unat val mod 4096 < 4096" by simp
  then have "unat (RoundDown val PAGE_SIZE) \<le> unat val \<and> unat val < unat (RoundDown val PAGE_SIZE) + 4096"
    using down by linarith
  then show ?thesis
    using RoundUp_props [OF _ assms] RoundUp_overflow by (simp add: unat_RoundDown_page)
qed

theorem rounding_witness:
  "(0x1000 :: u64) \<noteq> 0 \<and> unat (0x1000 :: u64) dvd unat (RoundUp 5 0x1000) \<and>
   RoundUp (- 2) 0x1000 = - 2"
  using rounding [of "0x1000" 5] rounding [of "0x1000" "- 2"] by simp

section \<open>The page loop and the exported operations\<close>

lemma UxpteOps_outcome:
  assumes "upt_ok s uxpt t"
  shows "\<exists>r s'. UxpteOps (quieten os) uxpt addr len opn s = Some (r, s') \<and> upt_ok s' uxpt t \<and>
           r \<in> {PM_OK, PM_UXPT_OUT_RANGE, PM_UXPT_NO_PRESENT} \<and>
           (r = PM_UXPT_OUT_RANGE \<longleftrightarrow> \<not> req_ok t addr len) \<and>
           (\<not> req_ok t addr len \<longrightarrow> s' = s) \<and>
           (\<forall>a. a \<notin> set (req_slots t addr len) \<longrightarrow> ptes s' a = ptes s a)"
proof (cases opn)
  case UPT_GET
  then show ?thesis using get.ops_effect [OF assms, of os addr len] assms by auto
next
  case UPT_PUT
  then show ?thesis using put.ops_effect [OF assms, of os addr len] assms by auto
next
  case UPT_CLEAR
  then show ?thesis using clear.ops_effect [OF assms, of os addr len] assms by auto
next
  case UPT_IS_PRESENT
  then show ?thesis using present_ops [OF assms, of os addr len] assms by auto
qed

text \<open>
  The pages of a request lie inside the data, read without wrap-around: from the page of the first byte
  to the page of the last.
\<close>

definition covers :: "UxPageTableStruct \<Rightarrow> u64 \<Rightarrow> size_t \<Rightarrow> bool" where
  "covers t addr len \<longleftrightarrow>
     unat (dataAddr t) \<le> unat addr div 4096 * 4096 \<and>
     (unat addr + unat len + 4095) div 4096 * 4096 \<le> unat (dataAddr t) + unat (dataSize t)"

lemma req_ok_covers:
  assumes "upt_ok s uxpt t" "unat addr + unat len + 4096 < 2 ^ 64"
  shows "req_ok t addr len \<longleftrightarrow> covers t addr len"
proof -
  have d: "unat (dataAddr t + dataSize t) = unat (dataAddr t) + unat (dataSize t)"
    using assms(1) by (intro unat_add_no_wrap) (simp add: upt_ok_def)
  have e: "unat (addr + len) = unat addr + unat len" using assms(2) by (intro unat_add_no_wrap) simp
  have "unat (RoundDown addr PAGE_SIZE) = unat addr div 4096 * 4096"
    by (rule unat_RoundDown_page)
  moreover have "unat (RoundUp (addr + len) PAGE_SIZE) = (unat addr + unat len + 4095) div 4096 * 4096"
    using assms(2) by (simp add: unat_RoundUp PAGE_SIZE_eq e)
  ultimately show ?thesis by (simp add: req_ok_def covers_def word_less_nat_alt d not_less)
qed

text \<open>
  C13. On a table in use, \<open>UxpteOps\<close> returns for every address, length and operation: it never
  leaves the mapped table and the loop ends. Whatever the request, only entries of pages of the data
  can change, and the table stays in order. A request whose end does not wrap around is rejected
  exactly if one of its pages lies outside the data, and then nothing changes. (A request that wraps
  around can be accepted, see \<open>wrapped_request_accepted\<close>.)
\<close>

theorem UxpteOps_safe:
  assumes ok: "upt_ok s uxpt t"
  shows "\<exists>r s'. UxpteOps (quieten os) uxpt addr len opn s = Some (r, s') \<and> upt_ok s' uxpt t \<and>
           r \<in> {PM_OK, PM_UXPT_OUT_RANGE, PM_UXPT_NO_PRESENT} \<and>
           (\<forall>a. ptes s' a \<noteq> ptes s a \<longrightarrow> (\<exists>x. in_data t x \<and> a = uxpte_slot t x)) \<and>
           (unat addr + unat len + 4096 < 2 ^ 64 \<longrightarrow> (r = PM_UXPT_OUT_RANGE \<longleftrightarrow> \<not> covers t addr len)) \<and>
           (r = PM_UXPT_OUT_RANGE \<longrightarrow> s' = s)"
proof -
  obtain r s' where r: "UxpteOps (quieten os) uxpt addr len opn s = Some (r, s')" "upt_ok s' uxpt t"
    "r \<in> {PM_OK, PM_UXPT_OUT_RANGE, PM_UXPT_NO_PRESENT}" "r = PM_UXPT_OUT_RANGE \<longleftrightarrow> \<not> req_ok t addr len"
    "\<not> req_ok t addr len \<Longrightarrow> s' = s" "\<forall>a. a \<notin> set (req_slots t addr len) \<longrightarrow> ptes s' a = ptes s a"
    using UxpteOps_outcome [OF ok, of os addr len opn] by blast
  have "\<exists>x. in_data t x \<and> a = uxpte_slot t x" if ne: "ptes s' a \<noteq> ptes s a" for a
  proof -
    have "req_ok t addr len" using r(5) ne by blast
    moreover have "a \<in> set (req_slots t addr len)" using r(6) ne by blast
    ultimately show ?thesis using req_pages_in_data [OF ok] by (auto simp: req_slots_def)
  qed
  then show ?thesis using r req_ok_covers [OF ok, of addr len] by blast
qed

theorem UxpteOps_safe_witness:
  "upt_ok ex_st 8 ex_table \<and>
   (\<exists>r s'. UxpteOps (quieten ex_os) 8 0x2000 0x10 UPT_GET ex_st = Some (r, s') \<and>
           upt_ok s' 8 ex_table \<and> r \<noteq> PM_UXPT_OUT_RANGE) \<and>
   (\<exists>r s'. UxpteOps (quieten ex_os) 8 0x2000 0x1001 UPT_GET ex_st = Some (r, s') \<and> r = PM_UXPT_OUT_RANGE \<and> s' = ex_st)"
proof -
  have "covers ex_table 0x2000 0x10" "\<not> covers ex_table 0x2000 0x1001" by (simp_all add: covers_def ex_table_def)
  then show ?thesis
    using UxpteOps_safe [OF ex_ok, of ex_os "0x2000" "0x10" UPT_GET] UxpteOps_safe [OF ex_ok, of ex_os "0x2000" "0x1001" UPT_GET] ex_ok
    by fastforce
qed

text \<open>
  The range check computes the end of the request modulo \<open>2 ^ 64\<close>: a request that wraps around is
  accepted although its length exceeds every object.
\<close>

theorem wrapped_request_accepted:
  "\<exists>s'. UxpteOps (quieten os) 8 0x2000 (- 0x1000) UPT_GET ex_st = Some (PM_OK, s') \<and> ptes s' = ptes ex_st"
proof -
  have r: "req_ok ex_table 0x2000 (- 0x1000)" "req_slots ex_table 0x2000 (- 0x1000) = []"
    by (simp_all add: req_ok_def req_slots_def req_pages_def page_range_def RoundDown_def RoundUp_def PAGE_SIZE_eq ex_table_def)
  show ?thesis using get.ops_effect [OF ex_ok, of os "0x2000" "- 0x1000"] r by auto
qed

text \<open>
  C12. \<open>UxpteGet\<close> takes one reference on every page of a request in range, and \<open>UxptePut\<close> gives one back:
  the reference count of the entry grows, or shrinks, by one, the present bit stays, and no other entry
  changes. For \<open>UxpteGet\<close> this holds for entries that are neither under reclaim nor at the end of the
  counter, for \<open>UxptePut\<close> where there is a reference to give back; an entry that is 0 becomes
  \<open>UXPTE_UNDER_RECLAIM\<close>.
\<close>

theorem UxpteGet_UxptePut_count:
  assumes ok: "upt_ok s uxpt t" "g_supportUxpt s" "req_ok t addr len"
  shows "(\<exists>s'. UxpteGet (quieten os) uxpt addr len s = Some s' \<and> upt_ok s' uxpt t \<and>
       (\<forall>x \<in> set (req_pages addr len). \<exists>v v'. ptes s (uxpte_slot t x) = Some v \<and> ptes s' (uxpte_slot t x) = Some v' \<and>
          (v \<noteq> UXPTE_UNDER_RECLAIM \<and> unat v + 2 < 2 ^ 64 \<longrightarrow>
             uxpte_refcnt v' = Suc (uxpte_refcnt v) \<and> IsUxptePresent v' = IsUxptePresent v)) \<and>
       (\<forall>a. a \<notin> set (req_slots t addr len) \<longrightarrow> ptes s' a = ptes s a)) \<and>
     (\<exists>s'. UxptePut (quieten os) uxpt addr len s = Some s' \<and> upt_ok s' uxpt t \<and>
       (\<forall>x \<in> set (req_pages addr len). \<exists>v v'. ptes s (uxpte_slot t x) = Some v \<and> ptes s' (uxpte_slot t x) = Some v' \<and>
          IsUxptePresent v' = IsUxptePresent v \<and> (0 < uxpte_refcnt v \<longrightarrow> Suc (uxpte_refcnt v') = uxpte_refcnt v) \<and>
          (v = 0 \<longrightarrow> v' = UXPTE_UNDER_RECLAIM)) \<and>
       (\<forall>a. a \<notin> set (req_slots t addr len) \<longrightarrow> ptes s' a = ptes s a))"
proof -
  have entry: "\<exists>v. ptes s (uxpte_slot t x) = Some v \<and> touch f (req_slots t addr len) (ptes s) (uxpte_slot t x) = Some (f v)"
    if "x \<in> set (req_pages addr len)" for f x
    using slot_mapped [OF ok(1) req_pages_in_data [OF ok(1,3) that]] that by (auto simp: touch_mem req_slots_def)
  have inc: "uxpte_refcnt (uxpte_inc v) = Suc (uxpte_refcnt v) \<and> IsUxptePresent (uxpte_inc v) = IsUxptePresent v"
    if "v \<noteq> UXPTE_UNDER_RECLAIM" "unat v + 2 < 2 ^ 64" for v
    using that by (simp add: uxpte_inc_def refcnt_add)
  have dec: "IsUxptePresent (uxpte_dec v) = IsUxptePresent v" "0 < uxpte_refcnt v \<Longrightarrow> Suc (uxpte_refcnt (uxpte_dec v)) = uxpte_refcnt v"
    "uxpte_dec 0 = UXPTE_UNDER_RECLAIM" for v
    using refcnt_sub [of v] by (simp_all add: uxpte_dec_def IsUxptePresent_bit)
  obtain k where get: "UxpteGet (quieten os) uxpt addr len s =
      Some (s\<lparr>tick := k, ptes := touch uxpte_inc (req_slots t addr len) (ptes s)\<rparr>)"
    using UxpteGet_effect [OF ok(1), of os addr len] ok(2,3) by (auto simp: range_effect_def)
  obtain k' where put: "UxptePut (quieten os) uxpt addr len s =
      Some (s\<lparr>tick := k', ptes := touch uxpte_dec (req_slots t addr len) (ptes s)\<rparr>)"
    using UxptePut_effect [OF ok(1), of os addr len] ok(2,3) by (auto simp: range_effect_def)
  show ?thesis
  proof (rule conjI)
    have "\<exists>v v'. ptes s (uxpte_slot t x) = Some v \<and> touch uxpte_inc (req_slots t addr len) (ptes s) (uxpte_slot t x) = Some v' \<and>
        (v \<noteq> UXPTE_UNDER_RECLAIM \<and> unat v + 2 < 2 ^ 64 \<longrightarrow>
           uxpte_refcnt v' = Suc (uxpte_refcnt v) \<and> IsUxptePresent v' = IsUxptePresent v)"
      if "x \<in> set (req_pages addr len)" for x using entry [OF that, of uxpte_inc] inc by blast
    then show "\<exists>s'. UxpteGet (quieten os) uxpt addr len s = Some s' \<and> upt_ok s' uxpt t \<and>
       (\<forall>x \<in> set (req_pages addr len). \<exists>v v'. ptes s (uxpte_slot t x) = Some v \<and> ptes s' (uxpte_slot t x) = Some v' \<and>
          (v \<noteq> UXPTE_UNDER_RECLAIM \<and> unat v + 2 < 2 ^ 64 \<longrightarrow>
             uxpte_refcnt v' = Suc (uxpte_refcnt v) \<and> IsUxptePresent v' = IsUxptePresent v)) \<and>
       (\<forall>a. a \<notin> set (req_slots t addr len) \<longrightarrow> ptes s' a = ptes s a)" using get ok(1) by simp
    have "\<exists>v v'. ptes s (uxpte_slot t x) = Some v \<and> touch uxpte_dec (req_slots t addr len) (ptes s) (uxpte_slot t x) = Some v' \<and>
        IsUxptePresent v' = IsUxptePresent v \<and> (0 < uxpte_refcnt v \<longrightarrow> Suc (uxpte_refcnt v') = uxpte_refcnt v) \<and>
        (v = 0 \<longrightarrow> v' = UXPTE_UNDER_RECLAIM)"
      if "x \<in> set (req_pages addr len)" for x using entry [OF that, of uxpte_dec] dec by metis
    then show "\<exists>s'. UxptePut (quieten os) uxpt addr len s = Some s' \<and> upt_ok s' uxpt t \<and>
       (\<forall>x \<in> set (req_pages addr len). \<exists>v v'. ptes s (uxpte_slot t x) = Some v \<and> ptes s' (uxpte_slot t x) = Some v' \<and>
          IsUxptePresent v' = IsUxptePresent v \<and> (0 < uxpte_refcnt v \<longrightarrow> Suc (uxpte_refcnt v') = uxpte_refcnt v) \<and>
          (v = 0 \<longrightarrow> v' = UXPTE_UNDER_RECLAIM)) \<and>
       (\<forall>a. a \<notin> set (req_slots t addr len) \<longrightarrow> ptes s' a = ptes s a)" using put ok(1) by simp
  qed
qed

theorem UxpteGet_UxptePut_count_witness:
  "(\<exists>s' v'. UxpteGet (quieten ex_os) 8 0x2000 0x10 ex_st = Some s' \<and>
           ptes s' 0x10010 = Some v' \<and> uxpte_refcnt v' = 1 \<and> IsUxptePresent v') \<and>
   (\<exists>s' v'. UxptePut (quieten ex_os) 8 0x2000 0x10 ex_st = Some s' \<and> ptes s' 0x10010 = Some v' \<and> IsUxptePresent v')"
proof -
  have v: "ptes ex_st 0x10010 = Some 1"
    by (simp add: ex_st_def ex_ptes_def in_mapping_def)
  have sup: "g_supportUxpt ex_st" by (simp add: ex_st_def)
  show ?thesis
    using UxpteGet_UxptePut_count [OF ex_ok sup ex_req, of ex_os] v
    by (auto simp: ex_pages ex_slot uxpte_refcnt_def IsUxptePresent_bit)
qed

text \<open>
  A get followed by a put of the same request leaves every entry of the table as it was,
  whatever the request, unless an entry of the request holds the all-ones value (where the get
  declines to count).
\<close>

theorem get_put_roundtrip:
  assumes ok: "upt_ok s uxpt t"
    and notfull: "\<And>a. a \<in> set (req_slots t addr len) \<Longrightarrow> ptes s a \<noteq> Some ULONG_MAX"
  shows "\<exists>s1 s2. UxpteGet (quieten os) uxpt addr len s = Some s1 \<and>
           UxptePut (quieten os) uxpt addr len s1 = Some s2 \<and>
           ptes s2 = ptes s \<and> upts s2 = upts s \<and> g_supportUxpt s2 = g_supportUxpt s"
proof -
  obtain k where get: "UxpteGet (quieten os) uxpt addr len s =
      Some (s\<lparr>tick := k, ptes := range_effect uxpte_inc t addr len s\<rparr>)" (is "_ = Some ?s1")
    using UxpteGet_effect [OF ok] by blast
  have ok1: "upt_ok ?s1 uxpt t" by (rule upt_ok_cong [OF ok]) simp_all
  obtain k' where "UxptePut (quieten os) uxpt addr len ?s1 =
      Some (?s1\<lparr>tick := k', ptes := range_effect uxpte_dec t addr len ?s1\<rparr>)"
    using UxptePut_effect [OF ok1] by blast
  moreover have "range_effect uxpte_dec t addr len ?s1 = ptes s"
    using touch_dec_inc [OF notfull] by (simp add: range_effect_def)
  ultimately show ?thesis using get by auto
qed

theorem get_put_roundtrip_witness:
  "\<exists>s1 s2. UxpteGet (quieten ex_os) 8 0x2000 0x10 ex_st = Some s1 \<and>
           UxptePut (quieten ex_os) 8 0x2000 0x10 s1 = Some s2 \<and> ptes s2 = ptes ex_st"
proof -
  have "ptes ex_st a \<noteq> Some ULONG_MAX" if "a \<in> set (req_slots ex_table 0x2000 0x10)" for a
    using that by (simp add: req_slots_def ex_pages ex_slot ex_st_def ex_ptes_def in_mapping_def)
  from get_put_roundtrip [OF ex_ok this] show ?thesis by blast
qed

text \<open>
  \<open>UxpteIsPresent\<close> answers true exactly when the kernel has no such tables, or the request
  is in range and every page of it has its present bit set. It changes no entry, and neither
  pinning nor unpinning changes its answer.
\<close>

theorem UxpteIsPresent_exact:
  assumes "upt_ok s uxpt t"
  shows "\<exists>s'. UxpteIsPresent (quieten os) uxpt addr len s = Some
             (\<not> g_supportUxpt s \<or> req_ok t addr len \<and> (\<forall>x \<in> set (req_pages addr len). page_present s t x), s') \<and>
           ptes s' = ptes s \<and>
           (\<forall>s1. UxpteGet (quieten os) uxpt addr len s = Some s1 \<or>
                 UxptePut (quieten os) uxpt addr len s = Some s1 \<longrightarrow>
              (\<forall>x. page_present s1 t x = page_present s t x))"
proof -
  have "page_present s1 t x = page_present s t x"
    if "UxpteGet (quieten os) uxpt addr len s = Some s1 \<or>
        UxptePut (quieten os) uxpt addr len s = Some s1" for s1 x
    using that UxpteGet_effect [OF assms, of os addr len] UxptePut_effect [OF assms, of os addr len]
      page_present_inc [of s1 t addr len s] page_present_dec [of s1 t addr len s] by force
  then show ?thesis
    using UxpteIsPresent_effect [OF assms, of os addr len] by (auto simp: range_present_def)
qed

theorem UxpteIsPresent_exact_witness:
  "\<exists>s'. UxpteIsPresent (quieten ex_os) 8 0x2000 0x10 ex_st = Some (True, s')"
proof -
  have "page_present ex_st ex_table 0x2000"
    by (simp add: page_present_def ex_slot ex_st_def ex_ptes_def in_mapping_def IsUxptePresent_bit)
  then show ?thesis
    using UxpteIsPresent_exact [OF ex_ok, of ex_os "0x2000" "0x10"] ex_req by (auto simp: ex_pages)
qed

section \<open>Life cycle\<close>

text \<open>
  When the kernel supports the tables and honours the mapping, \<open>InitUxPageTable\<close> of a page
  aligned range succeeds, leaves a table that is in order for that range, and every entry of the
  range is zero (not present, no references), whatever the mapping contained. Entries outside
  the mapping and other tables are untouched. When the mapping fails it reports
  \<open>PM_MMAP_UXPT_FAIL\<close> and leaves all entries alone.
\<close>

theorem InitUxPageTable_ready:
  assumes sup: "g_supportUxpt s" and u: "uxpt \<noteq> NULL" "upts s uxpt = Some t0"
    and len: "0 < unat len" "unat addr + unat len + 4096 < 2 ^ 64"
    and al: "unat addr mod 4096 = 0" "unat len mod 4096 = 0"
    and p: "p = table_mmap os (tick s) addr len" "t = \<lparr>dataAddr = addr, dataSize = len, uxpte = p\<rparr>"
  shows "(mmap_fresh p (GetUxPageSize addr len) s \<longrightarrow>
           (\<exists>s'. InitUxPageTable (quieten os) uxpt addr len s = Some (PM_OK, s') \<and>
              upts s' = (upts s)(uxpt \<mapsto> t) \<and> upt_ok s' uxpt t \<and>
              (\<forall>x \<in> set (req_pages addr len). ptes s' (uxpte_slot t x) = Some 0) \<and>
              (\<forall>a. \<not> in_mapping p (GetUxPageSize addr len) a \<longrightarrow> ptes s' a = ptes s a))) \<and>
         (p = MAP_FAILED \<longrightarrow>
           (\<exists>s'. InitUxPageTable (quieten os) uxpt addr len s = Some (PM_MMAP_UXPT_FAIL, s') \<and>
              ptes s' = ptes s))"
proof (intro conjI impI)
  assume fresh: "mmap_fresh p (GetUxPageSize addr len) s"
  have "req_ok t addr len" using req_ok_whole [of t] al len p(2) by simp
  then show "\<exists>s'. InitUxPageTable (quieten os) uxpt addr len s = Some (PM_OK, s') \<and>
      upts s' = (upts s)(uxpt \<mapsto> t) \<and> upt_ok s' uxpt t \<and>
      (\<forall>x \<in> set (req_pages addr len). ptes s' (uxpte_slot t x) = Some 0) \<and>
      (\<forall>a. \<not> in_mapping p (GetUxPageSize addr len) a \<longrightarrow> ptes s' a = ptes s a)"
    using Init_effect [OF sup u len p(1) fresh p(2)] by blast
next
  assume "p = MAP_FAILED"
  then show "\<exists>s'. InitUxPageTable (quieten os) uxpt addr len s = Some (PM_MMAP_UXPT_FAIL, s') \<and>
      ptes s' = ptes s"
    using sup u p(1) by (auto simp: InitUxPageTable_def MapUxptePages_def mmap_uxpt_def Let_def)
qed

definition ex_st0 :: uxpt_st where
  "ex_st0 = \<lparr>tick = 0, g_supportUxpt = True, ptes = Map.empty, upts = [8 \<mapsto> ex_table]\<rparr>"

lemma ex_fresh: "mmap_fresh (table_mmap ex_os (tick ex_st0) 0x2000 0x1000) (GetUxPageSize 0x2000 0x1000) ex_st0"
  by (simp add: mmap_fresh_def ex_os_def ex_st0_def ex_size)

theorem InitUxPageTable_ready_witness:
  "\<exists>s'. InitUxPageTable (quieten ex_os) 8 0x2000 0x1000 ex_st0 = Some (PM_OK, s') \<and>
        upt_ok s' 8 ex_table"
proof -
  have t: "ex_table = \<lparr>dataAddr = 0x2000, dataSize = 0x1000, uxpte = table_mmap ex_os (tick ex_st0) 0x2000 0x1000\<rparr>"
    by (simp add: ex_table_def ex_os_def)
  show ?thesis
    using InitUxPageTable_ready [OF _ _ _ _ _ _ _ refl t, of 8 ex_table] ex_fresh
    by (auto simp: ex_st0_def)
qed

text \<open>
  Tearing a table down undoes setting it up: after \<open>InitUxPageTable\<close> and
  \<open>DeinitUxPageTable\<close>, the mapped entries are those from before and the struct is zeroed. If
  the kernel refuses the unmapping, \<open>PM_UNMAP_UXPT_FAIL\<close> is reported and the table stays
  usable.
\<close>

theorem init_deinit_roundtrip:
  assumes sup: "g_supportUxpt s" and u: "uxpt \<noteq> NULL" "upts s uxpt = Some t0"
    and len: "0 < unat len" "unat addr + unat len + 4096 < 2 ^ 64"
    and fresh: "mmap_fresh (table_mmap os (tick s) addr len) (GetUxPageSize addr len) s"
  shows "\<exists>s1. InitUxPageTable (quieten os) uxpt addr len s = Some (PM_OK, s1) \<and>
           (\<exists>s2. DeinitUxPageTable (quieten os) uxpt s1 =
               (if ux_munmap os (tick s1) (table_mmap os (tick s) addr len) (GetUxPageSize addr len) = 0
                then Some (PM_OK, s2) else Some (PM_UNMAP_UXPT_FAIL, s1\<lparr>tick := Suc (tick s1)\<rparr>)) \<and>
               ptes s2 = ptes s \<and>
               upts s2 = (upts s)(uxpt \<mapsto> \<lparr>dataAddr = 0, dataSize = 0, uxpte = NULL\<rparr>))"
proof -
  let ?p = "table_mmap os (tick s) addr len" and ?sz = "GetUxPageSize addr len"
  define t where "t = \<lparr>dataAddr = addr, dataSize = len, uxpte = ?p\<rparr>"
  obtain s1 where init: "InitUxPageTable (quieten os) uxpt addr len s = Some (PM_OK, s1)"
    and upts1: "upts s1 = (upts s)(uxpt \<mapsto> t)" and sup1: "g_supportUxpt s1"
    and out: "\<And>a. \<not> in_mapping ?p ?sz a \<Longrightarrow> ptes s1 a = ptes s a"
    using Init_effect [OF sup u len refl fresh t_def] by blast
  have p: "?p \<noteq> NULL" "\<And>a. in_mapping ?p ?sz a \<Longrightarrow> ptes s a = None"
    using fresh by (simp_all add: mmap_fresh_def)
  define s2 where "s2 = s1\<lparr>tick := Suc (tick s1),
      ptes := (\<lambda>a. if in_mapping ?p ?sz a then None else ptes s1 a),
      upts := (upts s1)(uxpt \<mapsto> \<lparr>dataAddr = 0, dataSize = 0, uxpte = NULL\<rparr>)\<rparr>"
  have "DeinitUxPageTable (quieten os) uxpt s1 =
      (if ux_munmap os (tick s1) ?p ?sz = 0 then Some (PM_OK, s2)
       else Some (PM_UNMAP_UXPT_FAIL, s1\<lparr>tick := Suc (tick s1)\<rparr>))"
    using Deinit_effect [OF sup1 u(1), of t os] upts1 p(1) by (simp add: s2_def t_def)
  moreover have "ptes s2 = ptes s" using out p(2) by (auto simp: s2_def)
  moreover have "upts s2 = (upts s)(uxpt \<mapsto> \<lparr>dataAddr = 0, dataSize = 0, uxpte = NULL\<rparr>)"
    using upts1 by (simp add: s2_def)
  ultimately show ?thesis using init by blast
qed

theorem init_deinit_roundtrip_witness:
  "\<exists>s1 s2. InitUxPageTable (quieten ex_os) 8 0x2000 0x1000 ex_st0 = Some (PM_OK, s1) \<and>
           DeinitUxPageTable (quieten ex_os) 8 s1 = Some (PM_OK, s2) \<and> ptes s2 = Map.empty"
proof -
  have ok: "ux_munmap ex_os n p sz = 0" for n p sz by (simp add: ex_os_def)
  show ?thesis
    using init_deinit_roundtrip [OF _ _ _ _ _ ex_fresh, of 8 ex_table]
    by (auto simp: ok ex_st0_def)
qed

section \<open>Under interference\<close>

text \<open>
  \<open>UxpteSub\<close> is atomic whatever other threads and the kernel do meanwhile: there is one
  moment of the history at which the entry has some value and is replaced by that value minus
  the decrement; everything else that happened was done by others. And it returns: if the entry
  stays mapped and the others leave the table alone after some finite number of accesses, which
  may be disturbed arbitrarily, the retry loop ends.
\<close>

theorem UxpteSub_atomic:
  "(UxpteSub os pte dec s = Some s' \<longrightarrow>
      (\<exists>s1 v. evolves os s s1 \<and> ptes s1 pte = Some v \<and> s' = s1\<lparr>ptes := (ptes s1)(pte \<mapsto> v - dec)\<rparr>)) \<and>
   (settles os N pte \<and> ptes s pte \<noteq> None \<longrightarrow> (\<exists>s''. UxpteSub os pte dec s = Some s''))"
  using UxpteSub_effect [of os pte dec s s'] UxpteSub_returns [of os N pte s dec] by (auto simp: sub_effect_def)

text \<open>An environment in which somebody else takes a reference between the load and the swap.\<close>

definition busy_os :: uxpt_os where
  "busy_os = ex_os\<lparr>ux_sched := (\<lambda>n s. if n = 1 then s\<lparr>ptes := (ptes s)(0x10010 \<mapsto> 3)\<rparr> else s)\<rparr>"

lemma busy_settles: "settles busy_os 2 0x10010"
  by (simp add: settles_def busy_os_def)

lemma busy_mapped: "ptes ex_st 0x10010 \<noteq> None"
  by (simp add: ex_st_def ex_ptes_def in_mapping_def)

lemma busy_sub: "UxpteSub busy_os 0x10010 2 ex_st =
    Some (ex_st\<lparr>tick := 4, ptes := (ptes ex_st)(0x10010 \<mapsto> 1)\<rparr>)"
proof -
  have v: "ptes ex_st 0x10010 = Some 1" "tick ex_st = 0"
    by (simp_all add: ex_st_def ex_ptes_def in_mapping_def)
  show ?thesis
    by (subst UxpteSub.simps, subst UxpteSub.simps)
      (simp add: UxpteLoad_def UxpteCAS_def interfere_def busy_os_def v)
qed

theorem UxpteSub_atomic_witness:
  "(\<exists>s'. UxpteSub busy_os 0x10010 2 ex_st = Some s') \<and>
   (\<exists>s1 v. evolves busy_os ex_st s1 \<and> ptes s1 0x10010 = Some v \<and>
          ex_st\<lparr>tick := 4, ptes := (ptes ex_st)(0x10010 \<mapsto> 1)\<rparr> =
          s1\<lparr>ptes := (ptes s1)(0x10010 \<mapsto> v - 2)\<rparr>)"
  using UxpteSub_atomic [of busy_os "0x10010" 2 ex_st _ 2] busy_sub busy_settles busy_mapped by blast

text \<open>
  C25. \<open>UxpteAdd\<close>, under any interference, ends in one of three ways at one moment of the
  history: it takes the reference on the value the entry has then; the counter is full and
  nothing is written; or the entry is under reclaim at that moment and is overwritten by 0 or by
  a value computed from an earlier state, so that no reference is taken. And it returns, under
  the condition of \<open>UxpteSub\<close>.
\<close>

theorem UxpteAdd_atomic:
  "(UxpteAdd os pte inc s = Some s' \<longrightarrow>
      (\<exists>s1 v. evolves os s s1 \<and> ptes s1 pte = Some v \<and>
         (if v = UXPTE_UNDER_RECLAIM then
            \<exists>m. s' = s1\<lparr>ptes := (ptes s1)(pte \<mapsto> m)\<rparr> \<and>
                (m = 0 \<or> (\<exists>s0 v0. evolves os s s0 \<and> ptes s0 pte = Some v0 \<and> m = v0 + inc))
          else if 2 ^ 64 \<le> unat v + unat inc then s' = s1
          else s' = s1\<lparr>ptes := (ptes s1)(pte \<mapsto> v + inc)\<rparr>))) \<and>
   (settles os N pte \<and> ptes s pte \<noteq> None \<longrightarrow> (\<exists>s''. UxpteAdd os pte inc s = Some s''))"
  using UxpteAdd_loop_effect [of os pte inc 0 s s'] UxpteAdd_loop_returns [of os N pte s inc 0]
  by (simp add: UxpteAdd_def add_effect_def)

theorem UxpteAdd_atomic_witness:
  "(\<exists>s'. UxpteAdd busy_os 0x10010 2 ex_st = Some s') \<and>
   (\<exists>s1 v. evolves busy_os ex_st s1 \<and> ptes s1 0x10010 = Some v)"
  using UxpteAdd_atomic [of busy_os "0x10010" 2 ex_st _ 2] busy_settles busy_mapped by blast

text \<open>
  The wait for a reclaim does not wait: pinning an entry that is under reclaim, with nobody
  else active, erases the reclaim mark (the entry becomes 0) and returns without a reference; the
  matching unpin then underflows the counter back to the reclaim mark.
\<close>

theorem pin_under_reclaim:
  assumes "ptes s pte = Some UXPTE_UNDER_RECLAIM"
  shows "\<exists>k k'. UxpteAdd (quieten os) pte UXPTE_REFCNT_ONE s =
             Some (s\<lparr>tick := k, ptes := (ptes s)(pte \<mapsto> 0)\<rparr>) \<and>
           UxpteSub (quieten os) pte UXPTE_REFCNT_ONE (s\<lparr>tick := k, ptes := (ptes s)(pte \<mapsto> 0)\<rparr>) =
             Some (s\<lparr>tick := k', ptes := (ptes s)(pte \<mapsto> UXPTE_UNDER_RECLAIM)\<rparr>)"
proof -
  obtain k where "UxpteAdd (quieten os) pte 2 s = Some (s\<lparr>tick := k, ptes := (ptes s)(pte \<mapsto> 0)\<rparr>)"
    using UxpteAdd_quiet [OF assms, of os] by (auto simp: uxpte_inc_def)
  moreover obtain k' where "UxpteSub (quieten os) pte 2 (s\<lparr>tick := k, ptes := (ptes s)(pte \<mapsto> 0)\<rparr>) =
      Some (s\<lparr>tick := k', ptes := (ptes s)(pte \<mapsto> - 2)\<rparr>)"
    using UxpteSub_quiet [of "s\<lparr>tick := k, ptes := (ptes s)(pte \<mapsto> 0)\<rparr>" pte 0 os]
    by (auto simp: uxpte_dec_def)
  ultimately show ?thesis by auto
qed

definition reclaim_st :: uxpt_st where
  "reclaim_st = ex_st\<lparr>ptes := (ptes ex_st)(0x10010 \<mapsto> UXPTE_UNDER_RECLAIM)\<rparr>"

theorem pin_under_reclaim_witness:
  "\<exists>s'. UxpteAdd (quieten ex_os) 0x10010 UXPTE_REFCNT_ONE reclaim_st = Some s' \<and>
        ptes s' 0x10010 = Some 0"
proof -
  have "ptes reclaim_st 0x10010 = Some UXPTE_UNDER_RECLAIM" by (simp add: reclaim_st_def)
  from pin_under_reclaim [OF this, of ex_os] show ?thesis by auto
qed

section \<open>Many threads\<close>

text \<open>
  C20. For any number of threads (below \<open>2 ^ 62\<close>) pinning and unpinning one page in any
  interleaving of their loads and compare-and-swaps, with page faults in between but no reclaim
  in progress, the reference count of the entry is exactly the number of threads that hold the
  page.
\<close>

theorem refcount_counts_holders:
  assumes "pin_reach False n s" "n < 2 ^ 62"
  shows "uxpte_refcnt (cell s) = holders n s"
  using pin_reach_inv [OF assms] by (simp add: pin_inv_def)

definition one_pinned :: pin_sys where
  "one_pinned = pin_init\<lparr>cell := 2, pcs := (pcs pin_init)(0 := Held)\<rparr>"

lemma pin_thread_step:
  assumes "pin_reach rec n s" "i < n" "thread_step (pcs s i) (cell s) = (pc', c')"
    "s' = s\<lparr>cell := c', pcs := (pcs s)(i := pc')\<rparr>"
  shows "pin_reach rec n s'"
  using assms pin_reach.step [OF assms(1) pin_step.thread [OF assms(2,3)]] by simp

lemma one_pinned_reachable: "pin_reach False 2 one_pinned"
proof -
  have 1: "pin_reach False 2 (pin_init\<lparr>pcs := (pcs pin_init)(0 := GetLoad 0)\<rparr>)"
    by (rule pin_thread_step [OF pin_reach.start, of 0]) (auto simp: pin_init_def)
  have 2: "pin_reach False 2 (pin_init\<lparr>pcs := (pcs pin_init)(0 := GetCas 0 2)\<rparr>)"
    by (rule pin_thread_step [OF 1, of 0]) (auto simp: pin_init_def IsUxpteUnderReclaim_def)
  show ?thesis
    by (rule pin_thread_step [OF 2, of 0]) (auto simp: pin_init_def one_pinned_def)
qed

theorem refcount_counts_holders_witness:
  "pin_reach False 2 one_pinned \<and> holders 2 one_pinned = 1"
  using one_pinned_reachable refcount_counts_holders [OF one_pinned_reachable]
  by (simp add: one_pinned_def uxpte_refcnt_def)

text \<open>
  C26. With reclaim in play the guarantee is lost: there is an interleaving of one thread and the
  kernel after which the thread's pin has returned although the entry counts no reference, and
  from which the kernel may start to reclaim the page the thread relies on.
\<close>

theorem pinned_page_reclaimable:
  "\<exists>s s'. pin_reach True 1 s \<and> pcs s 0 = Held \<and> uxpte_refcnt (cell s) = 0 \<and>
          pin_step True 1 s s' \<and> pcs s' 0 = Held \<and> IsUxpteUnderReclaim (cell s')"
proof -
  let ?s0 = "pin_init\<lparr>cell := - 2\<rparr>"
  have 0: "pin_reach True 1 ?s0"
    using pin_reach.step [OF pin_reach.start pin_step.reclaim, of True 1] by (simp add: pin_init_def)
  have 1: "pin_reach True 1 (?s0\<lparr>pcs := (pcs ?s0)(0 := GetLoad 0)\<rparr>)"
    by (rule pin_thread_step [OF 0, of 0]) (auto simp: pin_init_def)
  have 2: "pin_reach True 1 (?s0\<lparr>pcs := (pcs ?s0)(0 := GetCas (- 2) 0)\<rparr>)"
    by (rule pin_thread_step [OF 1, of 0]) (auto simp: pin_init_def IsUxpteUnderReclaim_def)
  let ?s = "pin_init\<lparr>pcs := (pcs pin_init)(0 := Held)\<rparr>"
  have 3: "pin_reach True 1 ?s"
    by (rule pin_thread_step [OF 2, of 0]) (auto simp: pin_init_def)
  have "pin_step True 1 ?s (?s\<lparr>cell := UXPTE_UNDER_RECLAIM\<rparr>)"
    by (rule pin_step.reclaim) (simp_all add: pin_init_def)
  with 3 show ?thesis
    by (intro exI [of _ ?s] exI [of _ "?s\<lparr>cell := UXPTE_UNDER_RECLAIM\<rparr>"])
      (simp add: pin_init_def uxpte_refcnt_def IsUxpteUnderReclaim_def)
qed

end
