(* ===== verification/Builder_Props.thy ===== *)
theory Builder_Props
  imports Purg_Builder Ux_Props
begin

text \<open>
  The properties of the builder chain, of the table of state names and of the detection of kernel
  support.
\<close>

section \<open>Builders\<close>

definition two_nodes :: bheap where
  "two_nodes = [0x50 \<mapsto> \<lparr>nextBuilder = 0x60, Build = Some (\<lambda>d q. (True, map (\<lambda>b. b + 1) d)), bparam = 0, bname = None\<rparr>,
                0x60 \<mapsto> \<lparr>nextBuilder = NULL, Build = Some (\<lambda>d q. (True, map (\<lambda>b. b * 2) d)), bparam = 0, bname = None\<rparr>]"

definition two_steps :: "mod_step list" where
  "two_steps = [(\<lambda>d q. (True, map (\<lambda>b. b + 1) d), 0), (\<lambda>d q. (True, map (\<lambda>b. b * 2) d), 0)]"

lemma two_chain: "heap_chain two_nodes 0x50 {0x50, 0x60} two_steps"
  unfolding heap_chain_def
  by (intro exI [of _ "[0x50, 0x60]"]) (simp add: bchain_Cons two_nodes_def two_steps_def)

text \<open>
  C31. \<open>PurgMemBuilderBuildAll\<close> on a chain of builders returns, and its verdict and the content
  it leaves are those of replaying the logged functions in order up to the first that fails.
\<close>

theorem build_all_replays:
  assumes "heap_chain h b A xs" "b \<noteq> NULL"
  shows "PurgMemBuilderBuildAll b data h = Some (run_steps xs data)"
  by (rule purg_builder.build_all [OF assms])

theorem build_all_replays_witness:
  "PurgMemBuilderBuildAll 0x50 [3] two_nodes = Some (True, [8])"
  using build_all_replays [OF two_chain, of "[3]"] by (simp add: two_steps_def)

text \<open>
  \<open>PurgMemBuilderAppendFunc\<close> logs one more function at the end of the chain and
  \<open>PurgMemBuilderAppendBuilder\<close> a whole chain: if the log reproduced content \<open>d\<close> and the new
  part turns \<open>d\<close> into \<open>d'\<close>, then replaying the chain afterwards gives \<open>d'\<close>. No node but the
  new one is allocated or freed.
\<close>

theorem append_extends_log:
  assumes ch: "heap_chain h b A xs" "b \<noteq> NULL" and run: "run_steps xs z = (True, d)"
  shows "(newp \<noteq> NULL \<and> h newp = None \<and> f d q = (True, d') \<longrightarrow>
            (\<exists>h'. PurgMemBuilderAppendFunc newp b (Some f) q nm h = Some (True, h') \<and>
               heap_chain h' b (insert newp A) (xs @ [(f, q)]) \<and> dom h' = insert newp (dom h) \<and>
               PurgMemBuilderBuildAll b z h' = Some (True, d'))) \<and>
         (heap_chain h c C ys \<and> c \<noteq> NULL \<and> A \<inter> C = {} \<and> run_steps ys d = (True, d') \<longrightarrow>
            (\<exists>h'. PurgMemBuilderAppendBuilder b c h = Some (True, h') \<and> PurgMemBuilderBuildAll b z h' = Some (True, d')))"
proof (intro conjI impI; elim conjE)
  assume new: "newp \<noteq> NULL" "h newp = None" and f: "f d q = (True, d')"
  let ?h = "h(newp \<mapsto> \<lparr>nextBuilder = NULL, Build = Some f, bparam = q, bname = nm\<rparr>)"
  note fresh = heap_chain_new(1,2) [OF ch(1) new(2,1), of f q nm] heap_chain_new(3) [OF ch(1) new(2,1)]
  obtain h' where h': "PurgMemBuilderAppendBuilder b newp ?h = Some (True, h')"
    "heap_chain h' b (A \<union> {newp}) (xs @ [(f, q)])" "dom h' = dom ?h"
    using purg_builder.append_to [OF fresh(1,2) ch(2) new(1)] fresh(3) by auto
  have "PurgMemBuilderAppendFunc newp b (Some f) q nm h = PurgMemBuilderAppendBuilder b newp ?h"
    using ch(2) new(1)
    by (simp add: PurgMemBuilderAppendFunc_def PurgMemBuilderAppendBuilder_def PurgMemBuilderCreate_def)
  moreover have "PurgMemBuilderBuildAll b z h' = Some (True, d')"
    using purg_builder.build_all [OF h'(2) ch(2)] run f by (simp add: run_steps_append)
  ultimately show "\<exists>h'. PurgMemBuilderAppendFunc newp b (Some f) q nm h = Some (True, h') \<and>
      heap_chain h' b (insert newp A) (xs @ [(f, q)]) \<and> dom h' = insert newp (dom h) \<and>
      PurgMemBuilderBuildAll b z h' = Some (True, d')"
    using h' by auto
next
  assume "heap_chain h c C ys" "c \<noteq> NULL" "A \<inter> C = {}" "run_steps ys d = (True, d')"
  then show "\<exists>h'. PurgMemBuilderAppendBuilder b c h = Some (True, h') \<and> PurgMemBuilderBuildAll b z h' = Some (True, d')"
    using purg_builder.logged_modification [OF ch(1) _ ch(2) _ _ run] by blast
qed

theorem append_extends_log_witness:
  "\<exists>h'. PurgMemBuilderAppendFunc 0x70 0x50 (Some (\<lambda>d q. (True, rev d))) 0 None two_nodes = Some (True, h') \<and>
        PurgMemBuilderBuildAll 0x50 [3, 4] h' = Some (True, [10, 8])"
proof -
  have run: "run_steps two_steps [3, 4] = (True, [8, 10])" by (simp add: two_steps_def)
  have nn: "(0x50 :: ptr) \<noteq> NULL" by simp
  have "(0x70 :: ptr) \<noteq> NULL \<and> two_nodes 0x70 = None \<and> (\<lambda>d q. (True, rev d)) [8, 10] (0 :: ptr) = (True, [10, 8 :: byte])"
    by (simp add: two_nodes_def)
  then show ?thesis
    using append_extends_log [OF two_chain nn run, of "0x70" "\<lambda>d q. (True, rev d)" 0 "[10, 8]" None]
    by blast
qed

text \<open>
  \<open>PurgMemBuilderDestroy\<close> frees every node of the chain exactly once, returns true, and
  leaves every other node of the heap as it is.
\<close>

theorem destroy_frees_chain:
  assumes "heap_chain h b A xs"
  shows "PurgMemBuilderDestroy b h = Some (True, (\<lambda>a. if a \<in> A then None else h a))"
proof -
  obtain as where as: "bchain h b as xs" "set as = A" using assms by (auto simp: heap_chain_def)
  show ?thesis
    using Destroy_loop_bchain [OF as(1)] as by (cases "b = NULL") (auto simp: PurgMemBuilderDestroy_def)
qed

theorem destroy_frees_chain_witness:
  "PurgMemBuilderDestroy 0x50 two_nodes = Some (True, Map.empty)"
  using destroy_frees_chain [OF two_chain] by (simp add: two_nodes_def fun_eq_iff)

section \<open>State names\<close>

text \<open>
  \<open>GetPMStateName\<close> answers every state with its own entry of the name table, different
  states with different names, and every number outside the table with the string for an
  unknown state.
\<close>

theorem state_names:
  "map (\<lambda>st. GetPMStateName (PMState_code st)) PMState_list = PMStateNames @ [''NONE''] \<and>
   distinct (PMStateNames @ [''NONE'']) \<and>
   (GetPMStateName i = ''NONE'') = (i < 0 \<or> 21 \<le> i) \<and>
   (GetPMStateName (PMState_code st) = ''NONE'') = (PM_ERR_TYPES \<le> st)"
proof -
  have "map (\<lambda>st. GetPMStateName (PMState_code st)) PMState_list = PMStateNames @ [''NONE'']"
    by (simp add: PMState_list_def GetPMStateName_def PMStateNames_def)
  moreover have none: "(GetPMStateName i = ''NONE'') = (i < 0 \<or> 21 \<le> i)" for i
    using GetPMStateName_in_table [of i] distinct_PMStateNames
    by (cases "i < 0 \<or> 21 \<le> i") (auto simp: GetPMStateName_def)
  moreover have "distinct (PMStateNames @ [''NONE''])" using distinct_PMStateNames by simp
  moreover have "(PMState_code st < 0 \<or> 21 \<le> PMState_code st) = (PM_ERR_TYPES \<le> st)"
    using PMState_code_range [of st] by (auto simp: less_eq_PMState_def)
  ultimately show ?thesis by simp
qed

section \<open>Kernel support\<close>

text \<open>
  The load-time probe \<open>CheckUxpt\<close> finds support exactly if the kernel grants both the
  purgeable page and the table page; a granted table page is unmapped again, so that no entry is
  left or lost. Without support the operations on tables (enabled, set up, tear down, get, put, clear,
  present) do nothing and pages count as present, exactly as in the build without tables; only the
  size of a table struct, which callers allocate, is 24 in one build and 0 in the other.
\<close>

theorem support_detection:
  assumes d: "d = ux_mmap os (tick s) PAGE_SIZE PROT_RW (MAP_ANONYMOUS OR MAP_PURGEABLE) 0"
    and q: "q = table_mmap os (Suc (tick s)) d PAGE_SIZE"
    and fresh: "q \<noteq> MAP_FAILED \<Longrightarrow> mmap_fresh q (GetUxPageSize d PAGE_SIZE) s"
    and un: "\<And>n p sz. ux_munmap os n p sz = 0"
  shows "UxpteIsEnabled (CheckUxpt os s) = (d \<noteq> MAP_FAILED \<and> q \<noteq> MAP_FAILED) \<and>
         ptes (CheckUxpt os s) = ptes s \<and> upts (CheckUxpt os s) = upts s \<and>
         (\<not> UxpteIsEnabled s' \<longrightarrow>
            UxpteIsEnabled s' = NoUxpt_UxpteIsEnabled \<and> UxpteClear os u a l s' = Some s' \<and>
            UxpteGet os u a l s' = Some (NoUxpt_UxpteGet u a l s') \<and>
            UxptePut os u a l s' = Some (NoUxpt_UxptePut u a l s') \<and>
            UxpteIsPresent os u a l s' = Some (NoUxpt_UxpteIsPresent u a l s') \<and>
            InitUxPageTable os u a l s' = Some (NoUxpt_InitUxPageTable u a l s') \<and>
            DeinitUxPageTable os u s' = Some (NoUxpt_DeinitUxPageTable u s')) \<and>
         UxPageTableSize = 24 \<and> NoUxpt_UxPageTableSize = 0"
proof -
  have gone: "(\<lambda>a. if in_mapping q (GetUxPageSize d PAGE_SIZE) a then None else ptes s a) = ptes s" if "q \<noteq> MAP_FAILED"
    using fresh [OF that] by (auto simp: mmap_fresh_def)
  have "CheckUxpt os s =
      (if d = MAP_FAILED then s\<lparr>tick := Suc (tick s), g_supportUxpt := False\<rparr>
       else if q = MAP_FAILED then s\<lparr>tick := Suc (Suc (Suc (tick s))), g_supportUxpt := False\<rparr>
       else s\<lparr>tick := Suc (Suc (Suc (Suc (tick s)))), g_supportUxpt := True\<rparr>)"
    using gone
    by (simp add: CheckUxpt_def mmap_uxpt_def munmap_uxpt_def Let_def un d [symmetric] q [symmetric] cong: if_cong)
  then show ?thesis
    by (auto simp: UxpteIsEnabled_def UxpteGet_def UxptePut_def UxpteClear_def UxpteIsPresent_def
        InitUxPageTable_def DeinitUxPageTable_def NoUxpt_UxpteIsEnabled_def NoUxpt_UxpteGet_def NoUxpt_UxptePut_def
        NoUxpt_UxpteIsPresent_def NoUxpt_InitUxPageTable_def NoUxpt_DeinitUxPageTable_def UxPageTableSize_def
        NoUxpt_UxPageTableSize_def)
qed

theorem support_detection_witness:
  "UxpteIsEnabled (CheckUxpt ex_os ex_st0) \<and> ptes (CheckUxpt ex_os ex_st0) = Map.empty"
proof -
  have d: "0x10000 = ux_mmap ex_os (tick ex_st0) PAGE_SIZE PROT_RW (MAP_ANONYMOUS OR MAP_PURGEABLE) 0"
    and q: "0x10000 = table_mmap ex_os (Suc (tick ex_st0)) 0x10000 PAGE_SIZE" by (simp_all add: ex_os_def)
  have "GetUxPageSize 0x10000 PAGE_SIZE = 0x1000"
    by (simp add: GetUxPageSize_def UxptePageNo_def VirtPageNo_def PAGE_SHIFT_def PAGE_SIZE_eq)
  then have fresh: "mmap_fresh 0x10000 (GetUxPageSize 0x10000 PAGE_SIZE) ex_st0"
    by (simp add: mmap_fresh_def ex_st0_def)
  have un: "ux_munmap ex_os n p sz = 0" for n p sz by (simp add: ex_os_def)
  show ?thesis using support_detection [OF d q fresh un] by (simp add: ex_st0_def)
qed

end
