(* ===== verification/Purgeable_Mem.thy ===== *)
theory Purgeable_Mem
  imports Ux_Page_Table Purg_Builder
begin

text \<open>
  The purgeable memory objects of \<open>c/src/purgeable_mem_c.c\<close>. The state is the page table
  component, the heap of builders, the mapped data regions (base address to bytes) and the heap
  of \<open>struct PurgMem\<close>. The C library and the kernel answer through the parameter \<open>pm_os\<close>;
  \<open>os_sched\<close> is what other threads and the kernel do to the whole state before the caller
  obtains or releases a lock. Helpers that only need the memory are stated for every extension of
  \<open>world\<close>, so that the C++ classes share them. A lock that is granted while it is held in a conflicting mode
  blocks for good (\<open>None\<close>), unless \<open>os_sched\<close> released it.
\<close>

section \<open>State and environment\<close>

record rwlock_t =
  rl_readers :: nat
  rl_writer :: bool

record PurgMem =
  dataPtr :: ptr
  dataSizeInput :: size_t
  builder :: ptr
  uxPageTable :: ptr
  rwlock :: rwlock_t
  buildDataCount :: c_uint

record world =
  ux :: uxpt_st
  builders :: bheap
  regions :: "ptr \<Rightarrow> byte list option"
  objs :: "ptr \<Rightarrow> PurgMem option"

text \<open>
  \<open>os_malloc\<close>: the pointer of the n-th call (the sizes play no role); \<open>os_junk\<close>,
  \<open>os_junk_upt\<close>: the contents of uninitialised memory; \<open>os_mmap\<close>, \<open>os_munmap\<close>: data
  mappings; \<open>os_touch\<close>: what the kernel does to the page table when the data region is
  accessed; the return codes of the pthread calls; \<open>os_memset_s\<close>: the function of the
  bounds-checking library (buffer, destMax, c, count).
\<close>

record pm_os =
  uxos :: uxpt_os
  os_sched :: "nat \<Rightarrow> world \<Rightarrow> world"
  os_malloc :: "nat \<Rightarrow> ptr"
  os_junk :: "nat \<Rightarrow> PurgMem"
  os_junk_upt :: "nat \<Rightarrow> UxPageTableStruct"
  os_mmap :: "nat \<Rightarrow> size_t \<Rightarrow> c_uint \<Rightarrow> c_uint \<Rightarrow> ptr"
  os_munmap :: "nat \<Rightarrow> ptr \<Rightarrow> size_t \<Rightarrow> int"
  os_touch :: "nat \<Rightarrow> ptr \<Rightarrow> uxpt_st \<Rightarrow> uxpt_st"
  os_lock_init :: "nat \<Rightarrow> int"
  os_rdlock :: "nat \<Rightarrow> int"
  os_wrlock :: "nat \<Rightarrow> int"
  os_unlock :: "nat \<Rightarrow> int"
  os_memset_s :: "byte list \<Rightarrow> size_t \<Rightarrow> byte \<Rightarrow> size_t \<Rightarrow> int \<times> byte list"

definition now :: "'a world_scheme \<Rightarrow> nat" where
  "now w = tick (ux w)"

definition bump :: "'a world_scheme \<Rightarrow> 'a world_scheme" where
  "bump w = w\<lparr>ux := (ux w)\<lparr>tick := Suc (now w)\<rparr>\<rparr>"

definition winterfere :: "pm_os \<Rightarrow> world \<Rightarrow> world" where
  "winterfere os w = (let w1 = os_sched os (now w) w in w1\<lparr>ux := (ux w1)\<lparr>tick := Suc (now w)\<rparr>\<rparr>)"

definition lift_ux ::
  "(uxpt_st \<Rightarrow> ('r \<times> uxpt_st) option) \<Rightarrow> 'a world_scheme \<Rightarrow> ('r \<times> 'a world_scheme) option" where
  "lift_ux f w = do { (r, s) \<leftarrow> f (ux w); Some (r, w\<lparr>ux := s\<rparr>) }"

definition lift_ux_unit ::
  "(uxpt_st \<Rightarrow> uxpt_st option) \<Rightarrow> 'a world_scheme \<Rightarrow> 'a world_scheme option" where
  "lift_ux_unit f w = do { s \<leftarrow> f (ux w); Some (w\<lparr>ux := s\<rparr>) }"

definition set_obj :: "ptr \<Rightarrow> PurgMem \<Rightarrow> world \<Rightarrow> world" where
  "set_obj p ob w = w\<lparr>objs := (objs w)(p \<mapsto> ob)\<rparr>"

definition free_obj :: "ptr \<Rightarrow> world \<Rightarrow> world" where
  "free_obj p w = w\<lparr>objs := (objs w)(p := None)\<rparr>"

definition free_upt :: "ptr \<Rightarrow> 'a world_scheme \<Rightarrow> 'a world_scheme" where
  "free_upt u w = w\<lparr>ux := (ux w)\<lparr>upts := (upts (ux w))(u := None)\<rparr>\<rparr>"

section \<open>The read-write lock of an object\<close>

definition pthread_rwlock_rdlock :: "pm_os \<Rightarrow> ptr \<Rightarrow> world \<Rightarrow> (int \<times> world) option" where
  "pthread_rwlock_rdlock os p w =
     (let rc = os_rdlock os (now w); w1 = winterfere os w in
      do {
        ob \<leftarrow> objs w1 p;
        if rc \<noteq> 0 then Some (rc, w1)
        else if rl_writer (rwlock ob) then None
        else Some (0, set_obj p (ob\<lparr>rwlock := (rwlock ob)\<lparr>rl_readers := Suc (rl_readers (rwlock ob))\<rparr>\<rparr>) w1)
      })"

definition pthread_rwlock_wrlock :: "pm_os \<Rightarrow> ptr \<Rightarrow> world \<Rightarrow> (int \<times> world) option" where
  "pthread_rwlock_wrlock os p w =
     (let rc = os_wrlock os (now w); w1 = winterfere os w in
      do {
        ob \<leftarrow> objs w1 p;
        if rc \<noteq> 0 then Some (rc, w1)
        else if rl_writer (rwlock ob) \<or> rl_readers (rwlock ob) \<noteq> 0 then None
        else Some (0, set_obj p (ob\<lparr>rwlock := (rwlock ob)\<lparr>rl_writer := True\<rparr>\<rparr>) w1)
      })"

definition pthread_rwlock_unlock :: "pm_os \<Rightarrow> ptr \<Rightarrow> world \<Rightarrow> (int \<times> world) option" where
  "pthread_rwlock_unlock os p w =
     (let rc = os_unlock os (now w); w1 = winterfere os w in
      do {
        ob \<leftarrow> objs w1 p;
        if rc \<noteq> 0 then Some (rc, w1)
        else if rl_writer (rwlock ob)
          then Some (0, set_obj p (ob\<lparr>rwlock := (rwlock ob)\<lparr>rl_writer := False\<rparr>\<rparr>) w1)
        else if rl_readers (rwlock ob) = 0 then None
        else Some (0, set_obj p (ob\<lparr>rwlock := (rwlock ob)\<lparr>rl_readers := rl_readers (rwlock ob) - 1\<rparr>\<rparr>) w1)
      })"

section \<open>Helpers of the source\<close>

definition PurgMem_RoundUp :: "size_t \<Rightarrow> size_t \<Rightarrow> size_t" where
  "PurgMem_RoundUp val algn =
     (if val + algn < val \<or> val + algn < algn then val
      else if algn = 0 then val
      else ((val + algn - 1) div algn) * algn)"

definition TypeCast :: "'a world_scheme \<Rightarrow> c_uint" where
  "TypeCast w =
     MAP_ANONYMOUS OR (if UxpteIsEnabled (ux w) then MAP_PURGEABLE else MAP_PRIVATE)"

definition IsPurgMemPtrValid :: "ptr \<Rightarrow> world \<Rightarrow> bool option" where
  "IsPurgMemPtrValid p w =
     IF_NULL_LOG_ACTION (p = NULL) (Some False)
     (do {
        ob \<leftarrow> objs w p;
        IF_NULL_LOG_ACTION (dataPtr ob = NULL) (Some False)
        (IF_NULL_LOG_ACTION (uxPageTable ob = NULL) (Some False)
         (IF_NULL_LOG_ACTION (builder ob = NULL) (Some False)
          (Some True)))
      })"

definition IsPurged :: "pm_os \<Rightarrow> ptr \<Rightarrow> world \<Rightarrow> (bool \<times> world) option" where
  "IsPurged os p w =
     do {
       ob \<leftarrow> objs w p;
       if buildDataCount ob = 0 then Some (True, w)
       else do {
         (present, w1) \<leftarrow> lift_ux (UxpteIsPresent (uxos os) (uxPageTable ob) (dataPtr ob) (dataSizeInput ob)) w;
         Some (\<not> present, w1)
       }
     }"

text \<open>Pinning and unpinning the content of an object, as every caller writes it.\<close>

definition obj_UxpteGet :: "pm_os \<Rightarrow> ptr \<Rightarrow> world \<Rightarrow> world option" where
  "obj_UxpteGet os p w =
     do {
       ob \<leftarrow> objs w p;
       lift_ux_unit (UxpteGet (uxos os) (uxPageTable ob) (dataPtr ob) (dataSizeInput ob)) w
     }"

definition obj_UxptePut :: "pm_os \<Rightarrow> ptr \<Rightarrow> world \<Rightarrow> world option" where
  "obj_UxptePut os p w =
     do {
       ob \<leftarrow> objs w p;
       lift_ux_unit (UxptePut (uxos os) (uxPageTable ob) (dataPtr ob) (dataSizeInput ob)) w
     }"

text \<open>The content of an object changes: new bytes in its region, which the kernel notices.\<close>

definition store_data :: "pm_os \<Rightarrow> ptr \<Rightarrow> byte list \<Rightarrow> 'a world_scheme \<Rightarrow> 'a world_scheme" where
  "store_data os d bs w =
     bump (w\<lparr>regions := (regions w)(d \<mapsto> bs), ux := os_touch os (now w) d (ux w)\<rparr>)"

section \<open>Rebuilding\<close>

definition PurgMemBuildData :: "pm_os \<Rightarrow> ptr \<Rightarrow> world \<Rightarrow> (bool \<times> world) option" where
  "PurgMemBuildData os p w =
     do {
       ob \<leftarrow> objs w p;
       bs \<leftarrow> regions w (dataPtr ob);
       let n = unat (dataSizeInput ob);
           (rc, bs1) = os_memset_s os bs (PurgMem_RoundUp (dataSizeInput ob) PAGE_SIZE) 0 (dataSizeInput ob);
           w1 = store_data os (dataPtr ob) bs1 w
       in if rc \<noteq> 0 then Some (False, w1)
          else do {
            (succ, d2) \<leftarrow> PurgMemBuilderBuildAll (builder ob) (take n bs1) (builders w1);
            let w2 = store_data os (dataPtr ob) (d2 @ drop n bs1) w1
            in if succ then Some (True, set_obj p (ob\<lparr>buildDataCount := buildDataCount ob + 1\<rparr>) w2)
               else Some (False, w2)
          }
     }"

definition TryBeginRead :: "pm_os \<Rightarrow> ptr \<Rightarrow> world \<Rightarrow> (PMState \<times> world) option" where
  "TryBeginRead os p w =
     do {
       (rc, w1) \<leftarrow> pthread_rwlock_rdlock os p w;
       if rc \<noteq> 0 then Some (PM_LOCK_READ_FAIL, w1)
       else do {
         (purged, w2) \<leftarrow> IsPurged os p w1;
         if \<not> purged then Some (PM_DATA_NO_PURGED, w2)
         else do {
           (rc2, w3) \<leftarrow> pthread_rwlock_unlock os p w2;
           if rc2 \<noteq> 0 then Some (PM_UNLOCK_READ_FAIL, w3)
           else Some (PM_DATA_PURGED, w3)
         }
       }
     }"

definition BeginReadBuildData :: "pm_os \<Rightarrow> ptr \<Rightarrow> world \<Rightarrow> (PMState \<times> world) option" where
  "BeginReadBuildData os p w =
     do {
       (rc, w1) \<leftarrow> pthread_rwlock_wrlock os p w;
       if rc \<noteq> 0 then Some (PM_LOCK_WRITE_FAIL, w1)
       else do {
         (purged, w2) \<leftarrow> IsPurged os p w1;
         (rebuildRet, w3) \<leftarrow> (if purged then PurgMemBuildData os p w2 else Some (False, w2));
         (rc2, w4) \<leftarrow> pthread_rwlock_unlock os p w3;
         if rc2 \<noteq> 0 then Some (PM_UNLOCK_WRITE_FAIL, w4)
         else if \<not> rebuildRet then Some (PMB_BUILD_ALL_FAIL, w4)
         else Some (PMB_BUILD_ALL_SUCC, w4)
       }
     }"

partial_function (option) BeginRead_loop :: "pm_os \<Rightarrow> ptr \<Rightarrow> world \<Rightarrow> (bool \<times> world) option" where
  "BeginRead_loop os p w =
     do {
       (err, w1) \<leftarrow> TryBeginRead os p w;
       if err = PM_DATA_NO_PURGED then Some (True, w1)
       else if err \<noteq> PM_DATA_PURGED then Some (False, w1)
       else do {
         (err2, w2) \<leftarrow> BeginReadBuildData os p w1;
         if err2 \<noteq> PMB_BUILD_ALL_SUCC then Some (False, w2)
         else BeginRead_loop os p w2
       }
     }"

definition PurgMemBeginRead :: "pm_os \<Rightarrow> ptr \<Rightarrow> world \<Rightarrow> (bool \<times> world) option" where
  "PurgMemBeginRead os p w =
     do {
       valid \<leftarrow> IsPurgMemPtrValid p w;
       if \<not> valid then Some (False, w)
       else do {
         w1 \<leftarrow> obj_UxpteGet os p w;
         (ret, w2) \<leftarrow> BeginRead_loop os p w1;
         if \<not> ret then do { w3 \<leftarrow> obj_UxptePut os p w2; Some (ret, w3) }
         else Some (ret, w2)
       }
     }"

definition PurgMemBeginWrite :: "pm_os \<Rightarrow> ptr \<Rightarrow> world \<Rightarrow> (bool \<times> world) option" where
  "PurgMemBeginWrite os p w =
     do {
       valid \<leftarrow> IsPurgMemPtrValid p w;
       if \<not> valid then Some (False, w)
       else do {
         w1 \<leftarrow> obj_UxpteGet os p w;
         (rc, w2) \<leftarrow> pthread_rwlock_wrlock os p w1;
         if rc \<noteq> 0 then do { w3 \<leftarrow> obj_UxptePut os p w2; Some (False, w3) }
         else do {
           (purged, w3) \<leftarrow> IsPurged os p w2;
           if \<not> purged then Some (True, w3)
           else do {
             (rebuildRet, w4) \<leftarrow> PurgMemBuildData os p w3;
             if rebuildRet then Some (True, w4)
             else do {
               (_, w5) \<leftarrow> pthread_rwlock_unlock os p w4;
               w6 \<leftarrow> obj_UxptePut os p w5;
               Some (False, w6)
             }
           }
         }
       }
     }"

definition EndAccessPurgMem :: "pm_os \<Rightarrow> ptr \<Rightarrow> world \<Rightarrow> world option" where
  "EndAccessPurgMem os p w =
     do {
       valid \<leftarrow> IsPurgMemPtrValid p w;
       if \<not> valid then Some w
       else do {
         (_, w1) \<leftarrow> pthread_rwlock_unlock os p w;
         obj_UxptePut os p w1
       }
     }"

definition PurgMemEndRead :: "pm_os \<Rightarrow> ptr \<Rightarrow> world \<Rightarrow> world option" where
  "PurgMemEndRead os p w = EndAccessPurgMem os p w"

definition PurgMemEndWrite :: "pm_os \<Rightarrow> ptr \<Rightarrow> world \<Rightarrow> world option" where
  "PurgMemEndWrite os p w = EndAccessPurgMem os p w"

definition PurgMemGetContent :: "ptr \<Rightarrow> world \<Rightarrow> ptr option" where
  "PurgMemGetContent p w =
     do {
       valid \<leftarrow> IsPurgMemPtrValid p w;
       if \<not> valid then Some NULL else do { ob \<leftarrow> objs w p; Some (dataPtr ob) }
     }"

definition PurgMemGetContentSize :: "ptr \<Rightarrow> world \<Rightarrow> size_t option" where
  "PurgMemGetContentSize p w =
     do {
       valid \<leftarrow> IsPurgMemPtrValid p w;
       if \<not> valid then Some 0 else do { ob \<leftarrow> objs w p; Some (dataSizeInput ob) }
     }"

section \<open>Logging modifications, creation, destruction\<close>

definition PurgMemAppendModify ::
  "pm_os \<Rightarrow> ptr \<Rightarrow> modify_func option \<Rightarrow> ptr \<Rightarrow> world \<Rightarrow> (bool \<times> world) option" where
  "PurgMemAppendModify os p func funcPara w =
     (case func of
        None \<Rightarrow> Some (True, w)
      | Some f \<Rightarrow>
          IF_NULL_LOG_ACTION (p = NULL) (Some (False, w))
          (do {
            ob \<leftarrow> objs w p;
            bs \<leftarrow> regions w (dataPtr ob);
            let n = unat (dataSizeInput ob);
                (succ, d1) = f (take n bs) funcPara;
                w1 = store_data os (dataPtr ob) (d1 @ drop n bs) w
            in if \<not> succ then Some (False, w1)
               else let (nb, h1) = PurgMemBuilderCreate (os_malloc os (now w1)) func funcPara None (builders w1);
                        w2 = (bump w1)\<lparr>builders := h1\<rparr>
                    in IF_NULL_LOG_ACTION (nb = NULL) (Some (False, w2))
                       (if builder ob = NULL then Some (True, set_obj p (ob\<lparr>builder := nb\<rparr>) w2)
                        else do {
                          (ret, h2) \<leftarrow> PurgMemBuilderAppendBuilder (builder ob) nb (builders w2);
                          Some (ret, w2\<lparr>builders := h2\<rparr>)
                        })
          }))"

text \<open>The error exits of \<open>PurgMemCreate_\<close>, labels \<open>free_pug_obj\<close> and \<open>unmap_data\<close>.\<close>

definition munmap_data ::
  "pm_os \<Rightarrow> ptr \<Rightarrow> size_t \<Rightarrow> 'a world_scheme \<Rightarrow> int \<times> 'a world_scheme" where
  "munmap_data os d sz w =
     (let rc = os_munmap os (now w) d sz; w1 = bump w
      in if rc \<noteq> 0 then (rc, w1) else (rc, w1\<lparr>regions := (regions w1)(d := None)\<rparr>))"

definition unmap_and_free :: "pm_os \<Rightarrow> ptr \<Rightarrow> ptr \<Rightarrow> size_t \<Rightarrow> world \<Rightarrow> world" where
  "unmap_and_free os p d sz w = free_obj p (snd (munmap_data os d sz w))"

definition PurgMemCreate_inner :: "pm_os \<Rightarrow> size_t \<Rightarrow> ptr \<Rightarrow> world \<Rightarrow> (ptr \<times> world) option" where
  "PurgMemCreate_inner os len bld w =
     (let p = os_malloc os (now w); w1 = bump w in
      if p = NULL then Some (NULL, w1)
      else
      let w2 = set_obj p (os_junk os (now w)) w1;
          sz = PurgMem_RoundUp len PAGE_SIZE;
          d = os_mmap os (now w2) sz PROT_RW (TypeCast w2);
          w3 = bump w2
      in if d = MAP_FAILED then Some (NULL, free_obj p w3)
      else
      let w4 = w3\<lparr>regions := (regions w3)(d \<mapsto> replicate (unat sz) 0)\<rparr>;
          u = os_malloc os (now w4);
          w5 = bump w4
      in if u = NULL then Some (NULL, unmap_and_free os p d sz w5)
      else
      let w6 = w5\<lparr>ux := (ux w5)\<lparr>upts := (upts (ux w5))(u \<mapsto> os_junk_upt os (now w4))\<rparr>\<rparr>
      in do {
        (err, w7) \<leftarrow> lift_ux (InitUxPageTable (uxos os) u d sz) w6;
        if err \<noteq> PM_OK then Some (NULL, unmap_and_free os p d sz (free_upt u w7))
        else
        let rc = os_lock_init os (now w7); w8 = bump w7
        in if rc \<noteq> 0 then
             do {
               (_, w9) \<leftarrow> lift_ux (DeinitUxPageTable (uxos os) u) w8;
               Some (NULL, unmap_and_free os p d sz (free_upt u w9))
             }
           else do {
             ob \<leftarrow> objs w8 p;
             Some (p, set_obj p (ob\<lparr>dataPtr := d, dataSizeInput := len, builder := bld,
                                  uxPageTable := u,
                                  rwlock := \<lparr>rl_readers = 0, rl_writer = False\<rparr>,
                                  buildDataCount := 0\<rparr>) w8)
           }
      })"

definition Destroy_builder :: "ptr \<Rightarrow> PMState \<Rightarrow> world \<Rightarrow> (PMState \<times> world) option" where
  "Destroy_builder p err w =
     do {
       ob \<leftarrow> objs w p;
       if builder ob \<noteq> NULL then
         do {
           (ok, h1) \<leftarrow> PurgMemBuilderDestroy (builder ob) (builders w);
           let w1 = w\<lparr>builders := h1\<rparr>
           in if \<not> ok then Some (PMB_DESTORY_FAIL, w1)
              else Some (err, set_obj p (ob\<lparr>builder := NULL\<rparr>) w1)
         }
       else Some (err, w)
     }"

definition Destroy_data :: "pm_os \<Rightarrow> ptr \<Rightarrow> PMState \<Rightarrow> world \<Rightarrow> (PMState \<times> world) option" where
  "Destroy_data os p err w =
     do {
       ob \<leftarrow> objs w p;
       if dataPtr ob \<noteq> NULL then
         let (rc, w1) = munmap_data os (dataPtr ob) (PurgMem_RoundUp (dataSizeInput ob) PAGE_SIZE) w
         in if rc \<noteq> 0 then Some (PM_UNMAP_PURG_FAIL, w1)
            else do {
              (_, w2) \<leftarrow> (if UxpteIsEnabled (ux w1) then IsPurged os p w1 else Some (True, w1));
              ob2 \<leftarrow> objs w2 p;
              Some (err, set_obj p (ob2\<lparr>dataPtr := NULL\<rparr>) w2)
            }
       else Some (err, w)
     }"

definition Destroy_uxpt :: "pm_os \<Rightarrow> ptr \<Rightarrow> PMState \<Rightarrow> world \<Rightarrow> (PMState \<times> world) option" where
  "Destroy_uxpt os p err w =
     do {
       ob \<leftarrow> objs w p;
       if uxPageTable ob \<noteq> NULL then
         do {
           (deinitRet, w1) \<leftarrow> lift_ux (DeinitUxPageTable (uxos os) (uxPageTable ob)) w;
           if deinitRet \<noteq> PM_OK then Some (deinitRet, w1)
           else Some (err, set_obj p (ob\<lparr>uxPageTable := NULL\<rparr>) (free_upt (uxPageTable ob) w1))
         }
       else Some (err, w)
     }"

definition PurgMemDestroy :: "pm_os \<Rightarrow> ptr \<Rightarrow> world \<Rightarrow> (bool \<times> world) option" where
  "PurgMemDestroy os p w =
     IF_NULL_LOG_ACTION (p = NULL) (Some (True, w))
     (do {
        (rc, w1) \<leftarrow> pthread_rwlock_wrlock os p w;
        if rc \<noteq> 0 then Some (False, w1)
        else do {
          (err1, w2) \<leftarrow> Destroy_builder p PM_OK w1;
          (err2, w3) \<leftarrow> Destroy_data os p err1 w2;
          (err3, w4) \<leftarrow> Destroy_uxpt os p err2 w3;
          (_, w5) \<leftarrow> pthread_rwlock_unlock os p w4;
          if err3 = PM_OK then Some (True, free_obj p (bump w5))
          else Some (False, w5)
        }
      })"

definition PurgMemCreate ::
  "pm_os \<Rightarrow> size_t \<Rightarrow> modify_func option \<Rightarrow> ptr \<Rightarrow> world \<Rightarrow> (ptr \<times> world) option" where
  "PurgMemCreate os len func funcPara w =
     (if len = 0 then Some (NULL, w)
      else IF_NULL_LOG_ACTION (func = None) (Some (NULL, w))
      (do {
        (p, w1) \<leftarrow> PurgMemCreate_inner os len NULL w;
        if p = NULL then Some (p, w1)
        else do {
          (ok, w2) \<leftarrow> PurgMemAppendModify os p func funcPara w1;
          if ok then Some (p, w2)
          else do { (_, w3) \<leftarrow> PurgMemDestroy os p w2; Some (NULL, w3) }
        }
      }))"

end
