(* ===== verification/Purg_Seq.thy ===== *)
theory Purg_Seq
  imports Purgeable_Mem Ux_Seq
begin

text \<open>
  Sequential correctness of the purgeable memory objects. \<open>obj_view\<close> describes a state reached
  by operations on one object: relative to a start state, only that object, its region and its
  page table entries may differ. Every helper of the source is shown to take a view to a view;
  the exported operations are then compositions.
\<close>

section \<open>Undisturbed environments\<close>

definition calm :: "pm_os \<Rightarrow> pm_os" where
  "calm os = os\<lparr>uxos := quieten (uxos os), os_sched := (\<lambda>_ w. w)\<rparr>"

lemma calm_simps [simp]:
  "uxos (calm os) = quieten (uxos os)" "os_sched (calm os) = (\<lambda>_ w. w)"
  "os_malloc (calm os) = os_malloc os" "os_junk (calm os) = os_junk os"
  "os_junk_upt (calm os) = os_junk_upt os" "os_mmap (calm os) = os_mmap os"
  "os_munmap (calm os) = os_munmap os" "os_touch (calm os) = os_touch os"
  "os_lock_init (calm os) = os_lock_init os" "os_rdlock (calm os) = os_rdlock os"
  "os_wrlock (calm os) = os_wrlock os" "os_unlock (calm os) = os_unlock os"
  "os_memset_s (calm os) = os_memset_s os"
  by (simp_all add: calm_def)

lemma winterfere_calm [simp]: "winterfere (calm os) w = bump w"
  by (simp add: winterfere_def bump_def now_def Let_def)

lemma bump_simps [simp]:
  "objs (bump w) = objs w" "regions (bump w) = regions w" "builders (bump w) = builders w"
  "ptes (ux (bump w)) = ptes (ux w)" "upts (ux (bump w)) = upts (ux w)"
  "g_supportUxpt (ux (bump w)) = g_supportUxpt (ux w)"
  by (simp_all add: bump_def)

lemma set_obj_simps [simp]:
  "objs (set_obj p ob w) = (objs w)(p \<mapsto> ob)" "regions (set_obj p ob w) = regions w"
  "builders (set_obj p ob w) = builders w" "ux (set_obj p ob w) = ux w"
  by (simp_all add: set_obj_def)

text \<open>
  The kernel notices accesses to the data: it sets the present bit in the entries of the range.
  The bounds-checking \<open>memset_s\<close> clears the buffers of this size. All lock calls succeed.
\<close>

definition touch_ok :: "pm_os \<Rightarrow> UxPageTableStruct \<Rightarrow> bool" where
  "touch_ok os t \<longleftrightarrow>
     (\<forall>n s. os_touch os n (dataAddr t) s =
            s\<lparr>ptes := touch (\<lambda>v. v OR 1) (req_slots t (dataAddr t) (dataSize t)) (ptes s)\<rparr>)"

definition memset_ok :: "pm_os \<Rightarrow> size_t \<Rightarrow> bool" where
  "memset_ok os mx \<longleftrightarrow>
     (\<forall>bs n. length bs = unat mx \<and> unat n \<le> unat mx \<longrightarrow>
             os_memset_s os bs mx 0 n = (0, replicate (unat n) 0 @ drop (unat n) bs))"

definition locks_ok :: "pm_os \<Rightarrow> bool" where
  "locks_ok os \<longleftrightarrow> (\<forall>n. os_rdlock os n = 0 \<and> os_wrlock os n = 0 \<and> os_unlock os n = 0)"

section \<open>Geometry of an object\<close>

lemma PurgMem_RoundUp_eq: "PurgMem_RoundUp = RoundUp"
  by (intro ext) (simp add: PurgMem_RoundUp_def RoundUp_def)

text \<open>The range of an object: page aligned, rounded up to pages, away from the end of memory.\<close>

definition geometry :: "UxPageTableStruct \<Rightarrow> PurgMem \<Rightarrow> bool" where
  "geometry t ob \<longleftrightarrow>
     dataPtr ob \<noteq> NULL \<and> dataAddr t = dataPtr ob \<and> unat (dataPtr ob) mod 4096 = 0 \<and>
     0 < unat (dataSizeInput ob) \<and> unat (dataPtr ob) + unat (dataSizeInput ob) + 8192 < 2 ^ 64 \<and>
     dataSize t = RoundUp (dataSizeInput ob) PAGE_SIZE"

lemma geometry_size:
  assumes "geometry t ob"
  shows "unat (dataSize t) mod 4096 = 0" "unat (dataSizeInput ob) \<le> unat (dataSize t)"
    "unat (dataSize t) < unat (dataSizeInput ob) + 4096"
proof -
  have "unat (dataSizeInput ob) + unat PAGE_SIZE < 2 ^ 64" "PAGE_SIZE \<noteq> 0"
    using assms by (simp_all add: geometry_def PAGE_SIZE_eq)
  from RoundUp_props [OF this] assms
  show "unat (dataSize t) mod 4096 = 0" "unat (dataSizeInput ob) \<le> unat (dataSize t)"
    "unat (dataSize t) < unat (dataSizeInput ob) + 4096"
    by (simp_all add: geometry_def mod_eq_0_iff_dvd PAGE_SIZE_eq)
qed

text \<open>Rounding the end of the content gives the end of the region.\<close>

lemma geometry_end:
  assumes "geometry t ob"
  shows "RoundUp (dataPtr ob + dataSizeInput ob) PAGE_SIZE = dataPtr ob + dataSize t"
proof -
  let ?d = "dataPtr ob" and ?n = "dataSizeInput ob"
  have n: "unat ?d + unat ?n + 8192 < 2 ^ 64" "unat ?d mod 4096 = 0" "dataAddr t = ?d"
    using assms by (simp_all add: geometry_def)
  have e: "unat (?d + ?n) = unat ?d + unat ?n" using n by (simp add: unat_add_no_wrap)
  have s: "unat (dataSize t) = (unat ?n + 4095) div 4096 * 4096"
    using assms n by (simp add: geometry_def unat_RoundUp PAGE_SIZE_eq)
  obtain k where k: "unat ?d = 4096 * k" using n(2) by (auto simp: mod_eq_0_iff_dvd elim: dvdE)
  have "unat (RoundUp (?d + ?n) PAGE_SIZE) = (unat ?d + unat ?n + 4095) div 4096 * 4096"
    using n e by (simp add: unat_RoundUp PAGE_SIZE_eq)
  also have "\<dots> = unat ?d + unat (dataSize t)"
  proof -
    have "(4096 * k + unat ?n + 4095) div 4096 = k + (unat ?n + 4095) div 4096"
      by (simp add: add.assoc)
    then show ?thesis using s k by simp
  qed
  also have "\<dots> = unat (?d + dataSize t)"
    using geometry_size(3) [OF assms] n by (simp add: unat_add_no_wrap)
  finally show ?thesis by (simp only: word_unat_eq_iff)
qed

lemma geometry_req:
  assumes "geometry t ob"
  shows "req_ok t (dataPtr ob) (dataSizeInput ob)"
    "req_pages (dataPtr ob) (dataSizeInput ob) = req_pages (dataAddr t) (dataSize t)"
    "req_slots t (dataPtr ob) (dataSizeInput ob) = req_slots t (dataAddr t) (dataSize t)"
proof -
  have a: "dataAddr t = dataPtr ob" "unat (dataPtr ob) mod 4096 = 0"
    using assms by (simp_all add: geometry_def)
  have "unat (dataPtr ob + dataSize t) = unat (dataPtr ob) + unat (dataSize t)"
    using geometry_size(3) [OF assms] assms by (simp add: geometry_def unat_add_no_wrap)
  then have "unat (dataPtr ob + dataSize t) mod 4096 = 0"
    using geometry_size(1) [OF assms] a by (simp add: mod_eq_0_iff_dvd)
  then have whole: "RoundUp (dataPtr ob + dataSize t) PAGE_SIZE = dataPtr ob + dataSize t"
    by (rule RoundUp_page_aligned)
  show pages: "req_pages (dataPtr ob) (dataSizeInput ob) = req_pages (dataAddr t) (dataSize t)"
    by (simp add: req_pages_def geometry_end [OF assms] whole a)
  then show "req_slots t (dataPtr ob) (dataSizeInput ob) = req_slots t (dataAddr t) (dataSize t)"
    by (simp add: req_slots_def)
  have "unat (RoundDown (dataPtr ob) PAGE_SIZE) = unat (dataPtr ob)"
    using a by (simp add: unat_RoundDown_page mod_eq_0_iff_dvd)
  then show "req_ok t (dataPtr ob) (dataSizeInput ob)"
    by (simp add: req_ok_def geometry_end [OF assms] a word_less_nat_alt)
qed

text \<open>An object has at least one page.\<close>

lemma first_page:
  assumes "geometry t ob"
  shows "dataAddr t \<in> set (req_pages (dataAddr t) (dataSize t))"
proof -
  have a: "dataAddr t = dataPtr ob" "unat (dataAddr t) mod 4096 = 0" using assms by (simp_all add: geometry_def)
  have sz: "unat (dataSize t) mod 4096 = 0" "0 < unat (dataSize t)"
    "unat (dataAddr t) + unat (dataSize t) < 2 ^ 64"
    using geometry_size [OF assms] assms by (auto simp: geometry_def)
  have e: "unat (dataAddr t + dataSize t) = unat (dataAddr t) + unat (dataSize t)"
    using sz(3) by (simp add: unat_add_no_wrap)
  then have "unat (dataAddr t + dataSize t) mod 4096 = 0" using a(2) sz(1) by (simp add: mod_eq_0_iff_dvd)
  then have up: "RoundUp (dataAddr t + dataSize t) PAGE_SIZE = dataAddr t + dataSize t"
    by (rule RoundUp_page_aligned)
  have "unat (RoundDown (dataAddr t) PAGE_SIZE) = unat (dataAddr t)"
    using a(2) by (simp add: unat_RoundDown_page mod_eq_0_iff_dvd)
  then have down: "RoundDown (dataAddr t) PAGE_SIZE = dataAddr t" by (simp only: word_unat_eq_iff)
  have "0 < unat (dataSize t) div 4096" using sz(1,2) by (auto simp: div_greater_zero_iff mod_eq_0_iff_dvd dest: dvd_imp_le)
  then show ?thesis by (auto simp: req_pages_def up down e page_range_def intro!: image_eqI [of _ _ 0])
qed

section \<open>Views\<close>

abbreviation obj_slots :: "UxPageTableStruct \<Rightarrow> ptr list" where
  "obj_slots t \<equiv> req_slots t (dataAddr t) (dataSize t)"

definition obj_view ::
  "world \<Rightarrow> ptr \<Rightarrow> UxPageTableStruct \<Rightarrow> world \<Rightarrow> PurgMem \<Rightarrow> byte list \<Rightarrow> (ptr \<Rightarrow> uxpte_t option) \<Rightarrow> bool" where
  "obj_view w0 p t w ob bs m \<longleftrightarrow>
     p \<noteq> NULL \<and> geometry t ob \<and> length bs = unat (dataSize t) \<and>
     builders w = builders w0 \<and> objs w = (objs w0)(p \<mapsto> ob) \<and>
     regions w = (regions w0)(dataPtr ob \<mapsto> bs) \<and>
     upts (ux w) = upts (ux w0) \<and> g_supportUxpt (ux w) = g_supportUxpt (ux w0) \<and>
     ptes (ux w) = m \<and> uxPageTable ob \<noteq> NULL \<and>
     (g_supportUxpt (ux w) \<longrightarrow> upt_ok (ux w) (uxPageTable ob) t)"

text \<open>Entry operations on all pages of an object, if the kernel has tables at all.\<close>

definition pin_all ::
  "bool \<Rightarrow> (uxpte_t \<Rightarrow> uxpte_t) \<Rightarrow> UxPageTableStruct \<Rightarrow> (ptr \<Rightarrow> uxpte_t option) \<Rightarrow> ptr \<Rightarrow> uxpte_t option" where
  "pin_all supp f t m = (if supp then touch f (obj_slots t) m else m)"

text \<open>The answer of \<open>IsPurged\<close>.\<close>

definition all_present :: "UxPageTableStruct \<Rightarrow> (ptr \<Rightarrow> uxpte_t option) \<Rightarrow> bool" where
  "all_present t m \<longleftrightarrow>
     (\<forall>x \<in> set (req_pages (dataAddr t) (dataSize t)).
        case m (uxpte_slot t x) of None \<Rightarrow> False | Some v \<Rightarrow> IsUxptePresent v)"

definition purged :: "bool \<Rightarrow> UxPageTableStruct \<Rightarrow> PurgMem \<Rightarrow> (ptr \<Rightarrow> uxpte_t option) \<Rightarrow> bool" where
  "purged supp t ob m \<longleftrightarrow> buildDataCount ob = 0 \<or> (supp \<and> \<not> all_present t m)"

lemma view_ux_upd:
  assumes "obj_view w0 p t w ob bs m"
    and "\<And>a. m' a = None \<longleftrightarrow> m a = None"
  shows "obj_view w0 p t (w\<lparr>ux := (ux w)\<lparr>tick := k, ptes := m'\<rparr>\<rparr>) ob bs m'"
  using assms by (auto simp: obj_view_def intro: upt_ok_cong)

lemma view_tick:
  assumes "obj_view w0 p t w ob bs m"
  shows "obj_view w0 p t (w\<lparr>ux := (ux w)\<lparr>tick := k\<rparr>\<rparr>) ob bs m"
  using assms by (auto simp: obj_view_def)

lemma view_bump: "obj_view w0 p t w ob bs m \<Longrightarrow> obj_view w0 p t (bump w) ob bs m"
  by (simp add: bump_def view_tick)

lemma view_set_obj:
  assumes "obj_view w0 p t w ob bs m"
    "dataPtr ob' = dataPtr ob" "dataSizeInput ob' = dataSizeInput ob"
    "uxPageTable ob' = uxPageTable ob"
  shows "obj_view w0 p t (set_obj p ob' w) ob' bs m"
  using assms by (auto simp: obj_view_def geometry_def)

lemma view_obj: "obj_view w0 p t w ob bs m \<Longrightarrow> objs w p = Some ob"
  by (simp add: obj_view_def)

lemma pin_all_None: "pin_all supp f t m a = None \<longleftrightarrow> m a = None"
  by (simp add: pin_all_def)

context range_op
begin

lemma view_op:
  assumes "obj_view w0 p t w ob bs m"
  shows "\<exists>w'. lift_ux_unit (ux_op (quieten os) (uxPageTable ob) (dataPtr ob) (dataSizeInput ob)) w =
                Some w' \<and>
              obj_view w0 p t w' ob bs (pin_all (g_supportUxpt (ux w0)) f t m)"
proof (cases "g_supportUxpt (ux w)")
  case True
  have v: "geometry t ob" "upt_ok (ux w) (uxPageTable ob) t" "ptes (ux w) = m"
    "g_supportUxpt (ux w0)" using assms True by (simp_all add: obj_view_def)
  obtain k where "ux_op (quieten os) (uxPageTable ob) (dataPtr ob) (dataSizeInput ob) (ux w) =
      Some ((ux w)\<lparr>tick := k, ptes := touch f (obj_slots t) m\<rparr>)"
    using range_step [OF v(2), of os "dataPtr ob" "dataSizeInput ob"] True v(1,3)
      geometry_req [OF v(1)] by (auto simp: range_effect_def)
  then show ?thesis
    using view_ux_upd [OF assms, of "touch f (obj_slots t) m"] v(4)
    by (simp add: lift_ux_unit_def pin_all_def)
next
  case False
  then have "\<not> g_supportUxpt (ux w0)" using assms by (simp add: obj_view_def)
  then show ?thesis
    using False assms by (simp add: lift_ux_unit_def unsupported pin_all_def)
qed

end

lemma view_pin:
  assumes "obj_view w0 p t w ob bs m"
  shows "\<exists>w'. obj_UxpteGet (calm os) p w = Some w' \<and>
              obj_view w0 p t w' ob bs (pin_all (g_supportUxpt (ux w0)) uxpte_inc t m)"
  using pin.view_op [OF assms, of "uxos os"] by (simp add: obj_UxpteGet_def view_obj [OF assms])

lemma view_unpin:
  assumes "obj_view w0 p t w ob bs m"
  shows "\<exists>w'. obj_UxptePut (calm os) p w = Some w' \<and>
              obj_view w0 p t w' ob bs (pin_all (g_supportUxpt (ux w0)) uxpte_dec t m)"
  using unpin.view_op [OF assms, of "uxos os"] by (simp add: obj_UxptePut_def view_obj [OF assms])

lemma view_IsPurged:
  assumes "obj_view w0 p t w ob bs m"
  shows "\<exists>w'. IsPurged (calm os) p w = Some (purged (g_supportUxpt (ux w0)) t ob m, w') \<and>
              obj_view w0 p t w' ob bs m"
proof (cases "g_supportUxpt (ux w)")
  case True
  have v: "geometry t ob" "upt_ok (ux w) (uxPageTable ob) t" "ptes (ux w) = m"
    "g_supportUxpt (ux w0)" using assms True by (simp_all add: obj_view_def)
  have "range_present (ux w) t (dataPtr ob) (dataSizeInput ob) = all_present t m"
    using True v geometry_req [OF v(1)]
    by (simp add: range_present_def all_present_def page_present_def)
  then obtain k where "UxpteIsPresent (quieten (uxos os)) (uxPageTable ob) (dataPtr ob) (dataSizeInput ob) (ux w) =
      Some (all_present t m, (ux w)\<lparr>tick := k\<rparr>)"
    using UxpteIsPresent_effect [OF v(2), of "uxos os" "dataPtr ob" "dataSizeInput ob"] by auto
  then show ?thesis
    using view_tick [OF assms] view_obj [OF assms] v(4) assms
    by (auto simp: IsPurged_def lift_ux_def purged_def)
next
  case False
  then have "\<not> g_supportUxpt (ux w0)" using assms by (simp add: obj_view_def)
  then show ?thesis
    using False assms view_obj [OF assms]
    by (simp add: IsPurged_def lift_ux_def UxpteIsPresent_def purged_def)
qed

section \<open>Locks\<close>

abbreviation add_reader :: "PurgMem \<Rightarrow> PurgMem" where
  "add_reader ob \<equiv> ob\<lparr>rwlock := (rwlock ob)\<lparr>rl_readers := Suc (rl_readers (rwlock ob))\<rparr>\<rparr>"

abbreviation set_writer :: "bool \<Rightarrow> PurgMem \<Rightarrow> PurgMem" where
  "set_writer b ob \<equiv> ob\<lparr>rwlock := (rwlock ob)\<lparr>rl_writer := b\<rparr>\<rparr>"

definition lock_free :: "PurgMem \<Rightarrow> bool" where
  "lock_free ob \<longleftrightarrow> rwlock ob = \<lparr>rl_readers = 0, rl_writer = False\<rparr>"

lemma view_rdlock:
  assumes "obj_view w0 p t w ob bs m" "locks_ok os" "\<not> rl_writer (rwlock ob)"
  shows "\<exists>w'. pthread_rwlock_rdlock (calm os) p w = Some (0, w') \<and>
              obj_view w0 p t w' (add_reader ob) bs m"
  using assms view_set_obj [OF view_bump [OF assms(1)], of "add_reader ob"] view_obj [OF assms(1)]
  by (simp add: pthread_rwlock_rdlock_def locks_ok_def Let_def)

lemma view_wrlock:
  assumes "obj_view w0 p t w ob bs m" "locks_ok os" "lock_free ob"
  shows "\<exists>w'. pthread_rwlock_wrlock (calm os) p w = Some (0, w') \<and>
              obj_view w0 p t w' (set_writer True ob) bs m"
  using assms view_set_obj [OF view_bump [OF assms(1)], of "set_writer True ob"] view_obj [OF assms(1)]
  by (simp add: pthread_rwlock_wrlock_def locks_ok_def lock_free_def Let_def)

lemma view_unlock_writer:
  assumes "obj_view w0 p t w ob bs m" "locks_ok os" "rl_writer (rwlock ob)"
  shows "\<exists>w'. pthread_rwlock_unlock (calm os) p w = Some (0, w') \<and>
              obj_view w0 p t w' (set_writer False ob) bs m"
  using assms view_set_obj [OF view_bump [OF assms(1)], of "set_writer False ob"] view_obj [OF assms(1)]
  by (simp add: pthread_rwlock_unlock_def locks_ok_def Let_def)

lemma view_unlock_reader:
  assumes "obj_view w0 p t w ob bs m" "locks_ok os" "\<not> rl_writer (rwlock ob)"
    "ob' = ob\<lparr>rwlock := (rwlock ob)\<lparr>rl_readers := rl_readers (rwlock ob) - 1\<rparr>\<rparr>"
    "rl_readers (rwlock ob) \<noteq> 0"
  shows "\<exists>w'. pthread_rwlock_unlock (calm os) p w = Some (0, w') \<and> obj_view w0 p t w' ob' bs m"
  using assms view_set_obj [OF view_bump [OF assms(1)], of ob'] view_obj [OF assms(1)]
  by (simp add: pthread_rwlock_unlock_def locks_ok_def Let_def)

section \<open>Rebuilding\<close>

lemma view_store:
  assumes "obj_view w0 p t w ob bs m" "touch_ok os t" "length bs' = length bs"
  shows "obj_view w0 p t (store_data (calm os) (dataPtr ob) bs' w) ob bs'
           (touch (\<lambda>v. v OR 1) (obj_slots t) m)"
proof -
  have d: "dataAddr t = dataPtr ob" using assms(1) by (simp add: obj_view_def geometry_def)
  have "obj_view w0 p t (w\<lparr>regions := (regions w)(dataPtr ob \<mapsto> bs'),
      ux := (ux w)\<lparr>ptes := touch (\<lambda>v. v OR 1) (obj_slots t) m\<rparr>\<rparr>) ob bs'
      (touch (\<lambda>v. v OR 1) (obj_slots t) m)"
    using assms by (auto simp: obj_view_def intro: upt_ok_cong)
  then have "obj_view w0 p t (bump (w\<lparr>regions := (regions w)(dataPtr ob \<mapsto> bs'),
      ux := (ux w)\<lparr>ptes := touch (\<lambda>v. v OR 1) (obj_slots t) m\<rparr>\<rparr>)) ob bs'
      (touch (\<lambda>v. v OR 1) (obj_slots t) m)"
    by (rule view_bump)
  moreover have "ptes (ux w) = m" using assms(1) by (simp add: obj_view_def)
  moreover have "os_touch os (now w) (dataPtr ob) (ux w) =
      (ux w)\<lparr>ptes := touch (\<lambda>v. v OR 1) (obj_slots t) (ptes (ux w))\<rparr>"
    using assms(2) unfolding touch_ok_def d by blast
  ultimately show ?thesis by (simp add: store_data_def)
qed

lemma or_one_idem: "(v OR 1) OR 1 = (v OR 1 :: u64)"
  by (simp add: or.assoc)

lemma touch_or_one_idem:
  "touch (\<lambda>v. v OR 1) ps (touch (\<lambda>v. v OR 1) ps m) = touch (\<lambda>v :: u64. v OR 1) ps m"
  by (simp add: touch_touch o_def or_one_idem)

text \<open>
  Clear, then replay the log: the content is what the modifications make of zeros, the bytes
  behind it keep their values, the count of successful builds grows.
\<close>

definition rebuilt :: "PurgMem \<Rightarrow> byte list \<Rightarrow> byte list \<Rightarrow> byte list" where
  "rebuilt ob content bs = content @ drop (unat (dataSizeInput ob)) bs"

definition zeros :: "PurgMem \<Rightarrow> byte list" where
  "zeros ob = replicate (unat (dataSizeInput ob)) 0"

definition count_build :: "bool \<Rightarrow> PurgMem \<Rightarrow> PurgMem" where
  "count_build b ob = (if b then ob\<lparr>buildDataCount := buildDataCount ob + 1\<rparr> else ob)"

lemma view_BuildData:
  assumes v: "obj_view w0 p t w ob bs m"
    and chain: "heap_chain (builders w0) (builder ob) A xs" "builder ob \<noteq> NULL"
    and buf: "\<forall>(f, q) \<in> set xs. in_buffer f"
    and os: "touch_ok os t" "memset_ok os (dataSize t)"
    and run: "run_steps xs (zeros ob) = (b, c)"
  shows "\<exists>w'. PurgMemBuildData (calm os) p w = Some (b, w') \<and>
              obj_view w0 p t w' (count_build b ob) (rebuilt ob c bs)
                (touch (\<lambda>v. v OR 1) (obj_slots t) m)"
proof -
  let ?n = "unat (dataSizeInput ob)" and ?d = "dataPtr ob"
  let ?m = "touch (\<lambda>v. v OR 1) (obj_slots t) m"
  have geo: "geometry t ob" and len: "length bs = unat (dataSize t)"
    and bld: "builders w = builders w0" and reg: "regions w ?d = Some bs"
    using v by (simp_all add: obj_view_def)
  have n: "?n \<le> length bs" using geometry_size(2) [OF geo] len by simp
  have sz: "PurgMem_RoundUp (dataSizeInput ob) PAGE_SIZE = dataSize t"
    using geo by (simp add: PurgMem_RoundUp_eq geometry_def)
  define bs1 where "bs1 = replicate ?n 0 @ drop ?n bs"
  have set0: "os_memset_s os bs (dataSize t) 0 (dataSizeInput ob) = (0, bs1)"
    using os(2) len n unfolding memset_ok_def bs1_def by simp
  have bs1: "length bs1 = length bs" "take ?n bs1 = zeros ob" "drop ?n bs1 = drop ?n bs"
    using n by (simp_all add: bs1_def zeros_def)
  have "length (snd (run_steps xs (zeros ob))) = length (zeros ob)"
    by (rule run_steps_length) (use buf in auto)
  then have c: "length c = ?n" using run by (simp add: zeros_def)
  define w1 where "w1 = store_data (calm os) ?d bs1 w"
  have v1: "obj_view w0 p t w1 ob bs1 ?m"
    unfolding w1_def using bs1(1) by (intro view_store [OF v os(1)]) simp
  define w2 where "w2 = store_data (calm os) ?d (rebuilt ob c bs) w1"
  have "length (rebuilt ob c bs) = length bs1" using c n bs1 by (simp add: rebuilt_def)
  then have v2: "obj_view w0 p t w2 ob (rebuilt ob c bs) ?m"
    using view_store [OF v1 os(1)] unfolding w2_def by (simp add: touch_or_one_idem)
  have "PurgMemBuilderBuildAll (builder ob) (zeros ob) (builders w1) = Some (b, c)"
    using purg_builder.build_all [OF chain] run v1 by (simp add: obj_view_def)
  then have "PurgMemBuildData (calm os) p w =
      Some (b, if b then set_obj p (count_build b ob) w2 else w2)"
    using view_obj [OF v] reg set0 bs1
    by (simp add: PurgMemBuildData_def sz Let_def w1_def [symmetric] w2_def rebuilt_def count_build_def)
  moreover have "obj_view w0 p t (if b then set_obj p (count_build b ob) w2 else w2)
      (count_build b ob) (rebuilt ob c bs) ?m"
    using v2 view_set_obj [OF v2, of "count_build b ob"] by (cases b) (simp_all add: count_build_def)
  ultimately show ?thesis by blast
qed

section \<open>Begin and end of an access\<close>

lemma purged_simps [simp]:
  "purged supp t (ob\<lparr>rwlock := l\<rparr>) m = purged supp t ob m"
  by (simp add: purged_def)

lemma lock_free_simps:
  "lock_free ob \<Longrightarrow> \<not> rl_writer (rwlock ob)"
  "lock_free (count_build b ob) = lock_free ob"
  by (simp_all add: lock_free_def count_build_def)

lemma all_present_entry:
  assumes "\<And>v. IsUxptePresent (f v) = IsUxptePresent v"
  shows "all_present t (touch f ps m) = all_present t m"
  using assms by (auto simp: all_present_def touch_def split: option.splits)

lemma all_present_pin [simp]:
  "all_present t (pin_all supp uxpte_inc t m) = all_present t m"
  "all_present t (pin_all supp uxpte_dec t m) = all_present t m"
proof -
  have "IsUxptePresent (uxpte_inc v) = IsUxptePresent v" for v
    using IsUxptePresent_inc IsUxptePresent_inc_reclaim by (cases "v = UXPTE_UNDER_RECLAIM") auto
  then show "all_present t (pin_all supp uxpte_inc t m) = all_present t m"
    "all_present t (pin_all supp uxpte_dec t m) = all_present t m"
    by (simp_all add: pin_all_def all_present_entry uxpte_dec_def)
qed

lemma purged_pin [simp]:
  "purged supp t ob (pin_all supp' uxpte_inc t m) = purged supp t ob m"
  "purged supp t ob (pin_all supp' uxpte_dec t m) = purged supp t ob m"
  by (simp_all add: purged_def)

text \<open>Once the kernel has noticed accesses to all pages, they are present.\<close>

lemma all_present_touched:
  assumes "obj_view w0 p t w ob bs m" "g_supportUxpt (ux w0)"
  shows "all_present t (touch (\<lambda>v. v OR 1) (obj_slots t) m)"
proof -
  have geo: "geometry t ob" and ok: "upt_ok (ux w) (uxPageTable ob) t" and m: "ptes (ux w) = m"
    using assms by (simp_all add: obj_view_def)
  have "req_ok t (dataAddr t) (dataSize t)"
    using geometry_size [OF geo] geo by (intro req_ok_whole) (simp_all add: geometry_def)
  note in_data = req_pages_in_data [OF ok this]
  have "odd (v OR 1 :: u64)" for v by (simp add: even_or_iff)
  then show ?thesis
    using slot_mapped [OF ok in_data] m
    by (fastforce simp: all_present_def touch_def req_slots_def IsUxptePresent_bit)
qed

lemma not_purged_after_build:
  assumes "obj_view w0 p t w ob bs m" "buildDataCount ob + 1 \<noteq> 0"
  shows "\<not> purged (g_supportUxpt (ux w0)) t (count_build True ob)
           (touch (\<lambda>v. v OR 1) (obj_slots t) m)"
  using assms all_present_touched [OF assms(1)] by (auto simp: purged_def count_build_def)

lemma view_TryBeginRead:
  assumes v: "obj_view w0 p t w ob bs m" and os: "locks_ok os" and w: "\<not> rl_writer (rwlock ob)"
  shows "\<exists>w'. TryBeginRead (calm os) p w =
              Some (if purged (g_supportUxpt (ux w0)) t ob m then PM_DATA_PURGED else PM_DATA_NO_PURGED, w') \<and>
            obj_view w0 p t w' (if purged (g_supportUxpt (ux w0)) t ob m then ob else add_reader ob) bs m"
proof -
  let ?purged = "purged (g_supportUxpt (ux w0)) t ob m"
  obtain w1 where w1: "pthread_rwlock_rdlock (calm os) p w = Some (0, w1)"
    "obj_view w0 p t w1 (add_reader ob) bs m" using view_rdlock [OF v os w] by blast
  obtain w2 where w2: "IsPurged (calm os) p w1 = Some (?purged, w2)"
    "obj_view w0 p t w2 (add_reader ob) bs m" using view_IsPurged [OF w1(2), of os] by auto
  obtain w3 where w3: "pthread_rwlock_unlock (calm os) p w2 = Some (0, w3)" "obj_view w0 p t w3 ob bs m"
    using view_unlock_reader [OF w2(2) os, of ob] w by auto
  show ?thesis
    using w1(1) w2 w3 by (simp add: TryBeginRead_def)
qed

text \<open>An object with its log: \<open>obj_view\<close> from the state itself, and the chain of builders.\<close>

definition obj_ready ::
  "world \<Rightarrow> ptr \<Rightarrow> UxPageTableStruct \<Rightarrow> PurgMem \<Rightarrow> byte list \<Rightarrow> mod_step list \<Rightarrow> bool" where
  "obj_ready w p t ob bs xs \<longleftrightarrow>
     obj_view w p t w ob bs (ptes (ux w)) \<and> builder ob \<noteq> NULL \<and>
     (\<exists>A. heap_chain (builders w) (builder ob) A xs) \<and> (\<forall>(f, q) \<in> set xs. in_buffer f)"

text \<open>The documented behaviour of kernel, bounds-checking library and pthread library.\<close>

definition pm_env :: "pm_os \<Rightarrow> UxPageTableStruct \<Rightarrow> bool" where
  "pm_env os t \<longleftrightarrow> touch_ok os t \<and> memset_ok os (dataSize t) \<and> locks_ok os"

lemma view_BeginReadBuildData:
  assumes v: "obj_view w0 p t w ob bs m" and free: "lock_free ob"
    and pg: "purged (g_supportUxpt (ux w0)) t ob m"
    and chain: "heap_chain (builders w0) (builder ob) A xs" "builder ob \<noteq> NULL"
    and buf: "\<forall>(f, q) \<in> set xs. in_buffer f" and os: "pm_env os t"
    and run: "run_steps xs (zeros ob) = (b, c)"
  shows "\<exists>w'. BeginReadBuildData (calm os) p w =
              Some (if b then PMB_BUILD_ALL_SUCC else PMB_BUILD_ALL_FAIL, w') \<and>
            obj_view w0 p t w' (count_build b ob) (rebuilt ob c bs) (touch (\<lambda>v. v OR 1) (obj_slots t) m)"
proof -
  have env: "touch_ok os t" "memset_ok os (dataSize t)" "locks_ok os" using os by (simp_all add: pm_env_def)
  let ?ob1 = "set_writer True ob"
  obtain w1 where w1: "pthread_rwlock_wrlock (calm os) p w = Some (0, w1)"
    "obj_view w0 p t w1 ?ob1 bs m" using view_wrlock [OF v env(3) free] by blast
  obtain w2 where w2: "IsPurged (calm os) p w1 = Some (True, w2)" "obj_view w0 p t w2 ?ob1 bs m"
    using view_IsPurged [OF w1(2), of os] pg by auto
  have run1: "run_steps xs (zeros ?ob1) = (b, c)" using run by (simp add: zeros_def)
  obtain w3 where w3: "PurgMemBuildData (calm os) p w2 = Some (b, w3)"
    "obj_view w0 p t w3 (count_build b ?ob1) (rebuilt ob c bs) (touch (\<lambda>v. v OR 1) (obj_slots t) m)"
    using view_BuildData [OF w2(2) _ _ buf env(1,2) run1] chain by (auto simp: rebuilt_def)
  have wr: "rl_writer (rwlock (count_build b ?ob1))" by (simp add: count_build_def)
  have restore: "set_writer False (count_build b ?ob1) = count_build b ob"
    using free by (cases b) (simp_all add: count_build_def lock_free_def)
  obtain w4 where w4: "pthread_rwlock_unlock (calm os) p w3 = Some (0, w4)"
    "obj_view w0 p t w4 (count_build b ob) (rebuilt ob c bs) (touch (\<lambda>v. v OR 1) (obj_slots t) m)"
    using view_unlock_writer [OF w3(2) env(3) wr] unfolding restore by blast
  show ?thesis using w1(1) w2(1) w3(1) w4 by (cases b) (simp_all add: BeginReadBuildData_def)
qed

lemma view_BeginRead_loop:
  assumes v: "obj_view w0 p t w ob bs m" and w: "\<not> rl_writer (rwlock ob)"
    and chain: "heap_chain (builders w0) (builder ob) A xs" "builder ob \<noteq> NULL"
    and buf: "\<forall>(f, q) \<in> set xs. in_buffer f" and os: "pm_env os t"
    and run: "run_steps xs (zeros ob) = (b, c)"
    and pg: "purged (g_supportUxpt (ux w0)) t ob m \<Longrightarrow> lock_free ob \<and> buildDataCount ob + 1 \<noteq> 0"
  shows "\<exists>w'. BeginRead_loop (calm os) p w =
              Some (\<not> purged (g_supportUxpt (ux w0)) t ob m \<or> b, w') \<and>
            (if \<not> purged (g_supportUxpt (ux w0)) t ob m then obj_view w0 p t w' (add_reader ob) bs m
             else obj_view w0 p t w' (if b then add_reader (count_build b ob) else ob)
                    (rebuilt ob c bs) (touch (\<lambda>v. v OR 1) (obj_slots t) m))"
proof (cases "purged (g_supportUxpt (ux w0)) t ob m")
  case False
  have lk: "locks_ok os" using os by (simp add: pm_env_def)
  obtain w1 where "TryBeginRead (calm os) p w = Some (PM_DATA_NO_PURGED, w1)"
    "obj_view w0 p t w1 (add_reader ob) bs m" using view_TryBeginRead [OF v lk w] False by auto
  then show ?thesis using False by (subst BeginRead_loop.simps) simp
next
  case True
  have lk: "locks_ok os" using os by (simp add: pm_env_def)
  note free = pg [OF True, THEN conjunct1] and cnt = pg [OF True, THEN conjunct2]
  obtain w1 where w1: "TryBeginRead (calm os) p w = Some (PM_DATA_PURGED, w1)"
    "obj_view w0 p t w1 ob bs m" using view_TryBeginRead [OF v lk w] True by auto
  obtain w2 where w2: "BeginReadBuildData (calm os) p w1 =
      Some (if b then PMB_BUILD_ALL_SUCC else PMB_BUILD_ALL_FAIL, w2)"
    "obj_view w0 p t w2 (count_build b ob) (rebuilt ob c bs) (touch (\<lambda>v. v OR 1) (obj_slots t) m)"
    using view_BeginReadBuildData [OF w1(2) free True chain buf os run] by blast
  show ?thesis
  proof (cases b)
    case b: True
    have v2: "obj_view w0 p t w2 (count_build True ob) (rebuilt ob c bs)
        (touch (\<lambda>v. v OR 1) (obj_slots t) m)" using w2(2) b by simp
    have w': "\<not> rl_writer (rwlock (count_build True ob))" using w by (simp add: count_build_def)
    obtain w3 where "TryBeginRead (calm os) p w2 = Some (PM_DATA_NO_PURGED, w3)"
      "obj_view w0 p t w3 (add_reader (count_build True ob)) (rebuilt ob c bs)
         (touch (\<lambda>v. v OR 1) (obj_slots t) m)"
      using view_TryBeginRead [OF v2 lk w'] not_purged_after_build [OF v cnt] by auto
    then show ?thesis
      using True b w1(1) w2(1)
      by (subst BeginRead_loop.simps, subst BeginRead_loop.simps) simp
  next
    case False
    then show ?thesis
      using True w1(1) w2 by (subst BeginRead_loop.simps) (simp add: count_build_def)
  qed
qed

end
