(* ===== verification/Purg_Access.thy ===== *)
theory Purg_Access
  imports Purg_Seq
begin

text \<open>
  The exported access operations of a purgeable object, composed from the views of
  \<open>Purg_Seq\<close>: beginning and ending a read or a write, and logging a modification.
\<close>

section \<open>Beginning an access\<close>

lemma view_valid:
  assumes "obj_view w0 p t w ob bs m" "builder ob \<noteq> NULL"
  shows "IsPurgMemPtrValid p w = Some True"
  using assms by (simp add: IsPurgMemPtrValid_def obj_view_def geometry_def)

text \<open>
  The entries after a rebuild, after a failed rebuild, and the object and content that go with
  them. \<open>supp\<close>: the kernel has user extended page tables.
\<close>

definition pinned_entries ::
  "bool \<Rightarrow> UxPageTableStruct \<Rightarrow> (ptr \<Rightarrow> uxpte_t option) \<Rightarrow> ptr \<Rightarrow> uxpte_t option" where
  "pinned_entries supp t m = pin_all supp uxpte_inc t m"

definition rebuilt_entries ::
  "bool \<Rightarrow> UxPageTableStruct \<Rightarrow> (ptr \<Rightarrow> uxpte_t option) \<Rightarrow> ptr \<Rightarrow> uxpte_t option" where
  "rebuilt_entries supp t m = touch (\<lambda>v. v OR 1) (obj_slots t) (pinned_entries supp t m)"

text \<open>
  What a begin operation does to an object: \<open>grant\<close> is the change of the lock. Three outcomes:
  the content is there; it was purged and the log rebuilds it; the log fails.
\<close>

definition begin_outcome ::
  "(PurgMem \<Rightarrow> PurgMem) \<Rightarrow> world \<Rightarrow> ptr \<Rightarrow> UxPageTableStruct \<Rightarrow> PurgMem \<Rightarrow> byte list \<Rightarrow>
   bool \<Rightarrow> byte list \<Rightarrow> world \<Rightarrow> bool" where
  "begin_outcome grant w p t ob bs b c w' \<longleftrightarrow>
     (let supp = g_supportUxpt (ux w); m = ptes (ux w) in
      if \<not> purged supp t ob m then obj_view w p t w' (grant ob) bs (pinned_entries supp t m)
      else if b then obj_view w p t w' (grant (count_build True ob)) (rebuilt ob c bs) (rebuilt_entries supp t m)
      else obj_view w p t w' ob (rebuilt ob c bs) (pin_all supp uxpte_dec t (rebuilt_entries supp t m)))"

lemma BeginRead_outcome:
  assumes rdy: "obj_ready w p t ob bs xs" and os: "pm_env os t" and wr: "\<not> rl_writer (rwlock ob)"
    and run: "run_steps xs (zeros ob) = (b, c)"
    and pg: "purged (g_supportUxpt (ux w)) t ob (ptes (ux w)) \<Longrightarrow> lock_free ob \<and> buildDataCount ob + 1 \<noteq> 0"
  shows "\<exists>w'. PurgMemBeginRead (calm os) p w =
              Some (\<not> purged (g_supportUxpt (ux w)) t ob (ptes (ux w)) \<or> b, w') \<and>
            begin_outcome add_reader w p t ob bs b c w'"
proof -
  let ?supp = "g_supportUxpt (ux w)" and ?m = "ptes (ux w)"
  obtain A where v: "obj_view w p t w ob bs ?m" and chain: "heap_chain (builders w) (builder ob) A xs"
    "builder ob \<noteq> NULL" and buf: "\<forall>(f, q) \<in> set xs. in_buffer f"
    using rdy by (auto simp: obj_ready_def)
  obtain w1 where w1: "obj_UxpteGet (calm os) p w = Some w1"
    "obj_view w p t w1 ob bs (pinned_entries ?supp t ?m)"
    using view_pin [OF v, of os] by (auto simp: pinned_entries_def)
  have same: "purged ?supp t ob (pinned_entries ?supp t ?m) = purged ?supp t ob ?m"
    by (simp add: pinned_entries_def)
  obtain w2 where w2: "BeginRead_loop (calm os) p w1 = Some (\<not> purged ?supp t ob ?m \<or> b, w2)"
    and v2: "if \<not> purged ?supp t ob ?m then obj_view w p t w2 (add_reader ob) bs (pinned_entries ?supp t ?m)
       else obj_view w p t w2 (if b then add_reader (count_build b ob) else ob)
              (rebuilt ob c bs) (rebuilt_entries ?supp t ?m)"
    using view_BeginRead_loop [OF w1(2) wr chain buf os run] pg same
    unfolding rebuilt_entries_def by auto
  have valid: "IsPurgMemPtrValid p w = Some True" by (rule view_valid [OF v chain(2)])
  show ?thesis
  proof (cases "purged ?supp t ob ?m \<and> \<not> b")
    case True
    then have v2': "obj_view w p t w2 ob (rebuilt ob c bs) (rebuilt_entries ?supp t ?m)"
      using v2 by simp
    obtain w3 where "obj_UxptePut (calm os) p w2 = Some w3"
      "obj_view w p t w3 ob (rebuilt ob c bs) (pin_all ?supp uxpte_dec t (rebuilt_entries ?supp t ?m))"
      using view_unpin [OF v2', of os] by blast
    then show ?thesis
      using True w1(1) w2 valid by (simp add: PurgMemBeginRead_def begin_outcome_def Let_def)
  next
    case False
    then show ?thesis
      using w1(1) w2 v2 valid
      by (cases b) (auto simp: PurgMemBeginRead_def begin_outcome_def Let_def split: if_splits)
  qed
qed

text \<open>The write access up to its check, and how it gives up.\<close>

lemma view_write_check:
  assumes v: "obj_view w p t w ob bs m" and os: "locks_ok os" and free: "lock_free ob"
  defines "supp \<equiv> g_supportUxpt (ux w)"
  shows "\<exists>w1 w2 w3. obj_UxpteGet (calm os) p w = Some w1 \<and> pthread_rwlock_wrlock (calm os) p w1 = Some (0, w2) \<and>
    IsPurged (calm os) p w2 = Some (purged supp t ob m, w3) \<and> obj_view w p t w3 (set_writer True ob) bs (pinned_entries supp t m)"
proof -
  obtain w1 where w1: "obj_UxpteGet (calm os) p w = Some w1" "obj_view w p t w1 ob bs (pinned_entries supp t m)"
    using view_pin [OF v, of os] by (auto simp: pinned_entries_def supp_def)
  obtain w2 where w2: "pthread_rwlock_wrlock (calm os) p w1 = Some (0, w2)"
    "obj_view w p t w2 (set_writer True ob) bs (pinned_entries supp t m)" using view_wrlock [OF w1(2) os free] by blast
  obtain w3 where "IsPurged (calm os) p w2 = Some (purged supp t ob m, w3)"
    "obj_view w p t w3 (set_writer True ob) bs (pinned_entries supp t m)"
    using view_IsPurged [OF w2(2), of os] by (auto simp: pinned_entries_def supp_def)
  then show ?thesis using w1(1) w2(1) by blast
qed

lemma view_write_gives_up:
  assumes v: "obj_view w p t w4 (set_writer True ob) bs m" and os: "locks_ok os" and free: "lock_free ob"
  shows "\<exists>w5 w6. pthread_rwlock_unlock (calm os) p w4 = Some (0, w5) \<and> obj_UxptePut (calm os) p w5 = Some w6 \<and>
    obj_view w p t w6 ob bs (pin_all (g_supportUxpt (ux w)) uxpte_dec t m)"
proof -
  have "set_writer False (set_writer True ob) = ob" using free by (simp add: lock_free_def)
  then obtain w5 where w5: "pthread_rwlock_unlock (calm os) p w4 = Some (0, w5)" "obj_view w p t w5 ob bs m"
    using view_unlock_writer [OF v os] by auto
  then show ?thesis using view_unpin [OF w5(2), of os] by blast
qed

lemma BeginWrite_outcome:
  assumes rdy: "obj_ready w p t ob bs xs" and os: "pm_env os t" and free: "lock_free ob"
    and run: "run_steps xs (zeros ob) = (b, c)"
  shows "\<exists>w'. PurgMemBeginWrite (calm os) p w =
              Some (\<not> purged (g_supportUxpt (ux w)) t ob (ptes (ux w)) \<or> b, w') \<and>
            begin_outcome (set_writer True) w p t ob bs b c w'"
proof -
  let ?supp = "g_supportUxpt (ux w)" and ?m = "ptes (ux w)" and ?ob1 = "set_writer True ob"
  have env: "touch_ok os t" "memset_ok os (dataSize t)" "locks_ok os" using os by (simp_all add: pm_env_def)
  obtain A where v: "obj_view w p t w ob bs ?m" and chain: "heap_chain (builders w) (builder ob) A xs"
    "builder ob \<noteq> NULL" and buf: "\<forall>(f, q) \<in> set xs. in_buffer f"
    using rdy by (auto simp: obj_ready_def)
  have valid: "IsPurgMemPtrValid p w = Some True" by (rule view_valid [OF v chain(2)])
  obtain w1 w2 w3 where w3: "obj_UxpteGet (calm os) p w = Some w1" "pthread_rwlock_wrlock (calm os) p w1 = Some (0, w2)"
    "IsPurged (calm os) p w2 = Some (purged ?supp t ob ?m, w3)" "obj_view w p t w3 ?ob1 bs (pinned_entries ?supp t ?m)"
    using view_write_check [OF v env(3) free] by blast
  have run1: "run_steps xs (zeros ?ob1) = (b, c)" using run by (simp add: zeros_def)
  obtain w4 where w4: "PurgMemBuildData (calm os) p w3 = Some (b, w4)"
    "obj_view w p t w4 (count_build b ?ob1) (rebuilt ob c bs) (rebuilt_entries ?supp t ?m)"
    using view_BuildData [OF w3(4) _ _ buf env(1,2) run1] chain by (auto simp: rebuilt_def rebuilt_entries_def)
  have cb: "count_build True ?ob1 = set_writer True (count_build True ob)" "count_build False ?ob1 = ?ob1"
    by (simp_all add: count_build_def)
  show ?thesis
  proof (cases "purged ?supp t ob ?m \<and> \<not> b")
    case True
    then have v4: "obj_view w p t w4 ?ob1 (rebuilt ob c bs) (rebuilt_entries ?supp t ?m)" using w4(2) cb by simp
    from view_write_gives_up [OF v4 env(3) free] show ?thesis
      using True valid w3 w4(1) by (auto simp: PurgMemBeginWrite_def begin_outcome_def Let_def)
  next
    case False
    then show ?thesis
      using valid w3 w4 by (cases b) (auto simp: PurgMemBeginWrite_def begin_outcome_def Let_def cb)
  qed
qed

section \<open>Ending an access\<close>

lemma EndAccess_writer:
  assumes "obj_view w0 p t w ob bs m" "builder ob \<noteq> NULL" "locks_ok os" "rl_writer (rwlock ob)"
  shows "\<exists>w'. EndAccessPurgMem (calm os) p w = Some w' \<and>
              obj_view w0 p t w' (set_writer False ob) bs (pin_all (g_supportUxpt (ux w0)) uxpte_dec t m)"
proof -
  obtain w1 where w1: "pthread_rwlock_unlock (calm os) p w = Some (0, w1)"
    "obj_view w0 p t w1 (set_writer False ob) bs m" using view_unlock_writer [OF assms(1,3,4)] by blast
  then show ?thesis
    using view_unpin [OF w1(2), of os] view_valid [OF assms(1,2)] by (simp add: EndAccessPurgMem_def)
qed

lemma EndAccess_reader:
  assumes "obj_view w0 p t w (add_reader ob) bs m" "builder ob \<noteq> NULL" "locks_ok os" "\<not> rl_writer (rwlock ob)"
  shows "\<exists>w'. EndAccessPurgMem (calm os) p w = Some w' \<and>
              obj_view w0 p t w' ob bs (pin_all (g_supportUxpt (ux w0)) uxpte_dec t m)"
proof -
  obtain w1 where w1: "pthread_rwlock_unlock (calm os) p w = Some (0, w1)" "obj_view w0 p t w1 ob bs m"
    using view_unlock_reader [OF assms(1,3), of ob] assms(4) by auto
  then show ?thesis
    using view_unpin [OF w1(2), of os] view_valid [OF assms(1)] assms(2) by (simp add: EndAccessPurgMem_def)
qed

text \<open>
  Pins taken and returned cancel, and the present bit the kernel has set in between stays; this
  holds while no entry is saturated or marked under reclaim.
\<close>

definition countable_entries :: "UxPageTableStruct \<Rightarrow> (ptr \<Rightarrow> uxpte_t option) \<Rightarrow> bool" where
  "countable_entries t m \<longleftrightarrow>
     (\<forall>a \<in> set (obj_slots t). case m a of None \<Rightarrow> True | Some v \<Rightarrow> unat v + 2 < 2 ^ 64)"

lemma dec_or_inc:
  assumes "unat (v :: u64) + 2 < 2 ^ 64"
  shows "uxpte_dec (uxpte_inc v OR 1) = v OR 1"
proof -
  have "v \<noteq> UXPTE_UNDER_RECLAIM" using assms by auto
  then have inc: "uxpte_inc v = v + 2" using assms by (simp add: uxpte_inc_def)
  have "odd (v + 2) = odd v" by simp
  then show ?thesis unfolding inc uxpte_dec_def or_one_eq by auto
qed

lemma touch_cong:
  "(\<And>a v. a \<in> set ps \<Longrightarrow> m a = Some v \<Longrightarrow> f v = g v) \<Longrightarrow> touch f ps m = touch g ps m"
  by (fastforce simp: touch_def map_option_case split: option.splits)

lemma unpin_rebuilt:
  assumes "countable_entries t m"
  shows "pin_all supp uxpte_dec t (rebuilt_entries supp t m) = touch (\<lambda>v. v OR 1) (obj_slots t) m"
proof (cases supp)
  case True
  have "touch (uxpte_dec \<circ> (\<lambda>v. v OR 1) \<circ> uxpte_inc) (obj_slots t) m = touch (\<lambda>v. v OR 1) (obj_slots t) m"
    using assms by (intro touch_cong) (fastforce simp: countable_entries_def intro: dec_or_inc)
  then show ?thesis
    using True by (simp add: pin_all_def rebuilt_entries_def pinned_entries_def touch_touch o_assoc)
next
  case False
  then show ?thesis by (simp add: pin_all_def rebuilt_entries_def pinned_entries_def)
qed

lemma unpin_pinned:
  assumes "countable_entries t m"
  shows "pin_all supp uxpte_dec t (pinned_entries supp t m) = m"
proof -
  have "v \<noteq> ULONG_MAX" if "unat v + 2 < 2 ^ 64" for v :: u64
    using that by (auto simp: unsigned_minus_1_eq_mask mask_eq_exp_minus_1)
  then have "touch (uxpte_dec \<circ> uxpte_inc) (obj_slots t) m = m"
    using assms by (intro touch_id) (fastforce simp: countable_entries_def uxpte_dec_inc)
  then show ?thesis by (simp add: pin_all_def pinned_entries_def touch_touch)
qed

text \<open>The state after a whole access: begin and end, or a begin that failed.\<close>

definition access_outcome ::
  "world \<Rightarrow> ptr \<Rightarrow> UxPageTableStruct \<Rightarrow> PurgMem \<Rightarrow> byte list \<Rightarrow> bool \<Rightarrow> byte list \<Rightarrow> world \<Rightarrow> bool" where
  "access_outcome w p t ob bs b c w' \<longleftrightarrow>
     (let m = ptes (ux w) in
      if \<not> purged (g_supportUxpt (ux w)) t ob m then obj_view w p t w' ob bs m
      else obj_view w p t w' (count_build b ob) (rebuilt ob c bs) (touch (\<lambda>v. v OR 1) (obj_slots t) m))"

lemma failed_begin_restores:
  assumes "begin_outcome grant w p t ob bs False c w'" "countable_entries t (ptes (ux w))"
    "purged (g_supportUxpt (ux w)) t ob (ptes (ux w))"
  shows "access_outcome w p t ob bs False c w'"
  using assms by (simp add: begin_outcome_def access_outcome_def Let_def unpin_rebuilt count_build_def)

lemma read_then_end:
  assumes "begin_outcome add_reader w p t ob bs True c w1" "countable_entries t (ptes (ux w))"
    "locks_ok os" "builder ob \<noteq> NULL" "\<not> rl_writer (rwlock ob)"
  shows "\<exists>w'. EndAccessPurgMem (calm os) p w1 = Some w' \<and> access_outcome w p t ob bs True c w'"
proof (cases "purged (g_supportUxpt (ux w)) t ob (ptes (ux w))")
  case True
  then have v: "obj_view w p t w1 (add_reader (count_build True ob)) (rebuilt ob c bs)
      (rebuilt_entries (g_supportUxpt (ux w)) t (ptes (ux w)))"
    using assms(1) by (simp add: begin_outcome_def Let_def)
  have "builder (count_build True ob) \<noteq> NULL" "\<not> rl_writer (rwlock (count_build True ob))"
    using assms(4,5) by (simp_all add: count_build_def)
  from EndAccess_reader [OF v this(1) assms(3) this(2)] show ?thesis
    using True by (simp add: access_outcome_def Let_def unpin_rebuilt [OF assms(2)])
next
  case False
  then have v: "obj_view w p t w1 (add_reader ob) bs (pinned_entries (g_supportUxpt (ux w)) t (ptes (ux w)))"
    using assms(1) by (simp add: begin_outcome_def Let_def)
  from EndAccess_reader [OF v assms(4,3,5)] show ?thesis
    using False by (simp add: access_outcome_def Let_def unpin_pinned [OF assms(2)])
qed

section \<open>Logging a modification\<close>

text \<open>An object whose log may still be empty.\<close>

definition obj_logged ::
  "world \<Rightarrow> ptr \<Rightarrow> UxPageTableStruct \<Rightarrow> PurgMem \<Rightarrow> byte list \<Rightarrow> mod_step list \<Rightarrow> bool" where
  "obj_logged w p t ob bs xs \<longleftrightarrow>
     obj_view w p t w ob bs (ptes (ux w)) \<and>
     (\<exists>A. heap_chain (builders w) (builder ob) A xs) \<and> (\<forall>(f, q) \<in> set xs. in_buffer f)"

lemma obj_ready_logged: "obj_ready w p t ob bs xs \<longleftrightarrow> obj_logged w p t ob bs xs \<and> builder ob \<noteq> NULL"
  by (auto simp: obj_ready_def obj_logged_def)

lemma view_self:
  assumes "obj_view w0 p t w ob bs m"
  shows "obj_view w p t w ob bs (ptes (ux w))"
  using assms by (auto simp: obj_view_def)

text \<open>The object after its first modification points to the new builder.\<close>

definition first_builder :: "ptr \<Rightarrow> PurgMem \<Rightarrow> PurgMem" where
  "first_builder newp ob = (if builder ob = NULL then ob\<lparr>builder := newp\<rparr> else ob)"

lemma first_builder_simps [simp]:
  "dataPtr (first_builder b ob) = dataPtr ob" "dataSizeInput (first_builder b ob) = dataSizeInput ob"
  "uxPageTable (first_builder b ob) = uxPageTable ob" "rwlock (first_builder b ob) = rwlock ob"
  "buildDataCount (first_builder b ob) = buildDataCount ob"
  by (simp_all add: first_builder_def)

lemma view_builders:
  assumes "obj_view w0 p t w ob bs m"
  shows "obj_view (w0\<lparr>builders := h\<rparr>) p t (w\<lparr>builders := h\<rparr>) ob bs m"
  using assms by (simp add: obj_view_def)

lemma now_store:
  assumes "touch_ok os t" "dataAddr t = d"
  shows "now (store_data (calm os) d bs w) = Suc (now w)"
  using assms by (auto simp: store_data_def touch_ok_def now_def bump_def)

text \<open>The second half of the operation: create a builder and hang it on the object.\<close>

definition log_step :: "pm_os \<Rightarrow> ptr \<Rightarrow> PurgMem \<Rightarrow> modify_func \<Rightarrow> ptr \<Rightarrow> world \<Rightarrow> (bool \<times> world) option" where
  "log_step os p ob f q w1 =
     (let (nb, h1) = PurgMemBuilderCreate (os_malloc os (now w1)) (Some f) q None (builders w1);
          w2 = (bump w1)\<lparr>builders := h1\<rparr>
      in if nb = NULL then Some (False, w2)
         else if builder ob = NULL then Some (True, set_obj p (ob\<lparr>builder := nb\<rparr>) w2)
         else do {
           (ret, h2) \<leftarrow> PurgMemBuilderAppendBuilder (builder ob) nb (builders w2);
           Some (ret, w2\<lparr>builders := h2\<rparr>)
         })"

text \<open>The function is applied first; the rest of the operation works on the state it leaves.\<close>

lemma AppendModify_applies:
  assumes lg: "obj_logged w p t ob bs xs" and os: "touch_ok os t" and f: "in_buffer f"
    and run: "f (take (unat (dataSizeInput ob)) bs) q = (succ, d)"
  shows "\<exists>w1. obj_view w p t w1 ob (rebuilt ob d bs) (touch (\<lambda>v. v OR 1) (obj_slots t) (ptes (ux w))) \<and>
           now w1 = Suc (now w) \<and>
           PurgMemAppendModify (calm os) p (Some f) q w =
             (if \<not> succ then Some (False, w1)
              else log_step os p ob f q w1)"
proof -
  let ?n = "unat (dataSizeInput ob)"
  have v: "obj_view w p t w ob bs (ptes (ux w))" using lg by (simp add: obj_logged_def)
  have geo: "geometry t ob" and n: "?n \<le> length bs" and pn: "p \<noteq> NULL"
    and reg: "regions w (dataPtr ob) = Some bs" and ob: "objs w p = Some ob"
    using v view_obj [OF v] geometry_size(2)
    by (auto simp: obj_view_def dest: fun_cong [where x = "dataPtr ob"])
  have "length (snd (f (take ?n bs) q)) = length (take ?n bs)" using f unfolding in_buffer_def by blast
  then have len: "length (rebuilt ob d bs) = length bs" using run n by (simp add: rebuilt_def)
  define w1 where "w1 = store_data (calm os) (dataPtr ob) (rebuilt ob d bs) w"
  have "obj_view w p t w1 ob (rebuilt ob d bs) (touch (\<lambda>v. v OR 1) (obj_slots t) (ptes (ux w)))"
    unfolding w1_def by (rule view_store [OF v os len])
  moreover have "now w1 = Suc (now w)"
    unfolding w1_def using geo by (intro now_store [OF os]) (simp add: geometry_def)
  ultimately show ?thesis
    using pn ob reg run
    by (intro exI [of _ w1]) (simp add: PurgMemAppendModify_def log_step_def Let_def w1_def rebuilt_def)
qed

text \<open>A new node of the log: the chain with it, reached from the object.\<close>

lemma AppendModify_logs:
  assumes lg: "obj_logged w p t ob bs xs" and os: "touch_ok os t" and f: "in_buffer f"
    and run: "f (take (unat (dataSizeInput ob)) bs) q = (True, d)"
    and new: "os_malloc os (Suc (now w)) = newp" "newp \<noteq> NULL" "builders w newp = None"
  shows "\<exists>w'. PurgMemAppendModify (calm os) p (Some f) q w = Some (True, w') \<and>
              obj_ready w' p t (first_builder newp ob) (rebuilt ob d bs) (xs @ [(f, q)]) \<and>
              obj_view (w\<lparr>builders := builders w'\<rparr>) p t w' (first_builder newp ob) (rebuilt ob d bs)
                (touch (\<lambda>v. v OR 1) (obj_slots t) (ptes (ux w))) \<and>
              (builder ob = NULL \<longrightarrow>
                 builders w' = (builders w)(newp \<mapsto> \<lparr>nextBuilder = NULL, Build = Some f, bparam = q, bname = None\<rparr>))"
proof -
  let ?m = "touch (\<lambda>v. v OR 1) (obj_slots t) (ptes (ux w))"
  obtain A where chain: "heap_chain (builders w) (builder ob) A xs" and buf: "\<forall>(f, q) \<in> set xs. in_buffer f"
    using lg by (auto simp: obj_logged_def)
  obtain w1 where v1: "obj_view w p t w1 ob (rebuilt ob d bs) ?m" and w1: "now w1 = Suc (now w)"
    and step1: "PurgMemAppendModify (calm os) p (Some f) q w = log_step os p ob f q w1"
    using AppendModify_applies [OF lg os f run] by auto
  have bl: "builders w1 = builders w" using v1 by (simp add: obj_view_def)
  define h1 where "h1 = (builders w)(newp \<mapsto> \<lparr>nextBuilder = NULL, Build = Some f, bparam = q, bname = None\<rparr>)"
  define w2 where "w2 = (bump w1)\<lparr>builders := h1\<rparr>"
  note fresh = heap_chain_new(1,2) [OF chain new(3,2), of f q None, folded h1_def]
    heap_chain_new(3) [OF chain new(3,2)]
  have v2: "obj_view (w\<lparr>builders := h1\<rparr>) p t w2 ob (rebuilt ob d bs) ?m"
    unfolding w2_def by (rule view_builders [OF view_bump [OF v1]])
  have step: "PurgMemAppendModify (calm os) p (Some f) q w =
      (if builder ob = NULL then Some (True, set_obj p (ob\<lparr>builder := newp\<rparr>) w2)
       else do { (ret, h2) \<leftarrow> PurgMemBuilderAppendBuilder (builder ob) newp h1;
                 Some (ret, w2\<lparr>builders := h2\<rparr>) })"
    using step1 w1 bl new by (simp add: log_step_def PurgMemBuilderCreate_def h1_def w2_def)
  show ?thesis
  proof (cases "builder ob = NULL")
    case True
    let ?w3 = "set_obj p (ob\<lparr>builder := newp\<rparr>) w2"
    have v3: "obj_view (w\<lparr>builders := h1\<rparr>) p t ?w3 (first_builder newp ob) (rebuilt ob d bs) ?m"
      using True by (simp add: first_builder_def) (rule view_set_obj [OF v2]; simp)
    have "xs = []" using chain True by (auto simp: heap_chain_def)
    then have "obj_ready ?w3 p t (first_builder newp ob) (rebuilt ob d bs) (xs @ [(f, q)])"
      using view_self [OF v3] fresh(2) new(2) True f
      by (auto simp: obj_ready_def first_builder_def w2_def)
    moreover have "builders ?w3 = h1" by (simp add: w2_def)
    ultimately show ?thesis using step v3 True by (auto simp: h1_def)
  next
    case False
    obtain h2 where h2: "PurgMemBuilderAppendBuilder (builder ob) newp h1 = Some (True, h2)"
      "heap_chain h2 (builder ob) (A \<union> {newp}) (xs @ [(f, q)])"
      using purg_builder.append_to [OF fresh(1,2) False new(2)] fresh(3) by auto
    have fb: "first_builder newp ob = ob" using False by (simp add: first_builder_def)
    then have v3: "obj_view (w\<lparr>builders := h2\<rparr>) p t (w2\<lparr>builders := h2\<rparr>) (first_builder newp ob) (rebuilt ob d bs) ?m"
      using view_builders [OF v2, of h2] by simp
    have "obj_ready (w2\<lparr>builders := h2\<rparr>) p t (first_builder newp ob) (rebuilt ob d bs) (xs @ [(f, q)])"
      using view_self [OF v3] h2(2) False f buf fb by (auto simp: obj_ready_def)
    then show ?thesis using step v3 False h2(1) by auto
  qed
qed

text \<open>A modification that fails, or cannot be logged, has still been applied.\<close>

lemma AppendModify_fails:
  assumes lg: "obj_logged w p t ob bs xs" and os: "touch_ok os t" and f: "in_buffer f"
    and run: "f (take (unat (dataSizeInput ob)) bs) q = (succ, d)"
    and no: "\<not> succ \<or> os_malloc os (Suc (now w)) = NULL"
  shows "\<exists>w'. PurgMemAppendModify (calm os) p (Some f) q w = Some (False, w') \<and>
              obj_logged w' p t ob (rebuilt ob d bs) xs \<and>
              obj_view w p t w' ob (rebuilt ob d bs) (touch (\<lambda>v. v OR 1) (obj_slots t) (ptes (ux w)))"
proof -
  let ?m = "touch (\<lambda>v. v OR 1) (obj_slots t) (ptes (ux w))"
  obtain w1 where v1: "obj_view w p t w1 ob (rebuilt ob d bs) ?m" and w1: "now w1 = Suc (now w)"
    and step: "PurgMemAppendModify (calm os) p (Some f) q w =
      (if \<not> succ then Some (False, w1) else log_step os p ob f q w1)"
    using AppendModify_applies [OF lg os f run] by auto
  have r: "PurgMemAppendModify (calm os) p (Some f) q w = Some (False, if succ then bump w1 else w1)"
    using step w1 no by (auto simp: log_step_def PurgMemBuilderCreate_def bump_def)
  have v2: "obj_view w p t (if succ then bump w1 else w1) ob (rebuilt ob d bs) ?m"
    using v1 view_bump [OF v1] by simp
  then have "obj_logged (if succ then bump w1 else w1) p t ob (rebuilt ob d bs) xs"
    using view_self [OF v2] lg by (auto simp: obj_logged_def obj_view_def)
  then show ?thesis using r v2 by blast
qed

end
