(* ===== verification/Purg_Recovery.thy ===== *)
theory Purg_Recovery
  imports Purg_Access
begin

text \<open>
  Why a purgeable object never shows stale or lost content: \<open>content_ok\<close> ties the content of an
  object to its log of modifications. Every access operation and every purge by the kernel
  keeps it, and a successful begin operation makes the content visible.
\<close>

section \<open>Content and log\<close>

abbreviation content_of :: "PurgMem \<Rightarrow> byte list \<Rightarrow> byte list" where
  "content_of ob bs \<equiv> take (unat (dataSizeInput ob)) bs"

definition content_ok ::
  "world \<Rightarrow> ptr \<Rightarrow> UxPageTableStruct \<Rightarrow> PurgMem \<Rightarrow> byte list \<Rightarrow> mod_step list \<Rightarrow> byte list \<Rightarrow> bool" where
  "content_ok w p t ob bs xs c \<longleftrightarrow>
     obj_ready w p t ob bs xs \<and> run_steps xs (zeros ob) = (True, c) \<and>
     (\<not> purged (g_supportUxpt (ux w)) t ob (ptes (ux w)) \<longrightarrow> content_of ob bs = c)"

lemma content_length:
  assumes "content_ok w p t ob bs xs c"
  shows "length c = unat (dataSizeInput ob)"
proof -
  have "length (snd (run_steps xs (zeros ob))) = length (zeros ob)"
    using assms by (intro run_steps_length) (auto simp: content_ok_def obj_ready_def)
  then show ?thesis using assms by (simp add: content_ok_def zeros_def)
qed

lemma content_rebuilt: "length c = unat (dataSizeInput ob) \<Longrightarrow> content_of ob (rebuilt ob c bs) = c"
  by (simp add: rebuilt_def)

text \<open>The log of an object is only reached through its builder pointer.\<close>

lemma ready_view:
  assumes "obj_ready w0 p t ob bs xs" "obj_view w0 p t w ob' bs' m" "builder ob' = builder ob"
  shows "obj_ready w p t ob' bs' xs"
proof -
  have "builders w = builders w0" using assms(2) by (simp add: obj_view_def)
  then show ?thesis using assms view_self [OF assms(2)] by (auto simp: obj_ready_def)
qed

section \<open>The operations keep content and log together\<close>

lemma append_content:
  assumes ok: "content_ok w p t ob bs xs c" and c: "content_of ob bs = c"
    and os: "touch_ok os t" and f: "in_buffer f" "f c q = (True, d)"
    and new: "os_malloc os (Suc (now w)) \<noteq> NULL" "builders w (os_malloc os (Suc (now w))) = None"
  shows "\<exists>w' bs'. PurgMemAppendModify (calm os) p (Some f) q w = Some (True, w') \<and>
              content_ok w' p t ob bs' (xs @ [(f, q)]) d \<and> content_of ob bs' = d"
proof -
  have lg: "obj_logged w p t ob bs xs" "builder ob \<noteq> NULL"
    using ok by (simp_all add: content_ok_def obj_ready_logged)
  obtain w' where w': "PurgMemAppendModify (calm os) p (Some f) q w = Some (True, w')"
    "obj_ready w' p t ob (rebuilt ob d bs) (xs @ [(f, q)])"
    using AppendModify_logs [OF lg(1) os f(1) _ refl new] f(2) c lg(2) by (auto simp: first_builder_def)
  have "length (snd (f c q)) = length c" using f(1) unfolding in_buffer_def by blast
  then have "content_of ob (rebuilt ob d bs) = d"
    using f(2) content_length [OF ok] by (intro content_rebuilt) simp
  moreover have "run_steps (xs @ [(f, q)]) (zeros ob) = (True, d)"
    using ok f(2) by (simp add: run_steps_append content_ok_def)
  ultimately have "content_ok w' p t ob (rebuilt ob d bs) (xs @ [(f, q)]) d"
    using w'(2) by (simp add: content_ok_def)
  then show ?thesis using w'(1) \<open>content_of ob (rebuilt ob d bs) = d\<close> by blast
qed

lemma end_content:
  assumes ok: "content_ok w p t ob bs xs c" and c: "content_of ob bs = c"
    and os: "locks_ok os" "rl_writer (rwlock ob)"
  shows "\<exists>w'. EndAccessPurgMem (calm os) p w = Some w' \<and>
              content_ok w' p t (set_writer False ob) bs xs c"
proof -
  have rdy: "obj_ready w p t ob bs xs" using ok by (simp add: content_ok_def)
  then have v: "obj_view w p t w ob bs (ptes (ux w))" "builder ob \<noteq> NULL" by (simp_all add: obj_ready_def)
  obtain w' where w': "EndAccessPurgMem (calm os) p w = Some w'"
    "obj_view w p t w' (set_writer False ob) bs
       (pin_all (g_supportUxpt (ux w)) uxpte_dec t (ptes (ux w)))"
    using EndAccess_writer [OF v os] by blast
  have "content_ok w' p t (set_writer False ob) bs xs c"
    using ready_view [OF rdy w'(2)] ok c by (simp add: content_ok_def zeros_def)
  then show ?thesis using w'(1) by blast
qed

section \<open>The kernel purges\<close>

text \<open>
  The kernel may change entry values at will. It drops the bytes of the region only if it has
  user extended page tables, and then some page of the object is no longer marked present.
\<close>

definition kernel_purges :: "UxPageTableStruct \<Rightarrow> ptr \<Rightarrow> world \<Rightarrow> world \<Rightarrow> bool" where
  "kernel_purges t d w w' \<longleftrightarrow>
     builders w' = builders w \<and> objs w' = objs w \<and> upts (ux w') = upts (ux w) \<and>
     g_supportUxpt (ux w') = g_supportUxpt (ux w) \<and>
     (\<forall>a. ptes (ux w') a = None \<longleftrightarrow> ptes (ux w) a = None) \<and>
     (\<exists>bs bs'. regions w d = Some bs \<and> regions w' = (regions w)(d \<mapsto> bs') \<and> length bs' = length bs \<and>
        (if g_supportUxpt (ux w) \<and> \<not> all_present t (ptes (ux w')) then True
         else bs' = bs \<and> (g_supportUxpt (ux w) \<longrightarrow> all_present t (ptes (ux w)))))"

text \<open>
  The last conjunct: pages that were purged before do not come back by themselves.
\<close>

lemma purge_content:
  assumes ok: "content_ok w p t ob bs xs c" and k: "kernel_purges t (dataPtr ob) w w'"
  shows "\<exists>bs'. content_ok w' p t ob bs' xs c"
proof -
  have v: "obj_view w p t w ob bs (ptes (ux w))" using ok by (simp add: content_ok_def obj_ready_def)
  have reg: "regions w (dataPtr ob) = Some bs" "objs w p = Some ob"
    using v view_obj [OF v] by (auto simp: obj_view_def dest: fun_cong [where x = "dataPtr ob"])
  obtain bs' where r: "regions w' = (regions w)(dataPtr ob \<mapsto> bs')" "length bs' = length bs"
    and b: "if g_supportUxpt (ux w) \<and> \<not> all_present t (ptes (ux w')) then True
            else bs' = bs \<and> (g_supportUxpt (ux w) \<longrightarrow> all_present t (ptes (ux w)))"
    using k reg(1) by (auto simp: kernel_purges_def)
  have eq: "builders w' = builders w" "objs w' = objs w" "upts (ux w') = upts (ux w)"
    "g_supportUxpt (ux w') = g_supportUxpt (ux w)"
    "\<And>a. ptes (ux w') a = None \<longleftrightarrow> ptes (ux w) a = None" using k by (simp_all add: kernel_purges_def)
  have "upt_ok (ux w') (uxPageTable ob) t" if "g_supportUxpt (ux w)"
    using v that eq by (auto simp: obj_view_def intro: upt_ok_cong)
  then have "obj_view w' p t w' ob bs' (ptes (ux w'))"
    using v eq r reg(2) by (auto simp: obj_view_def)
  then have rdy: "obj_ready w' p t ob bs' xs" using ok eq by (auto simp: content_ok_def obj_ready_def)
  have "content_of ob bs' = c" if "\<not> purged (g_supportUxpt (ux w')) t ob (ptes (ux w'))"
    using that ok b eq(4) by (auto simp: purged_def content_ok_def split: if_splits)
  then show ?thesis using rdy ok by (auto simp: content_ok_def)
qed

section \<open>Beginning an access\<close>

text \<open>
  The contract the two begin operations share: on an object nobody holds they have the three
  outcomes of \<open>begin_outcome\<close>, and what they grant is a change of the lock.
\<close>

locale begin_access =
  fixes begin_op :: "pm_os \<Rightarrow> ptr \<Rightarrow> world \<Rightarrow> (bool \<times> world) option"
    and grant :: "PurgMem \<Rightarrow> PurgMem"
    and lock_change :: "rwlock_t \<Rightarrow> rwlock_t"
  assumes outcome: "\<lbrakk>obj_ready w p t ob bs xs; pm_env os t; lock_free ob; buildDataCount ob + 1 \<noteq> 0;
      run_steps xs (zeros ob) = (b, c)\<rbrakk> \<Longrightarrow>
      \<exists>w'. begin_op (calm os) p w = Some (\<not> purged (g_supportUxpt (ux w)) t ob (ptes (ux w)) \<or> b, w') \<and>
           begin_outcome grant w p t ob bs b c w'"
    and grant: "grant x = x\<lparr>rwlock := lock_change (rwlock x)\<rparr>"
begin

text \<open>A begin operation whose log fails gives everything back.\<close>

lemma failed:
  assumes "obj_ready w p t ob bs xs" "pm_env os t" "lock_free ob" "buildDataCount ob + 1 \<noteq> 0"
    "run_steps xs (zeros ob) = (False, c)" "countable_entries t (ptes (ux w))"
    "purged (g_supportUxpt (ux w)) t ob (ptes (ux w))"
  shows "\<exists>w'. begin_op (calm os) p w = Some (False, w') \<and> access_outcome w p t ob bs False c w'"
  using outcome [OF assms(1-5)] assms(7) failed_begin_restores [OF _ assms(6,7)] by auto

text \<open>A begin operation on an object whose log and content agree makes the content visible.\<close>

lemma content:
  assumes ok: "content_ok w p t ob bs xs c" and os: "pm_env os t"
    and lk: "lock_free ob" "buildDataCount ob + 1 \<noteq> 0"
  shows "\<exists>w' bs' b. begin_op (calm os) p w = Some (True, w') \<and>
           content_ok w' p t (grant (count_build b ob)) bs' xs c \<and> content_of ob bs' = c \<and>
           regions w' (dataPtr ob) = Some bs' \<and> builders w' = builders w"
proof -
  let ?supp = "g_supportUxpt (ux w)" and ?m = "ptes (ux w)"
  have rdy: "obj_ready w p t ob bs xs" and run: "run_steps xs (zeros ob) = (True, c)"
    using ok by (simp_all add: content_ok_def)
  obtain w' where w': "begin_op (calm os) p w = Some (True, w')" "begin_outcome grant w p t ob bs True c w'"
    using outcome [OF rdy os lk run] by auto
  obtain bs' b m' where v: "obj_view w p t w' (grant (count_build b ob)) bs' m'" and c: "content_of ob bs' = c"
  proof (cases "purged ?supp t ob ?m")
    case True
    have "content_of ob (rebuilt ob c bs) = c" by (rule content_rebuilt [OF content_length [OF ok]])
    moreover have "obj_view w p t w' (grant (count_build True ob)) (rebuilt ob c bs) (rebuilt_entries ?supp t ?m)"
      using w'(2) True by (simp add: begin_outcome_def Let_def)
    ultimately show ?thesis using that by blast
  next
    case False
    have "obj_view w p t w' (grant (count_build False ob)) bs (pinned_entries ?supp t ?m)"
      using w'(2) False by (simp add: begin_outcome_def Let_def count_build_def)
    moreover have "content_of ob bs = c" using ok False by (simp add: content_ok_def)
    ultimately show ?thesis using that by blast
  qed
  have same: "builder (grant (count_build b ob)) = builder ob" "dataPtr (grant (count_build b ob)) = dataPtr ob"
    "dataSizeInput (grant (count_build b ob)) = dataSizeInput ob"
    by (simp_all add: grant count_build_def)
  have "content_ok w' p t (grant (count_build b ob)) bs' xs c"
    using ready_view [OF rdy v same(1)] run c by (simp add: content_ok_def zeros_def same(3))
  moreover have "regions w' (dataPtr ob) = Some bs'" "builders w' = builders w"
    using v by (simp_all add: obj_view_def same(2))
  ultimately show ?thesis using w'(1) c by blast
qed

end

interpretation rd: begin_access PurgMemBeginRead "\<lambda>ob. add_reader ob" "\<lambda>r. r\<lparr>rl_readers := Suc (rl_readers r)\<rparr>"
  using BeginRead_outcome lock_free_simps(1) by unfold_locales (blast, simp)

interpretation wr: begin_access PurgMemBeginWrite "\<lambda>ob. set_writer True ob" "\<lambda>r. r\<lparr>rl_writer := True\<rparr>"
  using BeginWrite_outcome by unfold_locales (blast, simp)

end
