(* ===== verification/Purg_Life.thy ===== *)
theory Purg_Life
  imports Purg_Recovery
begin

text \<open>
  Creation and destruction of purgeable objects: which resources (object, data region, page
  table struct, mapped entries, builders) each path of the source takes and releases.
\<close>

section \<open>Destruction\<close>

text \<open>The kernel accepts every unmapping.\<close>

definition unmaps_ok :: "pm_os \<Rightarrow> bool" where
  "unmaps_ok os \<longleftrightarrow>
     (\<forall>n d sz. os_munmap os n d sz = 0) \<and> (\<forall>n d sz. ux_munmap (uxos os) n d sz = 0)"

text \<open>
  Everything an object owned is gone: the object, its region, its table struct, the entries of
  the table mapping and its builders \<open>A\<close>; nothing else has changed.
\<close>

definition released ::
  "world \<Rightarrow> ptr \<Rightarrow> UxPageTableStruct \<Rightarrow> PurgMem \<Rightarrow> ptr set \<Rightarrow> world \<Rightarrow> bool" where
  "released w p t ob A w' \<longleftrightarrow>
     objs w' = (objs w)(p := None) \<and> regions w' = (regions w)(dataPtr ob := None) \<and>
     dom (builders w') = dom (builders w) - A \<and>
     upts (ux w') = (upts (ux w))(uxPageTable ob := None) \<and>
     g_supportUxpt (ux w') = g_supportUxpt (ux w) \<and>
     ptes (ux w') = (if g_supportUxpt (ux w)
        then (\<lambda>a. if in_mapping (uxpte t) (GetUxPageSize (dataAddr t) (dataSize t)) a then None
                  else ptes (ux w) a)
        else ptes (ux w))"

text \<open>Looking whether an object is purged only makes time pass.\<close>

lemma IsPurged_quiet:
  assumes "objs w p = Some ob" "g_supportUxpt (ux w) \<Longrightarrow> upt_ok (ux w) (uxPageTable ob) t"
  shows "\<exists>b k. IsPurged (calm os) p w = Some (b, w\<lparr>ux := (ux w)\<lparr>tick := k\<rparr>\<rparr>)"
proof (cases "g_supportUxpt (ux w) \<and> buildDataCount ob \<noteq> 0")
  case True
  then obtain k where "UxpteIsPresent (quieten (uxos os)) (uxPageTable ob) (dataPtr ob) (dataSizeInput ob) (ux w) =
      Some (range_present (ux w) t (dataPtr ob) (dataSizeInput ob), (ux w)\<lparr>tick := k\<rparr>)"
    using UxpteIsPresent_effect [OF assms(2), of "uxos os" "dataPtr ob" "dataSizeInput ob"] by auto
  then show ?thesis using True assms(1) by (auto simp: IsPurged_def lift_ux_def)
next
  case False
  have same: "w = w\<lparr>ux := (ux w)\<lparr>tick := tick (ux w)\<rparr>\<rparr>" by simp
  have "\<exists>b. IsPurged (calm os) p w = Some (b, w)"
    using False assms(1) by (auto simp: IsPurged_def lift_ux_def UxpteIsPresent_def)
  then show ?thesis using same by metis
qed

lemma Destroy_builder_step:
  assumes "objs w p = Some ob" "heap_chain (builders w) (builder ob) A xs"
  shows "\<exists>h. Destroy_builder p err w =
            Some (err, w\<lparr>builders := h, objs := (objs w)(p \<mapsto> ob\<lparr>builder := NULL\<rparr>)\<rparr>) \<and>
          dom h = dom (builders w) - A"
proof (cases "builder ob = NULL")
  case True
  then have "A = {}" using assms(2) by (auto simp: heap_chain_def)
  moreover have "w = w\<lparr>builders := builders w, objs := (objs w)(p \<mapsto> ob\<lparr>builder := NULL\<rparr>)\<rparr>"
    using True assms(1) by (auto simp: fun_upd_idem)
  ultimately show ?thesis
    using True assms(1) by (intro exI [of _ "builders w"]) (simp add: Destroy_builder_def)
next
  case False
  obtain h where "PurgMemBuilderDestroy (builder ob) (builders w) = Some (True, h)"
    "dom h = dom (builders w) - A" using purg_builder.release [OF assms(2)] by blast
  then show ?thesis
    using False assms(1) by (intro exI [of _ h]) (simp add: Destroy_builder_def set_obj_def Let_def)
qed

lemma Destroy_data_step:
  assumes ob: "objs w p = Some ob" "dataPtr ob \<noteq> NULL"
    and tab: "g_supportUxpt (ux w) \<Longrightarrow> upt_ok (ux w) (uxPageTable ob) t" and os: "unmaps_ok os"
  shows "\<exists>k. Destroy_data (calm os) p err w =
            Some (err, w\<lparr>regions := (regions w)(dataPtr ob := None), objs := (objs w)(p \<mapsto> ob\<lparr>dataPtr := NULL\<rparr>),
                         ux := (ux w)\<lparr>tick := k\<rparr>\<rparr>)"
proof -
  let ?sz = "PurgMem_RoundUp (dataSizeInput ob) PAGE_SIZE"
  define w1 where "w1 = (bump w)\<lparr>regions := (regions w)(dataPtr ob := None)\<rparr>"
  have m: "munmap_data (calm os) (dataPtr ob) ?sz w = (0, w1)"
    using os by (simp add: munmap_data_def unmaps_ok_def w1_def Let_def)
  have s: "g_supportUxpt (ux w1) = g_supportUxpt (ux w)" "objs w1 = objs w"
    "upts (ux w1) = upts (ux w)" "ptes (ux w1) = ptes (ux w)" by (simp_all add: w1_def)
  have "\<exists>b k. IsPurged (calm os) p w1 = Some (b, w1\<lparr>ux := (ux w1)\<lparr>tick := k\<rparr>\<rparr>)"
    by (rule IsPurged_quiet [where ob = ob and t = t])
      (use ob s tab in \<open>auto intro: upt_ok_cong\<close>)
  then obtain b k where q: "IsPurged (calm os) p w1 = Some (b, w1\<lparr>ux := (ux w1)\<lparr>tick := k\<rparr>\<rparr>)" by blast
  show ?thesis
  proof (cases "g_supportUxpt (ux w)")
    case True
    then show ?thesis
      using ob m q s(1,2)
      by (intro exI [of _ k]) (simp add: Destroy_data_def UxpteIsEnabled_def set_obj_def w1_def bump_def)
  next
    case False
    then show ?thesis
      using ob m s(1,2)
      by (intro exI [of _ "Suc (now w)"]) (simp add: Destroy_data_def UxpteIsEnabled_def set_obj_def w1_def bump_def)
  qed
qed

lemma Destroy_uxpt_step:
  assumes ob: "objs w p = Some ob" "uxPageTable ob \<noteq> NULL"
    and tab: "g_supportUxpt (ux w) \<Longrightarrow> upt_ok (ux w) (uxPageTable ob) t \<and> uxpte t \<noteq> NULL"
    and un: "\<And>n d sz. ux_munmap (uxos os) n d sz = 0"
  shows "\<exists>k. Destroy_uxpt (calm os) p err w =
            Some (err, w\<lparr>objs := (objs w)(p \<mapsto> ob\<lparr>uxPageTable := NULL\<rparr>),
                  ux := (ux w)\<lparr>tick := k, upts := (upts (ux w))(uxPageTable ob := None),
                    ptes := (if g_supportUxpt (ux w)
                      then (\<lambda>a. if in_mapping (uxpte t) (GetUxPageSize (dataAddr t) (dataSize t)) a then None
                                else ptes (ux w) a)
                      else ptes (ux w))\<rparr>\<rparr>)"
proof (cases "g_supportUxpt (ux w)")
  case True
  then have t: "upts (ux w) (uxPageTable ob) = Some t" "uxpte t \<noteq> NULL"
    using tab upt_ok_upts by blast+
  show ?thesis
    using Deinit_effect [OF True ob(2) t, of "uxos os"] ob True
    by (intro exI [of _ "Suc (tick (ux w))"])
      (simp add: Destroy_uxpt_def lift_ux_def un set_obj_def free_upt_def)
next
  case False
  then show ?thesis
    using ob by (intro exI [of _ "tick (ux w)"])
      (simp add: Destroy_uxpt_def lift_ux_def DeinitUxPageTable_def set_obj_def free_upt_def)
qed

text \<open>The three steps together, on an object that has all its parts.\<close>

lemma Destroy_steps:
  assumes ob: "objs w p = Some ob" "dataPtr ob \<noteq> NULL" "uxPageTable ob \<noteq> NULL"
    and chain: "heap_chain (builders w) (builder ob) A xs" and os: "unmaps_ok os"
    and tab: "g_supportUxpt (ux w) \<Longrightarrow> upt_ok (ux w) (uxPageTable ob) t \<and> uxpte t \<noteq> NULL"
  shows "\<exists>w2 w3 w4 ob'. Destroy_builder p PM_OK w = Some (PM_OK, w2) \<and>
           Destroy_data (calm os) p PM_OK w2 = Some (PM_OK, w3) \<and>
           Destroy_uxpt (calm os) p PM_OK w3 = Some (PM_OK, w4) \<and>
           objs w4 = (objs w)(p \<mapsto> ob') \<and> rwlock ob' = rwlock ob \<and>
           released w p t ob A (free_obj p w4)"
proof -
  let ?ob2 = "ob\<lparr>builder := NULL\<rparr>" and ?ob3 = "ob\<lparr>builder := NULL, dataPtr := NULL\<rparr>"
  obtain h w2 where w2: "Destroy_builder p PM_OK w = Some (PM_OK, w2)"
    "w2 = w\<lparr>builders := h, objs := (objs w)(p \<mapsto> ?ob2)\<rparr>" "dom h = dom (builders w) - A"
    using Destroy_builder_step [OF ob(1) chain, of PM_OK] by blast
  have s2: "objs w2 p = Some ?ob2" "dataPtr ?ob2 \<noteq> NULL"
    "g_supportUxpt (ux w2) \<Longrightarrow> upt_ok (ux w2) (uxPageTable ?ob2) t"
    using ob(2) tab by (simp_all add: w2(2))
  obtain k w3 where w3: "Destroy_data (calm os) p PM_OK w2 = Some (PM_OK, w3)"
    "w3 = w2\<lparr>regions := (regions w2)(dataPtr ?ob2 := None), objs := (objs w2)(p \<mapsto> ?ob3),
             ux := (ux w2)\<lparr>tick := k\<rparr>\<rparr>"
    using Destroy_data_step [OF s2 os, of PM_OK] by auto
  have s3: "objs w3 p = Some ?ob3" "uxPageTable ?ob3 \<noteq> NULL"
    "g_supportUxpt (ux w3) \<Longrightarrow> upt_ok (ux w3) (uxPageTable ?ob3) t \<and> uxpte t \<noteq> NULL"
    using ob(3) tab by (simp_all add: w3(2) w2(2))
  obtain k' w4 where w4: "Destroy_uxpt (calm os) p PM_OK w3 = Some (PM_OK, w4)"
    "w4 = w3\<lparr>objs := (objs w3)(p \<mapsto> ?ob3\<lparr>uxPageTable := NULL\<rparr>),
        ux := (ux w3)\<lparr>tick := k', upts := (upts (ux w3))(uxPageTable ?ob3 := None),
          ptes := (if g_supportUxpt (ux w3)
            then (\<lambda>a. if in_mapping (uxpte t) (GetUxPageSize (dataAddr t) (dataSize t)) a then None
                      else ptes (ux w3) a)
            else ptes (ux w3))\<rparr>\<rparr>"
    using Destroy_uxpt_step [OF s3, of os PM_OK] os by (auto simp: unmaps_ok_def)
  have "released w p t ob A (free_obj p w4)"
    using w2(3) by (simp add: released_def free_obj_def w4(2) w3(2) w2(2) cong: if_cong)
  moreover have "objs w4 = (objs w)(p \<mapsto> ?ob3\<lparr>uxPageTable := NULL\<rparr>)"
    by (simp add: w4(2) w3(2) w2(2))
  ultimately show ?thesis using w2(1) w3(1) w4(1) by fastforce
qed

lemma Destroy_releases:
  assumes v: "obj_view w p t w ob bs (ptes (ux w))"
    and chain: "heap_chain (builders w) (builder ob) A xs" and free: "lock_free ob"
    and os: "locks_ok os" "unmaps_ok os" and q: "g_supportUxpt (ux w) \<Longrightarrow> uxpte t \<noteq> NULL"
  shows "\<exists>w'. PurgMemDestroy (calm os) p w = Some (True, w') \<and> released w p t ob A w'"
proof -
  let ?ob1 = "set_writer True ob"
  define w1 where "w1 = set_obj p ?ob1 (bump w)"
  have ob: "objs w p = Some ob" and nn: "p \<noteq> NULL" "dataPtr ob \<noteq> NULL" "uxPageTable ob \<noteq> NULL"
    and tab: "g_supportUxpt (ux w1) \<Longrightarrow> upt_ok (ux w1) (uxPageTable ob) t"
    using v view_obj [OF v] by (auto simp: obj_view_def geometry_def w1_def intro: upt_ok_cong)
  have lock: "pthread_rwlock_wrlock (calm os) p w = Some (0, w1)"
    using ob os(1) free by (simp add: pthread_rwlock_wrlock_def locks_ok_def lock_free_def w1_def Let_def)
  have s1: "objs w1 p = Some ?ob1" "dataPtr ?ob1 \<noteq> NULL" "uxPageTable ?ob1 \<noteq> NULL"
    "heap_chain (builders w1) (builder ?ob1) A xs" using nn chain by (simp_all add: w1_def)
  obtain w2 w3 w4 ob' where st: "Destroy_builder p PM_OK w1 = Some (PM_OK, w2)"
    "Destroy_data (calm os) p PM_OK w2 = Some (PM_OK, w3)" "Destroy_uxpt (calm os) p PM_OK w3 = Some (PM_OK, w4)"
    "objs w4 = (objs w1)(p \<mapsto> ob')" "released w1 p t ?ob1 A (free_obj p w4)" "rwlock ob' = rwlock ?ob1"
    using Destroy_steps [OF s1 os(2), of t] tab q by (auto simp: w1_def)
  obtain w5 x where w5: "pthread_rwlock_unlock (calm os) p w4 = Some (0, w5)" "w5 = set_obj p x (bump w4)"
    using st(4,6) os(1) by (auto simp: pthread_rwlock_unlock_def locks_ok_def Let_def)
  have "PurgMemDestroy (calm os) p w = Some (True, free_obj p (bump w5))"
    using nn(1) lock st(1-3) w5(1) by (simp add: PurgMemDestroy_def)
  moreover have "released w p t ob A (free_obj p (bump w5))"
    using st(5) by (simp add: released_def free_obj_def w5(2) w1_def cong: if_cong)
  ultimately show ?thesis by blast
qed

subsection \<open>A refused unmapping\<close>

text \<open>
  When the data cannot be unmapped the object survives without log and table; the lock is free
  again.
\<close>

definition half_destroyed ::
  "world \<Rightarrow> ptr \<Rightarrow> UxPageTableStruct \<Rightarrow> PurgMem \<Rightarrow> ptr set \<Rightarrow> world \<Rightarrow> bool" where
  "half_destroyed w p t ob A w' \<longleftrightarrow>
     objs w' = (objs w)(p \<mapsto> ob\<lparr>builder := NULL, uxPageTable := NULL\<rparr>) \<and> regions w' = regions w \<and>
     released w p t ob A (w'\<lparr>objs := (objs w)(p := None), regions := (regions w)(dataPtr ob := None)\<rparr>)"

lemma Destroy_refused:
  assumes v: "obj_view w p t w ob bs (ptes (ux w))"
    and chain: "heap_chain (builders w) (builder ob) A xs" and free: "lock_free ob" and os: "locks_ok os"
    and q: "g_supportUxpt (ux w) \<Longrightarrow> uxpte t \<noteq> NULL"
    and un: "\<And>n d sz. os_munmap os n d sz \<noteq> 0" "\<And>n d sz. ux_munmap (uxos os) n d sz = 0"
  shows "\<exists>w'. PurgMemDestroy (calm os) p w = Some (False, w') \<and> half_destroyed w p t ob A w'"
proof -
  let ?ob1 = "set_writer True ob" and ?ob2 = "(set_writer True ob)\<lparr>builder := NULL\<rparr>"
  define w1 where "w1 = set_obj p ?ob1 (bump w)"
  have ob: "objs w p = Some ob" and nn: "p \<noteq> NULL" "dataPtr ob \<noteq> NULL" "uxPageTable ob \<noteq> NULL"
    and tab: "g_supportUxpt (ux w1) \<Longrightarrow> upt_ok (ux w1) (uxPageTable ob) t"
    using v view_obj [OF v] by (auto simp: obj_view_def geometry_def w1_def intro: upt_ok_cong)
  have lock: "pthread_rwlock_wrlock (calm os) p w = Some (0, w1)"
    using ob os free by (simp add: pthread_rwlock_wrlock_def locks_ok_def lock_free_def w1_def Let_def)
  have s1: "objs w1 p = Some ?ob1" "heap_chain (builders w1) (builder ?ob1) A xs"
    using chain by (simp_all add: w1_def)
  obtain h w2 where w2: "Destroy_builder p PM_OK w1 = Some (PM_OK, w2)"
    "w2 = w1\<lparr>builders := h, objs := (objs w1)(p \<mapsto> ?ob2)\<rparr>" "dom h = dom (builders w1) - A"
    using Destroy_builder_step [OF s1, of PM_OK] by blast
  have d: "Destroy_data (calm os) p PM_OK w2 = Some (PM_UNMAP_PURG_FAIL, bump w2)"
    using nn(2) un(1) by (simp add: Destroy_data_def w2(2) munmap_data_def Let_def)
  have s3: "objs (bump w2) p = Some ?ob2" "uxPageTable ?ob2 \<noteq> NULL"
    "g_supportUxpt (ux (bump w2)) \<Longrightarrow> upt_ok (ux (bump w2)) (uxPageTable ?ob2) t \<and> uxpte t \<noteq> NULL"
    using nn(3) tab q by (auto simp: w2(2) w1_def intro: upt_ok_cong)
  obtain k where u: "Destroy_uxpt (calm os) p PM_UNMAP_PURG_FAIL (bump w2) =
      Some (PM_UNMAP_PURG_FAIL, (bump w2)\<lparr>objs := (objs (bump w2))(p \<mapsto> ?ob2\<lparr>uxPageTable := NULL\<rparr>),
        ux := (ux (bump w2))\<lparr>tick := k, upts := (upts (ux (bump w2)))(uxPageTable ?ob2 := None),
          ptes := (if g_supportUxpt (ux (bump w2))
            then (\<lambda>a. if in_mapping (uxpte t) (GetUxPageSize (dataAddr t) (dataSize t)) a then None
                      else ptes (ux (bump w2)) a)
            else ptes (ux (bump w2)))\<rparr>\<rparr>)" (is "_ = Some (_, ?w4)")
    using Destroy_uxpt_step [OF s3 un(2), of PM_UNMAP_PURG_FAIL] by blast
  have fr: "ob\<lparr>builder := NULL, uxPageTable := NULL, rwlock := \<lparr>rl_readers = 0, rl_writer = False\<rparr>\<rparr> =
      ob\<lparr>builder := NULL, uxPageTable := NULL\<rparr>" "rwlock ob = \<lparr>rl_readers = 0, rl_writer = False\<rparr>"
    using free by (cases ob; simp add: lock_free_def)+
  let ?w5 = "set_obj p (ob\<lparr>builder := NULL, uxPageTable := NULL\<rparr>) (bump ?w4)"
  have unl: "pthread_rwlock_unlock (calm os) p ?w4 = Some (0, ?w5)"
    using os by (simp add: pthread_rwlock_unlock_def locks_ok_def Let_def fr)
  have "PurgMemDestroy (calm os) p w = Some (False, ?w5)"
    using nn(1) lock w2(1) d u unl by (simp add: PurgMemDestroy_def)
  moreover have "half_destroyed w p t ob A ?w5"
    using w2(3) by (simp add: half_destroyed_def released_def w2(2) w1_def cong: if_cong)
  ultimately show ?thesis by blast
qed

text \<open>An object without log and table can still be destroyed.\<close>

lemma Destroy_rest:
  assumes ob: "objs w p = Some ob" "lock_free ob" "builder ob = NULL" "uxPageTable ob = NULL" "dataPtr ob \<noteq> NULL" "p \<noteq> NULL"
    and os: "locks_ok os" "unmaps_ok os"
  shows "\<exists>w'. PurgMemDestroy (calm os) p w = Some (True, w') \<and> objs w' = (objs w)(p := None) \<and>
           regions w' = (regions w)(dataPtr ob := None) \<and> builders w' = builders w \<and> upts (ux w') = upts (ux w) \<and>
           ptes (ux w') = ptes (ux w) \<and> g_supportUxpt (ux w') = g_supportUxpt (ux w)"
proof -
  let ?ob1 = "set_writer True ob"
  define w1 where "w1 = set_obj p ?ob1 (bump w)"
  have lock: "pthread_rwlock_wrlock (calm os) p w = Some (0, w1)"
    using ob os by (simp add: pthread_rwlock_wrlock_def locks_ok_def lock_free_def w1_def Let_def)
  have "IsPurged (calm os) p w' = Some (b, w')" if "objs w' p = Some ?ob1" "b = (buildDataCount ob = 0 \<or> g_supportUxpt (ux w'))" for w' b
    using that ob(4)
    by (auto simp: IsPurged_def lift_ux_def UxpteIsPresent_def UxpteOps_def)
  then have d: "Destroy_data (calm os) p PM_OK w1 =
      Some (PM_OK, set_obj p (?ob1\<lparr>dataPtr := NULL\<rparr>) ((bump w1)\<lparr>regions := (regions w1)(dataPtr ob := None)\<rparr>))" (is "_ = Some (_, ?w3)")
    using ob(5) os(2)
    by (simp add: Destroy_data_def munmap_data_def unmaps_ok_def Let_def w1_def)
  obtain x where "pthread_rwlock_unlock (calm os) p ?w3 = Some (0, set_obj p x (bump ?w3))"
    using os(1) by (simp add: pthread_rwlock_unlock_def locks_ok_def Let_def)
  then have "PurgMemDestroy (calm os) p w = Some (True, free_obj p (bump (set_obj p x (bump ?w3))))"
    using ob(3,4,6) lock d by (simp add: PurgMemDestroy_def Destroy_builder_def Destroy_uxpt_def w1_def)
  then show ?thesis by (simp add: free_obj_def w1_def)
qed

section \<open>Creation\<close>

definition new_obj :: "ptr \<Rightarrow> size_t \<Rightarrow> ptr \<Rightarrow> ptr \<Rightarrow> PurgMem" where
  "new_obj d len bld u = \<lparr>dataPtr = d, dataSizeInput = len, builder = bld, uxPageTable = u,
     rwlock = \<lparr>rl_readers = 0, rl_writer = False\<rparr>, buildDataCount = 0\<rparr>"

lemma obj_overwrite:
  "(ob :: PurgMem)\<lparr>dataPtr := d, dataSizeInput := len, builder := bld, uxPageTable := u,
     rwlock := \<lparr>rl_readers = 0, rl_writer = False\<rparr>, buildDataCount := 0\<rparr> = new_obj d len bld u"
  by (simp add: new_obj_def)

text \<open>Two states that differ in time only.\<close>

definition same_resources :: "world \<Rightarrow> world \<Rightarrow> bool" where
  "same_resources w w' \<longleftrightarrow> (\<exists>k. w' = w\<lparr>ux := (ux w)\<lparr>tick := k\<rparr>\<rparr>)"

lemma same_resourcesI:
  assumes "builders w' = builders w" "regions w' = regions w" "objs w' = objs w" "ptes (ux w') = ptes (ux w)"
    "upts (ux w') = upts (ux w)" "g_supportUxpt (ux w') = g_supportUxpt (ux w)"
  shows "same_resources w w'"
  unfolding same_resources_def using assms by (intro exI [of _ "tick (ux w')"]) simp

text \<open>What the system answers to the requests of one creation, in their order.\<close>

definition obj_at :: "pm_os \<Rightarrow> world \<Rightarrow> ptr" where
  "obj_at os w = os_malloc os (now w)"

definition data_at :: "pm_os \<Rightarrow> size_t \<Rightarrow> world \<Rightarrow> ptr" where
  "data_at os len w = os_mmap os (Suc (now w)) (RoundUp len PAGE_SIZE) PROT_RW (TypeCast w)"

definition upt_at :: "pm_os \<Rightarrow> world \<Rightarrow> ptr" where
  "upt_at os w = os_malloc os (Suc (Suc (now w)))"

definition table_at :: "pm_os \<Rightarrow> size_t \<Rightarrow> world \<Rightarrow> ptr" where
  "table_at os len w =
     table_mmap (uxos os) (Suc (Suc (Suc (now w)))) (data_at os len w) (RoundUp len PAGE_SIZE)"

text \<open>
  The documented behaviour: fresh pointers, page aligned mappings away from the end of the
  address space, no refused unmapping. Every request may still be refused.
\<close>

definition create_env :: "pm_os \<Rightarrow> size_t \<Rightarrow> world \<Rightarrow> bool" where
  "create_env os len w \<longleftrightarrow>
     objs w (obj_at os w) = None \<and> upts (ux w) (upt_at os w) = None \<and>
     (data_at os len w \<noteq> MAP_FAILED \<longrightarrow>
        data_at os len w \<noteq> NULL \<and> unat (data_at os len w) mod 4096 = 0 \<and>
        unat (data_at os len w) + unat len + 8192 < 2 ^ 64 \<and> regions w (data_at os len w) = None) \<and>
     (g_supportUxpt (ux w) \<longrightarrow> table_at os len w = MAP_FAILED \<or>
        mmap_fresh (table_at os len w) (GetUxPageSize (data_at os len w) (RoundUp len PAGE_SIZE)) (ux w)) \<and>
     unmaps_ok os"

text \<open>Some request before the initialisation of the lock is refused.\<close>

definition create_refused :: "pm_os \<Rightarrow> size_t \<Rightarrow> world \<Rightarrow> bool" where
  "create_refused os len w \<longleftrightarrow>
     obj_at os w = NULL \<or> data_at os len w = MAP_FAILED \<or> upt_at os w = NULL \<or>
     (g_supportUxpt (ux w) \<and> table_at os len w = MAP_FAILED)"

definition new_table :: "pm_os \<Rightarrow> size_t \<Rightarrow> world \<Rightarrow> UxPageTableStruct" where
  "new_table os len w = \<lparr>dataAddr = data_at os len w, dataSize = RoundUp len PAGE_SIZE, uxpte = table_at os len w\<rparr>"

text \<open>The state before the page table is set up.\<close>

definition before_init :: "pm_os \<Rightarrow> size_t \<Rightarrow> world \<Rightarrow> world" where
  "before_init os len w =
     w\<lparr>objs := (objs w)(obj_at os w \<mapsto> os_junk os (now w)),
       regions := (regions w)(data_at os len w \<mapsto> replicate (unat (RoundUp len PAGE_SIZE)) 0),
       ux := (ux w)\<lparr>tick := Suc (Suc (Suc (now w))),
                    upts := (upts (ux w))(upt_at os w \<mapsto> os_junk_upt os (Suc (Suc (now w))))\<rparr>\<rparr>"

lemma TypeCast_upd:
  "TypeCast (w\<lparr>objs := x\<rparr>) = TypeCast w" "TypeCast (w\<lparr>ux := (ux w)\<lparr>tick := k\<rparr>\<rparr>) = TypeCast w"
  by (simp_all add: TypeCast_def UxpteIsEnabled_def)

lemmas create_unfolds = PurgMemCreate_inner_def Let_def obj_at_def data_at_def upt_at_def
  PurgMem_RoundUp_eq TypeCast_upd now_def bump_def set_obj_def

lemma Create_inner_unfold:
  assumes "obj_at os w \<noteq> NULL" "data_at os len w \<noteq> MAP_FAILED" "upt_at os w \<noteq> NULL"
  shows "PurgMemCreate_inner (calm os) len bld w =
    (let p = obj_at os w; d = data_at os len w; u = upt_at os w; sz = RoundUp len PAGE_SIZE in
     do {
        (err, w7) \<leftarrow> lift_ux (InitUxPageTable (quieten (uxos os)) u d sz) (before_init os len w);
        if err \<noteq> PM_OK then Some (NULL, unmap_and_free (calm os) p d sz (free_upt u w7))
        else
        let rc = os_lock_init os (now w7); w8 = bump w7
        in if rc \<noteq> 0 then
             do {
               (_, w9) \<leftarrow> lift_ux (DeinitUxPageTable (quieten (uxos os)) u) w8;
               Some (NULL, unmap_and_free (calm os) p d sz (free_upt u w9))
             }
           else do {
             ob \<leftarrow> objs w8 p;
             Some (p, set_obj p (ob\<lparr>dataPtr := d, dataSizeInput := len, builder := bld,
                                  uxPageTable := u,
                                  rwlock := \<lparr>rl_readers = 0, rl_writer = False\<rparr>,
                                  buildDataCount := 0\<rparr>) w8)
           }
      })"
  using assms
  by (simp add: create_unfolds before_init_def cong: if_cong)

lemma Create_inner_refused_early:
  assumes env: "create_env os len w"
    and no: "obj_at os w = NULL \<or> data_at os len w = MAP_FAILED \<or> upt_at os w = NULL"
  shows "\<exists>w'. PurgMemCreate_inner (calm os) len bld w = Some (NULL, w') \<and> same_resources w w'"
proof -
  have fr: "objs w (os_malloc os (tick (ux w))) = None" using env by (simp add: create_env_def obj_at_def now_def)
  have un: "os_munmap os n d sz = 0" for n d sz using env by (simp add: create_env_def unmaps_ok_def)
  consider "obj_at os w = NULL" | "obj_at os w \<noteq> NULL" "data_at os len w = MAP_FAILED"
    | "obj_at os w \<noteq> NULL" "data_at os len w \<noteq> MAP_FAILED" "upt_at os w = NULL" using no by blast
  then show ?thesis
  proof cases
    case 1
    then show ?thesis by (auto simp: create_unfolds intro!: same_resourcesI)
  next
    case 2
    then show ?thesis
      using fr by (auto simp: create_unfolds free_obj_def intro!: same_resourcesI)
  next
    case 3
    then have "regions w (data_at os len w) = None" using env by (simp add: create_env_def)
    then show ?thesis
      using 3 fr
      by (auto simp: create_unfolds free_obj_def unmap_and_free_def munmap_data_def un intro!: same_resourcesI)
  qed
qed

text \<open>The size of the region, and the arithmetic \<open>InitUxPageTable\<close> needs.\<close>

lemma new_geometry:
  assumes "create_env os len w" "0 < unat len" "data_at os len w \<noteq> MAP_FAILED"
  shows "geometry (new_table os len w) (new_obj (data_at os len w) len bld u)"
    "0 < unat (RoundUp len PAGE_SIZE)"
    "unat (data_at os len w) + unat (RoundUp len PAGE_SIZE) + 4096 < 2 ^ 64"
proof -
  show geo: "geometry (new_table os len w) (new_obj (data_at os len w) len bld u)"
    using assms by (simp add: geometry_def new_table_def new_obj_def create_env_def)
  have "unat len \<le> unat (RoundUp len PAGE_SIZE)" "unat (RoundUp len PAGE_SIZE) < unat len + 4096"
    using geometry_size(2,3) [OF geo] by (simp_all add: new_table_def new_obj_def)
  then show "0 < unat (RoundUp len PAGE_SIZE)"
    "unat (data_at os len w) + unat (RoundUp len PAGE_SIZE) + 4096 < 2 ^ 64"
    using assms by (simp_all add: create_env_def)
qed

text \<open>The page table component after \<open>InitUxPageTable\<close> on a new object.\<close>

definition inited :: "pm_os \<Rightarrow> size_t \<Rightarrow> world \<Rightarrow> uxpt_st \<Rightarrow> bool" where
  "inited os len w s1 \<longleftrightarrow>
     (let t = new_table os len w; sz = GetUxPageSize (dataAddr t) (dataSize t) in
      g_supportUxpt s1 = g_supportUxpt (ux w) \<and> (\<exists>x. upts s1 = (upts (ux w))(upt_at os w \<mapsto> x)) \<and>
      (if g_supportUxpt (ux w) then
         upt_ok s1 (upt_at os w) t \<and> uxpte t \<noteq> NULL \<and>
         (\<forall>a. if in_mapping (uxpte t) sz a then ptes (ux w) a = None else ptes s1 a = ptes (ux w) a)
       else ptes s1 = ptes (ux w)))"

lemma Init_new:
  assumes env: "create_env os len w" and len: "0 < unat len" and ok: "\<not> create_refused os len w"
  defines "sz \<equiv> RoundUp len PAGE_SIZE"
  shows "\<exists>s1. InitUxPageTable (quieten (uxos os)) (upt_at os w) (data_at os len w) sz (ux (before_init os len w)) =
            Some (PM_OK, s1) \<and> inited os len w s1"
proof (cases "g_supportUxpt (ux w)")
  case True
  let ?s = "ux (before_init os len w)"
  have pre: "upt_at os w \<noteq> NULL" "data_at os len w \<noteq> MAP_FAILED" "table_at os len w \<noteq> MAP_FAILED"
    using ok True by (simp_all add: create_refused_def)
  have s: "g_supportUxpt ?s" "upts ?s (upt_at os w) = Some (os_junk_upt os (Suc (Suc (now w))))"
    "upts ?s = (upts (ux w))(upt_at os w \<mapsto> os_junk_upt os (Suc (Suc (now w))))" "ptes ?s = ptes (ux w)"
    "tick ?s = Suc (Suc (Suc (now w)))"
    using True by (simp_all add: before_init_def)
  have q: "table_at os len w = table_mmap (uxos os) (tick ?s) (data_at os len w) sz"
    by (simp add: table_at_def s(5) sz_def)
  have fr: "mmap_fresh (table_at os len w) (GetUxPageSize (data_at os len w) sz) (ux w)"
    using env True pre(3) by (simp add: create_env_def sz_def)
  then have fr': "mmap_fresh (table_at os len w) (GetUxPageSize (data_at os len w) sz) ?s"
    by (simp add: mmap_fresh_def s(4))
  note bounds = new_geometry(2,3) [OF env len pre(2), folded sz_def]
  have t: "new_table os len w = \<lparr>dataAddr = data_at os len w, dataSize = sz, uxpte = table_at os len w\<rparr>"
    by (simp add: new_table_def sz_def)
  show ?thesis
    using Init_effect [OF s(1) pre(1) s(2) bounds q fr' t] True fr s(3,4)
    by (auto simp: inited_def Let_def t mmap_fresh_def)
next
  case False
  then show ?thesis by (auto simp: inited_def InitUxPageTable_def before_init_def)
qed

lemma Deinit_new:
  assumes env: "create_env os len w" "upt_at os w \<noteq> NULL" and s: "inited os len w s1"
  shows "\<exists>s2 x. DeinitUxPageTable (quieten (uxos os)) (upt_at os w) (s1\<lparr>tick := k\<rparr>) = Some (PM_OK, s2) \<and>
           g_supportUxpt s2 = g_supportUxpt (ux w) \<and> ptes s2 = ptes (ux w) \<and>
           upts s2 = (upts (ux w))(upt_at os w \<mapsto> x)"
proof (cases "g_supportUxpt (ux w)")
  case True
  let ?t = "new_table os len w" and ?s1 = "s1\<lparr>tick := k\<rparr>"
  have un: "ux_munmap (uxos os) n d sz = 0" for n d sz using env by (simp add: create_env_def unmaps_ok_def)
  have pre: "g_supportUxpt ?s1" "upts ?s1 (upt_at os w) = Some ?t" "uxpte ?t \<noteq> NULL"
    using s True upt_ok_upts by (auto simp: inited_def Let_def)
  have ptes: "(\<lambda>a. if in_mapping (uxpte ?t) (GetUxPageSize (dataAddr ?t) (dataSize ?t)) a then None
                 else ptes s1 a) = ptes (ux w)"
    by (rule ext) (use s True in \<open>auto simp: inited_def Let_def\<close>)
  obtain x where x: "upts s1 = (upts (ux w))(upt_at os w \<mapsto> x)" using s by (auto simp: inited_def Let_def)
  show ?thesis
    using Deinit_effect [OF pre(1) env(2) pre(2,3), of "uxos os"] True x pre(1) ptes
    by (simp add: un cong: if_cong) blast
next
  case False
  then show ?thesis using s by (auto simp: inited_def Let_def DeinitUxPageTable_def)
qed

lemma Init_new_refused:
  assumes "g_supportUxpt (ux w)" "table_at os len w = MAP_FAILED" "upt_at os w \<noteq> NULL"
  shows "\<exists>s1 x. InitUxPageTable (quieten (uxos os)) (upt_at os w) (data_at os len w) (RoundUp len PAGE_SIZE)
            (ux (before_init os len w)) = Some (PM_MMAP_UXPT_FAIL, s1) \<and>
         g_supportUxpt s1 = g_supportUxpt (ux w) \<and> ptes s1 = ptes (ux w) \<and>
         upts s1 = (upts (ux w))(upt_at os w \<mapsto> x)"
  using assms
  by (auto simp: InitUxPageTable_def MapUxptePages_def mmap_uxpt_def Let_def before_init_def table_at_def
      cong: if_cong)

text \<open>The error exits give everything back.\<close>

lemma exit_releases:
  assumes env: "create_env os len w" and d: "data_at os len w \<noteq> MAP_FAILED"
    and s: "g_supportUxpt s = g_supportUxpt (ux w)" "ptes s = ptes (ux w)" "upts s = (upts (ux w))(upt_at os w \<mapsto> x)"
  shows "same_resources w (unmap_and_free (calm os) (obj_at os w) (data_at os len w) sz
           (free_upt (upt_at os w) ((before_init os len w)\<lparr>ux := s\<rparr>)))"
proof -
  have fr: "objs w (obj_at os w) = None" "upts (ux w) (upt_at os w) = None" "regions w (data_at os len w) = None"
    and un: "\<And>n d sz. os_munmap os n d sz = 0"
    using env d by (simp_all add: create_env_def unmaps_ok_def)
  show ?thesis
    using fr s by (intro same_resourcesI)
      (simp_all add: fun_upd_idem unmap_and_free_def munmap_data_def un Let_def free_obj_def free_upt_def before_init_def)
qed

lemma bump_ux: "bump (w\<lparr>ux := s\<rparr>) = w\<lparr>ux := s\<lparr>tick := Suc (tick s)\<rparr>\<rparr>"
  by (simp add: bump_def now_def)

lemma Create_inner_refused:
  assumes env: "create_env os len w" and len: "0 < unat len"
    and no: "create_refused os len w \<or> (\<forall>n. os_lock_init os n \<noteq> 0)"
  shows "\<exists>w'. PurgMemCreate_inner (calm os) len bld w = Some (NULL, w') \<and> same_resources w w'"
proof -
  let ?early = "obj_at os w = NULL \<or> data_at os len w = MAP_FAILED \<or> upt_at os w = NULL"
  consider ?early | "\<not> ?early" "create_refused os len w"
    | "\<not> ?early" "\<not> create_refused os len w" "\<forall>n. os_lock_init os n \<noteq> 0" using no by blast
  then show ?thesis
  proof cases
    case 1
    then show ?thesis by (rule Create_inner_refused_early [OF env])
  next
    case 2
    then have sup: "g_supportUxpt (ux w)" "table_at os len w = MAP_FAILED" "upt_at os w \<noteq> NULL"
      and d: "data_at os len w \<noteq> MAP_FAILED" by (auto simp: create_refused_def)
    show ?thesis
      using Init_new_refused [OF sup] exit_releases [OF env d] 2(1)
      by (auto simp: Create_inner_unfold lift_ux_def Let_def)
  next
    case 3
    have d: "data_at os len w \<noteq> MAP_FAILED" "upt_at os w \<noteq> NULL" using 3(1) by auto
    obtain s1 where s1: "InitUxPageTable (quieten (uxos os)) (upt_at os w) (data_at os len w)
        (RoundUp len PAGE_SIZE) (ux (before_init os len w)) = Some (PM_OK, s1)" "inited os len w s1"
      using Init_new [OF env len 3(2)] by blast
    then show ?thesis
      using Deinit_new [OF env d(2) s1(2), of "Suc (tick s1)"] s1(1) 3(1,3) exit_releases [OF env d(1)]
      by (auto simp: Create_inner_unfold lift_ux_def Let_def bump_ux)
  qed
qed

text \<open>
  A created object: in place, page table in order, region zero, nothing logged yet, nothing else
  touched.
\<close>

definition created :: "pm_os \<Rightarrow> size_t \<Rightarrow> ptr \<Rightarrow> world \<Rightarrow> world \<Rightarrow> bool" where
  "created os len bld w w' \<longleftrightarrow>
     (let p = obj_at os w; t = new_table os len w; ob = new_obj (data_at os len w) len bld (upt_at os w);
          bs = replicate (unat (dataSize t)) 0 in
      obj_view w' p t w' ob bs (ptes (ux w')) \<and> builders w' = builders w \<and>
      objs w' = (objs w)(p \<mapsto> ob) \<and> regions w' = (regions w)(dataPtr ob \<mapsto> bs) \<and>
      g_supportUxpt (ux w') = g_supportUxpt (ux w) \<and>
      (\<forall>v. v \<noteq> uxPageTable ob \<longrightarrow> upts (ux w') v = upts (ux w) v) \<and>
      (\<forall>a. \<not> (g_supportUxpt (ux w) \<and> in_mapping (uxpte t) (GetUxPageSize (dataAddr t) (dataSize t)) a) \<longrightarrow>
           ptes (ux w') a = ptes (ux w) a) \<and>
      (g_supportUxpt (ux w) \<longrightarrow> uxpte t \<noteq> NULL))"

lemma Create_inner_ok:
  assumes env: "create_env os len w" and len: "0 < unat len"
    and ok: "\<not> create_refused os len w" and lk: "\<And>n. os_lock_init os n = 0"
  shows "\<exists>w'. PurgMemCreate_inner (calm os) len bld w = Some (obj_at os w, w') \<and> created os len bld w w'"
proof -
  let ?t = "new_table os len w" and ?ob = "new_obj (data_at os len w) len bld (upt_at os w)"
  have pre: "obj_at os w \<noteq> NULL" "data_at os len w \<noteq> MAP_FAILED" "upt_at os w \<noteq> NULL"
    using ok by (simp_all add: create_refused_def)
  obtain s1 where s1: "InitUxPageTable (quieten (uxos os)) (upt_at os w) (data_at os len w)
        (RoundUp len PAGE_SIZE) (ux (before_init os len w)) = Some (PM_OK, s1)" and ini: "inited os len w s1"
    using Init_new [OF env len ok] by blast
  have sup: "g_supportUxpt s1 = g_supportUxpt (ux w)" and out: "\<And>v. v \<noteq> upt_at os w \<Longrightarrow> upts s1 v = upts (ux w) v"
    "\<And>a. \<not> (g_supportUxpt (ux w) \<and> in_mapping (uxpte ?t) (GetUxPageSize (dataAddr ?t) (dataSize ?t)) a)
      \<Longrightarrow> ptes s1 a = ptes (ux w) a"
    and tab: "g_supportUxpt (ux w) \<Longrightarrow> upt_ok s1 (upt_at os w) ?t \<and> uxpte ?t \<noteq> NULL"
    using ini by (auto simp: inited_def Let_def split: if_splits)
  define w' where "w' = set_obj (obj_at os w) ?ob ((before_init os len w)\<lparr>ux := s1\<lparr>tick := Suc (tick s1)\<rparr>\<rparr>)"
  have "PurgMemCreate_inner (calm os) len bld w = Some (obj_at os w, w')"
    using s1 lk by (simp add: Create_inner_unfold [OF pre] lift_ux_def Let_def bump_ux)
      (simp add: w'_def before_init_def obj_overwrite)
  moreover have "obj_view w' (obj_at os w) ?t w' ?ob (replicate (unat (dataSize ?t)) 0) (ptes (ux w'))"
    using pre new_geometry(1) [OF env len pre(2)] tab sup
    by (simp add: obj_view_def w'_def before_init_def new_table_def)
      (auto simp: new_obj_def)
  ultimately show ?thesis
    using sup tab out unfolding created_def Let_def
    by (intro exI [of _ w'] conjI) (simp_all add: w'_def before_init_def new_table_def new_obj_def)
qed

section \<open>A new object with its first modification\<close>

lemma created_logged:
  assumes "created os len NULL w w'"
  shows "obj_logged w' (obj_at os w) (new_table os len w)
           (new_obj (data_at os len w) len NULL (upt_at os w)) (replicate (unat (RoundUp len PAGE_SIZE)) 0) []"
proof -
  have "heap_chain (builders w') NULL {} []" unfolding heap_chain_def by (intro exI [of _ "[]"]) simp
  then show ?thesis
    using assms by (auto simp: created_def Let_def obj_logged_def new_table_def) (auto simp: new_obj_def)
qed

lemma new_content:
  assumes "create_env os len w" "0 < unat len" "data_at os len w \<noteq> MAP_FAILED"
  shows "take (unat len) (replicate (unat (RoundUp len PAGE_SIZE)) (0 :: byte)) = replicate (unat len) 0"
  using geometry_size(2) [OF new_geometry(1) [OF assms, of 0 0]] by (simp add: new_table_def new_obj_def)

text \<open>What else a successful creation changes: one builder node, one table struct, entries of the new table.\<close>

definition create_frame :: "pm_os \<Rightarrow> size_t \<Rightarrow> world \<Rightarrow> world \<Rightarrow> PurgMem \<Rightarrow> bool" where
  "create_frame os len w w' ob \<longleftrightarrow>
     objs w' = (objs w)(obj_at os w \<mapsto> ob) \<and> (\<exists>bs. regions w' = (regions w)(data_at os len w \<mapsto> bs)) \<and>
     (\<exists>newp xs. builders w newp = None \<and> dom (builders w') = insert newp (dom (builders w)) \<and>
        heap_chain (builders w') (builder ob) {newp} xs) \<and>
     uxPageTable ob = upt_at os w \<and> (\<forall>v. v \<noteq> upt_at os w \<longrightarrow> upts (ux w') v = upts (ux w) v) \<and>
     g_supportUxpt (ux w') = g_supportUxpt (ux w) \<and>
     (\<forall>a. \<not> (g_supportUxpt (ux w) \<and> in_mapping (table_at os len w) (GetUxPageSize (data_at os len w) (RoundUp len PAGE_SIZE)) a) \<longrightarrow>
        (ptes (ux w') a = None \<longleftrightarrow> ptes (ux w) a = None))"

lemma Create_content:
  assumes env: "create_env os len w" and len: "0 < unat len" and ok: "\<not> create_refused os len w"
    and lk: "\<And>n. os_lock_init os n = 0" and os: "touch_ok os (new_table os len w)"
    and mem: "\<And>n. os_malloc os n \<noteq> NULL \<and> builders w (os_malloc os n) = None"
    and f: "in_buffer f" "f (replicate (unat len) 0) q = (True, d)"
  shows "\<exists>w' ob bs. PurgMemCreate (calm os) len (Some f) q w = Some (obj_at os w, w') \<and>
            content_ok w' (obj_at os w) (new_table os len w) ob bs [(f, q)] d \<and>
            take (unat len) bs = d \<and> lock_free ob \<and> dataSizeInput ob = len \<and> buildDataCount ob = 0 \<and>
            dataPtr ob = data_at os len w \<and> create_frame os len w w' ob"
proof -
  let ?p = "obj_at os w" and ?t = "new_table os len w" and ?n = "unat len"
  let ?ob = "new_obj (data_at os len w) len NULL (upt_at os w)" and ?bs = "replicate (unat (RoundUp len PAGE_SIZE)) (0 :: byte)"
  have d: "data_at os len w \<noteq> MAP_FAILED" "?p \<noteq> NULL" using ok by (simp_all add: create_refused_def)
  obtain w1 where w1: "PurgMemCreate_inner (calm os) len NULL w = Some (?p, w1)" "created os len NULL w w1"
    using Create_inner_ok [OF env len ok lk] by blast
  have lg: "obj_logged w1 ?p ?t ?ob ?bs []" by (rule created_logged [OF w1(2)])
  have bl: "builders w1 = builders w" using w1(2) by (simp add: created_def Let_def)
  have run: "f (take (unat (dataSizeInput ?ob)) ?bs) q = (True, d)"
    using f(2) new_content [OF env len d(1)] by (simp add: new_obj_def)
  obtain newp where new: "os_malloc os (Suc (now w1)) = newp" "newp \<noteq> NULL" "builders w1 newp = None"
    using mem bl by auto
  obtain w2 where w2: "PurgMemAppendModify (calm os) ?p (Some f) q w1 = Some (True, w2)"
    "obj_ready w2 ?p ?t (first_builder newp ?ob) (rebuilt ?ob d ?bs) ([] @ [(f, q)])"
    and v2: "obj_view (w1\<lparr>builders := builders w2\<rparr>) ?p ?t w2 (first_builder newp ?ob) (rebuilt ?ob d ?bs)
      (touch (\<lambda>v. v OR 1) (obj_slots ?t) (ptes (ux w1)))"
    and b2: "builder ?ob = NULL \<longrightarrow>
      builders w2 = (builders w1)(newp \<mapsto> \<lparr>nextBuilder = NULL, Build = Some f, bparam = q, bname = None\<rparr>)"
    using AppendModify_logs [OF lg os f(1) run new] by (elim exE conjE) (rule that)
  have nb: "builder ?ob = NULL" by (simp add: new_obj_def)
  obtain A where "heap_chain (builders w1) NULL A []" using lg by (auto simp: obj_logged_def new_obj_def)
  from heap_chain_new(2) [OF this new(3,2), of f q None] have "heap_chain (builders w2) newp {newp} [(f, q)]"
    using b2 nb by simp
  then have ch: "\<exists>newp' xs. builders w newp' = None \<and> dom (builders w2) = insert newp' (dom (builders w)) \<and>
      heap_chain (builders w2) (builder (first_builder newp ?ob)) {newp'} xs"
    using b2 nb bl new(3) by (intro exI [of _ newp] exI [of _ "[(f, q)]"]) (simp add: first_builder_def)
  have c: "objs w1 = (objs w)(?p \<mapsto> ?ob)" "regions w1 = (regions w)(data_at os len w \<mapsto> ?bs)" "g_supportUxpt (ux w1) = g_supportUxpt (ux w)"
    "\<And>v. v \<noteq> upt_at os w \<Longrightarrow> upts (ux w1) v = upts (ux w) v"
    "\<And>a. \<not> (g_supportUxpt (ux w) \<and> in_mapping (table_at os len w) (GetUxPageSize (data_at os len w) (RoundUp len PAGE_SIZE)) a) \<Longrightarrow>
       ptes (ux w1) a = ptes (ux w) a"
    using w1(2) by (simp_all add: created_def Let_def new_obj_def new_table_def)
  have e: "objs w2 = (objs w)(?p \<mapsto> first_builder newp ?ob)" "regions w2 = (regions w)(data_at os len w \<mapsto> rebuilt ?ob d ?bs)"
    "upts (ux w2) = upts (ux w1)" "g_supportUxpt (ux w2) = g_supportUxpt (ux w)"
    "ptes (ux w2) = touch (\<lambda>v. v OR 1) (obj_slots ?t) (ptes (ux w1))" "uxPageTable (first_builder newp ?ob) = upt_at os w"
    using v2 c(1-3) by (simp_all add: obj_view_def first_builder_def new_obj_def)
  have fr: "create_frame os len w w2 (first_builder newp ?ob)"
    unfolding create_frame_def e(1,2,3,4,6) using ch c(4,5) e(5) by (intro conjI exI [of _ "rebuilt ?ob d ?bs"]) simp_all
  have "length (snd (f (replicate ?n 0) q)) = length (replicate ?n (0 :: byte))" using f(1) unfolding in_buffer_def by blast
  then have "take ?n (rebuilt ?ob d ?bs) = d" using f(2) by (simp add: rebuilt_def new_obj_def)
  moreover have "len \<noteq> 0" using len by auto
  ultimately show ?thesis
    using w1(1) w2 d(2) f(2) fr
    by (intro exI [of _ w2] exI [of _ "first_builder newp ?ob"] exI [of _ "rebuilt ?ob d ?bs"])
      (simp add: PurgMemCreate_def content_ok_def zeros_def lock_free_def new_obj_def)
qed

end
