(* ===== verification/Purg_Props.thy ===== *)
theory Purg_Props
  imports Purg_Recovery Ux_Props
begin

text \<open>
  The properties of accesses to purgeable memory objects, each with a concrete object on which
  its hypotheses hold.
\<close>

section \<open>A concrete object\<close>

text \<open>
  Four bytes at \<open>0x2000\<close>, one page, the entry at \<open>0x10010\<close>; the log has one step, which fills
  the content with nines. The region holds other bytes, as after a purge.
\<close>

definition fill_nines :: modify_func where
  "fill_nines data q = (True, replicate (length data) 9)"

definition refuse :: modify_func where
  "refuse data q = (False, data)"

definition ex_pm_os :: pm_os where
  "ex_pm_os = \<lparr>uxos = ex_os, os_sched = (\<lambda>_ w. w), os_malloc = (\<lambda>n. if n = 0 then 0x100 else if n = 2 then 0x180 else 0x140),
     os_junk = (\<lambda>_. \<lparr>dataPtr = 1, dataSizeInput = 1, builder = 1, uxPageTable = 1,
                      rwlock = \<lparr>rl_readers = 7, rl_writer = True\<rparr>, buildDataCount = 7\<rparr>),
     os_junk_upt = (\<lambda>_. \<lparr>dataAddr = 1, dataSize = 1, uxpte = 1\<rparr>),
     os_mmap = (\<lambda>_ _ _ _. 0x2000), os_munmap = (\<lambda>_ _ _. 0),
     os_touch = (\<lambda>_ _ s. s\<lparr>ptes := touch (\<lambda>v. v OR 1) (obj_slots ex_table) (ptes s)\<rparr>),
     os_lock_init = (\<lambda>_. 0), os_rdlock = (\<lambda>_. 0), os_wrlock = (\<lambda>_. 0), os_unlock = (\<lambda>_. 0),
     os_memset_s = (\<lambda>bs mx c n. (0, replicate (unat n) c @ drop (unat n) bs))\<rparr>"

definition ex_node :: "modify_func \<Rightarrow> PurgMemBuilder" where
  "ex_node f = \<lparr>nextBuilder = NULL, Build = Some f, bparam = 0, bname = None\<rparr>"

definition ex_obj :: "c_uint \<Rightarrow> PurgMem" where
  "ex_obj n = \<lparr>dataPtr = 0x2000, dataSizeInput = 4, builder = 0x50, uxPageTable = 8,
     rwlock = \<lparr>rl_readers = 0, rl_writer = False\<rparr>, buildDataCount = n\<rparr>"

definition ex_bytes :: "byte list" where
  "ex_bytes = replicate 4 9 @ replicate 4092 7"

definition ex_world :: "modify_func \<Rightarrow> c_uint \<Rightarrow> byte list \<Rightarrow> world" where
  "ex_world f n bs = \<lparr>ux = ex_st, builders = [0x50 \<mapsto> ex_node f], regions = [0x2000 \<mapsto> bs],
     objs = [0x40 \<mapsto> ex_obj n]\<rparr>"

lemma ex_round: "RoundUp 4 PAGE_SIZE = 0x1000"
  by (simp add: RoundUp_def PAGE_SIZE_eq)

lemma ex_geometry: "geometry ex_table (ex_obj n)"
  by (simp add: geometry_def ex_table_def ex_obj_def ex_round)

lemma ex_view:
  assumes "length bs = 4096"
  shows "obj_view (ex_world f n bs) 0x40 ex_table (ex_world f n bs) (ex_obj n) bs ex_ptes"
  using ex_geometry [of n] ex_ok assms
  by (simp add: obj_view_def ex_world_def ex_obj_def ex_st_def ex_table_def)

lemma ex_ready:
  assumes "length bs = 4096" "in_buffer f"
  shows "obj_ready (ex_world f n bs) 0x40 ex_table (ex_obj n) bs [(f, 0)]"
proof -
  have "heap_chain [0x50 \<mapsto> ex_node f] 0x50 {0x50} [(f, 0)]"
    unfolding heap_chain_def by (intro exI [of _ "[0x50]"]) (simp add: bchain_Cons ex_node_def)
  then show ?thesis
    using ex_view [OF assms(1), of f n] assms(2)
    by (auto simp: obj_ready_def ex_world_def ex_obj_def ex_st_def)
qed

lemma ex_env: "pm_env ex_pm_os ex_table"
  by (simp add: pm_env_def touch_ok_def memset_ok_def locks_ok_def ex_pm_os_def ex_table_def)

lemma ex_buffers: "in_buffer fill_nines" "in_buffer refuse"
  by (simp_all add: in_buffer_def fill_nines_def refuse_def)

lemma ex_bytes_length: "length ex_bytes = 4096"
  by (simp add: ex_bytes_def)

lemma ex_free: "lock_free (ex_obj n)" "\<not> rl_writer (rwlock (ex_obj n))" "builder (ex_obj n) \<noteq> NULL"
  by (simp_all add: lock_free_def ex_obj_def)

lemma ex_log: "run_steps [(fill_nines, 0)] (zeros (ex_obj n)) = (True, replicate 4 9)"
  "run_steps [(refuse, 0)] (zeros (ex_obj n)) = (False, replicate 4 0)"
  by (simp_all add: fill_nines_def refuse_def zeros_def ex_obj_def)

lemma ex_slots: "obj_slots ex_table = [0x10010]"
proof -
  have "req_pages 0x2000 0x1000 = [0x2000]"
    by (simp add: req_pages_def RoundDown_def RoundUp_def PAGE_SIZE_eq page_range_def)
  moreover have "dataAddr ex_table = 0x2000" "dataSize ex_table = 0x1000" by (simp_all add: ex_table_def)
  ultimately show ?thesis by (simp add: req_slots_def ex_slot)
qed

lemma ex_countable: "countable_entries ex_table (ptes (ux (ex_world f n bs)))"
  by (simp add: countable_entries_def ex_slots ex_world_def ex_st_def ex_ptes_def)

lemma ex_purged: "purged supp ex_table (ex_obj 0) m"
  by (simp add: purged_def ex_obj_def)

lemmas ex_ready_nines = ex_ready [OF ex_bytes_length ex_buffers(1)]
lemmas ex_ready_refuse = ex_ready [OF ex_bytes_length ex_buffers(2)]

section \<open>Accesses\<close>

text \<open>
  C6. What \<open>PurgMemBeginRead\<close> does to an object whose log of modifications is \<open>xs\<close>: if the
  content is there, it returns true with one more reader and every page pinned; if the content
  was purged (or never built), it clears and replays the log and returns true exactly if that
  succeeds, with the replayed content; if the log fails it returns false, the lock is free again
  and the pins are returned. Nothing but the object, its region and its entries changes, and the
  retry loop of the source ends.
\<close>

theorem begin_read_spec:
  assumes "obj_ready w p t ob bs xs" "pm_env os t" "\<not> rl_writer (rwlock ob)"
    and "run_steps xs (zeros ob) = (b, c)"
    and "purged (g_supportUxpt (ux w)) t ob (ptes (ux w)) \<Longrightarrow> lock_free ob \<and> buildDataCount ob + 1 \<noteq> 0"
  shows "\<exists>w'. PurgMemBeginRead (calm os) p w =
              Some (\<not> purged (g_supportUxpt (ux w)) t ob (ptes (ux w)) \<or> b, w') \<and>
            begin_outcome add_reader w p t ob bs b c w'"
  using BeginRead_outcome assms by blast

theorem begin_read_spec_witness:
  "\<exists>w'. PurgMemBeginRead (calm ex_pm_os) 0x40 (ex_world fill_nines 0 ex_bytes) = Some (True, w') \<and>
        begin_outcome add_reader (ex_world fill_nines 0 ex_bytes) 0x40 ex_table (ex_obj 0) ex_bytes
          True (replicate 4 9) w'"
  using begin_read_spec [OF ex_ready_nines ex_env ex_free(2) ex_log(1)] ex_free(1) by (auto simp: ex_obj_def)

text \<open>
  What \<open>PurgMemBeginWrite\<close> does: the same three outcomes, with the lock taken for writing.
\<close>

theorem begin_write_spec:
  assumes "obj_ready w p t ob bs xs" "pm_env os t" "lock_free ob" "run_steps xs (zeros ob) = (b, c)"
  shows "\<exists>w'. PurgMemBeginWrite (calm os) p w =
              Some (\<not> purged (g_supportUxpt (ux w)) t ob (ptes (ux w)) \<or> b, w') \<and>
            begin_outcome (set_writer True) w p t ob bs b c w'"
  by (rule BeginWrite_outcome [OF assms])

theorem begin_write_spec_witness:
  "\<exists>w'. PurgMemBeginWrite (calm ex_pm_os) 0x40 (ex_world refuse 0 ex_bytes) = Some (False, w') \<and>
        begin_outcome (set_writer True) (ex_world refuse 0 ex_bytes) 0x40 ex_table (ex_obj 0) ex_bytes
          False (replicate 4 0) w'"
  using begin_write_spec [OF ex_ready_refuse [of 0] ex_env ex_free(1) ex_log(2)] ex_purged by auto

text \<open>
  A read access leaves no trace: after \<open>PurgMemBeginRead\<close> and \<open>PurgMemEndRead\<close> the lock
  and the reference counts of all pages are what they were; only a rebuild, if one was needed,
  has changed content, build count and present bits.
\<close>

theorem read_access_roundtrip:
  assumes rdy: "obj_ready w p t ob bs xs" and os: "pm_env os t" and wr: "\<not> rl_writer (rwlock ob)"
    and run: "run_steps xs (zeros ob) = (True, c)" and cnt: "countable_entries t (ptes (ux w))"
    and pg: "purged (g_supportUxpt (ux w)) t ob (ptes (ux w)) \<Longrightarrow> lock_free ob \<and> buildDataCount ob + 1 \<noteq> 0"
  shows "\<exists>w1 w'. PurgMemBeginRead (calm os) p w = Some (True, w1) \<and>
            PurgMemEndRead (calm os) p w1 = Some w' \<and> access_outcome w p t ob bs True c w'"
proof -
  obtain w1 where w1: "PurgMemBeginRead (calm os) p w = Some (True, w1)"
    "begin_outcome add_reader w p t ob bs True c w1"
    using BeginRead_outcome [OF rdy os wr run pg] by auto
  have "builder ob \<noteq> NULL" "locks_ok os" using rdy os by (simp_all add: obj_ready_def pm_env_def)
  then show ?thesis
    using w1 read_then_end [OF w1(2) cnt] wr by (auto simp: PurgMemEndRead_def)
qed

theorem read_access_roundtrip_witness:
  "\<exists>w1 w'. PurgMemBeginRead (calm ex_pm_os) 0x40 (ex_world fill_nines 1 ex_bytes) = Some (True, w1) \<and>
           PurgMemEndRead (calm ex_pm_os) 0x40 w1 = Some w' \<and>
           access_outcome (ex_world fill_nines 1 ex_bytes) 0x40 ex_table (ex_obj 1) ex_bytes True (replicate 4 9) w'"
  using read_access_roundtrip [OF ex_ready_nines ex_env ex_free(2) ex_log(1) ex_countable] ex_free(1)
  by (auto simp: ex_obj_def)

text \<open>
  A begin that fails because a modification of the log fails takes nothing: neither a lock
  nor a reference is left, for reading and for writing.
\<close>

theorem failed_begin_leaves_no_pin:
  assumes rdy: "obj_ready w p t ob bs xs" and os: "pm_env os t" and free: "lock_free ob"
    and run: "run_steps xs (zeros ob) = (False, c)" and cnt: "countable_entries t (ptes (ux w))"
    and pg: "purged (g_supportUxpt (ux w)) t ob (ptes (ux w))" "buildDataCount ob + 1 \<noteq> 0"
  shows "(\<exists>w'. PurgMemBeginRead (calm os) p w = Some (False, w') \<and> access_outcome w p t ob bs False c w') \<and>
         (\<exists>w'. PurgMemBeginWrite (calm os) p w = Some (False, w') \<and> access_outcome w p t ob bs False c w')"
  using rd.failed [OF rdy os free pg(2) run cnt pg(1)] wr.failed [OF rdy os free pg(2) run cnt pg(1)] by blast

theorem failed_begin_leaves_no_pin_witness:
  "\<exists>w'. PurgMemBeginRead (calm ex_pm_os) 0x40 (ex_world refuse 0 ex_bytes) = Some (False, w') \<and>
        objs w' 0x40 = Some (ex_obj 0)"
proof -
  have "buildDataCount (ex_obj 0) + 1 \<noteq> 0" by (simp add: ex_obj_def)
  from failed_begin_leaves_no_pin [OF ex_ready_refuse ex_env ex_free(1) ex_log(2) ex_countable ex_purged this]
  show ?thesis by (auto simp: access_outcome_def obj_view_def count_build_def Let_def ex_purged)
qed

section \<open>Recovery\<close>

text \<open>
  C10. Content survives purging. Take an object whose log reproduces its content \<open>c\<close>. After
  \<open>PurgMemBeginWrite\<close>, a modification \<open>f\<close> through \<open>PurgMemAppendModify\<close> that turns \<open>c\<close> into
  \<open>d\<close>, and \<open>PurgMemEndWrite\<close>, the kernel may purge the object or not: the next
  \<open>PurgMemBeginRead\<close> succeeds and the region holds \<open>d\<close>.
\<close>

theorem logged_content_survives:
  assumes ok: "content_ok w p t ob bs xs c" and os: "pm_env os t" and free: "lock_free ob"
    and cnt: "unat (buildDataCount ob) + 2 < 2 ^ 32" and f: "in_buffer f" "f c q = (True, d)"
    and mem: "\<And>n. os_malloc os n \<noteq> NULL \<and> builders w (os_malloc os n) = None"
  shows "\<exists>w1 w2 w3. PurgMemBeginWrite (calm os) p w = Some (True, w1) \<and>
           PurgMemAppendModify (calm os) p (Some f) q w1 = Some (True, w2) \<and>
           PurgMemEndWrite (calm os) p w2 = Some w3 \<and> regions w3 (dataPtr ob) \<noteq> None \<and>
           (\<forall>w4. kernel_purges t (dataPtr ob) w3 w4 \<longrightarrow>
              (\<exists>w5 bs5. PurgMemBeginRead (calm os) p w4 = Some (True, w5) \<and>
                 regions w5 (dataPtr ob) = Some bs5 \<and> take (unat (dataSizeInput ob)) bs5 = d))"
proof -
  have env: "touch_ok os t" "locks_ok os" using os by (simp_all add: pm_env_def)
  have cnt1: "buildDataCount ob + 1 \<noteq> 0" using cnt by (auto simp: word_unat_eq_iff unat_word_ariths)
  obtain w1 bs1 b where w1: "PurgMemBeginWrite (calm os) p w = Some (True, w1)"
    "content_ok w1 p t (set_writer True (count_build b ob)) bs1 xs c" "content_of ob bs1 = c"
    "builders w1 = builders w" using wr.content [OF ok os free cnt1] by blast
  let ?ob1 = "set_writer True (count_build b ob)" and ?ob3 = "count_build b ob"
  have same: "dataSizeInput ?ob1 = dataSizeInput ob" "dataPtr ?ob3 = dataPtr ob" "dataSizeInput ?ob3 = dataSizeInput ob"
    by (simp_all add: count_build_def)
  obtain w2 bs2 where w2: "PurgMemAppendModify (calm os) p (Some f) q w1 = Some (True, w2)"
    "content_ok w2 p t ?ob1 bs2 (xs @ [(f, q)]) d" "content_of ?ob1 bs2 = d"
    using append_content [OF w1(2) _ env(1) f] w1(3,4) mem same by auto
  have restore: "set_writer False ?ob1 = ?ob3" using free by (simp add: lock_free_def count_build_def)
  obtain w3 where w3: "EndAccessPurgMem (calm os) p w2 = Some w3" "content_ok w3 p t ?ob3 bs2 (xs @ [(f, q)]) d"
    using end_content [OF w2(2,3) env(2)] restore by auto
  have free3: "lock_free ?ob3" using free by (simp add: lock_free_simps)
  have "buildDataCount ?ob3 + 1 \<noteq> 0"
    using cnt by (cases b) (auto simp: count_build_def word_unat_eq_iff unat_word_ariths)
  note reads = rd.content [OF _ os free3 this]
  have "\<exists>w5 bs5. PurgMemBeginRead (calm os) p w4 = Some (True, w5) \<and>
      regions w5 (dataPtr ob) = Some bs5 \<and> take (unat (dataSizeInput ob)) bs5 = d"
    if "kernel_purges t (dataPtr ob) w3 w4" for w4
    using purge_content [OF w3(2), of w4] that reads unfolding same by metis
  moreover have "regions w3 (dataPtr ?ob3) \<noteq> None"
    using w3(2) by (auto simp: content_ok_def obj_ready_def obj_view_def dest: fun_cong [where x = "dataPtr ?ob3"])
  ultimately show ?thesis using w1(1) w2(1) w3(1) same(2) by (auto simp: PurgMemEndWrite_def)
qed

lemma kernel_idle:
  assumes "regions w d \<noteq> None"
  shows "kernel_purges t d w w"
proof -
  obtain bs where "regions w d = Some bs" using assms by blast
  then show ?thesis unfolding kernel_purges_def
    by (intro conjI exI [of _ bs]) (simp_all add: fun_upd_idem)
qed

lemma ex_content: "content_ok (ex_world fill_nines 1 ex_bytes) 0x40 ex_table (ex_obj 1) ex_bytes
    [(fill_nines, 0)] (replicate 4 9)"
  using ex_ready_nines [of 1] ex_log(1) [of 1] by (simp add: content_ok_def ex_bytes_def ex_obj_def)

definition fill_twos :: modify_func where
  "fill_twos data q = (True, replicate (length data) 2)"

theorem logged_content_survives_witness:
  "\<exists>w1 w2 w3 w5 bs5. PurgMemBeginWrite (calm (ex_pm_os\<lparr>os_malloc := \<lambda>_. 0x100\<rparr>)) 0x40 (ex_world fill_nines 1 ex_bytes) = Some (True, w1) \<and>
     PurgMemAppendModify (calm (ex_pm_os\<lparr>os_malloc := \<lambda>_. 0x100\<rparr>)) 0x40 (Some fill_twos) 0 w1 = Some (True, w2) \<and>
     PurgMemEndWrite (calm (ex_pm_os\<lparr>os_malloc := \<lambda>_. 0x100\<rparr>)) 0x40 w2 = Some w3 \<and>
     PurgMemBeginRead (calm (ex_pm_os\<lparr>os_malloc := \<lambda>_. 0x100\<rparr>)) 0x40 w3 = Some (True, w5) \<and>
     regions w5 0x2000 = Some bs5 \<and> take 4 bs5 = replicate 4 2"
proof -
  let ?os = "ex_pm_os\<lparr>os_malloc := \<lambda>_. 0x100\<rparr>"
  have env: "pm_env ?os ex_table"
    using ex_env by (simp add: pm_env_def touch_ok_def memset_ok_def locks_ok_def)
  have cnt: "unat (buildDataCount (ex_obj 1)) + 2 < 2 ^ 32" by (simp add: ex_obj_def)
  have f: "in_buffer fill_twos" "fill_twos (replicate 4 9) 0 = (True, replicate 4 2)"
    by (simp_all add: in_buffer_def fill_twos_def)
  have mem: "os_malloc ?os n \<noteq> NULL \<and> builders (ex_world fill_nines 1 ex_bytes) (os_malloc ?os n) = None" for n
    by (simp add: ex_world_def)
  have d: "dataPtr (ex_obj 1) = 0x2000" "dataSizeInput (ex_obj 1) = 4" by (simp_all add: ex_obj_def)
  show ?thesis
    using logged_content_survives [OF ex_content env ex_free(1) cnt f mem] kernel_idle unfolding d by fastforce
qed

section \<open>Logging\<close>

text \<open>
  A successful \<open>PurgMemAppendModify\<close> applies the function to the content and appends it
  to the log, also as the first entry of an empty log; nothing else changes but the present bits.
\<close>

theorem append_modify_spec:
  assumes "obj_logged w p t ob bs xs" "touch_ok os t" "in_buffer f"
    and "f (take (unat (dataSizeInput ob)) bs) q = (True, d)"
    and "os_malloc os (Suc (now w)) = newp" "newp \<noteq> NULL" "builders w newp = None"
  shows "\<exists>w'. PurgMemAppendModify (calm os) p (Some f) q w = Some (True, w') \<and>
              obj_ready w' p t (first_builder newp ob) (rebuilt ob d bs) (xs @ [(f, q)]) \<and>
              obj_view (w\<lparr>builders := builders w'\<rparr>) p t w' (first_builder newp ob) (rebuilt ob d bs)
                (touch (\<lambda>v. v OR 1) (obj_slots t) (ptes (ux w)))"
  using AppendModify_logs [OF assms] by (elim exE conjE) (intro exI conjI)

theorem append_modify_spec_witness:
  "\<exists>w'. PurgMemAppendModify (calm ex_pm_os) 0x40 (Some fill_twos) 0 (ex_world fill_nines 1 ex_bytes) = Some (True, w') \<and>
        obj_ready w' 0x40 ex_table (ex_obj 1) (rebuilt (ex_obj 1) (replicate 4 2) ex_bytes) [(fill_nines, 0), (fill_twos, 0)]"
proof -
  have lg: "obj_logged (ex_world fill_nines 1 ex_bytes) 0x40 ex_table (ex_obj 1) ex_bytes [(fill_nines, 0)]"
    using ex_ready_nines by (simp add: obj_ready_logged)
  have n: "now (ex_world fill_nines 1 ex_bytes) = 0" by (simp add: now_def ex_world_def ex_st_def)
  have f: "in_buffer fill_twos" "fill_twos (take (unat (dataSizeInput (ex_obj 1))) ex_bytes) 0 = (True, replicate 4 2)"
    by (simp_all add: in_buffer_def fill_twos_def ex_bytes_def ex_obj_def)
  have new: "os_malloc ex_pm_os (Suc (now (ex_world fill_nines 1 ex_bytes))) = 0x140"
    "(0x140 :: ptr) \<noteq> NULL" "builders (ex_world fill_nines 1 ex_bytes) 0x140 = None"
    unfolding n by (simp_all add: ex_pm_os_def ex_world_def)
  have "touch_ok ex_pm_os ex_table" using ex_env by (simp add: pm_env_def)
  from append_modify_spec [OF lg this f new] show ?thesis by (auto simp: first_builder_def ex_obj_def)
qed

text \<open>
  When \<open>PurgMemAppendModify\<close> fails, the log stays as it was, but the content does not: the
  function has already been applied, whether it reports failure itself or the new builder cannot
  be allocated. The caller gets false in both cases.
\<close>

theorem append_modify_failure:
  assumes lg: "obj_logged w p t ob bs xs" and os: "touch_ok os t" and f: "in_buffer f"
    and run: "f (take (unat (dataSizeInput ob)) bs) q = (succ, d)"
    and no: "\<not> succ \<or> os_malloc os (Suc (now w)) = NULL"
  shows "\<exists>w'. PurgMemAppendModify (calm os) p (Some f) q w = Some (False, w') \<and>
              obj_logged w' p t ob (rebuilt ob d bs) xs \<and>
              obj_view w p t w' ob (rebuilt ob d bs) (touch (\<lambda>v. v OR 1) (obj_slots t) (ptes (ux w)))"
  by (rule AppendModify_fails [OF assms])

theorem append_modify_failure_witness:
  "\<exists>w'. PurgMemAppendModify (calm (ex_pm_os\<lparr>os_malloc := \<lambda>_. NULL\<rparr>)) 0x40 (Some fill_twos) 0
           (ex_world fill_nines 1 ex_bytes) = Some (False, w') \<and>
        obj_logged w' 0x40 ex_table (ex_obj 1) (rebuilt (ex_obj 1) (replicate 4 2) ex_bytes) [(fill_nines, 0)]"
proof -
  let ?os = "ex_pm_os\<lparr>os_malloc := \<lambda>_. NULL\<rparr>" and ?w = "ex_world fill_nines 1 ex_bytes"
  have lg: "obj_logged ?w 0x40 ex_table (ex_obj 1) ex_bytes [(fill_nines, 0)]"
    using ex_ready_nines by (simp add: obj_ready_logged)
  have f: "in_buffer fill_twos" "fill_twos (take (unat (dataSizeInput (ex_obj 1))) ex_bytes) 0 = (True, replicate 4 2)"
    by (simp_all add: in_buffer_def fill_twos_def ex_bytes_def ex_obj_def)
  have os: "touch_ok ?os ex_table" using ex_env by (simp add: pm_env_def touch_ok_def)
  have "\<not> True \<or> os_malloc ?os (Suc (now ?w)) = NULL" by simp
  from append_modify_failure [OF lg os f this] show ?thesis by blast
qed

section \<open>Locks\<close>

text \<open>
  If the lock cannot be taken (the pthread call returns an error), the begin operations
  return false and give the pins back; object, content and lock are untouched.
\<close>

theorem lock_error_leaves_no_pin:
  assumes rdy: "obj_ready w p t ob bs xs" and cnt: "countable_entries t (ptes (ux w))"
  shows "((\<forall>n. os_rdlock os n \<noteq> 0) \<longrightarrow>
           (\<exists>w'. PurgMemBeginRead (calm os) p w = Some (False, w') \<and> obj_view w p t w' ob bs (ptes (ux w)))) \<and>
         ((\<forall>n. os_wrlock os n \<noteq> 0) \<longrightarrow>
           (\<exists>w'. PurgMemBeginWrite (calm os) p w = Some (False, w') \<and> obj_view w p t w' ob bs (ptes (ux w))))"
proof -
  let ?supp = "g_supportUxpt (ux w)"
  have v: "obj_view w p t w ob bs (ptes (ux w))" "builder ob \<noteq> NULL" using rdy by (simp_all add: obj_ready_def)
  note valid = view_valid [OF v]
  obtain w1 where w1: "obj_UxpteGet (calm os) p w = Some w1"
    "obj_view w p t w1 ob bs (pinned_entries ?supp t (ptes (ux w)))"
    using view_pin [OF v(1), of os] by (auto simp: pinned_entries_def)
  note v2 = view_bump [OF w1(2)]
  obtain w3 where w3: "obj_UxptePut (calm os) p (bump w1) = Some w3" "obj_view w p t w3 ob bs (ptes (ux w))"
    using view_unpin [OF v2, of os] unpin_pinned [OF cnt] by auto
  show ?thesis
  proof (intro conjI impI)
    assume e: "\<forall>n. os_rdlock os n \<noteq> 0"
    have "TryBeginRead (calm os) p w1 = Some (PM_LOCK_READ_FAIL, bump w1)"
      using e view_obj [OF w1(2)] by (simp add: TryBeginRead_def pthread_rwlock_rdlock_def Let_def)
    then have "BeginRead_loop (calm os) p w1 = Some (False, bump w1)" by (subst BeginRead_loop.simps) simp
    then show "\<exists>w'. PurgMemBeginRead (calm os) p w = Some (False, w') \<and> obj_view w p t w' ob bs (ptes (ux w))"
      using valid w1(1) w3 by (simp add: PurgMemBeginRead_def)
  next
    assume e: "\<forall>n. os_wrlock os n \<noteq> 0"
    then show "\<exists>w'. PurgMemBeginWrite (calm os) p w = Some (False, w') \<and> obj_view w p t w' ob bs (ptes (ux w))"
      using valid w1 w3 view_obj [OF w1(2)]
      by (simp add: PurgMemBeginWrite_def pthread_rwlock_wrlock_def Let_def)
  qed
qed

theorem lock_error_leaves_no_pin_witness:
  "\<exists>w'. PurgMemBeginRead (calm (ex_pm_os\<lparr>os_rdlock := \<lambda>_. 11\<rparr>)) 0x40 (ex_world fill_nines 1 ex_bytes) = Some (False, w') \<and>
        objs w' 0x40 = Some (ex_obj 1)"
proof -
  have e: "\<forall>n. os_rdlock (ex_pm_os\<lparr>os_rdlock := \<lambda>_. 11\<rparr>) n \<noteq> 0" by simp
  show ?thesis
    using lock_error_leaves_no_pin [OF ex_ready_nines [of 1] ex_countable, of "ex_pm_os\<lparr>os_rdlock := \<lambda>_. 11\<rparr>"] e
    by (auto simp: obj_view_def)
qed

text \<open>
  Readers and writers exclude each other: while a writer holds the object no begin operation
  returns, and while a reader holds it no write access begins (the caller waits).
\<close>

theorem accesses_exclude:
  assumes rdy: "obj_ready w p t ob bs xs" and os: "locks_ok os"
  shows "(rl_writer (rwlock ob) \<longrightarrow> PurgMemBeginRead (calm os) p w = None \<and> PurgMemBeginWrite (calm os) p w = None) \<and>
         (0 < rl_readers (rwlock ob) \<longrightarrow> PurgMemBeginWrite (calm os) p w = None)"
proof -
  have v: "obj_view w p t w ob bs (ptes (ux w))" "builder ob \<noteq> NULL" using rdy by (simp_all add: obj_ready_def)
  note valid = view_valid [OF v]
  obtain w1 where w1: "obj_UxpteGet (calm os) p w = Some w1" "objs w1 p = Some ob"
    using view_pin [OF v(1), of os] view_obj by blast
  have rd: "BeginRead_loop (calm os) p w1 = None" if "rl_writer (rwlock ob)"
    using that w1(2) os
    by (subst BeginRead_loop.simps) (simp add: TryBeginRead_def pthread_rwlock_rdlock_def locks_ok_def Let_def)
  have wr: "pthread_rwlock_wrlock (calm os) p w1 = None" if "rl_writer (rwlock ob) \<or> 0 < rl_readers (rwlock ob)"
    using that w1(2) os by (auto simp: pthread_rwlock_wrlock_def locks_ok_def Let_def)
  show ?thesis
    using valid w1(1) rd wr by (auto simp: PurgMemBeginRead_def PurgMemBeginWrite_def)
qed

lemma ex_held: "obj_ready (set_obj 0x40 (set_writer True (ex_obj 1)) (ex_world fill_nines 1 ex_bytes)) 0x40 ex_table
    (set_writer True (ex_obj 1)) ex_bytes [(fill_nines, 0)]"
  by (rule ready_view [OF ex_ready_nines, OF view_set_obj [OF ex_view [OF ex_bytes_length]]]) simp_all

theorem accesses_exclude_witness:
  "PurgMemBeginRead (calm ex_pm_os) 0x40 (set_obj 0x40 (set_writer True (ex_obj 1)) (ex_world fill_nines 1 ex_bytes)) = None"
proof -
  have "locks_ok ex_pm_os" using ex_env by (simp add: pm_env_def)
  then show ?thesis using accesses_exclude [OF ex_held] by simp
qed

section \<open>A lost race\<close>

text \<open>
  Another thread that performs a whole read access, and an environment in which it does so at
  one moment \<open>k\<close>.
\<close>

definition other_read :: "pm_os \<Rightarrow> ptr \<Rightarrow> world \<Rightarrow> world" where
  "other_read os p w =
     (case PurgMemBeginRead (calm os) p w of
        Some (True, w1) \<Rightarrow> (case PurgMemEndRead (calm os) p w1 of Some w2 \<Rightarrow> w2 | None \<Rightarrow> w)
      | _ \<Rightarrow> w)"

definition racing :: "pm_os \<Rightarrow> ptr \<Rightarrow> nat \<Rightarrow> pm_os" where
  "racing os p k = (calm os)\<lparr>os_sched := (\<lambda>n w. if n = k then other_read os p w else w)\<rparr>"

lemma racing_simps [simp]:
  "uxos (racing os p k) = quieten (uxos os)" "os_rdlock (racing os p k) = os_rdlock os"
  "os_wrlock (racing os p k) = os_wrlock os" "os_unlock (racing os p k) = os_unlock os"
  by (simp_all add: racing_def)

lemma winterfere_racing:
  "now w \<noteq> k \<Longrightarrow> winterfere (racing os p k) w = bump w"
  "winterfere (racing os p (now w)) w =
     (other_read os p w)\<lparr>ux := (ux (other_read os p w))\<lparr>tick := Suc (now w)\<rparr>\<rparr>"
  by (simp_all add: winterfere_def racing_def bump_def now_def Let_def)

lemma now_simps [simp]: "now (bump w) = Suc (now w)" "now (set_obj p ob w) = now w"
  by (simp_all add: now_def bump_def)

lemma other_read_outcome:
  assumes rdy: "obj_ready w p t ob bs xs" and os: "pm_env os t" and free: "lock_free ob"
    and run: "run_steps xs (zeros ob) = (True, c)" and cnt: "countable_entries t (ptes (ux w))"
    and pg: "buildDataCount ob + 1 \<noteq> 0"
  shows "access_outcome w p t ob bs True c (other_read os p w)"
proof -
  have wr: "\<not> rl_writer (rwlock ob)" using free by (rule lock_free_simps)
  obtain w1 where w1: "PurgMemBeginRead (calm os) p w = Some (True, w1)"
    "begin_outcome add_reader w p t ob bs True c w1"
    using BeginRead_outcome [OF rdy os wr run] free pg by auto
  have "builder ob \<noteq> NULL" "locks_ok os" using rdy os by (simp_all add: obj_ready_def pm_env_def)
  then show ?thesis
    using w1 read_then_end [OF w1(2) cnt, of os] wr by (auto simp: other_read_def PurgMemEndRead_def)
qed

text \<open>
  The reader that loses the race: between its \<open>TryBeginRead\<close> and its \<open>BeginReadBuildData\<close>
  the other thread rebuilds the content.
\<close>

lemma racing_try:
  assumes ob: "objs w p = Some ob" "lock_free ob" "buildDataCount ob = 0" and os: "locks_ok os"
  shows "TryBeginRead (racing os p (Suc (Suc (now w)))) p w = Some (PM_DATA_PURGED, set_obj p ob (bump (bump w)))"
proof -
  have e: "ob\<lparr>rwlock := \<lparr>rl_readers = 0, rl_writer = False\<rparr>\<rparr> = ob" "rwlock ob = \<lparr>rl_readers = 0, rl_writer = False\<rparr>"
    using ob(2) by (simp_all add: lock_free_def)
  have s: "set_obj p ob (bump (set_obj p x (bump w))) = set_obj p ob (bump (bump w))" for x
    by (simp add: set_obj_def bump_def now_def)
  show ?thesis
    using ob os
    by (simp add: e s TryBeginRead_def pthread_rwlock_rdlock_def pthread_rwlock_unlock_def winterfere_racing
        locks_ok_def Let_def IsPurged_def)
qed

lemma racing_build:
  assumes out: "objs (other_read os p w) p = Some ob" "lock_free ob" "buildDataCount ob \<noteq> 0"
    "\<not> g_supportUxpt (ux (other_read os p w))" and os: "locks_ok os"
  shows "\<exists>w'. BeginReadBuildData (racing os p (now w)) p w = Some (PMB_BUILD_ALL_FAIL, w') \<and>
            regions w' = regions (other_read os p w) \<and> objs w' p = Some ob \<and>
            \<not> g_supportUxpt (ux w')"
proof -
  define w1 where "w1 = (other_read os p w)\<lparr>ux := (ux (other_read os p w))\<lparr>tick := Suc (now w)\<rparr>\<rparr>"
  have w1: "objs w1 p = Some ob" "\<not> g_supportUxpt (ux w1)" "now w1 = Suc (now w)"
    "regions w1 = regions (other_read os p w)"
    using out by (simp_all add: w1_def now_def)
  have rl: "rwlock ob = \<lparr>rl_readers = 0, rl_writer = False\<rparr>" using out(2) by (simp add: lock_free_def)
  have e: "ob\<lparr>rwlock := \<lparr>rl_readers = 0, rl_writer = False\<rparr>\<rparr> = ob" using rl by simp
  have s: "(set_obj p y v)\<lparr>ux := ux v\<rparr> = set_obj p y v" for y v by (simp add: set_obj_def)
  show ?thesis
    using w1 rl out(3) os
    by (simp add: e s BeginReadBuildData_def pthread_rwlock_wrlock_def pthread_rwlock_unlock_def
        winterfere_racing w1_def [symmetric] locks_ok_def Let_def IsPurged_def lift_ux_def
        UxpteIsPresent_def)
qed

text \<open>
  C28. \<open>PurgMemBeginRead\<close> can fail although the content is present and every call it makes
  succeeds: if another reader rebuilds the content after this one has seen it purged and before
  it gets the write lock, \<open>BeginReadBuildData\<close> has nothing to rebuild and reports
  \<open>PMB_BUILD_ALL_FAIL\<close>; the caller gets false while the region holds exactly the logged content.
\<close>

theorem begin_read_loses_race:
  assumes rdy: "obj_ready w p t ob bs xs" and os: "pm_env os t" and free: "lock_free ob"
    and run: "run_steps xs (zeros ob) = (True, c)" and cnt: "countable_entries t (ptes (ux w))"
    and first: "buildDataCount ob = 0" "\<not> g_supportUxpt (ux w)"
  shows "\<exists>w' bs'. PurgMemBeginRead (racing os p (Suc (Suc (now w)))) p w = Some (False, w') \<and>
            regions w' (dataPtr ob) = Some bs' \<and> take (unat (dataSizeInput ob)) bs' = c"
proof -
  have v: "obj_view w p t w ob bs (ptes (ux w))" "builder ob \<noteq> NULL" using rdy by (simp_all add: obj_ready_def)
  note valid = view_valid [OF v] and ob = view_obj [OF v(1)]
  define w2 where "w2 = set_obj p ob (bump (bump w))"
  have v2: "obj_view w p t w2 ob bs (ptes (ux w))"
    unfolding w2_def by (rule view_set_obj [OF view_bump [OF view_bump [OF v(1)]]]) simp_all
  have s2: "now w2 = Suc (Suc (now w))" "ptes (ux w2) = ptes (ux w)" "\<not> g_supportUxpt (ux w2)"
    using first(2) by (simp_all add: w2_def)
  have lk: "locks_ok os" using os by (simp add: pm_env_def)
  have "access_outcome w2 p t ob bs True c (other_read os p w2)"
    using other_read_outcome [OF ready_view [OF rdy v2] os free run] cnt s2(2) first(1) by simp
  then have v3: "obj_view w2 p t (other_read os p w2) (count_build True ob) (rebuilt ob c bs)
      (touch (\<lambda>v. v OR 1) (obj_slots t) (ptes (ux w2)))"
    using first(1) by (simp add: access_outcome_def purged_def Let_def)
  have "objs (other_read os p w2) p = Some (count_build True ob)" "lock_free (count_build True ob)"
    "buildDataCount (count_build True ob) \<noteq> 0" "\<not> g_supportUxpt (ux (other_read os p w2))"
    using v3 s2(3) first(1) lock_free_simps(2) [of True ob] free
    by (simp_all add: obj_view_def) (simp_all add: count_build_def)
  from racing_build [OF this lk] obtain w' where w':
    "BeginReadBuildData (racing os p (now w2)) p w2 = Some (PMB_BUILD_ALL_FAIL, w')"
    "regions w' = regions (other_read os p w2)" "objs w' p = Some (count_build True ob)" "\<not> g_supportUxpt (ux w')" by blast
  have "BeginRead_loop (racing os p (Suc (Suc (now w)))) p w = Some (False, w')"
    using racing_try [OF ob free first(1) lk] w'(1) s2(1) w2_def
    by (subst BeginRead_loop.simps) simp
  then have "PurgMemBeginRead (racing os p (Suc (Suc (now w)))) p w = Some (False, w')"
    using valid ob first(2) w'(3,4)
    by (simp add: PurgMemBeginRead_def obj_UxpteGet_def obj_UxptePut_def lift_ux_unit_def UxpteGet_def UxptePut_def)
  moreover have "length c = unat (dataSizeInput ob)"
    using run_steps_length [of xs "zeros ob"] rdy run by (auto simp: obj_ready_def zeros_def)
  moreover have "regions w' (dataPtr ob) = Some (rebuilt ob c bs)"
    using v3 w'(2) by (simp add: obj_view_def count_build_def)
  ultimately show ?thesis by (auto simp: rebuilt_def)
qed

definition plain_world :: world where
  "plain_world = (ex_world fill_nines 0 ex_bytes)\<lparr>ux := ex_st\<lparr>g_supportUxpt := False\<rparr>\<rparr>"

lemma plain_ready: "obj_ready plain_world 0x40 ex_table (ex_obj 0) ex_bytes [(fill_nines, 0)]"
  using ex_ready_nines [of 0] by (auto simp: obj_ready_def obj_view_def plain_world_def ex_world_def)

theorem begin_read_loses_race_witness:
  "\<exists>w' bs'. PurgMemBeginRead (racing ex_pm_os 0x40 2) 0x40 plain_world = Some (False, w') \<and>
            regions w' 0x2000 = Some bs' \<and> take 4 bs' = replicate 4 9"
proof -
  have w: "countable_entries ex_table (ptes (ux plain_world))" "\<not> g_supportUxpt (ux plain_world)" "now plain_world = 0"
    using ex_countable [of fill_nines 0 ex_bytes] by (simp_all add: plain_world_def ex_world_def now_def ex_st_def)
  have ob: "buildDataCount (ex_obj 0) = 0" "dataPtr (ex_obj 0) = 0x2000" "dataSizeInput (ex_obj 0) = 4"
    by (simp_all add: ex_obj_def)
  have two: "Suc (Suc 0) = 2" by simp
  show ?thesis
    using begin_read_loses_race [OF plain_ready ex_env ex_free(1) ex_log(1) w(1) ob(1) w(2)]
    unfolding w(3) ob two by simp
qed

end
