(* ===== verification/Life_Props.thy ===== *)
theory Life_Props
  imports Purg_Life Purg_Props
begin

text \<open>
  The properties of creation and destruction of purgeable memory objects, and of the operations
  on invalid arguments.
\<close>

section \<open>Creation and destruction compose\<close>

text \<open>The entries of a data range lie in the table mapping, so touching them is invisible outside.\<close>

lemma touch_outside:
  assumes "upt_ok s u t" "geometry t ob" "\<not> in_mapping (uxpte t) (GetUxPageSize (dataAddr t) (dataSize t)) a"
  shows "touch f (obj_slots t) m a = m a"
proof -
  have "req_ok t (dataAddr t) (dataSize t)"
    using geometry_size [OF assms(2)] assms(2) by (intro req_ok_whole) (simp_all add: geometry_def)
  then have "a \<notin> set (obj_slots t)"
    using slot_in_mapping [OF assms(1) req_pages_in_data [OF assms(1)]] assms(3) by (auto simp: req_slots_def)
  then show ?thesis by simp
qed

text \<open>
  \<open>PurgMemCreate\<close>, when the system grants its requests and the initial modification
  succeeds: the new object is unlocked, its log is that one modification, its content is what
  the modification makes of zeros, and log and content agree (so that it survives purging).
\<close>

theorem create_spec:
  assumes env: "create_env os len w" and len: "0 < unat len" and ok: "\<not> create_refused os len w"
    and lk: "\<And>n. os_lock_init os n = 0" and os: "touch_ok os (new_table os len w)"
    and mem: "\<And>n. os_malloc os n \<noteq> NULL \<and> builders w (os_malloc os n) = None"
    and f: "in_buffer f" "f (replicate (unat len) 0) q = (True, d)"
  shows "\<exists>w' ob bs. PurgMemCreate (calm os) len (Some f) q w = Some (obj_at os w, w') \<and>
            content_ok w' (obj_at os w) (new_table os len w) ob bs [(f, q)] d \<and>
            take (unat len) bs = d \<and> lock_free ob \<and> dataSizeInput ob = len \<and> buildDataCount ob = 0"
  using Create_content [OF env len ok lk os mem f] by blast

text \<open>An empty world in which a creation of four bytes succeeds.\<close>

definition empty_world :: world where
  "empty_world = \<lparr>ux = ex_st0, builders = Map.empty, regions = Map.empty, objs = Map.empty\<rparr>"

lemma ex_requests:
  "obj_at ex_pm_os empty_world = 0x100" "data_at ex_pm_os 4 empty_world = 0x2000"
  "upt_at ex_pm_os empty_world = 0x180" "table_at ex_pm_os 4 empty_world = 0x10000"
  "new_table ex_pm_os 4 empty_world = ex_table"
  by (simp_all add: obj_at_def data_at_def upt_at_def table_at_def new_table_def ex_table_def now_def
      empty_world_def ex_st0_def ex_pm_os_def ex_os_def ex_round)

lemma ex_create_env: "create_env ex_pm_os 4 empty_world" "\<not> create_refused ex_pm_os 4 empty_world"
proof -
  have "mmap_fresh 0x10000 0x1000 (ux empty_world)"
    by (simp add: mmap_fresh_def empty_world_def ex_st0_def)
  moreover have "unmaps_ok ex_pm_os" by (simp add: unmaps_ok_def ex_pm_os_def ex_os_def)
  ultimately show "create_env ex_pm_os 4 empty_world"
    unfolding create_env_def ex_requests by (simp add: ex_round ex_size empty_world_def ex_st0_def)
  show "\<not> create_refused ex_pm_os 4 empty_world"
    unfolding create_refused_def ex_requests by simp
qed

theorem create_spec_witness:
  "\<exists>w' ob bs. PurgMemCreate (calm ex_pm_os) 4 (Some fill_nines) 0 empty_world = Some (0x100, w') \<and>
     content_ok w' 0x100 ex_table ob bs [(fill_nines, 0)] (replicate 4 9) \<and> take 4 bs = replicate 4 9"
proof -
  have len: "0 < unat (4 :: size_t)" by simp
  have lk: "os_lock_init ex_pm_os n = 0" for n by (simp add: ex_pm_os_def)
  have os: "touch_ok ex_pm_os (new_table ex_pm_os 4 empty_world)"
    using ex_env by (simp add: ex_requests pm_env_def)
  have mem: "os_malloc ex_pm_os n \<noteq> NULL \<and> builders empty_world (os_malloc ex_pm_os n) = None" for n
    by (simp add: ex_pm_os_def empty_world_def)
  have f: "fill_nines (replicate (unat (4 :: size_t)) 0) 0 = (True, replicate 4 9)" by (simp add: fill_nines_def)
  show ?thesis
    using create_spec [OF ex_create_env(1) len ex_create_env(2) lk os mem ex_buffers(1) f]
    unfolding ex_requests by auto
qed

text \<open>The entries of a table that is released are as before its creation.\<close>

lemma created_entries_gone:
  assumes env: "create_env os len w" "\<not> create_refused os len w" and sup: "g_supportUxpt (ux w)"
    and v: "obj_view w1 p (new_table os len w) w2 ob bs (touch f (obj_slots (new_table os len w)) (ptes (ux w1)))"
    and rel: "released w2 p (new_table os len w) ob A w3"
    and out: "\<And>a. \<not> (g_supportUxpt (ux w) \<and> in_mapping (uxpte (new_table os len w))
        (GetUxPageSize (dataAddr (new_table os len w)) (dataSize (new_table os len w))) a) \<Longrightarrow> ptes (ux w1) a = ptes (ux w) a"
    and sup2: "g_supportUxpt (ux w2)"
  shows "ptes (ux w3) = ptes (ux w)"
proof
  fix a
  let ?t = "new_table os len w"
  have tab: "upt_ok (ux w2) (uxPageTable ob) ?t" "geometry ?t ob" "ptes (ux w2) = touch f (obj_slots ?t) (ptes (ux w1))"
    using v sup2 by (simp_all add: obj_view_def)
  have "mmap_fresh (uxpte ?t) (GetUxPageSize (dataAddr ?t) (dataSize ?t)) (ux w)"
    using env sup by (simp add: create_env_def create_refused_def new_table_def)
  then show "ptes (ux w3) a = ptes (ux w) a"
    using rel sup out [of a] sup2 touch_outside [OF tab(1,2), of a]
    by (auto simp: released_def tab(3) mmap_fresh_def)
qed

text \<open>What a creation that gives up has to restore.\<close>

definition gives_back :: "world \<Rightarrow> world \<Rightarrow> bool" where
  "gives_back w w' \<longleftrightarrow>
     objs w' = objs w \<and> regions w' = regions w \<and> dom (builders w') = dom (builders w) \<and>
     upts (ux w') = upts (ux w) \<and> (g_supportUxpt (ux w) \<longrightarrow> ptes (ux w') = ptes (ux w))"

text \<open>The builder node of the initial modification cannot be allocated.\<close>

definition node_refused :: "pm_os \<Rightarrow> size_t \<Rightarrow> world \<Rightarrow> bool" where
  "node_refused os len w \<longleftrightarrow>
     (\<forall>p w1. PurgMemCreate_inner (calm os) len NULL w = Some (p, w1) \<longrightarrow> os_malloc os (Suc (now w1)) = NULL)"

text \<open>
  When the initial modification fails or cannot be logged, \<open>PurgMemCreate\<close> destroys the object again.
\<close>

lemma create_unlogged:
  assumes env: "create_env os len w" and len: "0 < unat len" and ok: "\<not> create_refused os len w"
    and lk: "\<And>n. os_lock_init os n = 0" "locks_ok os" and os: "touch_ok os (new_table os len w)"
    and f: "in_buffer f" "f (replicate (unat len) 0) q = (succ, d)" and no: "\<not> succ \<or> node_refused os len w"
  shows "\<exists>w'. PurgMemCreate (calm os) len (Some f) q w = Some (NULL, w') \<and> gives_back w w'"
proof -
  let ?p = "obj_at os w" and ?t = "new_table os len w"
  let ?ob = "new_obj (data_at os len w) len NULL (upt_at os w)" and ?bs = "replicate (unat (RoundUp len PAGE_SIZE)) (0 :: byte)"
  let ?map = "in_mapping (uxpte ?t) (GetUxPageSize (dataAddr ?t) (dataSize ?t))"
  have d: "data_at os len w \<noteq> MAP_FAILED" "?p \<noteq> NULL" using ok by (simp_all add: create_refused_def)
  obtain w1 where w1: "PurgMemCreate_inner (calm os) len NULL w = Some (?p, w1)" and cr: "created os len NULL w w1"
    using Create_inner_ok [OF env len ok lk(1)] by blast
  have s1: "builders w1 = builders w" "objs w1 = (objs w)(?p \<mapsto> ?ob)" "g_supportUxpt (ux w1) = g_supportUxpt (ux w)"
    "regions w1 = (regions w)(data_at os len w \<mapsto> ?bs)" "\<And>v. v \<noteq> upt_at os w \<Longrightarrow> upts (ux w1) v = upts (ux w) v"
    "\<And>a. \<not> (g_supportUxpt (ux w) \<and> ?map a) \<Longrightarrow> ptes (ux w1) a = ptes (ux w) a"
    "g_supportUxpt (ux w) \<Longrightarrow> uxpte ?t \<noteq> NULL"
    using cr by (simp_all add: created_def Let_def new_table_def new_obj_def)
  have run: "f (take (unat (dataSizeInput ?ob)) ?bs) q = (succ, d)"
    using f(2) new_content [OF env len d(1)] by (simp add: new_obj_def)
  obtain w2 where w2: "PurgMemAppendModify (calm os) ?p (Some f) q w1 = Some (False, w2)"
    and v2: "obj_view w1 ?p ?t w2 ?ob (rebuilt ?ob d ?bs) (touch (\<lambda>v. v OR 1) (obj_slots ?t) (ptes (ux w1)))"
    using AppendModify_fails [OF created_logged [OF cr] os f(1) run] no w1 by (auto simp: node_refused_def)
  have chain: "heap_chain (builders w2) (builder ?ob) {} []"
    unfolding heap_chain_def by (intro exI [of _ "[]"]) (simp add: new_obj_def)
  have free: "lock_free ?ob" and un: "unmaps_ok os" using env by (simp_all add: lock_free_def new_obj_def create_env_def)
  have s2: "g_supportUxpt (ux w2) = g_supportUxpt (ux w)" using v2 s1(3) by (simp add: obj_view_def)
  obtain w3 where w3: "PurgMemDestroy (calm os) ?p w2 = Some (True, w3)" "released w2 ?p ?t ?ob {} w3"
    using Destroy_releases [OF view_self [OF v2] chain free lk(2) un] s1(7) s2 by auto
  have "len \<noteq> 0" using len by auto
  then have "PurgMemCreate (calm os) len (Some f) q w = Some (NULL, w3)"
    using w1 w2 w3(1) d(2) by (simp add: PurgMemCreate_def)
  moreover have "upts (ux w3) = upts (ux w)"
    by (rule ext) (use w3(2) v2 s1(5) env in \<open>auto simp: released_def obj_view_def create_env_def new_obj_def\<close>)
  moreover have "ptes (ux w3) = ptes (ux w)" if "g_supportUxpt (ux w)"
    using created_entries_gone [OF env ok that v2 w3(2) s1(6)] s2 that by simp
  moreover have "objs w3 = objs w" "regions w3 = regions w" "dom (builders w3) = dom (builders w)"
    using w3(2) v2 s1(1,2,4) env d(1)
    by (auto simp: released_def obj_view_def create_env_def new_obj_def fun_upd_idem)
  ultimately show ?thesis by (auto simp: gives_back_def)
qed

text \<open>
  When the initial modification fails, \<open>PurgMemCreate\<close> destroys the object again: it returns
  NULL, and objects, regions, builders, table structs and (with kernel support) table entries
  are those from before.
\<close>

theorem create_failed_function:
  assumes env: "create_env os len w" and len: "0 < unat len" and ok: "\<not> create_refused os len w"
    and lk: "\<And>n. os_lock_init os n = 0" "locks_ok os" and os: "touch_ok os (new_table os len w)"
    and f: "in_buffer f" "f (replicate (unat len) 0) q = (False, d)"
  shows "\<exists>w'. PurgMemCreate (calm os) len (Some f) q w = Some (NULL, w') \<and>
            objs w' = objs w \<and> regions w' = regions w \<and> dom (builders w') = dom (builders w) \<and>
            upts (ux w') = upts (ux w) \<and> (g_supportUxpt (ux w) \<longrightarrow> ptes (ux w') = ptes (ux w))"
  using create_unlogged [OF assms] by (simp add: gives_back_def)

text \<open>A kernel without tables and a system that runs out of memory after the object and its table struct.\<close>

definition no_nodes :: pm_os where
  "no_nodes = ex_pm_os\<lparr>os_malloc := (\<lambda>n. if n \<le> 2 then os_malloc ex_pm_os n else NULL)\<rparr>"

definition plain_world :: world where
  "plain_world = empty_world\<lparr>ux := ex_st0\<lparr>g_supportUxpt := False\<rparr>\<rparr>"

lemma plain_requests:
  "obj_at no_nodes plain_world = 0x100" "data_at no_nodes 4 plain_world = 0x2000"
  "upt_at no_nodes plain_world = 0x180" "table_at no_nodes 4 plain_world = 0x10000"
  "new_table no_nodes 4 plain_world = ex_table"
  by (simp_all add: obj_at_def data_at_def upt_at_def table_at_def new_table_def ex_table_def now_def
      empty_world_def plain_world_def no_nodes_def ex_st0_def ex_pm_os_def ex_os_def ex_round)

lemma ex_no_nodes:
  "create_env no_nodes 4 plain_world" "\<And>n. os_lock_init no_nodes n = 0" "locks_ok no_nodes"
  "touch_ok no_nodes (new_table no_nodes 4 plain_world)" "node_refused no_nodes 4 plain_world"
proof -
  have "unmaps_ok no_nodes" by (simp add: unmaps_ok_def no_nodes_def ex_pm_os_def ex_os_def)
  then show "create_env no_nodes 4 plain_world"
    unfolding create_env_def plain_requests by (simp add: plain_world_def empty_world_def ex_st0_def)
  show lk: "os_lock_init no_nodes n = 0" for n by (simp add: no_nodes_def ex_pm_os_def)
  show "locks_ok no_nodes" using ex_env by (simp add: pm_env_def locks_ok_def no_nodes_def)
  show "touch_ok no_nodes (new_table no_nodes 4 plain_world)"
    unfolding plain_requests using ex_env by (simp add: pm_env_def touch_ok_def no_nodes_def)
  have pre: "obj_at no_nodes plain_world \<noteq> NULL" "data_at no_nodes 4 plain_world \<noteq> MAP_FAILED" "upt_at no_nodes plain_world \<noteq> NULL"
    unfolding plain_requests by simp_all
  show "node_refused no_nodes 4 plain_world"
    unfolding node_refused_def
  proof (intro allI impI)
    fix p w1 assume r: "PurgMemCreate_inner (calm no_nodes) 4 NULL plain_world = Some (p, w1)"
    have "\<not> g_supportUxpt (ux plain_world)" by (simp add: plain_world_def)
    then have "2 < now w1"
      using r lk by (auto simp: Create_inner_unfold [OF pre] lift_ux_def Let_def before_init_def InitUxPageTable_def bump_def now_def)
    then show "os_malloc no_nodes (Suc (now w1)) = NULL" by (simp add: no_nodes_def)
  qed
qed

text \<open>
  C30. Whichever request of the creation is refused (the object, the data mapping, the table
  struct, the table mapping, the lock, the builder node of the initial modification), and also if that
  modification fails, \<open>PurgMemCreate\<close> returns NULL and everything taken up to then has been given
  back: objects, regions, builders and table structs are those from before, and with kernel support
  the page table entries. A zero length and a missing function are rejected at once.
\<close>

theorem create_refused_releases:
  assumes env: "create_env os len w" and len: "0 < unat len"
    and no: "create_refused os len w \<or> (\<forall>n. os_lock_init os n \<noteq> 0) \<or>
      (\<forall>n. os_lock_init os n = 0) \<and> locks_ok os \<and> touch_ok os (new_table os len w) \<and> in_buffer f \<and>
      (node_refused os len w \<or> \<not> fst (f (replicate (unat len) 0) q))"
  shows "(\<exists>w'. PurgMemCreate (calm os) len (Some f) q w = Some (NULL, w') \<and> gives_back w w') \<and>
         PurgMemCreate os' 0 g q w = Some (NULL, w) \<and> PurgMemCreate os' len None q w = Some (NULL, w)"
proof -
  have "\<exists>w'. PurgMemCreate (calm os) len (Some f) q w = Some (NULL, w') \<and> gives_back w w'"
  proof (cases "create_refused os len w \<or> (\<forall>n. os_lock_init os n \<noteq> 0)")
    case True
    then obtain w' where "PurgMemCreate_inner (calm os) len NULL w = Some (NULL, w')" "same_resources w w'"
      using Create_inner_refused [OF env len] by blast
    moreover have "len \<noteq> 0" using len by auto
    ultimately show ?thesis by (auto simp: PurgMemCreate_def gives_back_def same_resources_def)
  next
    case False
    then show ?thesis
      using no create_unlogged [OF env len, of f q "fst (f (replicate (unat len) 0) q)" "snd (f (replicate (unat len) 0) q)"] by auto
  qed
  then show ?thesis by (simp add: PurgMemCreate_def)
qed

theorem create_refused_releases_witness:
  "(\<exists>w'. PurgMemCreate (calm (ex_pm_os\<lparr>os_lock_init := \<lambda>_. 11\<rparr>)) 4 (Some fill_nines) 0 empty_world = Some (NULL, w') \<and>
        gives_back empty_world w') \<and>
   (\<exists>w'. PurgMemCreate (calm no_nodes) 4 (Some fill_nines) 0 plain_world = Some (NULL, w') \<and> gives_back plain_world w')"
proof -
  let ?os = "ex_pm_os\<lparr>os_lock_init := \<lambda>_. 11\<rparr>"
  have len: "0 < unat (4 :: size_t)" by simp
  have env: "create_env ?os 4 empty_world"
    using ex_create_env(1)
    by (simp add: create_env_def obj_at_def data_at_def upt_at_def table_at_def unmaps_ok_def)
  have no: "create_refused ?os 4 empty_world \<or> (\<forall>n. os_lock_init ?os n \<noteq> 0)" by simp
  have "(\<forall>n. os_lock_init no_nodes n = 0) \<and> locks_ok no_nodes \<and> touch_ok no_nodes (new_table no_nodes 4 plain_world) \<and>
      in_buffer fill_nines \<and> node_refused no_nodes 4 plain_world" using ex_no_nodes ex_buffers(1) by simp
  then show ?thesis
    using create_refused_releases [OF env len, of fill_nines 0] no
      create_refused_releases [OF ex_no_nodes(1) len, of fill_nines 0] by blast
qed

theorem create_failed_function_witness:
  "\<exists>w'. PurgMemCreate (calm ex_pm_os) 4 (Some refuse) 0 empty_world = Some (NULL, w') \<and>
        objs w' = Map.empty \<and> regions w' = Map.empty \<and> ptes (ux w') = Map.empty"
proof -
  have len: "0 < unat (4 :: size_t)" by simp
  have lk: "os_lock_init ex_pm_os n = 0" "locks_ok ex_pm_os" for n
    using ex_env by (simp_all add: ex_pm_os_def pm_env_def)
  have os: "touch_ok ex_pm_os (new_table ex_pm_os 4 empty_world)"
    using ex_env by (simp add: ex_requests pm_env_def)
  have f: "refuse (replicate (unat (4 :: size_t)) 0) 0 = (False, replicate 4 0)" by (simp add: refuse_def)
  show ?thesis
    using create_failed_function [OF ex_create_env(1) len ex_create_env(2) lk os ex_buffers(2) f]
    by (auto simp: empty_world_def ex_st0_def)
qed

text \<open>
  \<open>PurgMemDestroy\<close> of an object nobody holds returns true and releases exactly what the
  object owned: the object itself, its region, its table struct, the table mapping and all
  builders of its log.
\<close>

theorem destroy_releases_all:
  assumes v: "obj_view w p t w ob bs (ptes (ux w))"
    and chain: "heap_chain (builders w) (builder ob) A xs" and free: "lock_free ob"
    and os: "locks_ok os" "unmaps_ok os" and q: "g_supportUxpt (ux w) \<Longrightarrow> uxpte t \<noteq> NULL"
  shows "\<exists>w'. PurgMemDestroy (calm os) p w = Some (True, w') \<and> released w p t ob A w'"
  by (rule Destroy_releases [OF v chain free os q])

lemma ex_view_self:
  "obj_view (ex_world fill_nines 1 ex_bytes) 0x40 ex_table (ex_world fill_nines 1 ex_bytes) (ex_obj 1) ex_bytes
     (ptes (ux (ex_world fill_nines 1 ex_bytes)))"
  using ex_view [OF ex_bytes_length, of fill_nines 1] by (simp add: ex_world_def ex_st_def)

lemma ex_heap: "heap_chain (builders (ex_world fill_nines 1 ex_bytes)) (builder (ex_obj 1)) {0x50} [(fill_nines, 0)]"
  unfolding heap_chain_def
  by (intro exI [of _ "[0x50]"]) (simp add: bchain_Cons ex_node_def ex_world_def ex_obj_def)

theorem destroy_releases_all_witness:
  "\<exists>w'. PurgMemDestroy (calm ex_pm_os) 0x40 (ex_world fill_nines 1 ex_bytes) = Some (True, w') \<and>
        objs w' = Map.empty \<and> regions w' = Map.empty \<and> dom (builders w') = {}"
proof -
  have os: "locks_ok ex_pm_os" "unmaps_ok ex_pm_os"
    using ex_env by (simp_all add: pm_env_def unmaps_ok_def ex_pm_os_def ex_os_def)
  have q: "uxpte ex_table \<noteq> NULL" by (simp add: ex_table_def)
  show ?thesis
    using destroy_releases_all [OF ex_view_self ex_heap ex_free(1) os q]
    by (auto simp: released_def ex_world_def ex_obj_def)
qed

text \<open>
  When the kernel refuses to unmap the data, \<open>PurgMemDestroy\<close> returns false and keeps the
  object with its region (log and table are gone, the lock is free, so that every access is
  rejected); destroying it again, once the kernel accepts, releases all that is left.
\<close>

theorem destroy_can_be_retried:
  assumes v: "obj_view w p t w ob bs (ptes (ux w))"
    and chain: "heap_chain (builders w) (builder ob) A xs" and free: "lock_free ob"
    and os: "locks_ok os" and q: "g_supportUxpt (ux w) \<Longrightarrow> uxpte t \<noteq> NULL"
    and un: "\<And>n d sz. os_munmap os n d sz \<noteq> 0" "\<And>n d sz. ux_munmap (uxos os) n d sz = 0"
    and os2: "locks_ok os2" "unmaps_ok os2"
  shows "\<exists>w1 w2. PurgMemDestroy (calm os) p w = Some (False, w1) \<and> half_destroyed w p t ob A w1 \<and>
           PurgMemBeginRead os p w1 = Some (False, w1) \<and>
           PurgMemDestroy (calm os2) p w1 = Some (True, w2) \<and> released w p t ob A w2"
proof -
  obtain w1 where w1: "PurgMemDestroy (calm os) p w = Some (False, w1)" "half_destroyed w p t ob A w1"
    using Destroy_refused [OF v chain free os q un] by blast
  let ?ob = "ob\<lparr>builder := NULL, uxPageTable := NULL\<rparr>"
  have nn: "dataPtr ob \<noteq> NULL" "p \<noteq> NULL" using v by (simp_all add: obj_view_def geometry_def)
  have ob: "objs w1 p = Some ?ob" "lock_free ?ob"
    using w1(2) free by (simp_all add: half_destroyed_def lock_free_def)
  obtain w2 where w2: "PurgMemDestroy (calm os2) p w1 = Some (True, w2)" "objs w2 = (objs w1)(p := None)"
    "regions w2 = (regions w1)(dataPtr ob := None)" "builders w2 = builders w1" "upts (ux w2) = upts (ux w1)"
    "ptes (ux w2) = ptes (ux w1)" "g_supportUxpt (ux w2) = g_supportUxpt (ux w1)"
    using Destroy_rest [OF ob _ _ _ nn(2) os2] nn(1) by auto
  then have "released w p t ob A w2"
    using w1(2) by (simp add: half_destroyed_def released_def)
  moreover have "PurgMemBeginRead os p w1 = Some (False, w1)"
    using ob(1) nn by (simp add: PurgMemBeginRead_def IsPurgMemPtrValid_def)
  ultimately show ?thesis using w1 w2(1) by blast
qed

theorem destroy_can_be_retried_witness:
  "\<exists>w1 w2. PurgMemDestroy (calm (ex_pm_os\<lparr>os_munmap := \<lambda>_ _ _. -1\<rparr>)) 0x40 (ex_world fill_nines 1 ex_bytes) = Some (False, w1) \<and>
           PurgMemDestroy (calm ex_pm_os) 0x40 w1 = Some (True, w2) \<and> objs w2 = Map.empty \<and> regions w2 = Map.empty"
proof -
  let ?w = "ex_world fill_nines 1 ex_bytes" and ?os = "ex_pm_os\<lparr>os_munmap := \<lambda>_ _ _. -1\<rparr>"
  have os: "locks_ok ?os" "locks_ok ex_pm_os" "unmaps_ok ex_pm_os"
    using ex_env by (simp_all add: pm_env_def locks_ok_def unmaps_ok_def ex_pm_os_def ex_os_def)
  have un: "os_munmap ?os n d sz \<noteq> 0" "ux_munmap (uxos ?os) n d sz = 0" for n d sz
    by (simp_all add: ex_pm_os_def ex_os_def)
  have q: "uxpte ex_table \<noteq> NULL" by (simp add: ex_table_def)
  show ?thesis
    using destroy_can_be_retried [OF ex_view_self ex_heap ex_free(1) os(1) q un os(2,3)]
    by (auto simp: released_def ex_world_def ex_obj_def)
qed

section \<open>Invalid arguments\<close>

text \<open>
  Operations on NULL, or on an object that lacks its data, table or log, do nothing: begin
  operations return false, end operations return, the content is NULL, its size 0. Destroying
  NULL succeeds. This holds in every environment.
\<close>

theorem invalid_objects_are_rejected:
  assumes "p = NULL \<or> (\<exists>ob. objs w p = Some ob \<and> (dataPtr ob = NULL \<or> uxPageTable ob = NULL \<or> builder ob = NULL))"
  shows "PurgMemBeginRead os p w = Some (False, w) \<and> PurgMemBeginWrite os p w = Some (False, w) \<and>
         PurgMemEndRead os p w = Some w \<and> PurgMemEndWrite os p w = Some w \<and>
         PurgMemGetContent p w = Some NULL \<and> PurgMemGetContentSize p w = Some 0 \<and>
         PurgMemDestroy os NULL w = Some (True, w) \<and> PurgMemAppendModify os NULL (Some f) q w = Some (False, w) \<and>
         PurgMemAppendModify os p None q w = Some (True, w)"
proof -
  have "IsPurgMemPtrValid p w = Some False" using assms by (auto simp: IsPurgMemPtrValid_def)
  then show ?thesis
    by (simp add: PurgMemBeginRead_def PurgMemBeginWrite_def PurgMemEndRead_def PurgMemEndWrite_def
        EndAccessPurgMem_def PurgMemGetContent_def PurgMemGetContentSize_def PurgMemDestroy_def PurgMemAppendModify_def)
qed

theorem invalid_objects_are_rejected_witness:
  "PurgMemBeginRead ex_pm_os NULL empty_world = Some (False, empty_world)"
proof -
  have "(NULL :: ptr) = NULL \<or> (\<exists>ob. objs empty_world NULL = Some ob \<and>
      (dataPtr ob = NULL \<or> uxPageTable ob = NULL \<or> builder ob = NULL))" by simp
  from invalid_objects_are_rejected [OF this] show ?thesis by blast
qed

end
