(* ===== verification/Purgeable_Ndk.thy ===== *)
theory Purgeable_Ndk
  imports Life_Props
begin

text \<open>
  The native development kit interface \<open>c/src/purgeable_memory.c\<close>: every exported
  function casts its argument and calls the C component. The life of an object as an
  application sees it, from creation to a read, is stated over these functions.
\<close>

section \<open>The exported functions\<close>

definition OH_PurgeableMemory_Create ::
  "pm_os \<Rightarrow> size_t \<Rightarrow> modify_func option \<Rightarrow> ptr \<Rightarrow> world \<Rightarrow> (ptr \<times> world) option" where
  "OH_PurgeableMemory_Create os sz func funcPara w = PurgMemCreate os sz func funcPara w"

definition OH_PurgeableMemory_Destroy :: "pm_os \<Rightarrow> ptr \<Rightarrow> world \<Rightarrow> (bool \<times> world) option" where
  "OH_PurgeableMemory_Destroy os purgObj w = PurgMemDestroy os purgObj w"

definition OH_PurgeableMemory_BeginRead :: "pm_os \<Rightarrow> ptr \<Rightarrow> world \<Rightarrow> (bool \<times> world) option" where
  "OH_PurgeableMemory_BeginRead os purgObj w = PurgMemBeginRead os purgObj w"

definition OH_PurgeableMemory_EndRead :: "pm_os \<Rightarrow> ptr \<Rightarrow> world \<Rightarrow> world option" where
  "OH_PurgeableMemory_EndRead os purgObj w = PurgMemEndRead os purgObj w"

definition OH_PurgeableMemory_BeginWrite :: "pm_os \<Rightarrow> ptr \<Rightarrow> world \<Rightarrow> (bool \<times> world) option" where
  "OH_PurgeableMemory_BeginWrite os purgObj w = PurgMemBeginWrite os purgObj w"

definition OH_PurgeableMemory_EndWrite :: "pm_os \<Rightarrow> ptr \<Rightarrow> world \<Rightarrow> world option" where
  "OH_PurgeableMemory_EndWrite os purgObj w = PurgMemEndWrite os purgObj w"

definition OH_PurgeableMemory_GetContent :: "ptr \<Rightarrow> world \<Rightarrow> ptr option" where
  "OH_PurgeableMemory_GetContent purgObj w = PurgMemGetContent purgObj w"

definition OH_PurgeableMemory_ContentSize :: "ptr \<Rightarrow> world \<Rightarrow> size_t option" where
  "OH_PurgeableMemory_ContentSize purgObj w = PurgMemGetContentSize purgObj w"

definition OH_PurgeableMemory_AppendModify ::
  "pm_os \<Rightarrow> ptr \<Rightarrow> modify_func option \<Rightarrow> ptr \<Rightarrow> world \<Rightarrow> (bool \<times> world) option" where
  "OH_PurgeableMemory_AppendModify os purgObj func funcPara w = PurgMemAppendModify os purgObj func funcPara w"

section \<open>Creating and reading\<close>

lemmas ndk_defs = OH_PurgeableMemory_Create_def OH_PurgeableMemory_Destroy_def
  OH_PurgeableMemory_BeginRead_def OH_PurgeableMemory_EndRead_def OH_PurgeableMemory_BeginWrite_def
  OH_PurgeableMemory_EndWrite_def OH_PurgeableMemory_GetContent_def OH_PurgeableMemory_ContentSize_def
  OH_PurgeableMemory_AppendModify_def

text \<open>A read access that was granted, its end, and the destruction of the object.\<close>

lemma outcome_view:
  assumes "begin_outcome grant w p t ob bs True c w'"
  shows "\<exists>b bs' m. obj_view w p t w' (grant (count_build b ob)) bs' m \<and> (\<forall>a. m a = None \<longleftrightarrow> ptes (ux w) a = None)"
proof (cases "purged (g_supportUxpt (ux w)) t ob (ptes (ux w))")
  case True
  then have "obj_view w p t w' (grant (count_build True ob)) (rebuilt ob c bs) (rebuilt_entries (g_supportUxpt (ux w)) t (ptes (ux w)))"
    using assms by (simp add: begin_outcome_def)
  then show ?thesis
    by (intro exI [of _ True] exI [of _ "rebuilt ob c bs"] exI conjI, assumption)
       (simp add: rebuilt_entries_def pinned_entries_def pin_all_def)
next
  case False
  then have "obj_view w p t w' (grant (count_build False ob)) bs (pinned_entries (g_supportUxpt (ux w)) t (ptes (ux w)))"
    using assms by (simp add: begin_outcome_def count_build_def)
  then show ?thesis
    by (intro exI [of _ False] exI [of _ bs] exI conjI, assumption) (simp add: pinned_entries_def pin_all_def)
qed

lemma end_and_destroy:
  assumes v: "obj_view w0 p t w (add_reader ob) bs m" "builder ob \<noteq> NULL" "\<forall>a. m a = None \<longleftrightarrow> ptes (ux w0) a = None"
    and chain: "heap_chain (builders w0) (builder ob) A xs" and free: "lock_free ob"
    and os: "locks_ok os" "unmaps_ok os" and q: "g_supportUxpt (ux w0) \<Longrightarrow> uxpte t \<noteq> NULL"
  shows "\<exists>w1 w2. PurgMemEndRead (calm os) p w = Some w1 \<and> PurgMemDestroy (calm os) p w1 = Some (True, w2) \<and>
    objs w2 = (objs w0)(p := None) \<and> regions w2 = (regions w0)(dataPtr ob := None) \<and>
    dom (builders w2) = dom (builders w0) - A \<and> upts (ux w2) = (upts (ux w0))(uxPageTable ob := None) \<and>
    (\<forall>a. ptes (ux w2) a = None \<longleftrightarrow> ptes (ux w0) a = None \<or>
       g_supportUxpt (ux w0) \<and> in_mapping (uxpte t) (GetUxPageSize (dataAddr t) (dataSize t)) a)"
proof -
  have wr: "\<not> rl_writer (rwlock ob)" using free by (rule lock_free_simps)
  obtain w1 where w1: "EndAccessPurgMem (calm os) p w = Some w1"
    "obj_view w0 p t w1 ob bs (pin_all (g_supportUxpt (ux w0)) uxpte_dec t m)"
    using EndAccess_reader [OF v(1,2) os(1) wr] by blast
  have same: "builders w1 = builders w0" "g_supportUxpt (ux w1) = g_supportUxpt (ux w0)" "objs w1 = (objs w0)(p \<mapsto> ob)"
    "regions w1 = (regions w0)(dataPtr ob \<mapsto> bs)" "upts (ux w1) = upts (ux w0)"
    and e: "ptes (ux w1) a = None \<longleftrightarrow> ptes (ux w0) a = None" for a
    using w1(2) v(3) by (simp_all add: obj_view_def pin_all_None)
  obtain w2 where "PurgMemDestroy (calm os) p w1 = Some (True, w2)" "released w1 p t ob A w2"
    using Destroy_releases [OF view_self [OF w1(2)] _ free os] chain same q by auto
  then show ?thesis using w1(1) e by (auto simp: PurgMemEndRead_def released_def same)
qed

lemma read_and_destroy:
  assumes ok: "content_ok w p t ob bs xs c" and os: "pm_env os t" "unmaps_ok os" "uxpte t \<noteq> NULL"
    and free: "lock_free ob" and cnt: "buildDataCount ob + 1 \<noteq> 0" and ch: "heap_chain (builders w) (builder ob) A ys"
  shows "\<exists>w1 w2 w3 bs'. PurgMemBeginRead (calm os) p w = Some (True, w1) \<and>
    PurgMemGetContent p w1 = Some (dataPtr ob) \<and> PurgMemGetContentSize p w1 = Some (dataSizeInput ob) \<and>
    regions w1 (dataPtr ob) = Some bs' \<and> content_of ob bs' = c \<and>
    PurgMemEndRead (calm os) p w1 = Some w2 \<and> PurgMemDestroy (calm os) p w2 = Some (True, w3) \<and>
    objs w3 = (objs w)(p := None) \<and> regions w3 = (regions w)(dataPtr ob := None) \<and>
    dom (builders w3) = dom (builders w) - A \<and> upts (ux w3) = (upts (ux w))(uxPageTable ob := None) \<and>
    (\<forall>a. ptes (ux w3) a = None \<longleftrightarrow> ptes (ux w) a = None \<or>
       g_supportUxpt (ux w) \<and> in_mapping (uxpte t) (GetUxPageSize (dataAddr t) (dataSize t)) a)"
proof -
  have rdy: "obj_ready w p t ob bs xs" "run_steps xs (zeros ob) = (True, c)" using ok by (simp_all add: content_ok_def)
  from rd.content [OF ok os(1) free cnt] obtain w1 bs1 where
    w1: "PurgMemBeginRead (calm os) p w = Some (True, w1)" "content_of ob bs1 = c" "regions w1 (dataPtr ob) = Some bs1" by blast
  have "begin_outcome add_reader w p t ob bs True c w1"
    using rd.outcome [OF rdy(1) os(1) free cnt rdy(2)] w1(1) by auto
  then obtain b bs' m where v: "obj_view w p t w1 (add_reader (count_build b ob)) bs' m"
    and m: "\<forall>a. m a = None \<longleftrightarrow> ptes (ux w) a = None" using outcome_view by blast
  have same: "dataPtr (count_build b ob) = dataPtr ob" "dataSizeInput (count_build b ob) = dataSizeInput ob"
    "builder (count_build b ob) = builder ob" "uxPageTable (count_build b ob) = uxPageTable ob"
    by (simp_all add: count_build_def)
  have nb: "builder ob \<noteq> NULL" using rdy(1) by (simp add: obj_ready_def)
  then have "PurgMemGetContent p w1 = Some (dataPtr ob)" "PurgMemGetContentSize p w1 = Some (dataSizeInput ob)"
    using view_valid [OF v] view_obj [OF v] same
    by (simp_all add: PurgMemGetContent_def PurgMemGetContentSize_def)
  moreover have "locks_ok os" "lock_free (count_build b ob)" using os(1) free by (simp_all add: pm_env_def lock_free_simps)
  ultimately show ?thesis
    using end_and_destroy [OF v _ m, of A ys os] ch os(2,3) nb w1 unfolding same by blast
qed

text \<open>
  C29. The life of an object through the exported functions: \<open>OH_PurgeableMemory_Create\<close> gives an
  object; whatever the kernel purges then, \<open>OH_PurgeableMemory_BeginRead\<close> succeeds, the content
  pointer and size are those of the object, and the bytes there are what the creation function
  makes of zeros; \<open>OH_PurgeableMemory_EndRead\<close> returns and \<open>OH_PurgeableMemory_Destroy\<close> succeeds,
  after which objects, regions, builders, table structs and mapped page table entries are those from
  before the creation.
\<close>

theorem ndk_create_read_destroy:
  assumes env: "create_env os len w" and len: "0 < unat len" and ok: "\<not> create_refused os len w"
    and lk: "\<And>n. os_lock_init os n = 0" and os: "pm_env os (new_table os len w)"
    and mem: "\<And>n. os_malloc os n \<noteq> NULL \<and> builders w (os_malloc os n) = None"
    and f: "in_buffer f" "f (replicate (unat len) 0) q = (True, d)"
    and tab: "table_at os len w \<noteq> NULL"
  shows "\<exists>w1. OH_PurgeableMemory_Create (calm os) len (Some f) q w = Some (obj_at os w, w1) \<and>
     regions w1 (data_at os len w) \<noteq> None \<and>
     (\<forall>w2. kernel_purges (new_table os len w) (data_at os len w) w1 w2 \<longrightarrow>
        (\<exists>w3 w4 w5 bs. OH_PurgeableMemory_BeginRead (calm os) (obj_at os w) w2 = Some (True, w3) \<and>
           OH_PurgeableMemory_GetContent (obj_at os w) w3 = Some (data_at os len w) \<and>
           OH_PurgeableMemory_ContentSize (obj_at os w) w3 = Some len \<and>
           regions w3 (data_at os len w) = Some bs \<and> take (unat len) bs = d \<and>
           OH_PurgeableMemory_EndRead (calm os) (obj_at os w) w3 = Some w4 \<and>
           OH_PurgeableMemory_Destroy (calm os) (obj_at os w) w4 = Some (True, w5) \<and>
           objs w5 = objs w \<and> regions w5 = regions w \<and> dom (builders w5) = dom (builders w) \<and>
           upts (ux w5) = upts (ux w) \<and> (g_supportUxpt (ux w) \<longrightarrow> dom (ptes (ux w5)) = dom (ptes (ux w)))))"
proof -
  let ?p = "obj_at os w" and ?t = "new_table os len w" and ?d = "data_at os len w"
  let ?map = "in_mapping (table_at os len w) (GetUxPageSize ?d (RoundUp len PAGE_SIZE))"
  have lks: "touch_ok os ?t" "locks_ok os" "unmaps_ok os" "uxpte ?t \<noteq> NULL"
    using os env tab by (simp_all add: pm_env_def create_env_def new_table_def)
  have fresh: "objs w ?p = None" "regions w ?d = None" "upts (ux w) (upt_at os w) = None"
    using env ok by (auto simp: create_env_def create_refused_def)
  have unmapped: "ptes (ux w) a = None" if "g_supportUxpt (ux w)" "?map a" for a
    using env ok that by (auto simp: create_env_def create_refused_def mmap_fresh_def)
  obtain w1 ob bs where w1: "PurgMemCreate (calm os) len (Some f) q w = Some (?p, w1)"
    "content_ok w1 ?p ?t ob bs [(f, q)] d" and ob: "lock_free ob" "dataSizeInput ob = len" "buildDataCount ob = 0" "dataPtr ob = ?d"
    and fr: "create_frame os len w w1 ob"
    using Create_content [OF env len ok lk lks(1) mem f] by blast
  obtain newp xs where new: "builders w newp = None" "dom (builders w1) = insert newp (dom (builders w))"
    "heap_chain (builders w1) (builder ob) {newp} xs" using fr by (auto simp: create_frame_def)
  have cnt: "buildDataCount ob + 1 \<noteq> 0" using ob(3) by simp
  have life: "\<exists>w3 w4 w5 bs. PurgMemBeginRead (calm os) ?p w2 = Some (True, w3) \<and>
      PurgMemGetContent ?p w3 = Some ?d \<and> PurgMemGetContentSize ?p w3 = Some len \<and>
      regions w3 ?d = Some bs \<and> take (unat len) bs = d \<and> PurgMemEndRead (calm os) ?p w3 = Some w4 \<and>
      PurgMemDestroy (calm os) ?p w4 = Some (True, w5) \<and>
      objs w5 = objs w \<and> regions w5 = regions w \<and> dom (builders w5) = dom (builders w) \<and>
      upts (ux w5) = upts (ux w) \<and> (g_supportUxpt (ux w) \<longrightarrow> dom (ptes (ux w5)) = dom (ptes (ux w)))"
    if k: "kernel_purges ?t ?d w1 w2" for w2
  proof -
    obtain bs2 where ok2: "content_ok w2 ?p ?t ob bs2 [(f, q)] d"
      using purge_content [OF w1(2), of w2] k ob(4) by auto
    have s2: "builders w2 = builders w1" "objs w2 = objs w1" "upts (ux w2) = upts (ux w1)"
      "g_supportUxpt (ux w2) = g_supportUxpt (ux w1)" "\<And>a. ptes (ux w2) a = None \<longleftrightarrow> ptes (ux w1) a = None"
      and r2: "(regions w2)(?d := None) = (regions w1)(?d := None)" using k by (auto simp: kernel_purges_def)
    have upt: "uxPageTable ob = upt_at os w" using fr by (simp add: create_frame_def)
    obtain w3 w4 w5 bs3 where w5: "PurgMemBeginRead (calm os) ?p w2 = Some (True, w3)" "PurgMemGetContent ?p w3 = Some ?d"
      "PurgMemGetContentSize ?p w3 = Some len" "regions w3 ?d = Some bs3" "take (unat len) bs3 = d"
      "PurgMemEndRead (calm os) ?p w3 = Some w4" "PurgMemDestroy (calm os) ?p w4 = Some (True, w5)"
      "objs w5 = (objs w2)(?p := None)" "regions w5 = (regions w2)(?d := None)"
      "dom (builders w5) = dom (builders w2) - {newp}" "upts (ux w5) = (upts (ux w2))(upt_at os w := None)"
      "\<forall>a. ptes (ux w5) a = None \<longleftrightarrow> ptes (ux w2) a = None \<or> g_supportUxpt (ux w2) \<and> ?map a"
      using read_and_destroy [OF ok2 os lks(3,4) ob(1) cnt, of "{newp}" xs] new(3) s2(1) ob(2,4) upt
      by (auto simp: new_table_def)
    have "objs w5 = objs w" "regions w5 = regions w" "upts (ux w5) = upts (ux w)"
      using w5(8,9,11) s2(2,3) r2 fr fresh by (auto simp: create_frame_def fun_eq_iff)
    moreover have "dom (builders w5) = dom (builders w)" using w5(10) s2(1) new(1,2) by auto
    moreover have "ptes (ux w5) a = None \<longleftrightarrow> ptes (ux w) a = None" if sup: "g_supportUxpt (ux w)" for a
      using w5(12) s2(4,5) fr unmapped [OF sup, of a] sup by (cases "?map a") (auto simp: create_frame_def)
    then have "g_supportUxpt (ux w) \<longrightarrow> dom (ptes (ux w5)) = dom (ptes (ux w))" by (auto simp: dom_def)
    ultimately show ?thesis using w5(1-7) by blast
  qed
  have "regions w1 (dataPtr ob) \<noteq> None"
    using w1(2) by (auto simp: content_ok_def obj_ready_def obj_view_def dest: fun_cong [where x = "dataPtr ob"])
  then show ?thesis unfolding ndk_defs using w1(1) life ob(4) by auto
qed

theorem ndk_create_read_destroy_witness:
  "\<exists>w1 w3 bs. OH_PurgeableMemory_Create (calm ex_pm_os) 4 (Some fill_nines) 0 empty_world = Some (0x100, w1) \<and>
     OH_PurgeableMemory_BeginRead (calm ex_pm_os) 0x100 w1 = Some (True, w3) \<and>
     regions w3 0x2000 = Some bs \<and> take 4 bs = replicate 4 9 \<and>
     (\<exists>w4 w5. OH_PurgeableMemory_EndRead (calm ex_pm_os) 0x100 w3 = Some w4 \<and>
        OH_PurgeableMemory_Destroy (calm ex_pm_os) 0x100 w4 = Some (True, w5) \<and>
        objs w5 = Map.empty \<and> regions w5 = Map.empty \<and> dom (builders w5) = {} \<and> upts (ux w5) = upts (ux empty_world) \<and>
        dom (ptes (ux w5)) = {})"
proof -
  have len: "0 < unat (4 :: size_t)" by simp
  have lk: "os_lock_init ex_pm_os n = 0" for n by (simp add: ex_pm_os_def)
  have os: "pm_env ex_pm_os (new_table ex_pm_os 4 empty_world)" using ex_env by (simp add: ex_requests)
  have mem: "os_malloc ex_pm_os n \<noteq> NULL \<and> builders empty_world (os_malloc ex_pm_os n) = None" for n
    by (simp add: ex_pm_os_def empty_world_def)
  have f: "fill_nines (replicate (unat (4 :: size_t)) 0) 0 = (True, replicate 4 9)" by (simp add: fill_nines_def)
  have tab: "table_at ex_pm_os 4 empty_world \<noteq> NULL" by (simp add: ex_requests)
  have e: "objs empty_world = Map.empty" "regions empty_world = Map.empty" "builders empty_world = Map.empty"
    "ptes (ux empty_world) = Map.empty" "g_supportUxpt (ux empty_world)"
    by (simp_all add: empty_world_def ex_st0_def)
  note r = ndk_create_read_destroy [OF ex_create_env(1) len ex_create_env(2) lk os mem ex_buffers(1) f tab, unfolded ex_requests]
  from r obtain w1 where w1: "OH_PurgeableMemory_Create (calm ex_pm_os) 4 (Some fill_nines) 0 empty_world = Some (0x100, w1)"
    "regions w1 0x2000 \<noteq> None" by blast
  from kernel_idle [OF w1(2)] r w1(1) obtain w3 w4 w5 bs where
    "OH_PurgeableMemory_BeginRead (calm ex_pm_os) 0x100 w1 = Some (True, w3)"
    "regions w3 0x2000 = Some bs" "take (unat (4 :: size_t)) bs = replicate 4 9"
    "OH_PurgeableMemory_EndRead (calm ex_pm_os) 0x100 w3 = Some w4" "OH_PurgeableMemory_Destroy (calm ex_pm_os) 0x100 w4 = Some (True, w5)"
    "objs w5 = objs empty_world" "regions w5 = regions empty_world" "dom (builders w5) = dom (builders empty_world)"
    "upts (ux w5) = upts (ux empty_world)" "dom (ptes (ux w5)) = dom (ptes (ux empty_world))"
    using e(5) by fastforce
  then show ?thesis using w1(1) by (auto simp: e)
qed

end
