(* ===== verification/Dmabuf.thy ===== *)
theory Dmabuf
  imports PM_Prelude
begin

text \<open>
  The DMA buffer heap library, \<open>libdmabufheap/src/dmabuf_alloc.c\<close> with the types of
  \<open>include/dmabuf_alloc.h\<close>. The library keeps no state of its own: its effects are system calls,
  notes to the memory tracer and updates of the caller's buffer structs. The state therefore
  records the calls and the notes in their order, and holds the structs by address.

  \<open>strcat_s\<close>, \<open>set_owner_id_for_heap_flags\<close> and the answers of the kernel are parameters. File
  descriptors are \<open>int\<close> where the source has \<open>int\<close> and 32-bit words where it has
  \<open>unsigned int\<close>; the constants are those of the kernel's user interface headers.
\<close>

section \<open>State and environment\<close>

record DmabufHeapBuffer =
  buf_fd :: c_uint
  buf_size :: size_t
  heapFlags :: u64

datatype DmaHeapFlagOwnerId = DMA_OWNER_DEFAULT | DMA_OWNER_GPU | DMA_OWNER_MEDIA_CODEC | COUNT_DMA_OWNER

datatype dma_call =
    Call_open string c_uint
  | Call_close int
  | Call_ioctl_alloc int u64 c_uint u64
  | Call_ioctl_sync int u64

record memtrace_note =
  mt_addr :: ptr
  mt_size :: size_t
  mt_add :: bool

record dma_st =
  dm_calls :: "dma_call list"
  dm_trace :: "memtrace_note list"
  dm_bufs :: "ptr \<Rightarrow> DmabufHeapBuffer option"

text \<open>
  \<open>d_open\<close>, \<open>d_close\<close>, \<open>d_sync\<close>: return values of the calls, given the calls so far;
  \<open>d_alloc\<close>: return value and the descriptor the kernel stores in the argument struct;
  \<open>d_strcat_s\<close> gets destination, capacity and source, and returns code and new destination.
\<close>

record dma_os =
  d_open :: "dma_call list \<Rightarrow> string \<Rightarrow> c_uint \<Rightarrow> int"
  d_close :: "dma_call list \<Rightarrow> int \<Rightarrow> int"
  d_alloc :: "dma_call list \<Rightarrow> int \<Rightarrow> u64 \<Rightarrow> c_uint \<Rightarrow> u64 \<Rightarrow> int \<times> c_uint"
  d_sync :: "dma_call list \<Rightarrow> int \<Rightarrow> u64 \<Rightarrow> int"
  d_strcat_s :: "string \<Rightarrow> nat \<Rightarrow> string \<Rightarrow> int \<times> string"
  d_set_owner :: "u64 \<Rightarrow> DmaHeapFlagOwnerId \<Rightarrow> u64"

definition EINVAL :: int where "EINVAL = 22"
definition O_RDONLY :: c_uint where "O_RDONLY = 0"
definition O_RDWR :: c_uint where "O_RDWR = 2"
definition O_CLOEXEC :: c_uint where "O_CLOEXEC = 0x80000"

definition DMA_BUF_SYNC_START :: c_uint where "DMA_BUF_SYNC_START = 0"
definition DMA_BUF_SYNC_END :: c_uint where "DMA_BUF_SYNC_END = 4"
definition DMA_BUF_HEAP_BUF_SYNC_READ :: c_uint where "DMA_BUF_HEAP_BUF_SYNC_READ = 1"
definition DMA_BUF_HEAP_BUF_SYNC_WRITE :: c_uint where "DMA_BUF_HEAP_BUF_SYNC_WRITE = 2"
definition DMA_BUF_HEAP_BUF_SYNC_RW :: c_uint where "DMA_BUF_HEAP_BUF_SYNC_RW = 3"

definition DMA_BUF_HEAP_ROOT :: string where
  "DMA_BUF_HEAP_ROOT = ''/dev/dma_heap/''"

definition HEAP_NAME_MAX_LEN :: nat where "HEAP_NAME_MAX_LEN = 128"

definition HEAP_PATH_LEN :: nat where
  "HEAP_PATH_LEN = length DMA_BUF_HEAP_ROOT + HEAP_NAME_MAX_LEN + 1"

lemmas dma_consts = EINVAL_def O_RDONLY_def O_RDWR_def O_CLOEXEC_def DMA_BUF_SYNC_START_def
  DMA_BUF_SYNC_END_def DMA_BUF_HEAP_BUF_SYNC_READ_def DMA_BUF_HEAP_BUF_SYNC_WRITE_def
  DMA_BUF_HEAP_BUF_SYNC_RW_def DMA_BUF_HEAP_ROOT_def HEAP_NAME_MAX_LEN_def HEAP_PATH_LEN_def

text \<open>A system call is appended to the history, a note to the trace.\<close>

definition sys_call :: "dma_call \<Rightarrow> dma_st \<Rightarrow> dma_st" where
  "sys_call c s = s\<lparr>dm_calls := dm_calls s @ [c]\<rparr>"

definition memtrace :: "ptr \<Rightarrow> size_t \<Rightarrow> bool \<Rightarrow> dma_st \<Rightarrow> dma_st" where
  "memtrace addr sz add s = s\<lparr>dm_trace := dm_trace s @ [\<lparr>mt_addr = addr, mt_size = sz, mt_add = add\<rparr>]\<rparr>"

section \<open>Operations\<close>

text \<open>A name is \<open>None\<close> for NULL.\<close>

definition IsHeapNameValid :: "string option \<Rightarrow> bool" where
  "IsHeapNameValid heapName =
     (case heapName of
        None \<Rightarrow> False
      | Some nm \<Rightarrow> \<not> (length nm = 0 \<or> length nm > HEAP_NAME_MAX_LEN))"

definition IsSyncTypeValid :: "c_uint \<Rightarrow> bool" where
  "IsSyncTypeValid syncType =
     (syncType = DMA_BUF_HEAP_BUF_SYNC_RW \<or> syncType = DMA_BUF_HEAP_BUF_SYNC_READ \<or>
      syncType = DMA_BUF_HEAP_BUF_SYNC_WRITE)"

definition SetOwnerIdForHeapFlags :: "dma_os \<Rightarrow> ptr \<Rightarrow> DmaHeapFlagOwnerId \<Rightarrow> dma_st \<Rightarrow> dma_st option" where
  "SetOwnerIdForHeapFlags os buffer ownerId s =
     (if buffer = NULL then Some s
      else do {
        b \<leftarrow> dm_bufs s buffer;
        Some (s\<lparr>dm_bufs := (dm_bufs s)(buffer \<mapsto> b\<lparr>heapFlags := d_set_owner os (heapFlags b) ownerId\<rparr>)\<rparr>)
      })"

definition DmabufHeapOpen :: "dma_os \<Rightarrow> string option \<Rightarrow> dma_st \<Rightarrow> int \<times> dma_st" where
  "DmabufHeapOpen os heapName s =
     (if \<not> IsHeapNameValid heapName then (- EINVAL, s)
      else let (ret, heapPath) = d_strcat_s os DMA_BUF_HEAP_ROOT HEAP_PATH_LEN (the heapName) in
      if ret \<noteq> 0 then (- EINVAL, s)
      else let fd = d_open os (dm_calls s) heapPath (O_RDONLY OR O_CLOEXEC);
               s1 = sys_call (Call_open heapPath (O_RDONLY OR O_CLOEXEC)) s
           in if fd < 0 then (fd, s1)
              else (fd, memtrace (of_int fd) (of_nat HEAP_NAME_MAX_LEN) True s1))"

definition DmabufHeapClose :: "dma_os \<Rightarrow> c_uint \<Rightarrow> dma_st \<Rightarrow> int \<times> dma_st" where
  "DmabufHeapClose os fd s =
     (let s1 = memtrace (ucast fd) (of_nat HEAP_NAME_MAX_LEN) False s
      in (d_close os (dm_calls s1) (sint fd), sys_call (Call_close (sint fd)) s1))"

definition DmabufHeapBufferAlloc :: "dma_os \<Rightarrow> c_uint \<Rightarrow> ptr \<Rightarrow> dma_st \<Rightarrow> (int \<times> dma_st) option" where
  "DmabufHeapBufferAlloc os heapFd buffer s =
     (if buffer = NULL then Some (- EINVAL, s)
      else do {
        b \<leftarrow> dm_bufs s buffer;
        if buf_size b = 0 then Some (- EINVAL, s)
        else let (ret, fd) = d_alloc os (dm_calls s) (sint heapFd) (buf_size b) (O_RDWR OR O_CLOEXEC) (heapFlags b);
                 s1 = sys_call (Call_ioctl_alloc (sint heapFd) (buf_size b) (O_RDWR OR O_CLOEXEC) (heapFlags b)) s
             in if ret < 0 then Some (ret, s1)
                else let s2 = memtrace buffer (buf_size b) True s1
                     in Some (ret, s2\<lparr>dm_bufs := (dm_bufs s2)(buffer \<mapsto> b\<lparr>buf_fd := fd\<rparr>)\<rparr>)
      })"

definition DmabufHeapBufferFree :: "dma_os \<Rightarrow> ptr \<Rightarrow> dma_st \<Rightarrow> (int \<times> dma_st) option" where
  "DmabufHeapBufferFree os buffer s =
     (if buffer = NULL then Some (- EINVAL, s)
      else do {
        b \<leftarrow> dm_bufs s buffer;
        let s1 = memtrace buffer (buf_size b) False s
        in if buf_fd b < 0 then Some (- EINVAL, s1)
           else Some (d_close os (dm_calls s1) (sint (buf_fd b)), sys_call (Call_close (sint (buf_fd b))) s1)
      })"

definition DmabufHeapBufferSyncStart :: "dma_os \<Rightarrow> c_uint \<Rightarrow> c_uint \<Rightarrow> dma_st \<Rightarrow> int \<times> dma_st" where
  "DmabufHeapBufferSyncStart os fd syncType s =
     (if \<not> IsSyncTypeValid syncType then (- EINVAL, s)
      else let flags = ucast (DMA_BUF_SYNC_START OR syncType)
           in (d_sync os (dm_calls s) (sint fd) flags, sys_call (Call_ioctl_sync (sint fd) flags) s))"

definition DmabufHeapBufferSyncEnd :: "dma_os \<Rightarrow> c_uint \<Rightarrow> c_uint \<Rightarrow> dma_st \<Rightarrow> int \<times> dma_st" where
  "DmabufHeapBufferSyncEnd os fd syncType s =
     (if \<not> IsSyncTypeValid syncType then (- EINVAL, s)
      else let flags = ucast (DMA_BUF_SYNC_END OR syncType)
           in (d_sync os (dm_calls s) (sint fd) flags, sys_call (Call_ioctl_sync (sint fd) flags) s))"

section \<open>Properties\<close>

lemmas effect_defs = sys_call_def memtrace_def

text \<open>The documented behaviour of \<open>strcat_s\<close>: it concatenates when the result fits.\<close>

definition strcat_ok :: "dma_os \<Rightarrow> bool" where
  "strcat_ok os \<longleftrightarrow>
     (\<forall>dest n src. length dest + length src < n \<longrightarrow> d_strcat_s os dest n src = (0, dest @ src))"

lemma path_fits:
  "IsHeapNameValid (Some nm) \<Longrightarrow> length DMA_BUF_HEAP_ROOT + length nm < HEAP_PATH_LEN"
  by (simp add: IsHeapNameValid_def HEAP_PATH_LEN_def)

text \<open>
  C39. \<open>DmabufHeapOpen\<close> of a name of 1 to 128 characters opens exactly the file of that name in
  \<open>/dev/dma_heap/\<close>, for reading and close-on-exec: the path never overflows its buffer, and the
  kernel's answer is returned, traced if it is a descriptor. Any other name, and NULL, is answered
  with \<open>-EINVAL\<close> before any system call.
\<close>

theorem heap_open_spec:
  assumes "strcat_ok os"
  shows "DmabufHeapOpen os heapName s =
    (case heapName of
       None \<Rightarrow> (- 22, s)
     | Some nm \<Rightarrow>
         if nm = [] \<or> 128 < length nm then (- 22, s)
         else let path = ''/dev/dma_heap/'' @ nm; fd = d_open os (dm_calls s) path 0x80000;
                  s1 = s\<lparr>dm_calls := dm_calls s @ [Call_open path 0x80000]\<rparr>
              in (fd, if fd < 0 then s1
                      else s1\<lparr>dm_trace := dm_trace s @ [\<lparr>mt_addr = of_int fd, mt_size = 128, mt_add = True\<rparr>]\<rparr>))"
proof (cases "IsHeapNameValid heapName")
  case True
  then obtain nm where nm: "heapName = Some nm" "nm \<noteq> []" "\<not> 128 < length nm"
    by (auto simp: IsHeapNameValid_def HEAP_NAME_MAX_LEN_def split: option.splits)
  have "d_strcat_s os DMA_BUF_HEAP_ROOT HEAP_PATH_LEN nm = (0, DMA_BUF_HEAP_ROOT @ nm)"
    using assms path_fits True nm(1) unfolding strcat_ok_def by blast
  then show ?thesis
    using True nm by (simp add: DmabufHeapOpen_def effect_defs Let_def)
      (simp add: dma_consts)
next
  case False
  then show ?thesis
    by (auto simp: DmabufHeapOpen_def IsHeapNameValid_def EINVAL_def HEAP_NAME_MAX_LEN_def split: option.splits)
qed

definition ex_dma :: dma_os where
  "ex_dma = \<lparr>d_open = (\<lambda>_ _ _. 5), d_close = (\<lambda>_ _. 0), d_alloc = (\<lambda>_ _ _ _ _. (0, 7)),
     d_sync = (\<lambda>_ _ _. 0), d_strcat_s = (\<lambda>d n s. if length d + length s < n then (0, d @ s) else (34, [])),
     d_set_owner = (\<lambda>f _. f)\<rparr>"

definition ex_dma_st :: dma_st where
  "ex_dma_st = \<lparr>dm_calls = [], dm_trace = [],
     dm_bufs = [0x20 \<mapsto> \<lparr>buf_fd = 0xFFFFFFFF, buf_size = 4096, heapFlags = 0\<rparr>]\<rparr>"

theorem heap_open_spec_witness:
  "fst (DmabufHeapOpen ex_dma (Some ''system'') ex_dma_st) = 5 \<and>
   dm_calls (snd (DmabufHeapOpen ex_dma (Some ''system'') ex_dma_st)) = [Call_open ''/dev/dma_heap/system'' 0x80000]"
proof -
  have "strcat_ok ex_dma" by (simp add: strcat_ok_def ex_dma_def)
  note spec = heap_open_spec [OF this, of "Some ''system''" ex_dma_st]
  show ?thesis unfolding spec by (simp add: Let_def ex_dma_def ex_dma_st_def)
qed

text \<open>
  \<open>DmabufHeapBufferAlloc\<close>: a missing buffer or a zero size is rejected before the kernel is
  asked; otherwise the kernel is asked once, with the size and the heap flags of the buffer; if
  it refuses, its code is returned and the buffer stays as it is; if it grants, the buffer gets
  the kernel's descriptor (all other fields stay) and one allocation is traced.
\<close>

theorem buffer_alloc_spec:
  assumes "buffer \<noteq> NULL \<longrightarrow> dm_bufs s buffer = Some b"
    and "d_alloc os (dm_calls s) (sint heapFd) (buf_size b) 0x80002 (heapFlags b) = (ret, fd)"
  shows "DmabufHeapBufferAlloc os heapFd buffer s =
    (if buffer = NULL \<or> buf_size b = 0 then Some (- 22, s)
     else let s1 = s\<lparr>dm_calls := dm_calls s @ [Call_ioctl_alloc (sint heapFd) (buf_size b) 0x80002 (heapFlags b)]\<rparr>
          in if ret < 0 then Some (ret, s1)
             else Some (ret, s1\<lparr>dm_trace := dm_trace s @ [\<lparr>mt_addr = buffer, mt_size = buf_size b, mt_add = True\<rparr>],
                                dm_bufs := (dm_bufs s)(buffer \<mapsto> b\<lparr>buf_fd := fd\<rparr>)\<rparr>))"
proof -
  have flags: "O_RDWR OR O_CLOEXEC = 0x80002" by (simp add: dma_consts)
  show ?thesis
    using assms
    by (auto simp: DmabufHeapBufferAlloc_def effect_defs Let_def flags EINVAL_def)
qed

theorem buffer_alloc_spec_witness:
  "\<exists>s'. DmabufHeapBufferAlloc ex_dma 5 0x20 ex_dma_st = Some (0, s') \<and>
        dm_bufs s' 0x20 = Some \<lparr>buf_fd = 7, buf_size = 4096, heapFlags = 0\<rparr>"
proof -
  let ?b = "\<lparr>buf_fd = 0xFFFFFFFF, buf_size = 4096, heapFlags = 0\<rparr>"
  have "(0x20 :: ptr) \<noteq> NULL \<longrightarrow> dm_bufs ex_dma_st 0x20 = Some ?b" by (simp add: ex_dma_st_def)
  moreover have "d_alloc ex_dma (dm_calls ex_dma_st) (sint (5 :: c_uint)) (buf_size ?b) 0x80002 (heapFlags ?b) = (0, 7)"
    by (simp add: ex_dma_def)
  ultimately show ?thesis using buffer_alloc_spec [of "0x20" ex_dma_st ?b ex_dma 5 0 7] by simp
qed

text \<open>
  C40. Freeing a buffer that was just allocated closes the descriptor the kernel gave, once, and
  the trace is balanced: the same address and size are noted as added and as removed.
\<close>

theorem alloc_free_roundtrip:
  assumes b: "buffer \<noteq> NULL" "dm_bufs s buffer = Some b" "buf_size b \<noteq> 0"
    and k: "d_alloc os (dm_calls s) (sint heapFd) (buf_size b) 0x80002 (heapFlags b) = (ret, fd)" "0 \<le> ret"
  shows "\<exists>s1 s2. DmabufHeapBufferAlloc os heapFd buffer s = Some (ret, s1) \<and>
     DmabufHeapBufferFree os buffer s1 = Some (d_close os (dm_calls s1) (sint fd), s2) \<and>
     dm_calls s2 = dm_calls s @ [Call_ioctl_alloc (sint heapFd) (buf_size b) 0x80002 (heapFlags b), Call_close (sint fd)] \<and>
     dm_trace s2 = dm_trace s @ [\<lparr>mt_addr = buffer, mt_size = buf_size b, mt_add = True\<rparr>,
                                 \<lparr>mt_addr = buffer, mt_size = buf_size b, mt_add = False\<rparr>]"
proof -
  have flags: "O_RDWR OR O_CLOEXEC = 0x80002" by (simp add: dma_consts)
  show ?thesis
    using b k by (simp add: DmabufHeapBufferAlloc_def DmabufHeapBufferFree_def effect_defs Let_def flags)
qed

theorem alloc_free_roundtrip_witness:
  "\<exists>s1 s2. DmabufHeapBufferAlloc ex_dma 5 0x20 ex_dma_st = Some (0, s1) \<and>
           DmabufHeapBufferFree ex_dma 0x20 s1 = Some (0, s2) \<and>
           dm_calls s2 = [Call_ioctl_alloc 5 4096 0x80002 0, Call_close 7]"
proof -
  let ?b = "\<lparr>buf_fd = 0xFFFFFFFF, buf_size = 4096, heapFlags = 0\<rparr>"
  have b: "(0x20 :: ptr) \<noteq> NULL" "dm_bufs ex_dma_st 0x20 = Some ?b" "buf_size ?b \<noteq> 0"
    by (simp_all add: ex_dma_st_def)
  have k: "d_alloc ex_dma (dm_calls ex_dma_st) (sint (5 :: c_uint)) (buf_size ?b) 0x80002 (heapFlags ?b) = (0, 7)"
    "(0 :: int) \<le> 0" by (simp_all add: ex_dma_def)
  from alloc_free_roundtrip [OF b k] show ?thesis by (auto simp: ex_dma_def ex_dma_st_def)
qed

text \<open>
  The descriptor check of \<open>DmabufHeapBufferFree\<close> never fires: the field is unsigned, so for
  every buffer, one with descriptor -1 included, the removal is traced and \<open>close\<close> is called.
  Only a NULL buffer is answered without a system call.
\<close>

theorem buffer_free_always_closes:
  assumes "buffer \<noteq> NULL" "dm_bufs s buffer = Some b"
  shows "DmabufHeapBufferFree os buffer s =
    Some (d_close os (dm_calls s) (sint (buf_fd b)),
          s\<lparr>dm_calls := dm_calls s @ [Call_close (sint (buf_fd b))],
            dm_trace := dm_trace s @ [\<lparr>mt_addr = buffer, mt_size = buf_size b, mt_add = False\<rparr>]\<rparr>)"
  using assms by (simp add: DmabufHeapBufferFree_def effect_defs Let_def)

theorem buffer_free_always_closes_witness:
  "\<exists>s'. DmabufHeapBufferFree ex_dma 0x20 ex_dma_st = Some (0, s') \<and> dm_calls s' = [Call_close (- 1)]"
proof -
  have "(0x20 :: ptr) \<noteq> NULL" "dm_bufs ex_dma_st 0x20 = Some \<lparr>buf_fd = 0xFFFFFFFF, buf_size = 4096, heapFlags = 0\<rparr>"
    by (simp_all add: ex_dma_st_def)
  from buffer_free_always_closes [OF this, of ex_dma] show ?thesis
    by (simp add: ex_dma_def ex_dma_st_def)
qed

text \<open>
  Cache synchronisation: for the three access types the start and the end of an access are
  one ioctl each on the given descriptor, whose flags hold the access type in the low two bits
  and the phase in the third; every other type is rejected without a system call.
\<close>

theorem sync_flags:
  "DmabufHeapBufferSyncStart os fd ty s =
     (if ty = 1 \<or> ty = 2 \<or> ty = 3
      then (d_sync os (dm_calls s) (sint fd) (ucast ty), s\<lparr>dm_calls := dm_calls s @ [Call_ioctl_sync (sint fd) (ucast ty)]\<rparr>)
      else (- 22, s)) \<and>
   DmabufHeapBufferSyncEnd os fd ty s =
     (if ty = 1 \<or> ty = 2 \<or> ty = 3
      then (d_sync os (dm_calls s) (sint fd) (ucast ty + 4), s\<lparr>dm_calls := dm_calls s @ [Call_ioctl_sync (sint fd) (ucast ty + 4)]\<rparr>)
      else (- 22, s))"
  by (auto simp: DmabufHeapBufferSyncStart_def DmabufHeapBufferSyncEnd_def IsSyncTypeValid_def
      effect_defs Let_def dma_consts)

end
