(* ===== verification/Buffer_Spec.thy ===== *)
theory Buffer_Spec
  imports PM_Prelude
begin

text \<open>
  What a purgeable object promises its user: it is a buffer. The abstract state is the content;
  nothing is ever purged. An implementation whose steps are those of a buffer, up to steps the
  user does not see, gives its user exactly the observations of a buffer. The events also name the
  incidents in which the implementations of this library break the promise; what is proved of a run
  without incidents and what happens in one are separate theorems.
\<close>

section \<open>The abstract buffer\<close>

text \<open>
  \<open>Failed before after\<close>: a modification that was reported as failed or could not be logged, with the
  content it found and the one it left. \<open>Torn\<close>: a look at the content while another thread modifies it.
  \<open>Lost_Pin\<close>: a pin that the page table did not count.
\<close>

datatype buf_event =
    Observe "byte list"
  | Modify "byte list \<Rightarrow> bool \<times> byte list"
  | Failed "byte list" "byte list"
  | Torn "byte list"
  | Lost_Pin

text \<open>
  A run is possible if every look shows the content of that moment, every modification that counts as
  done succeeds, and every one that counts as failed leaves the content alone.
\<close>

fun buffer_run :: "byte list \<Rightarrow> buf_event list \<Rightarrow> byte list option" where
  "buffer_run c [] = Some c"
| "buffer_run c (Observe seen # es) = (if seen = c then buffer_run c es else None)"
| "buffer_run c (Torn seen # es) = (if seen = c then buffer_run c es else None)"
| "buffer_run c (Modify f # es) = (let (ok, c') = f c in if ok then buffer_run c' es else None)"
| "buffer_run c (Failed before after # es) = (if after = c then buffer_run c es else None)"
| "buffer_run c (Lost_Pin # es) = buffer_run c es"

lemma buffer_run_append:
  "buffer_run c (es @ es') = Option.bind (buffer_run c es) (\<lambda>c'. buffer_run c' es')"
  by (induction c es rule: buffer_run.induct) (auto simp: Let_def split: prod.split)

text \<open>Runs without incidents: failed modifications changed nothing, nobody looked during one, no pin was lost.\<close>

fun harmless :: "buf_event \<Rightarrow> bool" where
  "harmless (Failed before after) = (after = before)"
| "harmless (Torn seen) = False"
| "harmless Lost_Pin = False"
| "harmless _ = True"

definition clean :: "buf_event list \<Rightarrow> bool" where
  "clean es \<longleftrightarrow> list_all harmless es"

lemma clean_simps [simp]:
  "clean []" "clean (e # es) \<longleftrightarrow> harmless e \<and> clean es" "clean (es @ es') \<longleftrightarrow> clean es \<and> clean es'"
  by (simp_all add: clean_def)

section \<open>Implementations\<close>

text \<open>A step shows its user a list of events: none, or what the user saw or did.\<close>

inductive runs :: "('s \<Rightarrow> buf_event list \<Rightarrow> 's \<Rightarrow> bool) \<Rightarrow> 's \<Rightarrow> buf_event list \<Rightarrow> 's \<Rightarrow> bool"
  for step where
  runs_refl: "runs step s [] s"
| runs_step: "runs step s es s' \<Longrightarrow> step s' es' s'' \<Longrightarrow> runs step s (es @ es') s''"

lemma runs_one: "step s es s' \<Longrightarrow> runs step s es s'"
  using runs_step [of step s "[]" s es s'] runs_refl [of step s] by simp

lemma runs_trans: "runs step s' es' s'' \<Longrightarrow> runs step s es s' \<Longrightarrow> runs step s (es @ es') s''"
  by (induction rule: runs.induct) (auto dest: runs_step simp flip: append_assoc)

locale buffer_refinement =
  fixes step :: "'s \<Rightarrow> buf_event list \<Rightarrow> 's \<Rightarrow> bool"
    and valid :: "'s \<Rightarrow> bool"
    and val :: "'s \<Rightarrow> byte list"
  assumes simulates: "valid s \<Longrightarrow> step s es s' \<Longrightarrow> clean es \<Longrightarrow> valid s' \<and> buffer_run (val s) es = Some (val s')"
begin

lemma refines:
  assumes "runs step s es s'" "valid s" "clean es"
  shows "valid s' \<and> buffer_run (val s) es = Some (val s')"
  using assms
proof (induction rule: runs.induct)
  case runs_refl
  then show ?case by simp
next
  case (runs_step s es s' es' s'')
  then show ?case using simulates [of s' es' s''] by (simp add: buffer_run_append)
qed

end

end
