(* ===== verification/Acc_Threads.thy ===== *)
theory Acc_Threads
  imports Purg_Recovery Buffer_Spec Thread_Count
begin

text \<open>
  Any number of threads that read, write and modify the same C object while the kernel purges it. A
  thread is at one of the control points of \<open>PurgMemBeginRead\<close> (with \<open>TryBeginRead\<close> and
  \<open>BeginReadBuildData\<close>), \<open>PurgMemBeginWrite\<close> and \<open>EndAccessPurgMem\<close>; one step is one call of the
  lock, of the page table, one check, or one function of the builder chain. A pin of all pages counts
  from its last entry on and an unpin from its first, so both are single steps, and the pins are a
  number; \<open>Acc_Pages\<close> has the entries themselves and shows that nothing is lost by this. That the
  kernel leaves pinned pages alone is what it promises. What the race found in \<open>Ux_Threads\<close> does to a
  pin (the entry is under reclaim, and \<open>UxpteAdd\<close> returns without counting) is a step of its own, with
  the event \<open>Lost_Pin\<close>.
\<close>

section \<open>Control points\<close>

text \<open>
  The exclusive lock is taken for two purposes; the flag of the control points between \<open>W_Lock\<close> and
  \<open>Replay\<close> says which: a write (\<open>True\<close>) or a rebuild on behalf of a read (\<open>False\<close>). \<open>W_Unlock\<close>
  carries the answer of the rebuild.
\<close>

datatype acc_pc =
    Out
  | R_Get | R_Lock | R_Check | R_Unlock | Reading | R_End
  | W_Get | W_Lock bool | W_Check bool | Clear bool | Replay bool "mod_step list"
  | W_Unlock bool | Writing | W_End
  | Put

text \<open>What the threads share: the lock, the pins, whether all pages are present, count, content, log.\<close>

record acc_st =
  a_readers :: nat
  a_writer :: bool
  a_pins :: nat
  a_present :: bool
  a_count :: "c_uint"
  a_bytes :: "byte list"
  a_log :: "mod_step list"

definition acc_purged :: "acc_st \<Rightarrow> bool" where
  "acc_purged s \<longleftrightarrow> a_count s = 0 \<or> \<not> a_present s"

text \<open>The next step of a thread inside an operation; \<open>None\<close>: it waits for a lock, or for its user.\<close>

fun acc_next :: "acc_pc \<Rightarrow> acc_st \<Rightarrow> (acc_pc \<times> acc_st) option" where
  "acc_next R_Get s = Some (R_Lock, s\<lparr>a_pins := Suc (a_pins s)\<rparr>)"
| "acc_next R_Lock s = (if a_writer s then None else Some (R_Check, s\<lparr>a_readers := Suc (a_readers s)\<rparr>))"
| "acc_next R_Check s = Some (if acc_purged s then R_Unlock else Reading, s)"
| "acc_next R_Unlock s = Some (W_Lock False, s\<lparr>a_readers := a_readers s - 1\<rparr>)"
| "acc_next W_Get s = Some (W_Lock True, s\<lparr>a_pins := Suc (a_pins s)\<rparr>)"
| "acc_next (W_Lock wr) s =
     (if a_writer s \<or> a_readers s \<noteq> 0 then None else Some (W_Check wr, s\<lparr>a_writer := True\<rparr>))"
| "acc_next (W_Check wr) s =
     Some (if acc_purged s then Clear wr else if wr then Writing else W_Unlock False, s)"
| "acc_next (Clear wr) s =
     Some (Replay wr (a_log s), s\<lparr>a_present := True, a_bytes := replicate (length (a_bytes s)) 0\<rparr>)"
| "acc_next (Replay wr []) s =
     Some (if wr then Writing else W_Unlock True, s\<lparr>a_count := a_count s + 1\<rparr>)"
| "acc_next (Replay wr ((func, q) # ms)) s =
     (let (succ, d) = func (a_bytes s) q
      in Some (if succ then Replay wr ms else W_Unlock False, s\<lparr>a_bytes := d\<rparr>))"
| "acc_next (W_Unlock ok) s = Some (if ok then R_Lock else Put, s\<lparr>a_writer := False\<rparr>)"
| "acc_next R_End s = Some (Put, s\<lparr>a_readers := a_readers s - 1\<rparr>)"
| "acc_next W_End s = Some (Put, s\<lparr>a_writer := False\<rparr>)"
| "acc_next Put s = Some (Out, s\<lparr>a_pins := a_pins s - 1\<rparr>)"
| "acc_next Out s = None"
| "acc_next Reading s = None"
| "acc_next Writing s = None"

section \<open>The system\<close>

record acc_sys =
  a_st :: acc_st
  a_pcs :: "nat \<Rightarrow> acc_pc"

definition move :: "nat \<Rightarrow> acc_pc \<Rightarrow> acc_st \<Rightarrow> acc_sys \<Rightarrow> acc_sys" where
  "move i pc st s = s\<lparr>a_st := st, a_pcs := (a_pcs s)(i := pc)\<rparr>"

text \<open>
  Steps with their events. \<open>lf\<close>: lock calls may return an error instead of waiting, and \<open>memset_s\<close> may
  refuse to clear the content. A user looks at the content, or modifies it with \<open>PurgMemAppendModify\<close>,
  inside an access; a modification whose function fails, or whose builder node cannot be allocated, has
  changed the content but not the log. The kernel purges only what nobody pins; a pin taken while an
  entry is under reclaim is not counted, but it is given back all the same.
\<close>

inductive acc_step :: "bool \<Rightarrow> nat \<Rightarrow> acc_sys \<Rightarrow> buf_event list \<Rightarrow> acc_sys \<Rightarrow> bool" for lf n where
  acc_run: "i < n \<Longrightarrow> acc_next (a_pcs s i) (a_st s) = Some (pc', st') \<Longrightarrow> acc_step lf n s [] (move i pc' st' s)"
| acc_lock_error: "lf \<Longrightarrow> i < n \<Longrightarrow> a_pcs s i \<in> {R_Lock, W_Lock True, W_Lock False} \<Longrightarrow>
    acc_step lf n s [] (move i Put (a_st s) s)"
| acc_memset_error: "lf \<Longrightarrow> i < n \<Longrightarrow> a_pcs s i = Clear wr \<Longrightarrow>
    acc_step lf n s [] (move i (W_Unlock False) (a_st s) s)"
| acc_begin: "i < n \<Longrightarrow> a_pcs s i = Out \<Longrightarrow> pc' \<in> {R_Get, W_Get} \<Longrightarrow> acc_step lf n s [] (move i pc' (a_st s) s)"
| acc_end_read: "i < n \<Longrightarrow> a_pcs s i = Reading \<Longrightarrow> acc_step lf n s [] (move i R_End (a_st s) s)"
| acc_end_write: "i < n \<Longrightarrow> a_pcs s i = Writing \<Longrightarrow> acc_step lf n s [] (move i W_End (a_st s) s)"
| acc_look: "i < n \<Longrightarrow> a_pcs s i \<in> {Reading, Writing} \<Longrightarrow> acc_step lf n s [Observe (a_bytes (a_st s))] s"
| acc_modify: "i < n \<Longrightarrow> a_pcs s i = Writing \<Longrightarrow> in_buffer func \<Longrightarrow> func (a_bytes (a_st s)) q = (True, d) \<Longrightarrow>
    acc_step lf n s [Modify (\<lambda>c. func c q)]
      (s\<lparr>a_st := (a_st s)\<lparr>a_bytes := d, a_log := a_log (a_st s) @ [(func, q)]\<rparr>\<rparr>)"
| acc_unlogged: "i < n \<Longrightarrow> a_pcs s i = Writing \<Longrightarrow> in_buffer func \<Longrightarrow> func (a_bytes (a_st s)) q = (succ, d) \<Longrightarrow>
    acc_step lf n s [Failed (a_bytes (a_st s)) d] (s\<lparr>a_st := (a_st s)\<lparr>a_bytes := d\<rparr>\<rparr>)"
| acc_lost_pin: "i < n \<Longrightarrow> a_pcs s i = R_Get \<and> pc' = R_Lock \<or> a_pcs s i = W_Get \<and> pc' = W_Lock True \<Longrightarrow>
    acc_step lf n s [Lost_Pin] (move i pc' (a_st s) s)"
| acc_purge: "a_pins (a_st s) = 0 \<Longrightarrow> length bs = length (a_bytes (a_st s)) \<Longrightarrow>
    acc_step lf n s [] (s\<lparr>a_st := (a_st s)\<lparr>a_present := False, a_bytes := bs\<rparr>\<rparr>)"

inductive_cases acc_stepE: "acc_step lf n s es s'"

text \<open>The content the log stands for.\<close>

definition acc_value :: "acc_st \<Rightarrow> byte list" where
  "acc_value s = snd (run_steps (a_log s) (replicate (length (a_bytes s)) 0))"

definition acc_log_ok :: "acc_st \<Rightarrow> bool" where
  "acc_log_ok s \<longleftrightarrow> fst (run_steps (a_log s) (replicate (length (a_bytes s)) 0)) \<and> (\<forall>(f, q) \<in> set (a_log s). in_buffer f)"

text \<open>An object at rest: nobody uses it, its log succeeds, and content that counts as present is the logged one.\<close>

definition acc_rest :: "nat \<Rightarrow> acc_sys \<Rightarrow> bool" where
  "acc_rest n s \<longleftrightarrow>
     (\<forall>i < n. a_pcs s i = Out) \<and> a_readers (a_st s) = 0 \<and> \<not> a_writer (a_st s) \<and> a_pins (a_st s) = 0 \<and>
     acc_log_ok (a_st s) \<and> (\<not> acc_purged (a_st s) \<longrightarrow> a_bytes (a_st s) = acc_value (a_st s))"

end
