(* ===== verification/Acc_Inv.thy ===== *)
theory Acc_Inv
  imports Acc_Threads
begin

text \<open>
  The invariant of the threads: the lock counts its holders, the pins count the accesses, and the
  content is the one of the log wherever somebody relies on it. The proof is by what one thread
  guarantees and the others rely on: a thread without the exclusive lock leaves the content alone.
\<close>

section \<open>What a thread holds\<close>

fun has_read :: "acc_pc \<Rightarrow> bool" where
  "has_read R_Check = True" | "has_read R_Unlock = True" | "has_read Reading = True" | "has_read R_End = True"
| "has_read _ = False"

fun has_write :: "acc_pc \<Rightarrow> bool" where
  "has_write (W_Check _) = True" | "has_write (Clear _) = True" | "has_write (Replay _ _) = True"
| "has_write (W_Unlock _) = True" | "has_write Writing = True" | "has_write W_End = True"
| "has_write _ = False"

fun has_pin :: "acc_pc \<Rightarrow> bool" where
  "has_pin Out = False" | "has_pin R_Get = False" | "has_pin W_Get = False"
| "has_pin _ = True"

fun rebuilding :: "acc_pc \<Rightarrow> bool" where
  "rebuilding (Replay _ _) = True"
| "rebuilding _ = False"

text \<open>What a thread knows about the content.\<close>

fun knows :: "acc_st \<Rightarrow> acc_pc \<Rightarrow> bool" where
  "knows s Reading = (a_present s \<and> a_bytes s = acc_value s)"
| "knows s Writing = (a_present s \<and> a_bytes s = acc_value s)"
| "knows s (Replay _ ms) =
     (a_present s \<and> (\<exists>built. a_log s = built @ ms \<and>
        run_steps built (replicate (length (a_bytes s)) 0) = (True, a_bytes s)))"
| "knows s (Clear _) = acc_purged s"
| "knows s _ = True"

definition settled :: "acc_st \<Rightarrow> bool" where
  "settled s \<longleftrightarrow> (\<not> acc_purged s \<longrightarrow> a_bytes s = acc_value s)"

definition acc_inv :: "nat \<Rightarrow> acc_sys \<Rightarrow> bool" where
  "acc_inv n s \<longleftrightarrow>
     a_readers (a_st s) = tally has_read n (a_pcs s) \<and>
     of_bool (a_writer (a_st s)) = tally has_write n (a_pcs s) \<and>
     (a_writer (a_st s) \<longrightarrow> tally has_read n (a_pcs s) = 0) \<and>
     a_pins (a_st s) = tally has_pin n (a_pcs s) \<and>
     acc_log_ok (a_st s) \<and> (\<forall>i < n. knows (a_st s) (a_pcs s i)) \<and>
     ((\<forall>i < n. \<not> rebuilding (a_pcs s i)) \<longrightarrow> settled (a_st s))"

lemma rest_inv: "acc_rest n s \<Longrightarrow> acc_inv n s"
  by (auto simp: acc_rest_def acc_inv_def settled_def tally_def)

lemma knows_pc: "knows s pc \<or> has_read pc \<or> has_write pc"
  by (cases pc) auto

text \<open>Changes of the lock and of the pins are not changes of the content.\<close>

lemma content_fields [simp]:
  "acc_value (s\<lparr>a_readers := r\<rparr>) = acc_value s" "acc_value (s\<lparr>a_writer := b\<rparr>) = acc_value s"
  "acc_value (s\<lparr>a_pins := k\<rparr>) = acc_value s" "acc_value (s\<lparr>a_count := c\<rparr>) = acc_value s"
  "acc_value (s\<lparr>a_present := b\<rparr>) = acc_value s"
  "acc_log_ok (s\<lparr>a_readers := r\<rparr>) = acc_log_ok s" "acc_log_ok (s\<lparr>a_writer := b\<rparr>) = acc_log_ok s"
  "acc_log_ok (s\<lparr>a_pins := k\<rparr>) = acc_log_ok s" "acc_log_ok (s\<lparr>a_count := c\<rparr>) = acc_log_ok s"
  "acc_log_ok (s\<lparr>a_present := b\<rparr>) = acc_log_ok s"
  "acc_purged (s\<lparr>a_readers := r\<rparr>) = acc_purged s" "acc_purged (s\<lparr>a_writer := b\<rparr>) = acc_purged s"
  "acc_purged (s\<lparr>a_pins := k\<rparr>) = acc_purged s" "acc_purged (s\<lparr>a_bytes := bs\<rparr>) = acc_purged s"
  by (simp_all add: acc_value_def acc_log_ok_def acc_purged_def)

lemma content_bytes:
  "length bs = length (a_bytes s) \<Longrightarrow> acc_value (s\<lparr>a_bytes := bs\<rparr>) = acc_value s"
  "length bs = length (a_bytes s) \<Longrightarrow> acc_log_ok (s\<lparr>a_bytes := bs\<rparr>) = acc_log_ok s"
  by (simp_all add: acc_value_def acc_log_ok_def)

lemma knows_fields [simp]:
  "knows (s\<lparr>a_readers := r\<rparr>) pc = knows s pc" "knows (s\<lparr>a_writer := b\<rparr>) pc = knows s pc"
  "knows (s\<lparr>a_pins := k\<rparr>) pc = knows s pc"
  by (cases pc; simp)+

lemma settled_fields [simp]:
  "settled (s\<lparr>a_readers := r\<rparr>) = settled s" "settled (s\<lparr>a_writer := b\<rparr>) = settled s"
  "settled (s\<lparr>a_pins := k\<rparr>) = settled s"
  by (simp_all add: settled_def)

section \<open>What one step guarantees\<close>

text \<open>The books of the lock and of the pins.\<close>

lemma next_books:
  assumes "acc_next pc s = Some (pc', s')" "has_read pc \<Longrightarrow> 0 < a_readers s" "has_pin pc \<Longrightarrow> 0 < a_pins s"
    "has_write pc \<Longrightarrow> a_writer s"
  shows "a_readers s' + of_bool (has_read pc) = a_readers s + of_bool (has_read pc')"
    "of_bool (a_writer s') + of_bool (has_write pc) = of_bool (a_writer s) + (of_bool (has_write pc') :: nat)"
    "a_pins s' + of_bool (has_pin pc) = a_pins s + of_bool (has_pin pc')"
    "(a_writer s \<longrightarrow> a_readers s = 0) \<longrightarrow> (a_writer s' \<longrightarrow> a_readers s' = 0)"
  using assms by (induction pc s rule: acc_next.induct) (auto split: if_splits prod.splits simp: Let_def)

text \<open>The steps of a replay.\<close>

lemma replay_step:
  assumes ok: "acc_log_ok s" and kn: "knows s (Replay wr ((f, q) # ms))" and run: "f (a_bytes s) q = (succ, d)"
  shows "succ" "length d = length (a_bytes s)" "knows (s\<lparr>a_bytes := d\<rparr>) (Replay wr ms)"
proof -
  let ?z = "replicate (length (a_bytes s)) 0"
  obtain built where b: "a_log s = built @ (f, q) # ms" "run_steps built ?z = (True, a_bytes s)"
    using kn by auto
  have "in_buffer f" using ok b(1) by (auto simp: acc_log_ok_def)
  then have "length (snd (f (a_bytes s) q)) = length (a_bytes s)" unfolding in_buffer_def by blast
  then show len: "length d = length (a_bytes s)" using run by simp
  have "fst (run_steps (built @ (f, q) # ms) ?z)" using ok b(1) by (simp add: acc_log_ok_def)
  then show s: "succ" using b(2) run by (simp add: run_steps_append Let_def split: if_splits)
  have "run_steps (built @ [(f, q)]) ?z = (True, d)" using b(2) run s by (simp add: run_steps_append)
  then show "knows (s\<lparr>a_bytes := d\<rparr>) (Replay wr ms)"
    using kn b(1) len by (auto intro!: exI [of _ "built @ [(f, q)]"])
qed

lemma replay_done:
  assumes "acc_log_ok s" "knows s (Replay wr [])"
  shows "a_present s" "a_bytes s = acc_value s"
  using assms by (auto simp: acc_value_def)

lemma clear_knows:
  "knows (s\<lparr>a_present := True, a_bytes := replicate (length (a_bytes s)) 0\<rparr>) (Replay wr (a_log s))"
  by simp

text \<open>A thread keeps the log, makes its own knowledge true, and settles the content before it stops rebuilding.\<close>

lemma next_content:
  assumes st: "acc_next pc s = Some (pc', s')" and ok: "acc_log_ok s" and kn: "knows s pc"
    and se: "has_read pc \<or> has_write pc \<Longrightarrow> \<not> rebuilding pc \<Longrightarrow> settled s"
  shows "acc_log_ok s' \<and> acc_value s' = acc_value s \<and> knows s' pc' \<and>
    ((rebuilding pc \<or> settled s) \<longrightarrow> \<not> rebuilding pc' \<longrightarrow> settled s')"
proof (cases pc)
  case (Replay wr ms)
  show ?thesis
  proof (cases ms)
    case Nil
    have "a_present s" "a_bytes s = acc_value s" using replay_done [of s wr] ok kn by (simp_all only: Replay Nil)
    moreover have "s' = s\<lparr>a_count := a_count s + 1\<rparr>" "pc' = (if wr then Writing else W_Unlock True)"
      using st by (simp_all add: Replay Nil)
    ultimately show ?thesis using ok by (simp add: settled_def)
  next
    case (Cons m ms')
    obtain f q where m: "m = (f, q)" by fastforce
    obtain succ d where d: "f (a_bytes s) q = (succ, d)" by fastforce
    note r = replay_step [OF ok kn [unfolded Replay Cons m] d]
    have "s' = s\<lparr>a_bytes := d\<rparr>" "pc' = Replay wr ms'" using st r(1) d by (simp_all add: Replay Cons m)
    then show ?thesis using r ok by (simp add: content_bytes)
  qed
next
  case (Clear wr)
  then have "s' = s\<lparr>a_present := True, a_bytes := replicate (length (a_bytes s)) 0\<rparr>" "pc' = Replay wr (a_log s)"
    using st by simp_all
  then show ?thesis using ok clear_knows by (simp add: content_bytes)
qed (use assms in \<open>auto split: if_splits simp: settled_def acc_purged_def\<close>)

text \<open>What the others know stays true: only the holder of the exclusive lock changes the content.\<close>

lemma next_interferes:
  assumes "acc_next pc s = Some (pc', s')" "knows s other" "\<not> (has_write pc \<and> (has_read other \<or> has_write other))"
  shows "knows s' other"
proof (cases "has_write pc")
  case True
  then show ?thesis using knows_pc [of s' other] assms(3) by blast
next
  case False
  then show ?thesis using assms(1,2) by (cases pc) (auto split: if_splits)
qed

section \<open>The invariant is kept\<close>

text \<open>Holders of the exclusive lock are alone.\<close>

lemma write_alone:
  assumes "acc_inv n s" "i < n" "j < n" "has_write (a_pcs s i)" "has_read (a_pcs s j) \<or> has_write (a_pcs s j)"
  shows "i = j"
proof (rule ccontr)
  assume ne: "i \<noteq> j"
  have "0 < tally has_write n (a_pcs s)" using assms(2,4) by (auto simp: tally_pos)
  then have w: "a_writer (a_st s)" "tally has_write n (a_pcs s) = 1" "tally has_read n (a_pcs s) = 0"
    using assms(1) by (cases "a_writer (a_st s)", simp_all add: acc_inv_def)+
  then have "has_write (a_pcs s j)" using assms(3,5) by (auto simp: tally_zero)
  then show False using tally_two [of i n j has_write "a_pcs s"] assms(2-4) ne w(2) by simp
qed

lemma inv_settled:
  assumes inv: "acc_inv n s" and i: "i < n" "has_read (a_pcs s i) \<or> has_write (a_pcs s i)" "\<not> rebuilding (a_pcs s i)"
  shows "settled (a_st s)"
proof -
  have "\<not> rebuilding (a_pcs s j)" if "j < n" for j
  proof
    assume r: "rebuilding (a_pcs s j)"
    then have "has_write (a_pcs s j)" by (cases "a_pcs s j") auto
    then have "j = i" using write_alone [OF inv that i(1)] i(2) by blast
    then show False using r i(3) by simp
  qed
  then show ?thesis using inv by (simp add: acc_inv_def)
qed

lemma move_simps [simp]: "a_st (move i pc st s) = st" "a_pcs (move i pc st s) = (a_pcs s)(i := pc)"
  by (simp_all add: move_def)

lemma run_keeps_inv:
  assumes inv: "acc_inv n s" and i: "i < n" and st: "acc_next (a_pcs s i) (a_st s) = Some (pc', st')"
  shows "acc_inv n (move i pc' st' s)" "acc_value st' = acc_value (a_st s)"
proof -
  let ?pc = "a_pcs s i" and ?st = "a_st s"
  have books: "has_read ?pc \<Longrightarrow> 0 < a_readers ?st" "has_pin ?pc \<Longrightarrow> 0 < a_pins ?st" "has_write ?pc \<Longrightarrow> a_writer ?st"
    using inv i tally_pos [of has_read n "a_pcs s"] tally_pos [of has_pin n "a_pcs s"] tally_pos [of has_write n "a_pcs s"]
    by (auto simp: acc_inv_def split: if_splits)
  note b = next_books [OF st books]
  have c: "acc_log_ok st' \<and> acc_value st' = acc_value ?st \<and> knows st' pc' \<and>
      ((rebuilding ?pc \<or> settled ?st) \<longrightarrow> \<not> rebuilding pc' \<longrightarrow> settled st')"
    using next_content [OF st] inv i inv_settled [OF inv i] by (simp add: acc_inv_def)
  then show "acc_value st' = acc_value ?st" by simp
  have "knows st' (((a_pcs s)(i := pc')) j)" if "j < n" for j
    using next_interferes [OF st, of "a_pcs s j"] write_alone [OF inv i that] inv that c by (auto simp: acc_inv_def)
  moreover have "settled st'" if "\<forall>j < n. \<not> rebuilding (((a_pcs s)(i := pc')) j)"
  proof -
    have "\<not> rebuilding pc'" "\<And>j. j < n \<Longrightarrow> j \<noteq> i \<Longrightarrow> \<not> rebuilding (a_pcs s j)"
      using that i by (metis fun_upd_same, metis fun_upd_other)
    then show ?thesis using c inv by (auto simp: acc_inv_def)
  qed
  moreover have r: "a_readers st' = tally has_read n ((a_pcs s)(i := pc'))"
    using b(1) inv tally_upd [OF i, of has_read "a_pcs s" pc'] by (simp add: acc_inv_def)
  moreover have "of_bool (a_writer st') = tally has_write n ((a_pcs s)(i := pc'))"
    using b(2) inv tally_upd [OF i, of has_write "a_pcs s" pc'] by (simp add: acc_inv_def)
  moreover have "a_pins st' = tally has_pin n ((a_pcs s)(i := pc'))"
    using b(3) inv tally_upd [OF i, of has_pin "a_pcs s" pc'] by (simp add: acc_inv_def)
  moreover have "a_writer st' \<longrightarrow> a_readers st' = 0" using b(4) inv by (simp add: acc_inv_def)
  ultimately show "acc_inv n (move i pc' st' s)" using c by (simp add: acc_inv_def)
qed

text \<open>Steps of a thread that change nothing shared.\<close>

lemma local_move_inv:
  assumes inv: "acc_inv n s" and i: "i < n"
    and same: "has_read pc' = has_read (a_pcs s i)" "has_write pc' = has_write (a_pcs s i)"
      "has_pin pc' = has_pin (a_pcs s i)" "rebuilding pc' = rebuilding (a_pcs s i)" "knows (a_st s) pc'"
  shows "acc_inv n (move i pc' (a_st s) s)"
proof -
  have "rebuilding (((a_pcs s)(i := pc')) j) = rebuilding (a_pcs s j)" for j using same(4) by simp
  then show ?thesis
    using inv same tally_upd [OF i, of has_read "a_pcs s" pc'] tally_upd [OF i, of has_write "a_pcs s" pc']
      tally_upd [OF i, of has_pin "a_pcs s" pc'] by (simp add: acc_inv_def)
qed

text \<open>A modification in a write access is logged.\<close>

lemma modify_keeps_inv:
  assumes inv: "acc_inv n s" and i: "i < n" "a_pcs s i = Writing"
    and f: "in_buffer f" "f (a_bytes (a_st s)) q = (True, d)"
  defines "st' \<equiv> (a_st s)\<lparr>a_bytes := d, a_log := a_log (a_st s) @ [(f, q)]\<rparr>"
  shows "acc_inv n (s\<lparr>a_st := st'\<rparr>)" "f (acc_value (a_st s)) q = (True, acc_value st')"
proof -
  let ?st = "a_st s"
  let ?z = "replicate (length (a_bytes ?st)) 0"
  have kn: "a_present ?st" "a_bytes ?st = acc_value ?st" using inv i by (auto simp: acc_inv_def)
  have "length (snd (f (a_bytes ?st) q)) = length (a_bytes ?st)" using f(1) unfolding in_buffer_def by blast
  then have len: "length d = length (a_bytes ?st)" using f(2) by simp
  have "fst (run_steps (a_log ?st) ?z)" using inv by (simp add: acc_inv_def acc_log_ok_def)
  then have "run_steps (a_log ?st) ?z = (True, a_bytes ?st)" using kn(2) by (metis acc_value_def prod.collapse)
  then have run: "run_steps (a_log ?st @ [(f, q)]) ?z = (True, d)" using f(2) by (simp add: run_steps_append)
  then have v: "acc_value st' = d" "acc_log_ok st'"
    using len inv f(1) by (auto simp: st'_def acc_value_def acc_log_ok_def acc_inv_def)
  then show "f (acc_value ?st) q = (True, acc_value st')" using f(2) kn(2) by simp
  have "knows st' (a_pcs s j)" if "j < n" for j
  proof (cases "j = i")
    case True
    then show ?thesis using i(2) v(1) kn(1) by (simp add: st'_def)
  next
    case False
    then have "\<not> has_read (a_pcs s j)" "\<not> has_write (a_pcs s j)" using write_alone [OF inv i(1) that] i(2) by auto
    then show ?thesis using knows_pc by blast
  qed
  moreover have "settled st'" using v(1) by (simp add: settled_def st'_def)
  ultimately show "acc_inv n (s\<lparr>a_st := st'\<rparr>)" using inv v(2) by (simp add: acc_inv_def st'_def)
qed

text \<open>A purge finds nobody who knows anything about the content.\<close>

lemma purge_keeps_inv:
  assumes inv: "acc_inv n s" and p: "a_pins (a_st s) = 0" "length bs = length (a_bytes (a_st s))"
  shows "acc_inv n (s\<lparr>a_st := (a_st s)\<lparr>a_present := False, a_bytes := bs\<rparr>\<rparr>)"
proof -
  have "\<not> has_pin (a_pcs s j)" if "j < n" for j using inv p(1) that by (simp add: acc_inv_def tally_zero)
  moreover have "knows st pc" if "\<not> has_pin pc" for st pc using that by (cases pc) auto
  ultimately show ?thesis using inv p(2) by (simp add: acc_inv_def content_bytes settled_def acc_purged_def)
qed

lemma step_keeps_inv:
  assumes "acc_inv n s" "acc_step lf n s es s'" "clean es"
  shows "acc_inv n s' \<and> buffer_run (acc_value (a_st s)) es = Some (acc_value (a_st s'))"
  using assms(2,1)
proof (cases rule: acc_step.cases)
  case (acc_run i pc' st')
  then show ?thesis using run_keeps_inv [OF assms(1)] by simp
next
  case (acc_look i)
  then show ?thesis using assms(1) by (auto simp: acc_inv_def)
next
  case (acc_modify i func q d)
  then show ?thesis using modify_keeps_inv [OF assms(1) acc_modify(3-6)] by simp
next
  case (acc_unlogged i func q succ d)
  then have d: "d = a_bytes (a_st s)" "a_bytes (a_st s) = acc_value (a_st s)" using assms(1,3) by (auto simp: acc_inv_def)
  have "s' = s" unfolding acc_unlogged(2) d(1) by simp
  then show ?thesis using acc_unlogged(1) d assms(1) by simp
next
  case (acc_lost_pin i pc')
  then show ?thesis using assms(3) by simp
next
  case (acc_purge bs)
  then show ?thesis using purge_keeps_inv [OF assms(1)] by (simp add: content_bytes)
qed (use local_move_inv [OF assms(1)] in auto)

text \<open>Only the holder of the exclusive lock changes bytes; a reader sees the same bytes until it ends its access.\<close>

lemma next_keeps_bytes: "acc_next pc s = Some (pc', s') \<Longrightarrow> \<not> has_write pc \<Longrightarrow> a_bytes s' = a_bytes s"
  by (cases pc) (auto split: if_splits)

lemma reads_are_stable:
  assumes inv: "acc_inv n s" and i: "i < n" "a_pcs s i = Reading" and step: "acc_step lf n s es s'"
  shows "a_bytes (a_st s') = a_bytes (a_st s)"
  using step
proof (cases rule: acc_step.cases)
  case (acc_run j pc' st')
  then have "\<not> has_write (a_pcs s j)" using write_alone [OF inv, of j i] i by auto
  then show ?thesis using acc_run next_keeps_bytes by simp
next
  case (acc_modify j func q d)
  then show ?thesis using write_alone [OF inv, of j i] i by auto
next
  case (acc_unlogged j func q succ d)
  then show ?thesis using write_alone [OF inv, of j i] i by auto
next
  case (acc_purge bs)
  then show ?thesis using inv i by (auto simp: acc_inv_def tally_zero)
qed simp_all

interpretation threads: buffer_refinement "acc_step lf n" "acc_inv n" "\<lambda>s. acc_value (a_st s)"
  using step_keeps_inv by unfold_locales blast

end
