(* ===== verification/Acc_Pages.thy ===== *)
theory Acc_Pages
  imports Acc_Inv Ux_Threads
begin

text \<open>
  The threads of \<open>Acc_Threads\<close> on the entries of the page table. \<open>UxpteGet\<close>, \<open>UxptePut\<close> and
  \<open>UxpteIsPresent\<close> treat the entries of an object one after the other (\<open>UxpteOps\<close>); a pin or an unpin of
  one entry is the loop of \<open>UxpteAdd\<close> or \<open>UxpteSub\<close>, one load or compare-and-swap per step, with the
  branch for an entry under reclaim and the one for a full count (\<open>Ux_Threads.thread_step\<close>). The kernel
  takes single pages whose reference count is zero, in two steps: it marks the entry as under reclaim,
  and later it drops the page. This theory shows that, unless an entry is left without its reference,
  the single steps of \<open>Acc_Threads\<close> are a faithful summary: every run on entries is a run of that system.
\<close>

section \<open>Control points\<close>

text \<open>
  \<open>Getting wr k pp\<close>, \<open>Putting k pp\<close>: the first \<open>k\<close> entries are done, and the loop on entry \<open>k\<close> is at \<open>pp\<close>.
  \<open>Looking pc k\<close>: at the check \<open>pc\<close>, the first \<open>k\<close> entries were found present.
\<close>

datatype pg_pc =
    At acc_pc
  | Getting bool nat pin_pc
  | Looking acc_pc nat
  | Putting nat pin_pc

record pg_st =
  pg_readers :: nat
  pg_writer :: bool
  pg_entry :: "nat \<Rightarrow> uxpte_t"
  pg_count :: c_uint
  pg_bytes :: "byte list"
  pg_log :: "mod_step list"

text \<open>
  The state but for the pins, and back; clearing touches every page, which the kernel brings in and marks as
  present (a page under reclaim once the reclaim is over).
\<close>

definition pg_touch :: "uxpte_t \<Rightarrow> uxpte_t" where
  "pg_touch v = (if IsUxpteUnderReclaim v then 1 else v OR 1)"

definition pg_core :: "nat \<Rightarrow> pg_st \<Rightarrow> acc_st" where
  "pg_core m s =
     \<lparr>a_readers = pg_readers s, a_writer = pg_writer s, a_pins = 0, a_present = (\<forall>j < m. IsUxptePresent (pg_entry s j)),
      a_count = pg_count s, a_bytes = pg_bytes s, a_log = pg_log s\<rparr>"

definition pg_back :: "nat \<Rightarrow> pg_st \<Rightarrow> acc_st \<Rightarrow> pg_st" where
  "pg_back m s st =
     \<lparr>pg_readers = a_readers st, pg_writer = a_writer st,
      pg_entry = (\<lambda>j. if j < m \<and> a_present st then pg_touch (pg_entry s j) else pg_entry s j),
      pg_count = a_count st, pg_bytes = a_bytes st, pg_log = a_log st\<rparr>"

fun is_check :: "acc_pc \<Rightarrow> bool" where
  "is_check R_Check = True"
| "is_check (W_Check _) = True"
| "is_check _ = False"

text \<open>Where a check leads, and where unpinning starts.\<close>

fun decide :: "bool \<Rightarrow> acc_pc \<Rightarrow> acc_pc" where
  "decide gone R_Check = (if gone then R_Unlock else Reading)"
| "decide gone (W_Check wr) = (if gone then Clear wr else if wr then Writing else W_Unlock False)"
| "decide gone pc = pc"

definition pg_at :: "acc_pc \<Rightarrow> pg_pc" where
  "pg_at pc = (if pc = Put then Putting 0 PutLoad else At pc)"

fun pg_next :: "nat \<Rightarrow> pg_pc \<Rightarrow> pg_st \<Rightarrow> (pg_pc \<times> pg_st) option" where
  "pg_next m (Getting wr k pp) s =
     (let (pp', v) = thread_step pp (pg_entry s k)
      in Some (if pp' \<noteq> Held then Getting wr k pp'
               else if Suc k = m then At (if wr then W_Lock True else R_Lock) else Getting wr (Suc k) (GetLoad 0),
               s\<lparr>pg_entry := (pg_entry s)(k := v)\<rparr>))"
| "pg_next m (Putting k pp) s =
     (let (pp', v) = thread_step pp (pg_entry s k)
      in Some (if pp' \<noteq> Idle then Putting k pp' else if Suc k = m then At Out else Putting (Suc k) PutLoad,
               s\<lparr>pg_entry := (pg_entry s)(k := v)\<rparr>))"
| "pg_next m (Looking pc k) s =
     Some (if IsUxptePresent (pg_entry s k) \<and> Suc k < m then Looking pc (Suc k)
           else At (decide (\<not> IsUxptePresent (pg_entry s k)) pc), s)"
| "pg_next m (At pc) s =
     (if is_check pc \<and> pg_count s \<noteq> 0 then Some (Looking pc 0, s)
      else map_option (\<lambda>(pc', st). (pg_at pc', pg_back m s st)) (acc_next pc (pg_core m s)))"

text \<open>
  A get of an entry that ends without a new reference: the count was full, or the entry was under reclaim
  and the compare-and-swap wrote a stale value.
\<close>

fun loses_pin :: "pg_pc \<Rightarrow> pg_st \<Rightarrow> bool" where
  "loses_pin (Getting wr k (GetCas old newVal)) s = (pg_entry s k = old \<and> IsUxpteUnderReclaim old)"
| "loses_pin (Getting wr k pp) s = (fst (thread_step pp (pg_entry s k)) = Held)"
| "loses_pin pc s = False"

section \<open>The system\<close>

record pg_sys =
  pg_shared :: pg_st
  pg_pcs :: "nat \<Rightarrow> pg_pc"

definition pg_move :: "nat \<Rightarrow> pg_pc \<Rightarrow> pg_st \<Rightarrow> pg_sys \<Rightarrow> pg_sys" where
  "pg_move i pc st s = s\<lparr>pg_shared := st, pg_pcs := (pg_pcs s)(i := pc)\<rparr>"

text \<open>The rules of \<open>acc_step\<close>, with \<open>m\<close> pages and a kernel that takes one page at a time.\<close>

inductive pg_step :: "nat \<Rightarrow> bool \<Rightarrow> nat \<Rightarrow> pg_sys \<Rightarrow> buf_event list \<Rightarrow> pg_sys \<Rightarrow> bool" for m lf n where
  pg_run: "i < n \<Longrightarrow> pg_next m (pg_pcs s i) (pg_shared s) = Some (pc', st') \<Longrightarrow>
    pg_step m lf n s (if loses_pin (pg_pcs s i) (pg_shared s) then [Lost_Pin] else []) (pg_move i pc' st' s)"
| pg_lock_error: "lf \<Longrightarrow> i < n \<Longrightarrow> pg_pcs s i \<in> {At R_Lock, At (W_Lock True), At (W_Lock False)} \<Longrightarrow>
    pg_step m lf n s [] (pg_move i (Putting 0 PutLoad) (pg_shared s) s)"
| pg_memset_error: "lf \<Longrightarrow> i < n \<Longrightarrow> pg_pcs s i = At (Clear wr) \<Longrightarrow>
    pg_step m lf n s [] (pg_move i (At (W_Unlock False)) (pg_shared s) s)"
| pg_begin: "i < n \<Longrightarrow> pg_pcs s i = At Out \<Longrightarrow> pg_step m lf n s [] (pg_move i (Getting wr 0 (GetLoad 0)) (pg_shared s) s)"
| pg_end_read: "i < n \<Longrightarrow> pg_pcs s i = At Reading \<Longrightarrow> pg_step m lf n s [] (pg_move i (At R_End) (pg_shared s) s)"
| pg_end_write: "i < n \<Longrightarrow> pg_pcs s i = At Writing \<Longrightarrow> pg_step m lf n s [] (pg_move i (At W_End) (pg_shared s) s)"
| pg_look: "i < n \<Longrightarrow> pg_pcs s i \<in> {At Reading, At Writing} \<Longrightarrow> pg_step m lf n s [Observe (pg_bytes (pg_shared s))] s"
| pg_modify: "i < n \<Longrightarrow> pg_pcs s i = At Writing \<Longrightarrow> in_buffer func \<Longrightarrow> func (pg_bytes (pg_shared s)) q = (True, d) \<Longrightarrow>
    pg_step m lf n s [Modify (\<lambda>c. func c q)]
      (s\<lparr>pg_shared := (pg_shared s)\<lparr>pg_bytes := d, pg_log := pg_log (pg_shared s) @ [(func, q)]\<rparr>\<rparr>)"
| pg_unlogged: "i < n \<Longrightarrow> pg_pcs s i = At Writing \<Longrightarrow> in_buffer func \<Longrightarrow> func (pg_bytes (pg_shared s)) q = (succ, d) \<Longrightarrow>
    pg_step m lf n s [Failed (pg_bytes (pg_shared s)) d] (s\<lparr>pg_shared := (pg_shared s)\<lparr>pg_bytes := d\<rparr>\<rparr>)"
| pg_reclaim: "k < m \<Longrightarrow> pg_entry (pg_shared s) k \<in> {0, 1} \<Longrightarrow>
    pg_step m lf n s []
      (s\<lparr>pg_shared := (pg_shared s)\<lparr>pg_entry := (pg_entry (pg_shared s))(k := UXPTE_UNDER_RECLAIM)\<rparr>\<rparr>)"
| pg_reclaimed: "k < m \<Longrightarrow> IsUxpteUnderReclaim (pg_entry (pg_shared s) k) \<Longrightarrow> length bs = length (pg_bytes (pg_shared s)) \<Longrightarrow>
    (\<forall>a < length bs. a div unat PAGE_SIZE \<noteq> k \<longrightarrow> bs ! a = pg_bytes (pg_shared s) ! a) \<Longrightarrow>
    pg_step m lf n s []
      (s\<lparr>pg_shared := (pg_shared s)\<lparr>pg_entry := (pg_entry (pg_shared s))(k := 0), pg_bytes := bs\<rparr>\<rparr>)"

section \<open>The summary\<close>

text \<open>A pin counts from its last entry on, an unpin from its first.\<close>

fun abs_pc :: "pg_pc \<Rightarrow> acc_pc" where
  "abs_pc (At pc) = pc"
| "abs_pc (Getting wr k pp) = (if wr then W_Get else R_Get)"
| "abs_pc (Looking pc k) = pc"
| "abs_pc (Putting k pp) = (if k = 0 then Put else Out)"

definition pg_abs :: "nat \<Rightarrow> nat \<Rightarrow> pg_sys \<Rightarrow> acc_sys" where
  "pg_abs m n s =
     \<lparr>a_st = (pg_core m (pg_shared s))\<lparr>a_pins := tally (\<lambda>pc. has_pin (abs_pc pc)) n (pg_pcs s)\<rparr>,
      a_pcs = (\<lambda>i. abs_pc (pg_pcs s i))\<rparr>"

text \<open>
  Which entries a thread holds, and what it knows of the control point it is at. A pending compare-and-swap of
  a get waits for an entry under reclaim, or adds one reference.
\<close>

fun pg_holds :: "nat \<Rightarrow> pg_pc \<Rightarrow> bool" where
  "pg_holds j (At pc) = has_pin pc"
| "pg_holds j (Getting wr k pp) = (j < k)"
| "pg_holds j (Looking pc k) = True"
| "pg_holds j (Putting k pp) = (k \<le> j)"

fun get_ok :: "pin_pc \<Rightarrow> bool" where
  "get_ok (GetLoad newVal) = True"
| "get_ok (GetCas old newVal) = (IsUxpteUnderReclaim old \<or> newVal = old + 2 \<and> unat old + 2 < 2 ^ 64)"
| "get_ok _ = False"

fun put_ok :: "pin_pc \<Rightarrow> bool" where
  "put_ok PutLoad = True"
| "put_ok (PutCas old) = True"
| "put_ok _ = False"

fun pg_knows :: "nat \<Rightarrow> pg_st \<Rightarrow> pg_pc \<Rightarrow> bool" where
  "pg_knows m s (At pc) = (pc \<notin> {R_Get, W_Get, Put})"
| "pg_knows m s (Getting wr k pp) = (k < m \<and> get_ok pp)"
| "pg_knows m s (Looking pc k) = (is_check pc \<and> k < m \<and> pg_count s \<noteq> 0 \<and> (\<forall>j < k. IsUxptePresent (pg_entry s j)))"
| "pg_knows m s (Putting k pp) = (k < m \<and> put_ok pp)"

text \<open>An entry counts its holders; one under reclaim has none.\<close>

definition counts :: "uxpte_t \<Rightarrow> nat \<Rightarrow> bool" where
  "counts v h \<longleftrightarrow> (if IsUxpteUnderReclaim v then h = 0 else uxpte_refcnt v = h)"

definition pg_inv :: "nat \<Rightarrow> nat \<Rightarrow> pg_sys \<Rightarrow> bool" where
  "pg_inv m n s \<longleftrightarrow>
     (\<forall>j < m. counts (pg_entry (pg_shared s) j) (tally (pg_holds j) n (pg_pcs s))) \<and>
     (\<forall>i < n. pg_knows m (pg_shared s) (pg_pcs s i))"

section \<open>One entry\<close>

lemma counts_held: "counts v h \<Longrightarrow> 0 < h \<Longrightarrow> \<not> IsUxpteUnderReclaim v \<and> uxpte_refcnt v = h"
  by (auto simp: counts_def split: if_splits)

text \<open>A count that stays below the top values does not look like a reclaim.\<close>

lemma countsI: "uxpte_refcnt v = h \<Longrightarrow> h < 2 ^ 63 - 1 \<Longrightarrow> counts v h"
  by (auto simp: counts_def IsUxpteUnderReclaim_def uxpte_refcnt_def)

lemma touch_present [simp]: "IsUxptePresent (pg_touch v)"
  by (simp add: pg_touch_def IsUxptePresent_bit even_or_iff)

lemma touch_counts: "counts v h \<Longrightarrow> 0 < h \<Longrightarrow> h < 2 ^ 62 \<Longrightarrow> counts (pg_touch v) h"
  using counts_held [of v h] by (intro countsI) (auto simp: pg_touch_def refcnt_or_one)

text \<open>A step of a get, if the pin is not lost, and of a put.\<close>

lemma get_step:
  assumes "thread_step pp v = (pp', v')" "get_ok pp" "counts v h" "h < 2 ^ 62" "\<not> loses_pin (Getting wr k pp) s" "pg_entry s k = v"
  shows "pp' = Held \<and> counts v' (Suc h) \<and> IsUxptePresent v' = IsUxptePresent v \<or> get_ok pp' \<and> v' = v"
proof (cases pp)
  case (GetLoad nv)
  then show ?thesis using assms overflow_two [of v] room_two [of v] by (auto split: if_splits)
next
  case (GetCas old nv)
  show ?thesis
  proof (cases "v = old")
    case True
    then have nu: "\<not> IsUxpteUnderReclaim v" "nv = v + 2" "unat v + 2 < 2 ^ 64" "pp' = Held" "v' = v + 2"
      using assms by (auto simp: GetCas)
    then have "uxpte_refcnt v' = Suc h" using assms(3) refcnt_add [of v] by (simp add: counts_def)
    then show ?thesis using nu assms(4) by (auto intro: countsI)
  qed (use assms in \<open>auto simp: GetCas\<close>)
qed (use assms in auto)

lemma put_step:
  assumes "thread_step pp v = (pp', v')" "put_ok pp" "counts v h" "0 < h" "h < 2 ^ 62"
  shows "pp' = Idle \<and> counts v' (h - 1) \<and> IsUxptePresent v' = IsUxptePresent v \<or> put_ok pp' \<and> v' = v"
proof (cases pp)
  case (PutCas old)
  have "Suc (uxpte_refcnt (v - 2)) = h" using counts_held [OF assms(3,4)] assms(4) refcnt_sub [of v] by simp
  then have "counts (v - 2) (h - 1)" using assms(5) by (intro countsI) auto
  moreover have "IsUxptePresent (v - 2) = IsUxptePresent v" by (simp add: IsUxptePresent_bit)
  ultimately show ?thesis using assms(1) by (auto simp: PutCas split: if_splits)
qed (use assms in auto)

section \<open>One thread\<close>

lemma next_inner:
  assumes "acc_next pc st = Some (pc', st')" "pc \<notin> {R_Get, W_Get, Put}"
  shows "acc_next pc (st\<lparr>a_pins := k\<rparr>) = Some (pc', st'\<lparr>a_pins := k\<rparr>)" "a_pins st' = a_pins st"
    "has_pin pc" "has_pin pc'" "a_present st \<longrightarrow> a_present st'" "pc' \<notin> {R_Get, W_Get}"
    "has_write pc \<or> a_count st' = a_count st"
proof -
  have "acc_next pc (st\<lparr>a_pins := k\<rparr>) = Some (pc', st'\<lparr>a_pins := k\<rparr>) \<and> a_pins st' = a_pins st \<and>
    has_pin pc \<and> has_pin pc' \<and> (a_present st \<longrightarrow> a_present st') \<and> pc' \<notin> {R_Get, W_Get} \<and>
    (has_write pc \<or> a_count st' = a_count st)"
    using assms by (induction pc st rule: acc_next.induct) (auto split: if_splits prod.splits)
  then show "acc_next pc (st\<lparr>a_pins := k\<rparr>) = Some (pc', st'\<lparr>a_pins := k\<rparr>)" "a_pins st' = a_pins st"
    "has_pin pc" "has_pin pc'" "a_present st \<longrightarrow> a_present st'" "pc' \<notin> {R_Get, W_Get}"
    "has_write pc \<or> a_count st' = a_count st" by blast+
qed

lemma core_back:
  "(\<forall>j < m. IsUxptePresent (pg_entry s j)) \<longrightarrow> a_present st \<Longrightarrow> a_pins st = 0 \<Longrightarrow> pg_core m (pg_back m s st) = st"
  by (cases st) (auto simp: pg_core_def pg_back_def)

lemma core_entry: "(\<And>j. j < m \<Longrightarrow> IsUxptePresent (e j) = IsUxptePresent (pg_entry s j)) \<Longrightarrow> pg_core m (s\<lparr>pg_entry := e\<rparr>) = pg_core m s"
  by (auto simp: pg_core_def)

lemma abs_at [simp]: "abs_pc (pg_at pc) = pc" "pg_holds j (pg_at pc) = has_pin pc"
  by (simp_all add: pg_at_def)

lemma decide_pin: "is_check pc \<Longrightarrow> has_pin (decide b pc)" "is_check pc \<Longrightarrow> has_pin pc"
  "is_check pc \<Longrightarrow> decide b pc \<notin> {R_Get, W_Get, Put}"
  by (cases pc; simp)+

text \<open>A check decides what the single step decides.\<close>

lemma decide_next: "is_check pc \<Longrightarrow> acc_next pc st = Some (decide (acc_purged st) pc, st)"
  by (cases pc) auto

text \<open>
  The entries count on, and the pages that are present stay so; only clearing brings pages in. \<open>h\<close>: the
  holders of the entry before the step.
\<close>

lemma pg_next_entry:
  assumes st: "pg_next m pc s = Some (pc', s')" and kn: "pg_knows m s pc" "\<not> loses_pin pc s"
    and j: "j < m" "counts (pg_entry s j) h" "pg_holds j pc \<Longrightarrow> 0 < h" "h < 2 ^ 62"
  shows "\<exists>h'. counts (pg_entry s' j) h' \<and> h' + of_bool (pg_holds j pc) = h + of_bool (pg_holds j pc')"
    "IsUxptePresent (pg_entry s j) \<Longrightarrow> IsUxptePresent (pg_entry s' j)"
    "\<forall>c. pc \<noteq> At c \<Longrightarrow> IsUxptePresent (pg_entry s' j) = IsUxptePresent (pg_entry s j)"
proof -
  let ?P = "(\<exists>h'. counts (pg_entry s' j) h' \<and> h' + of_bool (pg_holds j pc) = h + of_bool (pg_holds j pc')) \<and>
    (IsUxptePresent (pg_entry s j) \<longrightarrow> IsUxptePresent (pg_entry s' j)) \<and>
    ((\<forall>c. pc \<noteq> At c) \<longrightarrow> IsUxptePresent (pg_entry s' j) = IsUxptePresent (pg_entry s j))"
  have ?P
  proof (cases pc)
    case (At c)
    show ?thesis
    proof (cases "is_check c \<and> pg_count s \<noteq> 0")
      case True
      then show ?thesis using st j decide_pin(2) by (auto simp: At intro!: exI [of _ h])
    next
      case False
      then obtain c' st' where n: "acc_next c (pg_core m s) = Some (c', st')" "pc' = pg_at c'" "s' = pg_back m s st'"
        using st by (auto simp: At)
      have "c \<notin> {R_Get, W_Get, Put}" using kn by (simp add: At)
      then have p: "has_pin c" "has_pin c'" using next_inner(3,4) [OF n(1)] by simp_all
      then have "counts (pg_entry s' j) h" using n(3) j touch_counts [of "pg_entry s j" h] by (simp add: At pg_back_def)
      then show ?thesis using p n(2,3) by (auto simp: At pg_back_def)
    qed
  next
    case (Looking c i)
    then show ?thesis using st kn j decide_pin(1) by (auto split: if_splits intro!: exI [of _ h])
  next
    case (Getting wr i pp)
    obtain pp' v where t: "thread_step pp (pg_entry s i) = (pp', v)" by fastforce
    show ?thesis
    proof (cases "j = i")
      case True
      then show ?thesis
        using get_step [OF t, of h wr i s] st kn j t by (auto simp: Getting split: if_splits intro: exI [of _ "Suc h"])
    next
      case False
      then show ?thesis using st kn j t by (auto simp: Getting split: if_splits intro!: exI [of _ h])
    qed
  next
    case (Putting i pp)
    obtain pp' v where t: "thread_step pp (pg_entry s i) = (pp', v)" by fastforce
    show ?thesis
    proof (cases "j = i")
      case True
      then show ?thesis
        using put_step [OF t, of h] st kn j t by (auto simp: Putting split: if_splits intro: exI [of _ "h - 1"])
    next
      case False
      then show ?thesis using st kn j t by (auto simp: Putting split: if_splits intro!: exI [of _ h])
    qed
  qed
  then show "\<exists>h'. counts (pg_entry s' j) h' \<and> h' + of_bool (pg_holds j pc) = h + of_bool (pg_holds j pc')"
    "IsUxptePresent (pg_entry s j) \<Longrightarrow> IsUxptePresent (pg_entry s' j)"
    "\<forall>c. pc \<noteq> At c \<Longrightarrow> IsUxptePresent (pg_entry s' j) = IsUxptePresent (pg_entry s j)" by blast+
qed

text \<open>What the thread knows then, and what it leaves to the others.\<close>

lemma pg_next_knows:
  assumes st: "pg_next m pc s = Some (pc', s')" and kn: "pg_knows m s pc" "\<not> loses_pin pc s" and m: "0 < m"
    and h: "\<And>j. j < m \<Longrightarrow> counts (pg_entry s j) (h j) \<and> (pg_holds j pc \<longrightarrow> 0 < h j) \<and> h j < 2 ^ 62"
  shows "pg_knows m s' pc'" "has_write (abs_pc pc) \<or> pg_count s' = pg_count s"
proof -
  have "pg_knows m s' pc' \<and> (has_write (abs_pc pc) \<or> pg_count s' = pg_count s)"
  proof (cases pc)
    case (At c)
    show ?thesis
    proof (cases "is_check c \<and> pg_count s \<noteq> 0")
      case False
      then obtain c' st' where n: "acc_next c (pg_core m s) = Some (c', st')" "pc' = pg_at c'" "s' = pg_back m s st'"
        using st by (auto simp: At)
      have "c \<notin> {R_Get, W_Get, Put}" using kn by (simp add: At)
      then show ?thesis using next_inner(6,7) [OF n(1)] n(2,3) m by (auto simp: At pg_at_def pg_back_def pg_core_def)
    qed (use assms in \<open>auto simp: At\<close>)
  next
    case (Looking c i)
    then show ?thesis using st kn decide_pin(3) by (auto split: if_splits simp: less_Suc_eq)
  next
    case (Getting wr i pp)
    obtain pp' v where t: "thread_step pp (pg_entry s i) = (pp', v)" by fastforce
    show ?thesis using get_step [OF t, of "h i" wr i s] h [of i] st kn t by (auto simp: Getting split: if_splits)
  next
    case (Putting i pp)
    obtain pp' v where t: "thread_step pp (pg_entry s i) = (pp', v)" by fastforce
    show ?thesis using put_step [OF t, of "h i"] h [of i] st kn t by (auto simp: Putting split: if_splits)
  qed
  then show "pg_knows m s' pc'" "has_write (abs_pc pc) \<or> pg_count s' = pg_count s" by blast+
qed

lemma pg_knows_other:
  assumes "pg_knows m s pc" "\<And>j. j < m \<Longrightarrow> IsUxptePresent (pg_entry s j) \<Longrightarrow> IsUxptePresent (pg_entry s' j)"
    "pg_count s' = pg_count s \<or> \<not> is_check (abs_pc pc)"
  shows "pg_knows m s' pc"
  using assms by (cases pc) auto

text \<open>
  A step of a thread is a step of the summary, or nothing there: then it is done with an entry, or it is a
  load or a compare-and-swap that leaves the entries as they are.
\<close>

fun pg_rank :: "nat \<Rightarrow> pg_pc \<Rightarrow> nat" where
  "pg_rank m (At pc) = (if is_check pc then Suc m else 0)"
| "pg_rank m (Getting wr k pp) = m - k"
| "pg_rank m (Looking pc k) = m - k"
| "pg_rank m (Putting k pp) = m - k"

text \<open>How far a thread is in the loop on its entry; a value that another thread has changed costs a round.\<close>

fun cas_rank :: "(nat \<Rightarrow> uxpte_t) \<Rightarrow> pg_pc \<Rightarrow> nat" where
  "cas_rank e (Getting wr k (GetLoad newVal)) = 2"
| "cas_rank e (Getting wr k (GetCas old newVal)) = (if e k = old then 1 else 3)"
| "cas_rank e (Putting k PutLoad) = 2"
| "cas_rank e (Putting k (PutCas old)) = (if e k = old then 1 else 3)"
| "cas_rank e pc = 0"

lemma cas_rank_step:
  "thread_step pp (pg_entry s k) = (pp', v) \<Longrightarrow> get_ok pp \<Longrightarrow> pp' \<noteq> Held \<Longrightarrow>
     cas_rank (pg_entry s) (Getting wr k pp') < cas_rank (pg_entry s) (Getting wr k pp)"
  "thread_step pp (pg_entry s k) = (pp', v) \<Longrightarrow> put_ok pp \<Longrightarrow> pp' \<noteq> Idle \<Longrightarrow>
     cas_rank (pg_entry s) (Putting k pp') < cas_rank (pg_entry s) (Putting k pp)"
  by (cases pp; auto split: if_splits)+

lemma pg_next_abs:
  assumes st: "pg_next m pc s = Some (pc', s')" and kn: "pg_knows m s pc" "\<not> loses_pin pc s"
    and h: "\<And>j. j < m \<Longrightarrow> counts (pg_entry s j) (h j) \<and> (pg_holds j pc \<longrightarrow> 0 < h j) \<and> h j < 2 ^ 62"
    and k: "has_pin (abs_pc pc) \<Longrightarrow> 0 < k"
  shows "abs_pc pc' = abs_pc pc \<and> pg_core m s' = pg_core m s \<and>
      (pg_rank m pc' < pg_rank m pc \<or>
       pg_rank m pc' = pg_rank m pc \<and> s' = s \<and> cas_rank (pg_entry s) pc' < cas_rank (pg_entry s) pc) \<or>
    (\<exists>k'. acc_next (abs_pc pc) ((pg_core m s)\<lparr>a_pins := k\<rparr>) = Some (abs_pc pc', (pg_core m s')\<lparr>a_pins := k'\<rparr>) \<and>
       k' + of_bool (has_pin (abs_pc pc)) = k + of_bool (has_pin (abs_pc pc')))"
proof -
  have core: "pg_core m s' = pg_core m s" if "\<forall>c. pc \<noteq> At c" "s' = s\<lparr>pg_entry := e\<rparr>" for e
    using pg_next_entry(3) [OF st kn _ _ _ _ that(1)] h that(2) core_entry [of m e s] by fastforce
  show ?thesis
  proof (cases pc)
    case (Looking c i)
    let ?here = "\<lambda>j. IsUxptePresent (pg_entry s j)"
    have p: "acc_purged ((pg_core m s)\<lparr>a_pins := k\<rparr>) = (\<not> (\<forall>j < m. ?here j))"
      using kn by (simp add: Looking acc_purged_def pg_core_def)
    have "?here i \<Longrightarrow> \<not> Suc i < m \<Longrightarrow> \<forall>j < m. ?here j" using kn by (auto simp: Looking less_Suc_eq dest: Suc_lessI)
    then have "\<not> (?here i \<and> Suc i < m) \<Longrightarrow> acc_purged ((pg_core m s)\<lparr>a_pins := k\<rparr>) = (\<not> ?here i)"
      using kn unfolding p by (auto simp: Looking)
    then show ?thesis
      using st kn decide_next [of c "(pg_core m s)\<lparr>a_pins := k\<rparr>"] decide_pin by (auto simp: Looking split: if_splits)
  next
    case (At c)
    show ?thesis
    proof (cases "is_check c \<and> pg_count s \<noteq> 0")
      case True
      then show ?thesis using st by (auto simp: At)
    next
      case False
      then obtain c' st' where n: "acc_next c (pg_core m s) = Some (c', st')" "pc' = pg_at c'" "s' = pg_back m s st'"
        using st by (auto simp: At)
      have c: "c \<notin> {R_Get, W_Get, Put}" using kn by (simp add: At)
      note ni = next_inner [OF n(1) c]
      have "a_pins st' = 0" "(\<forall>j < m. IsUxptePresent (pg_entry s j)) \<longrightarrow> a_present st'" using ni(2,5) by (simp_all add: pg_core_def)
      then have "pg_core m s' = st'" using core_back n(3) by simp
      then show ?thesis using ni(1) [of k] ni(3,4) n(2) by (auto simp: At)
    qed
  next
    case (Getting wr i pp)
    obtain pp' v where t: "thread_step pp (pg_entry s i) = (pp', v)" by fastforce
    have "s' = s\<lparr>pg_entry := (pg_entry s)(i := v)\<rparr>" using st t by (auto simp: Getting)
    moreover have "pp' = Held \<or> v = pg_entry s i" using get_step [OF t, of "h i" wr i s] h [of i] kn by (auto simp: Getting)
    ultimately show ?thesis using core [of "(pg_entry s)(i := v)"] st kn t cas_rank_step(1) [OF t] by (auto simp: Getting split: if_splits)
  next
    case (Putting i pp)
    obtain pp' v where t: "thread_step pp (pg_entry s i) = (pp', v)" by fastforce
    have "s' = s\<lparr>pg_entry := (pg_entry s)(i := v)\<rparr>" using st t by (auto simp: Putting)
    moreover have "pp' = Idle \<or> v = pg_entry s i" using put_step [OF t, of "h i"] h [of i] kn by (auto simp: Putting)
    ultimately show ?thesis using core [of "(pg_entry s)(i := v)"] st kn t k cas_rank_step(2) [OF t] by (auto simp: Putting split: if_splits)
  qed
qed

section \<open>All threads\<close>

lemma pg_move_simps [simp]:
  "pg_shared (pg_move i pc st s) = st" "pg_pcs (pg_move i pc st s) = (pg_pcs s)(i := pc)"
  by (simp_all add: pg_move_def)

abbreviation "pg_pins n s \<equiv> tally (\<lambda>pc. has_pin (abs_pc pc)) n (pg_pcs s)"

lemma abs_simps [simp]:
  "a_pcs (pg_abs m n s) i = abs_pc (pg_pcs s i)" "a_st (pg_abs m n s) = (pg_core m (pg_shared s))\<lparr>a_pins := pg_pins n s\<rparr>"
  by (simp_all add: pg_abs_def)

lemma abs_move:
  "pg_abs m n (pg_move i pc st s) =
     move i (abs_pc pc) ((pg_core m st)\<lparr>a_pins := pg_pins n (pg_move i pc st s)\<rparr>) (pg_abs m n s)"
  by (simp add: pg_abs_def move_def fun_eq_iff)

text \<open>Moving a thread between control points with the same summary changes nothing there.\<close>

lemma pins_move:
  "i < n \<Longrightarrow> pg_pins n (pg_move i pc st s) + of_bool (has_pin (abs_pc (pg_pcs s i))) = pg_pins n s + of_bool (has_pin (abs_pc pc))"
  using tally_upd [of i n "\<lambda>pc. has_pin (abs_pc pc)" "pg_pcs s" pc] by simp

lemma abs_same:
  assumes "i < n" "abs_pc pc = abs_pc (pg_pcs s i)" "pg_core m st = pg_core m (pg_shared s)"
  shows "pg_abs m n (pg_move i pc st s) = pg_abs m n s"
proof -
  have "pg_pins n (pg_move i pc st s) = pg_pins n s" using pins_move [OF assms(1), of pc st s] assms(2) by simp
  then show ?thesis unfolding abs_move using assms by (auto simp: pg_abs_def move_def fun_eq_iff)
qed

text \<open>A thread that moves keeps the books and what everybody knows.\<close>

lemma pg_invI:
  assumes inv: "pg_inv m n s" and i: "i < n"
    and refs: "\<And>j. j < m \<Longrightarrow> \<exists>h. counts (pg_entry st j) h \<and>
      h + of_bool (pg_holds j (pg_pcs s i)) = tally (pg_holds j) n (pg_pcs s) + of_bool (pg_holds j pc)"
    and kn: "pg_knows m st pc" "\<And>k. k < n \<Longrightarrow> k \<noteq> i \<Longrightarrow> pg_knows m st (pg_pcs s k)"
  shows "pg_inv m n (pg_move i pc st s)"
proof -
  have "counts (pg_entry st j) (tally (pg_holds j) n ((pg_pcs s)(i := pc)))" if j: "j < m" for j
  proof -
    obtain h where h: "counts (pg_entry st j) h"
      "h + of_bool (pg_holds j (pg_pcs s i)) = tally (pg_holds j) n (pg_pcs s) + of_bool (pg_holds j pc)"
      using refs [OF j] by blast
    then have "h = tally (pg_holds j) n ((pg_pcs s)(i := pc))" using tally_upd [OF i, of "pg_holds j" "pg_pcs s" pc] by linarith
    then show ?thesis using h(1) by simp
  qed
  then show ?thesis using kn by (simp add: pg_inv_def)
qed

lemma pg_inv_holders:
  assumes "pg_inv m n s" "n < 2 ^ 62" "i < n" "j < m"
  shows "counts (pg_entry (pg_shared s) j) (tally (pg_holds j) n (pg_pcs s)) \<and>
    (pg_holds j (pg_pcs s i) \<longrightarrow> 0 < tally (pg_holds j) n (pg_pcs s)) \<and> tally (pg_holds j) n (pg_pcs s) < 2 ^ 62"
  using assms tally_le [of "pg_holds j" n "pg_pcs s"] by (auto simp: pg_inv_def tally_pos)

lemma pg_run_inv:
  assumes inv: "pg_inv m n s" and ai: "acc_inv n (pg_abs m n s)" and m: "0 < m" "n < 2 ^ 62" and i: "i < n"
    and st: "pg_next m (pg_pcs s i) (pg_shared s) = Some (pc', st')" and nl: "\<not> loses_pin (pg_pcs s i) (pg_shared s)"
  shows "pg_inv m n (pg_move i pc' st' s)"
proof (rule pg_invI [OF inv i])
  let ?pc = "pg_pcs s i" and ?st = "pg_shared s"
  have kn: "pg_knows m ?st ?pc" using inv i by (simp add: pg_inv_def)
  note h = pg_inv_holders [OF inv m(2) i]
  show "\<exists>h. counts (pg_entry st' j) h \<and> h + of_bool (pg_holds j ?pc) = tally (pg_holds j) n (pg_pcs s) + of_bool (pg_holds j pc')"
    if "j < m" for j using pg_next_entry(1) [OF st kn nl that] h [OF that] by blast
  show "pg_knows m st' pc'" by (rule pg_next_knows(1) [OF st kn nl m(1) h])
  show "pg_knows m st' (pg_pcs s k)" if "k < n" "k \<noteq> i" for k
  proof (rule pg_knows_other)
    show "pg_knows m ?st (pg_pcs s k)" using inv that by (simp add: pg_inv_def)
    show "IsUxptePresent (pg_entry st' j)" if "j < m" "IsUxptePresent (pg_entry ?st j)" for j
      using pg_next_entry(2) [OF st kn nl that(1) _ _ _ that(2)] h [OF that(1)] by blast
    have "is_check (abs_pc pc) \<Longrightarrow> has_read (abs_pc pc) \<or> has_write (abs_pc pc)" for pc by (cases "abs_pc pc") auto
    then show "pg_count st' = pg_count ?st \<or> \<not> is_check (abs_pc (pg_pcs s k))"
      using write_alone [OF ai i that(1)] that(2) pg_next_knows(2) [OF st kn nl m(1) h] by auto
  qed
qed

lemma pg_run_sim:
  assumes inv: "pg_inv m n s" and m: "n < 2 ^ 62" and i: "i < n"
    and st: "pg_next m (pg_pcs s i) (pg_shared s) = Some (pc', st')" and nl: "\<not> loses_pin (pg_pcs s i) (pg_shared s)"
  shows "pg_abs m n (pg_move i pc' st' s) = pg_abs m n s \<or> acc_step lf n (pg_abs m n s) [] (pg_abs m n (pg_move i pc' st' s))"
proof -
  let ?pc = "pg_pcs s i" and ?st = "pg_shared s"
  have kn: "pg_knows m ?st ?pc" using inv i by (simp add: pg_inv_def)
  have pos: "has_pin (abs_pc ?pc) \<Longrightarrow> 0 < pg_pins n s" using i by (auto simp: tally_pos)
  from pg_next_abs [OF st kn nl pg_inv_holders [OF inv m i] pos] show ?thesis
  proof
    assume "\<exists>k'. acc_next (abs_pc ?pc) ((pg_core m ?st)\<lparr>a_pins := pg_pins n s\<rparr>) = Some (abs_pc pc', (pg_core m st')\<lparr>a_pins := k'\<rparr>) \<and>
        k' + of_bool (has_pin (abs_pc ?pc)) = pg_pins n s + of_bool (has_pin (abs_pc pc'))"
    then have "acc_next (a_pcs (pg_abs m n s) i) (a_st (pg_abs m n s)) =
        Some (abs_pc pc', (pg_core m st')\<lparr>a_pins := pg_pins n (pg_move i pc' st' s)\<rparr>)"
      using pins_move [OF i, of pc' st' s] by auto
    from acc_run [OF i this] show ?thesis by (simp add: abs_move)
  next
    assume "abs_pc pc' = abs_pc ?pc \<and> pg_core m st' = pg_core m ?st \<and>
      (pg_rank m pc' < pg_rank m ?pc \<or>
       pg_rank m pc' = pg_rank m ?pc \<and> st' = ?st \<and> cas_rank (pg_entry ?st) pc' < cas_rank (pg_entry ?st) ?pc)"
    then show ?thesis using abs_same [OF i] by simp
  qed
qed

text \<open>A thread that moves without touching what is shared.\<close>

lemma pg_local_sim:
  assumes inv: "pg_inv m n s" and i: "i < n" and kn: "pg_knows m (pg_shared s) pc"
    and same: "\<And>j. j < m \<Longrightarrow> pg_holds j pc = pg_holds j (pg_pcs s i)"
      "has_pin (abs_pc pc) = has_pin (abs_pc (pg_pcs s i))"
    and step: "acc_step lf n (pg_abs m n s) [] (move i (abs_pc pc) (a_st (pg_abs m n s)) (pg_abs m n s))"
  shows "pg_inv m n (pg_move i pc (pg_shared s) s) \<and>
    acc_step lf n (pg_abs m n s) [] (pg_abs m n (pg_move i pc (pg_shared s) s))"
proof -
  have "pg_pins n (pg_move i pc (pg_shared s) s) = pg_pins n s"
    using pins_move [OF i, of pc "pg_shared s" s] same(2) by simp
  moreover have "pg_inv m n (pg_move i pc (pg_shared s) s)"
    using inv same(1) kn by (intro pg_invI [OF inv i]) (auto simp: pg_inv_def)
  ultimately show ?thesis using step by (simp add: abs_move)
qed

text \<open>The kernel takes a page that nobody pins: then nobody has pinned all pages.\<close>

lemma pg_kernel_sim:
  assumes inv: "pg_inv m n s" and k: "k < m" "tally (pg_holds k) n (pg_pcs s) = 0"
    and v: "counts v 0" "\<not> IsUxptePresent v" and bs: "length bs = length (pg_bytes (pg_shared s))"
  defines "s' \<equiv> s\<lparr>pg_shared := (pg_shared s)\<lparr>pg_entry := (pg_entry (pg_shared s))(k := v), pg_bytes := bs\<rparr>\<rparr>"
  shows "pg_inv m n s' \<and> acc_step lf n (pg_abs m n s) [] (pg_abs m n s')"
proof -
  have no: "\<not> pg_holds k (pg_pcs s i)" if "i < n" for i using k that by (auto simp: tally_zero)
  have kn: "pg_knows m (pg_shared s) (pg_pcs s i)" if "i < n" for i using inv that by (simp add: pg_inv_def)
  have "pg_knows m (pg_shared s') (pg_pcs s i)" if "i < n" for i
    using no [OF that] kn [OF that] by (cases "pg_pcs s i") (auto simp: s'_def)
  then have "pg_inv m n s'" using inv k(2) v(1) by (auto simp: pg_inv_def s'_def)
  moreover have "\<not> has_pin (abs_pc (pg_pcs s i))" if "i < n" for i
    using no [OF that] kn [OF that] by (cases "pg_pcs s i") (auto split: if_splits)
  then have "pg_pins n s = 0" by (simp add: tally_zero)
  then have "acc_step lf n (pg_abs m n s) [] (pg_abs m n s\<lparr>a_st := (a_st (pg_abs m n s))\<lparr>a_present := False, a_bytes := bs\<rparr>\<rparr>)"
    using bs by (intro acc_purge) (simp_all add: pg_core_def)
  moreover have "pg_abs m n s\<lparr>a_st := (a_st (pg_abs m n s))\<lparr>a_present := False, a_bytes := bs\<rparr>\<rparr> = pg_abs m n s'"
    using k(1) v(2) by (auto simp: pg_abs_def pg_core_def s'_def)
  ultimately show ?thesis by simp
qed

lemma pg_change_sim:
  assumes inv: "pg_inv m n s"
  shows "pg_inv m n (s\<lparr>pg_shared := (pg_shared s)\<lparr>pg_bytes := d, pg_log := xs\<rparr>\<rparr>)"
    "pg_abs m n (s\<lparr>pg_shared := (pg_shared s)\<lparr>pg_bytes := d, pg_log := xs\<rparr>\<rparr>) =
      (pg_abs m n s)\<lparr>a_st := (a_st (pg_abs m n s))\<lparr>a_bytes := d, a_log := xs\<rparr>\<rparr>"
proof -
  have "pg_knows m (pg_shared s\<lparr>pg_bytes := d, pg_log := xs\<rparr>) pc = pg_knows m (pg_shared s) pc" for pc by (cases pc) simp_all
  then show "pg_inv m n (s\<lparr>pg_shared := (pg_shared s)\<lparr>pg_bytes := d, pg_log := xs\<rparr>\<rparr>)" using inv by (simp add: pg_inv_def)
  show "pg_abs m n (s\<lparr>pg_shared := (pg_shared s)\<lparr>pg_bytes := d, pg_log := xs\<rparr>\<rparr>) =
      (pg_abs m n s)\<lparr>a_st := (a_st (pg_abs m n s))\<lparr>a_bytes := d, a_log := xs\<rparr>\<rparr>" by (simp add: pg_abs_def pg_core_def)
qed

lemma pg_step_sim:
  assumes step: "pg_step m lf n s es s'" "clean es"
    and inv: "pg_inv m n s" "acc_inv n (pg_abs m n s)" and m: "0 < m" "n < 2 ^ 62"
  shows "pg_inv m n s' \<and> (es = [] \<and> pg_abs m n s' = pg_abs m n s \<or> acc_step lf n (pg_abs m n s) es (pg_abs m n s'))"
  using step(1)
proof (cases rule: pg_step.cases)
  case (pg_run i pc' st')
  then have nl: "\<not> loses_pin (pg_pcs s i) (pg_shared s)" using step(2) by (auto split: if_splits)
  then show ?thesis using pg_run pg_run_inv [OF inv m pg_run(3,4) nl] pg_run_sim [OF inv(1) m(2) pg_run(3,4) nl] by simp
next
  case (pg_lock_error i)
  then show ?thesis using pg_local_sim [OF inv(1), of i "Putting 0 PutLoad"] m acc_lock_error [of lf i n "pg_abs m n s"] by auto
next
  case (pg_memset_error i wr)
  then show ?thesis using pg_local_sim [OF inv(1), of i "At (W_Unlock False)"] acc_memset_error [of lf i n "pg_abs m n s"] by auto
next
  case (pg_begin i wr)
  then show ?thesis
    using pg_local_sim [OF inv(1), of i "Getting wr 0 (GetLoad 0)"] m
      acc_begin [of i n "pg_abs m n s" "if wr then W_Get else R_Get" lf] by (cases wr) auto
next
  case (pg_end_read i)
  then show ?thesis using pg_local_sim [OF inv(1), of i "At R_End"] acc_end_read [of i n "pg_abs m n s" lf] by auto
next
  case (pg_end_write i)
  then show ?thesis using pg_local_sim [OF inv(1), of i "At W_End"] acc_end_write [of i n "pg_abs m n s" lf] by auto
next
  case (pg_look i)
  then have "acc_step lf n (pg_abs m n s) [Observe (a_bytes (a_st (pg_abs m n s)))] (pg_abs m n s)" by (intro acc_look) auto
  then show ?thesis using pg_look inv by (simp add: pg_core_def)
next
  case (pg_modify i func q d)
  let ?a = "pg_abs m n s"
  have "acc_step lf n ?a [Modify (\<lambda>c. func c q)] (?a\<lparr>a_st := (a_st ?a)\<lparr>a_bytes := d, a_log := a_log (a_st ?a) @ [(func, q)]\<rparr>\<rparr>)"
    using pg_modify by (intro acc_modify [of i]) (simp_all add: pg_core_def)
  then show ?thesis using pg_modify(1,2) pg_change_sim [OF inv(1)] by (simp add: pg_core_def)
next
  case (pg_unlogged i func q succ d)
  let ?a = "pg_abs m n s" and ?xs = "pg_log (pg_shared s)"
  have "acc_step lf n ?a [Failed (a_bytes (a_st ?a)) d] (?a\<lparr>a_st := (a_st ?a)\<lparr>a_bytes := d\<rparr>\<rparr>)"
    using pg_unlogged by (intro acc_unlogged [of i n _ func q succ]) (simp_all add: pg_core_def)
  moreover have "s' = s\<lparr>pg_shared := (pg_shared s)\<lparr>pg_bytes := d, pg_log := ?xs\<rparr>\<rparr>" using pg_unlogged(2) by simp
  ultimately show ?thesis using pg_unlogged(1) pg_change_sim [OF inv(1), where d = d and xs = ?xs] by (simp add: pg_core_def)
next
  case (pg_reclaim k)
  have "uxpte_refcnt (pg_entry (pg_shared s) k) = 0" "\<not> IsUxpteUnderReclaim (pg_entry (pg_shared s) k)"
    using pg_reclaim(4) by (auto simp: uxpte_refcnt_def IsUxpteUnderReclaim_def)
  then have "tally (pg_holds k) n (pg_pcs s) = 0" using inv(1) pg_reclaim(3) by (auto simp: pg_inv_def counts_def)
  moreover have "counts UXPTE_UNDER_RECLAIM 0" "\<not> IsUxptePresent UXPTE_UNDER_RECLAIM"
    by (simp_all add: counts_def IsUxpteUnderReclaim_def IsUxptePresent_bit)
  ultimately show ?thesis
    using pg_kernel_sim [OF inv(1) pg_reclaim(3), of UXPTE_UNDER_RECLAIM "pg_bytes (pg_shared s)" lf] pg_reclaim(1,2) by simp
next
  case (pg_reclaimed k bs)
  then have "tally (pg_holds k) n (pg_pcs s) = 0" using inv(1) by (auto simp: pg_inv_def counts_def)
  moreover have "counts 0 0" "\<not> IsUxptePresent 0" by (simp_all add: counts_def uxpte_refcnt_def IsUxptePresent_bit)
  ultimately show ?thesis using pg_kernel_sim [OF inv(1) pg_reclaimed(3), of 0 bs lf] pg_reclaimed(1,2,5) by simp
qed

text \<open>So the threads, page by page, refine the buffer.\<close>

lemma pg_runs_sim:
  assumes "runs (pg_step m lf n) s es s'" "clean es" "pg_inv m n s" "acc_inv n (pg_abs m n s)" "0 < m" "n < 2 ^ 62"
  shows "pg_inv m n s' \<and> acc_inv n (pg_abs m n s') \<and> runs (acc_step lf n) (pg_abs m n s) es (pg_abs m n s')"
  using assms
proof (induction rule: runs.induct)
  case (runs_refl s)
  then show ?case by (simp add: runs.runs_refl)
next
  case (runs_step s es s' es' s'')
  then have c: "clean es'" and i: "pg_inv m n s'" "acc_inv n (pg_abs m n s')" "runs (acc_step lf n) (pg_abs m n s) es (pg_abs m n s')"
    by simp_all
  from pg_step_sim [OF runs_step.hyps(2) c i(1,2) runs_step.prems(4,5)] show ?case
    using i c step_keeps_inv [OF i(2)] runs.runs_step [OF i(3)] by auto
qed

interpretation page_threads: buffer_refinement "pg_step (Suc m) lf n"
  "\<lambda>s. n < 2 ^ 62 \<and> pg_inv (Suc m) n s \<and> acc_inv n (pg_abs (Suc m) n s)" "\<lambda>s. acc_value (a_st (pg_abs (Suc m) n s))"
proof unfold_locales
  fix s es s'
  assume v: "n < 2 ^ 62 \<and> pg_inv (Suc m) n s \<and> acc_inv n (pg_abs (Suc m) n s)" and st: "pg_step (Suc m) lf n s es s'" and c: "clean es"
  have "runs (pg_step (Suc m) lf n) s es s'" using st by (rule runs_one)
  from pg_runs_sim [OF this c] v threads.refines [OF _ _ c] show
    "(n < 2 ^ 62 \<and> pg_inv (Suc m) n s' \<and> acc_inv n (pg_abs (Suc m) n s')) \<and>
     buffer_run (acc_value (a_st (pg_abs (Suc m) n s))) es = Some (acc_value (a_st (pg_abs (Suc m) n s')))" by blast
qed

end
