(* ===== verification/Acc_Live.thy ===== *)
theory Acc_Live
  imports Acc_Inv
begin

text \<open>
  Every access comes to an end: however the threads are scheduled, the loop of \<open>PurgMemBeginRead\<close>
  cannot go round for ever and nobody waits for a lock that is never released.
\<close>

section \<open>Draining\<close>

text \<open>The threads go on, users that were served end their access, and no new access begins.\<close>

definition acc_advance :: "acc_pc \<Rightarrow> acc_st \<Rightarrow> (acc_pc \<times> acc_st) option" where
  "acc_advance pc st =
     (case pc of Reading \<Rightarrow> Some (R_End, st) | Writing \<Rightarrow> Some (W_End, st) | _ \<Rightarrow> acc_next pc st)"

inductive acc_drain :: "nat \<Rightarrow> acc_sys \<Rightarrow> acc_sys \<Rightarrow> bool" for n where
  drain: "i < n \<Longrightarrow> acc_advance (a_pcs s i) (a_st s) = Some (pc', st') \<Longrightarrow> acc_drain n s (move i pc' st' s)"

lemma drain_step: "acc_drain n s s' \<Longrightarrow> acc_step lf n s [] s'"
  by (induction rule: acc_drain.induct)
     (auto simp: acc_advance_def split: acc_pc.splits intro: acc_step.intros)

lemma drain_inv: "acc_drain n s s' \<Longrightarrow> acc_inv n s \<Longrightarrow> acc_inv n s'"
  using step_keeps_inv [OF _ drain_step] clean_simps(1) by blast

section \<open>Nobody is stuck\<close>

lemma holder_advances:
  assumes "has_read pc \<or> has_write pc"
  shows "acc_advance pc st \<noteq> None"
  using assms by (cases "(pc, st)" rule: acc_next.cases) (auto simp: acc_advance_def split: prod.splits)

lemma inv_progress:
  assumes inv: "acc_inv n s" and i: "i < n" "a_pcs s i \<noteq> Out"
  shows "\<exists>s'. acc_drain n s s'"
proof (cases "acc_advance (a_pcs s i) (a_st s)")
  case (Some x)
  then show ?thesis using drain [OF i(1)] by (cases x) auto
next
  case None
  then have "a_writer (a_st s) \<or> a_readers (a_st s) \<noteq> 0"
    using i(2) holder_advances [of "a_pcs s i" "a_st s"] by (cases "a_pcs s i") (auto simp: acc_advance_def split: if_splits)
  then have "0 < tally has_write n (a_pcs s) \<or> 0 < tally has_read n (a_pcs s)"
    using inv by (cases "a_writer (a_st s)") (auto simp: acc_inv_def)
  then obtain j where "j < n" "has_read (a_pcs s j) \<or> has_write (a_pcs s j)" by (auto simp: tally_pos)
  then show ?thesis using holder_advances [of "a_pcs s j" "a_st s"] drain by fastforce
qed

section \<open>The measure\<close>

text \<open>
  How far a thread is from its end, and how many rebuilds the object needs: two if the next one wraps
  the build count to zero, for then the content counts as never built.
\<close>

fun acc_rank :: "nat \<Rightarrow> acc_pc \<Rightarrow> nat" where
  "acc_rank l Out = 0"
| "acc_rank l Put = 1"
| "acc_rank l R_End = 2"
| "acc_rank l W_End = 2"
| "acc_rank l (W_Unlock False) = 2"
| "acc_rank l Reading = 3"
| "acc_rank l Writing = 3"
| "acc_rank l (Replay wr ms) = 4 + length ms"
| "acc_rank l (Clear wr) = 5 + l"
| "acc_rank l (W_Check wr) = 6 + l"
| "acc_rank l (W_Lock wr) = 7 + l"
| "acc_rank l R_Unlock = 8 + l"
| "acc_rank l W_Get = 8 + l"
| "acc_rank l R_Check = 9 + l"
| "acc_rank l R_Lock = 10 + l"
| "acc_rank l R_Get = 11 + l"
| "acc_rank l (W_Unlock True) = 11 + l"

definition builds_due :: "nat \<Rightarrow> acc_sys \<Rightarrow> nat" where
  "builds_due n s =
     (if acc_purged (a_st s) \<or> (\<exists>i < n. rebuilding (a_pcs s i))
      then if a_count (a_st s) + 1 = 0 then 2 else 1 else 0)"

definition acc_weight :: "nat \<Rightarrow> acc_sys \<Rightarrow> nat" where
  "acc_weight n s =
     (let l = length (a_log (a_st s)) in builds_due n s * (n * (12 + l)) + total_rank (acc_rank l) n (a_pcs s))"

text \<open>A step brings its thread nearer to the end, unless it completes a rebuild.\<close>

lemma advance_rank:
  assumes "acc_advance pc st = Some (pc', st')" "knows st pc" "acc_log_ok st" "\<And>wr. pc \<noteq> Replay wr []"
  shows "acc_rank (length (a_log st)) pc' < acc_rank (length (a_log st)) pc"
    "a_log st' = a_log st" "a_count st' = a_count st"
    "rebuilding pc' \<longleftrightarrow> rebuilding pc \<or> (\<exists>wr. pc = Clear wr)" "(\<exists>wr. pc = Clear wr) \<or> acc_purged st' = acc_purged st"
proof -
  have "acc_rank (length (a_log st)) pc' < acc_rank (length (a_log st)) pc \<and> a_log st' = a_log st \<and>
    a_count st' = a_count st \<and> (rebuilding pc' \<longleftrightarrow> rebuilding pc \<or> (\<exists>wr. pc = Clear wr)) \<and>
    ((\<exists>wr. pc = Clear wr) \<or> acc_purged st' = acc_purged st)"
  proof (cases pc)
    case (Replay wr ms)
    then obtain f q ms' where ms: "ms = (f, q) # ms'" using assms(4) by (cases ms) auto
    obtain succ d where d: "f (a_bytes st) q = (succ, d)" by fastforce
    have "succ" using replay_step(1) [OF assms(3) assms(2) [unfolded Replay ms] d] .
    then show ?thesis using assms(1) d by (auto simp: acc_advance_def Replay ms)
  qed (use assms(1) in \<open>auto simp: acc_advance_def split: if_splits bool.splits\<close>)
  then show "acc_rank (length (a_log st)) pc' < acc_rank (length (a_log st)) pc"
    "a_log st' = a_log st" "a_count st' = a_count st"
    "rebuilding pc' \<longleftrightarrow> rebuilding pc \<or> (\<exists>wr. pc = Clear wr)" "(\<exists>wr. pc = Clear wr) \<or> acc_purged st' = acc_purged st"
    by blast+
qed

lemma advance_due:
  assumes inv: "acc_inv n s" and i: "i < n" and st: "acc_advance (a_pcs s i) (a_st s) = Some (pc', st')"
    and no: "\<And>wr. a_pcs s i \<noteq> Replay wr []"
  shows "builds_due n (move i pc' st' s) = builds_due n s"
proof -
  have kn: "knows (a_st s) (a_pcs s i)" "acc_log_ok (a_st s)" using inv i by (simp_all add: acc_inv_def)
  note r = advance_rank [OF st kn no]
  have "acc_purged st' \<or> (\<exists>j < n. rebuilding (((a_pcs s)(i := pc')) j)) \<longleftrightarrow>
      acc_purged (a_st s) \<or> (\<exists>j < n. rebuilding (a_pcs s j))"
  proof (cases "\<exists>wr. a_pcs s i = Clear wr")
    case True
    then have "acc_purged (a_st s)" "rebuilding pc'" using kn(1) r(4) by auto
    then show ?thesis using i by (auto intro!: exI [of _ i])
  next
    case False
    then have "rebuilding (((a_pcs s)(i := pc')) j) = rebuilding (a_pcs s j)" for j using r(4) by simp
    then show ?thesis using False r(5) by blast
  qed
  then show ?thesis using r(3) by (simp add: builds_due_def)
qed

text \<open>A completed rebuild is one less to do.\<close>

lemma rebuild_due:
  assumes inv: "acc_inv n s" and i: "i < n" "a_pcs s i = Replay wr []"
    and st: "acc_advance (a_pcs s i) (a_st s) = Some (pc', st')"
  shows "builds_due n (move i pc' st' s) < builds_due n s" "a_log st' = a_log (a_st s)"
    "acc_rank l pc' \<le> 11 + l"
proof -
  have eq: "st' = (a_st s)\<lparr>a_count := a_count (a_st s) + 1\<rparr>" "pc' = (if wr then Writing else W_Unlock True)"
    using st i(2) by (simp_all add: acc_advance_def)
  have "\<not> rebuilding (a_pcs s j)" if "j < n" "j \<noteq> i" for j
  proof
    assume "rebuilding (a_pcs s j)"
    then have "has_write (a_pcs s j)" by (cases "a_pcs s j") auto
    then show False using write_alone [OF inv i(1) that(1)] i(2) that(2) by simp
  qed
  then have "\<not> (\<exists>j < n. rebuilding (((a_pcs s)(i := pc')) j))" using eq(2) by auto
  moreover have "a_present (a_st s)" "\<exists>j < n. rebuilding (a_pcs s j)" using inv i by (auto simp: acc_inv_def intro!: exI [of _ i])
  ultimately show "builds_due n (move i pc' st' s) < builds_due n s"
    by (auto simp: builds_due_def eq(1) acc_purged_def)
  show "a_log st' = a_log (a_st s)" "acc_rank l pc' \<le> 11 + l" using eq by simp_all
qed

lemma weight_decreases:
  assumes inv: "acc_inv n s" and d: "acc_drain n s s'"
  shows "acc_weight n s' < acc_weight n s" "length (a_log (a_st s')) = length (a_log (a_st s))"
proof -
  obtain i pc' st' where i: "i < n" "acc_advance (a_pcs s i) (a_st s) = Some (pc', st')" "s' = move i pc' st' s"
    using d by (auto elim: acc_drain.cases)
  let ?l = "length (a_log (a_st s))"
  note sum = total_rank_upd [OF i(1), of "acc_rank ?l" "a_pcs s" pc']
  have "acc_weight n s' < acc_weight n s \<and> a_log st' = a_log (a_st s)"
  proof (cases "\<exists>wr. a_pcs s i = Replay wr []")
    case True
    then obtain wr where wr: "a_pcs s i = Replay wr []" by blast
    note r = rebuild_due [OF inv i(1) wr i(2)]
    let ?u = "n * (12 + ?l)"
    have "Suc (builds_due n s') \<le> builds_due n s" using r(1) i(3) by simp
    then have "Suc (builds_due n s') * ?u \<le> builds_due n s * ?u" by (rule mult_le_mono1)
    then have "builds_due n s' * ?u + ?u \<le> builds_due n s * ?u" by (simp only: mult_Suc add.commute)
    moreover have "12 + ?l \<le> ?u" using i(1) by (cases n) auto
    ultimately have "builds_due n s' * ?u + (12 + ?l) \<le> builds_due n s * ?u" by linarith
    then show ?thesis using sum r(2) r(3) [of ?l] i(3) by (simp add: acc_weight_def Let_def)
  next
    case False
    have kn: "knows (a_st s) (a_pcs s i)" "acc_log_ok (a_st s)" using inv i by (simp_all add: acc_inv_def)
    show ?thesis
      using advance_rank(1,2) [OF i(2) kn] advance_due [OF inv i(1,2)] False sum i(3)
      by (simp add: acc_weight_def Let_def)
  qed
  then show "acc_weight n s' < acc_weight n s" "length (a_log (a_st s')) = length (a_log (a_st s))"
    using i(3) by simp_all
qed

lemma replay_short:
  assumes "acc_inv n s" "i < n"
  shows "acc_rank (length (a_log (a_st s))) (a_pcs s i) \<le> 11 + length (a_log (a_st s))"
proof -
  have "knows (a_st s) (a_pcs s i)" using assms by (simp add: acc_inv_def)
  then show ?thesis by (cases "(length (a_log (a_st s)), a_pcs s i)" rule: acc_rank.cases) auto
qed

lemma weight_bound:
  assumes "acc_inv n s"
  shows "acc_weight n s \<le> 3 * n * (12 + length (a_log (a_st s)))"
proof -
  let ?l = "length (a_log (a_st s))"
  have "builds_due n s \<le> 2" by (simp add: builds_due_def)
  then have "builds_due n s * (n * (12 + ?l)) \<le> 2 * (n * (12 + ?l))" by (rule mult_le_mono1)
  moreover have "total_rank (acc_rank ?l) n (a_pcs s) \<le> n * (11 + ?l)"
    using replay_short [OF assms] by (rule total_rank_le)
  moreover have "n * (11 + ?l) \<le> n * (12 + ?l)" by (rule mult_le_mono2) simp
  ultimately show ?thesis unfolding acc_weight_def Let_def by linarith
qed

lemma drain_weight:
  assumes "(acc_drain n ^^ k) s s'" "acc_inv n s"
  shows "acc_inv n s' \<and> k + acc_weight n s' \<le> acc_weight n s"
  using assms
proof (induction k arbitrary: s')
  case 0
  then show ?case by simp
next
  case (Suc k)
  then obtain s1 where s1: "(acc_drain n ^^ k) s s1" "acc_drain n s1 s'" by auto
  from Suc.IH [OF s1(1) Suc.prems(2)] have "acc_inv n s1" "k + acc_weight n s1 \<le> acc_weight n s" by simp_all
  then show ?case using weight_decreases(1) [OF _ s1(2)] drain_inv [OF s1(2)] by fastforce
qed

end
