(* ===== verification/Acc_Page_Live.thy ===== *)
theory Acc_Page_Live
  imports Acc_Pages Acc_Live
begin

text \<open>
  On the entries, too, every access comes to an end: a loop over the entries is bounded by the pages of the
  object, the loop on one entry goes round again only when another thread has got its own through, and
  what these steps do together is one step of \<open>Acc_Live\<close>.
\<close>

definition pg_advance :: "nat \<Rightarrow> pg_pc \<Rightarrow> pg_st \<Rightarrow> (pg_pc \<times> pg_st) option" where
  "pg_advance m pc st =
     (if pc = At Reading then Some (At R_End, st) else if pc = At Writing then Some (At W_End, st) else pg_next m pc st)"

inductive pg_drain :: "nat \<Rightarrow> nat \<Rightarrow> pg_sys \<Rightarrow> pg_sys \<Rightarrow> bool" for m n where
  pg_drain: "i < n \<Longrightarrow> \<not> loses_pin (pg_pcs s i) (pg_shared s) \<Longrightarrow>
    pg_advance m (pg_pcs s i) (pg_shared s) = Some (pc', st') \<Longrightarrow> pg_drain m n s (pg_move i pc' st' s)"

definition pg_good :: "nat \<Rightarrow> nat \<Rightarrow> pg_sys \<Rightarrow> bool" where
  "pg_good m n s \<longleftrightarrow> 0 < m \<and> n < 2 ^ 62 \<and> pg_inv m n s \<and> acc_inv n (pg_abs m n s)"

lemma pg_drain_step: "pg_drain m n s s' \<Longrightarrow> pg_step m lf n s [] s'"
proof (induction rule: pg_drain.induct)
  case (pg_drain i s pc' st')
  then show ?case using pg_run [of i n m s pc' st' lf] by (auto simp: pg_advance_def split: if_splits intro: pg_step.intros)
qed

lemma pg_drain_good:
  assumes "pg_drain m n s s'" "pg_good m n s"
  shows "pg_good m n s'"
  using pg_runs_sim [OF runs_one [of "pg_step m True n", OF pg_drain_step [OF assms(1)]]] assms(2) by (simp add: pg_good_def)

section \<open>Steps and their summaries\<close>

abbreviation "entries_left m n s \<equiv> total_rank (pg_rank m) n (pg_pcs s)"

abbreviation "rounds_left n s \<equiv> total_rank (cas_rank (pg_entry (pg_shared s))) n (pg_pcs s)"

lemma pg_rank_le: "pg_rank m pc \<le> Suc m"
  by (cases pc) auto

lemma cas_rank_le: "cas_rank e pc \<le> 3"
  by (induction e pc rule: cas_rank.induct) auto

lemma pg_drain_sim:
  assumes g: "pg_good m n s" and d: "pg_drain m n s s'"
  shows "pg_abs m n s' = pg_abs m n s \<and>
      (entries_left m n s' < entries_left m n s \<or> entries_left m n s' = entries_left m n s \<and> rounds_left n s' < rounds_left n s) \<or>
    acc_drain n (pg_abs m n s) (pg_abs m n s') \<and> entries_left m n s' \<le> entries_left m n s + Suc m"
proof -
  obtain i pc' st' where i: "i < n" "\<not> loses_pin (pg_pcs s i) (pg_shared s)"
    "pg_advance m (pg_pcs s i) (pg_shared s) = Some (pc', st')" "s' = pg_move i pc' st' s"
    using d by (auto elim: pg_drain.cases)
  let ?pc = "pg_pcs s i" and ?st = "pg_shared s"
  note sum = total_rank_upd [OF i(1), of "pg_rank m" "pg_pcs s" pc']
    and rounds = total_rank_upd [OF i(1), of "cas_rank (pg_entry ?st)" "pg_pcs s" pc']
  have le: "entries_left m n s' \<le> entries_left m n s + Suc m" using sum pg_rank_le [of m pc'] i(4) by simp
  have kn: "pg_knows m ?st ?pc" "pg_inv m n s" "n < 2 ^ 62" using g i(1) by (simp_all add: pg_good_def pg_inv_def)
  have pos: "has_pin (abs_pc ?pc) \<Longrightarrow> 0 < pg_pins n s" using i(1) by (auto simp: tally_pos)
  have step: "acc_drain n (pg_abs m n s) (pg_abs m n s')"
    if "acc_advance (abs_pc ?pc) ((pg_core m ?st)\<lparr>a_pins := pg_pins n s\<rparr>) = Some (abs_pc pc', (pg_core m st')\<lparr>a_pins := k'\<rparr>)"
      "k' + of_bool (has_pin (abs_pc ?pc)) = pg_pins n s + of_bool (has_pin (abs_pc pc'))" for k'
  proof -
    have "k' = pg_pins n s'" using pins_move [OF i(1), of pc' st' s] that(2) unfolding i(4) by linarith
    then have "acc_advance (a_pcs (pg_abs m n s) i) (a_st (pg_abs m n s)) = Some (abs_pc pc', (pg_core m st')\<lparr>a_pins := pg_pins n s'\<rparr>)"
      using that(1) by simp
    from drain [OF i(1) this] show ?thesis unfolding i(4) abs_move .
  qed
  consider "?pc = At Reading" "pc' = At R_End" "st' = ?st" | "?pc = At Writing" "pc' = At W_End" "st' = ?st" |
    "pg_next m ?pc ?st = Some (pc', st')"
    using i(3) unfolding pg_advance_def by (cases "?pc = At Reading"; cases "?pc = At Writing") simp_all
  then show ?thesis
  proof cases
    case 3
    have adv: "acc_advance (abs_pc ?pc) st = acc_next (abs_pc ?pc) st" if "acc_next (abs_pc ?pc) st \<noteq> None" for st
      using that by (cases "abs_pc ?pc") (auto simp: acc_advance_def)
    consider (same) "abs_pc pc' = abs_pc ?pc" "pg_core m st' = pg_core m ?st"
        "pg_rank m pc' < pg_rank m ?pc \<or>
         pg_rank m pc' = pg_rank m ?pc \<and> st' = ?st \<and> cas_rank (pg_entry ?st) pc' < cas_rank (pg_entry ?st) ?pc" |
      (steps) k' where "acc_next (abs_pc ?pc) ((pg_core m ?st)\<lparr>a_pins := pg_pins n s\<rparr>) = Some (abs_pc pc', (pg_core m st')\<lparr>a_pins := k'\<rparr>)"
        "k' + of_bool (has_pin (abs_pc ?pc)) = pg_pins n s + of_bool (has_pin (abs_pc pc'))"
      using pg_next_abs [OF 3 kn(1) i(2) pg_inv_holders [OF kn(2,3) i(1)], of "pg_pins n s"] pos by blast
    then show ?thesis
    proof cases
      case same
      then show ?thesis using abs_same [OF i(1)] sum rounds i(4) by auto
    next
      case steps
      then show ?thesis using step adv le by simp
    qed
  qed (use step [of "pg_pins n s"] le in \<open>simp_all add: acc_advance_def\<close>)
qed

section \<open>The bound\<close>

definition pg_outer :: "nat \<Rightarrow> nat \<Rightarrow> pg_sys \<Rightarrow> nat" where
  "pg_outer m n s = acc_weight n (pg_abs m n s) * (m + 2) + entries_left m n s"

definition pg_weight :: "nat \<Rightarrow> nat \<Rightarrow> pg_sys \<Rightarrow> nat" where
  "pg_weight m n s = pg_outer m n s * (3 * n + 1) + rounds_left n s"

lemma pg_outer_decreases:
  assumes g: "pg_good m n s" and d: "pg_drain m n s s'"
  shows "pg_outer m n s' < pg_outer m n s \<or> pg_outer m n s' = pg_outer m n s \<and> rounds_left n s' < rounds_left n s"
  using pg_drain_sim [OF assms]
proof
  assume a: "acc_drain n (pg_abs m n s) (pg_abs m n s') \<and> entries_left m n s' \<le> entries_left m n s + Suc m"
  then have "Suc (acc_weight n (pg_abs m n s')) \<le> acc_weight n (pg_abs m n s)"
    using weight_decreases(1) [of n "pg_abs m n s"] g by (simp add: pg_good_def Suc_leI)
  then have "Suc (acc_weight n (pg_abs m n s')) * (m + 2) \<le> acc_weight n (pg_abs m n s) * (m + 2)" by (rule mult_le_mono1)
  then show ?thesis using a by (simp add: pg_outer_def)
qed (auto simp: pg_outer_def)

lemma rounds_left_le: "rounds_left n s \<le> 3 * n"
  using total_rank_le [of n "cas_rank (pg_entry (pg_shared s))" "pg_pcs s" 3] cas_rank_le by (simp add: mult.commute)

lemma pg_weight_decreases:
  assumes g: "pg_good m n s" and d: "pg_drain m n s s'"
  shows "pg_weight m n s' < pg_weight m n s"
  using pg_outer_decreases [OF assms]
proof
  assume "pg_outer m n s' < pg_outer m n s"
  then have "Suc (pg_outer m n s') * (3 * n + 1) \<le> pg_outer m n s * (3 * n + 1)" by (intro mult_le_mono1) simp
  then show ?thesis using rounds_left_le [of s' n] by (simp add: pg_weight_def)
qed (simp add: pg_weight_def)

lemma pg_weight_bound:
  assumes "pg_good m n s"
  shows "pg_weight m n s \<le> n * (36 + 3 * length (pg_log (pg_shared s)) + 1) * (m + 2) * (3 * n + 1) + 3 * n"
proof -
  let ?l = "length (pg_log (pg_shared s))"
  have "length (a_log (a_st (pg_abs m n s))) = ?l" by (simp add: pg_core_def)
  then have "acc_weight n (pg_abs m n s) \<le> n * (36 + 3 * ?l)"
    using weight_bound [of n "pg_abs m n s"] assms by (simp add: pg_good_def algebra_simps)
  then have "acc_weight n (pg_abs m n s) * (m + 2) \<le> n * (36 + 3 * ?l) * (m + 2)" by (rule mult_le_mono1)
  moreover have "entries_left m n s \<le> n * (m + 2)"
    using pg_rank_le [of m] by (intro total_rank_le) (simp add: le_Suc_eq)
  ultimately have "pg_outer m n s \<le> n * (36 + 3 * ?l + 1) * (m + 2)" by (simp add: pg_outer_def algebra_simps)
  then have "pg_outer m n s * (3 * n + 1) \<le> n * (36 + 3 * ?l + 1) * (m + 2) * (3 * n + 1)" by (rule mult_le_mono1)
  then show ?thesis using rounds_left_le [of s n] by (simp add: pg_weight_def)
qed

lemma pg_drain_weight:
  assumes "(pg_drain m n ^^ k) s s'" "pg_good m n s"
  shows "pg_good m n s' \<and> k + pg_weight m n s' \<le> pg_weight m n s"
  using assms
proof (induction k arbitrary: s')
  case (Suc k)
  then obtain s1 where s1: "(pg_drain m n ^^ k) s s1" "pg_drain m n s1 s'" by auto
  from Suc.IH [OF s1(1) Suc.prems(2)] have i: "pg_good m n s1" "k + pg_weight m n s1 \<le> pg_weight m n s" by simp_all
  then show ?case using pg_weight_decreases [OF i(1) s1(2)] pg_drain_good [OF s1(2) i(1)] by simp
qed simp

section \<open>Nobody is stuck\<close>

lemma pg_advances:
  assumes "acc_advance (abs_pc pc) ((pg_core m st)\<lparr>a_pins := k\<rparr>) \<noteq> None" "pg_knows m st pc"
  shows "pg_advance m pc st \<noteq> None"
proof (cases pc)
  case (At c)
  have c: "c \<notin> {R_Get, W_Get, Put}" using assms(2) by (simp add: At)
  show ?thesis
  proof (cases "c \<in> {Reading, Writing}")
    case False
    then have "acc_next c ((pg_core m st)\<lparr>a_pins := k\<rparr>) \<noteq> None"
      using assms(1) by (cases c) (auto simp: At acc_advance_def)
    then have "acc_next c (pg_core m st) \<noteq> None"
      using next_inner(1) [of c "(pg_core m st)\<lparr>a_pins := k\<rparr>" _ _ 0] c by (auto simp: pg_core_def)
    then show ?thesis using False by (auto simp: At pg_advance_def)
  qed (auto simp: At pg_advance_def)
qed (simp_all add: pg_advance_def split: prod.split)

lemma pg_progress:
  assumes g: "pg_good m n s" and i: "i < n" "pg_pcs s i \<noteq> At Out"
    and nl: "\<And>j. j < n \<Longrightarrow> \<not> loses_pin (pg_pcs s j) (pg_shared s)"
  shows "\<exists>s'. pg_drain m n s s'"
proof -
  have ex: "\<exists>s'. pg_drain m n s s'" if "j < n" "pg_advance m (pg_pcs s j) (pg_shared s) \<noteq> None" for j
    using that pg_drain [of j n s m] nl by fastforce
  have kn: "pg_knows m (pg_shared s) (pg_pcs s j)" if "j < n" for j using g that by (simp add: pg_good_def pg_inv_def)
  show ?thesis
  proof (cases "abs_pc (pg_pcs s i) = Out")
    case True
    then have "pg_advance m (pg_pcs s i) (pg_shared s) \<noteq> None" using i(2) kn [OF i(1)] by (cases "pg_pcs s i") (auto simp: pg_advance_def split: if_splits prod.splits)
    then show ?thesis using ex i(1) by blast
  next
    case False
    then obtain a where "acc_drain n (pg_abs m n s) a" using inv_progress [of n "pg_abs m n s" i] g i(1) by (auto simp: pg_good_def)
    then obtain j where j: "j < n" "acc_advance (abs_pc (pg_pcs s j)) ((pg_core m (pg_shared s))\<lparr>a_pins := pg_pins n s\<rparr>) \<noteq> None"
      by (auto elim: acc_drain.cases)
    then show ?thesis using ex pg_advances kn by blast
  qed
qed

end
