(* ===== verification/Acc_Code.thy ===== *)
theory Acc_Code
  imports Acc_Inv
begin

text \<open>
  The threads run the code: alone, the control points of a thread compute what the operations on
  the object compute in memory.
\<close>

section \<open>The shared state of an object\<close>

text \<open>\<open>k\<close>: the accesses that pin the object. Without kernel support every page counts as present.\<close>

definition acc_of :: "nat \<Rightarrow> world \<Rightarrow> UxPageTableStruct \<Rightarrow> PurgMem \<Rightarrow> byte list \<Rightarrow> mod_step list \<Rightarrow> acc_st" where
  "acc_of k w t ob bs xs =
     \<lparr>a_readers = rl_readers (rwlock ob), a_writer = rl_writer (rwlock ob), a_pins = k,
      a_present = (g_supportUxpt (ux w) \<longrightarrow> all_present t (ptes (ux w))),
      a_count = buildDataCount ob, a_bytes = content_of ob bs, a_log = xs\<rparr>"

lemma acc_of_purged:
  "acc_purged (acc_of k w t ob bs xs) = purged (g_supportUxpt (ux w)) t ob (ptes (ux w))"
  by (auto simp: acc_purged_def acc_of_def purged_def)

text \<open>An object whose content and log agree is an object at rest.\<close>

lemma content_ok_rest:
  assumes "content_ok w p t ob bs xs c" "lock_free ob"
  shows "acc_rest n \<lparr>a_st = acc_of 0 w t ob bs xs, a_pcs = (\<lambda>_. Out)\<rparr>"
    "acc_value (acc_of 0 w t ob bs xs) = c"
proof -
  have rdy: "obj_ready w p t ob bs xs" and run: "run_steps xs (zeros ob) = (True, c)"
    using assms(1) by (simp_all add: content_ok_def)
  then have "obj_view w p t w ob bs (ptes (ux w))" by (simp add: obj_ready_def)
  then have z: "replicate (length (content_of ob bs)) 0 = zeros ob"
    using geometry_size(2) [of t ob] by (simp add: obj_view_def zeros_def)
  show v: "acc_value (acc_of 0 w t ob bs xs) = c" using run by (simp add: acc_value_def acc_of_def z del: length_take)
  have "acc_log_ok (acc_of 0 w t ob bs xs)"
    using run rdy by (simp add: acc_log_ok_def acc_of_def z obj_ready_def del: length_take)
  then show "acc_rest n \<lparr>a_st = acc_of 0 w t ob bs xs, a_pcs = (\<lambda>_. Out)\<rparr>"
    using assms v by (simp add: acc_rest_def acc_of_purged content_ok_def) (simp add: acc_of_def lock_free_def)
qed

section \<open>A thread on its own\<close>

definition acc_alone :: "acc_pc \<times> acc_st \<Rightarrow> acc_pc \<times> acc_st \<Rightarrow> bool" where
  "acc_alone x y \<longleftrightarrow> acc_next (fst x) (snd x) = Some y"

lemma alone_step:
  "(case acc_next pc s of None \<Rightarrow> False | Some y \<Rightarrow> acc_alone\<^sup>*\<^sup>* y z) \<Longrightarrow> acc_alone\<^sup>*\<^sup>* (pc, s) z"
  by (auto split: option.splits intro: converse_rtranclp_into_rtranclp [of acc_alone "(pc, s)"] simp: acc_alone_def)

text \<open>Where a rebuild ends, and the state spelled out field by field.\<close>

definition build_pc :: "bool \<Rightarrow> bool \<Rightarrow> acc_pc" where
  "build_pc wr b = (if \<not> b then W_Unlock False else if wr then Writing else W_Unlock True)"

abbreviation st_of :: "nat \<Rightarrow> bool \<Rightarrow> nat \<Rightarrow> bool \<Rightarrow> c_uint \<Rightarrow> byte list \<Rightarrow> mod_step list \<Rightarrow> acc_st" where
  "st_of r w k pr ct bs lg \<equiv>
     \<lparr>a_readers = r, a_writer = w, a_pins = k, a_present = pr, a_count = ct, a_bytes = bs, a_log = lg\<rparr>"

lemma alone_replay:
  "run_steps ms bs = (b, c) \<Longrightarrow>
   acc_alone\<^sup>*\<^sup>* (Replay wr ms, st_of r w k pr ct bs lg) (build_pc wr b, st_of r w k pr (ct + of_bool b) c lg)"
proof (induction ms arbitrary: bs)
  case Nil
  then show ?case by (intro alone_step) (auto simp: build_pc_def)
next
  case (Cons m ms)
  obtain f q where m: "m = (f, q)" by fastforce
  obtain succ d where d: "f bs q = (succ, d)" by fastforce
  show ?case
  proof (cases succ)
    case True
    then show ?thesis using Cons.IH [of d] Cons.prems d by (intro alone_step) (simp add: m)
  next
    case False
    then have "b = False" "c = d" using Cons.prems d by (simp_all add: m)
    then show ?thesis using False d by (intro alone_step) (simp add: m build_pc_def)
  qed
qed

text \<open>From the exclusive lock to the end of the rebuild.\<close>

lemma alone_build:
  assumes "ct = 0 \<or> \<not> pr" "run_steps lg (replicate (length bs) 0) = (b, c)"
  shows "acc_alone\<^sup>*\<^sup>* (W_Check wr, st_of r w k pr ct bs lg) (build_pc wr b, st_of r w k True (ct + of_bool b) c lg)"
  using alone_replay [OF assms(2), of wr r w k True ct lg]
  by - (rule alone_step, simp add: acc_purged_def assms(1) split del: split_of_bool)+

text \<open>
  How an access ends for a thread on its own: \<open>pc\<close> and \<open>r\<close>, \<open>w\<close> are the control point and the lock
  of an access that is granted.
\<close>

definition alone_end :: "acc_pc \<Rightarrow> nat \<Rightarrow> bool \<Rightarrow> bool \<Rightarrow> byte list \<Rightarrow> acc_st \<Rightarrow> acc_pc \<times> acc_st" where
  "alone_end pc r w b c s =
     (if \<not> acc_purged s then (pc, s\<lparr>a_readers := r, a_writer := w, a_pins := Suc (a_pins s)\<rparr>)
      else if b then (pc, s\<lparr>a_readers := r, a_writer := w, a_pins := Suc (a_pins s), a_present := True,
                           a_count := a_count s + 1, a_bytes := c\<rparr>)
      else (Out, s\<lparr>a_present := True, a_bytes := c\<rparr>))"

lemma alone_read:
  assumes free: "a_readers s = 0" "\<not> a_writer s" and cnt: "a_count s + 1 \<noteq> 0"
    and run: "run_steps (a_log s) (replicate (length (a_bytes s)) 0) = (b, c)"
  shows "acc_alone\<^sup>*\<^sup>* (R_Get, s) (alone_end Reading 1 False b c s)"
proof -
  obtain k pr ct bs lg where s: "s = st_of 0 False k pr ct bs lg" using free by (cases s) auto
  have pre: "acc_alone\<^sup>*\<^sup>* (R_Get, s) (R_Check, st_of 1 False (Suc k) pr ct bs lg)"
    unfolding s by (rule alone_step, simp)+
  show ?thesis
  proof (cases "ct = 0 \<or> \<not> pr")
    case False
    then have "acc_alone (R_Check, st_of 1 False (Suc k) pr ct bs lg) (Reading, st_of 1 False (Suc k) pr ct bs lg)"
      by (simp add: acc_alone_def acc_purged_def)
    then show ?thesis using pre False by (simp add: s alone_end_def acc_purged_def)
  next
    case True
    let ?s = "st_of 0 True (Suc k) True (ct + of_bool b) c lg"
    have "acc_alone\<^sup>*\<^sup>* (R_Check, st_of 1 False (Suc k) pr ct bs lg) (W_Check False, st_of 0 True (Suc k) pr ct bs lg)"
      by (rule alone_step, simp add: acc_purged_def True)+
    moreover have "acc_alone\<^sup>*\<^sup>* (W_Check False, st_of 0 True (Suc k) pr ct bs lg) (build_pc False b, ?s)"
      using alone_build [OF True, of lg bs b c False] run s by simp
    moreover have "acc_alone\<^sup>*\<^sup>* (build_pc False b, ?s) (alone_end Reading 1 False b c s)"
      using True cnt unfolding s
      by (cases b) (simp_all add: build_pc_def alone_end_def acc_purged_def, (rule alone_step, simp add: acc_purged_def)+)
    ultimately show ?thesis using pre by (metis rtranclp_trans)
  qed
qed

lemma alone_write:
  assumes free: "a_readers s = 0" "\<not> a_writer s"
    and run: "run_steps (a_log s) (replicate (length (a_bytes s)) 0) = (b, c)"
  shows "acc_alone\<^sup>*\<^sup>* (W_Get, s) (alone_end Writing 0 True b c s)"
proof -
  obtain k pr ct bs lg where s: "s = st_of 0 False k pr ct bs lg" using free by (cases s) auto
  have pre: "acc_alone\<^sup>*\<^sup>* (W_Get, s) (W_Check True, st_of 0 True (Suc k) pr ct bs lg)"
    unfolding s by (rule alone_step, simp)+
  show ?thesis
  proof (cases "ct = 0 \<or> \<not> pr")
    case False
    then have "acc_alone (W_Check True, st_of 0 True (Suc k) pr ct bs lg) (Writing, st_of 0 True (Suc k) pr ct bs lg)"
      by (simp add: acc_alone_def acc_purged_def)
    then show ?thesis using pre False by (simp add: s alone_end_def acc_purged_def)
  next
    case True
    let ?s = "st_of 0 True (Suc k) True (ct + of_bool b) c lg"
    have "acc_alone\<^sup>*\<^sup>* (W_Check True, st_of 0 True (Suc k) pr ct bs lg) (build_pc True b, ?s)"
      using alone_build [OF True, of lg bs b c True] run s by simp
    moreover have "acc_alone\<^sup>*\<^sup>* (build_pc True b, ?s) (alone_end Writing 0 True b c s)"
      using True unfolding s
      by (cases b) (simp_all add: build_pc_def alone_end_def acc_purged_def, (rule alone_step, simp)+)
    ultimately show ?thesis using pre by (metis rtranclp_trans)
  qed
qed

section \<open>The operations in memory\<close>

text \<open>What a begin operation leaves in memory is what the thread computes.\<close>

lemma outcome_alone_end:
  assumes rdy: "obj_ready w p t ob bs xs" and free: "lock_free ob"
    and run: "run_steps xs (zeros ob) = (b, c)"
    and out: "begin_outcome grant w p t ob bs b c w'"
    and grant: "\<And>x. grant x = x\<lparr>rwlock := \<lparr>rl_readers = r, rl_writer = wr\<rparr>\<rparr>"
  defines "ok \<equiv> \<not> purged (g_supportUxpt (ux w)) t ob (ptes (ux w)) \<or> b"
  shows "\<exists>ob' bs'. obj_ready w' p t ob' bs' xs \<and>
    alone_end pc r wr b c (acc_of k w t ob bs xs) =
      (if ok then pc else Out, acc_of (if ok then Suc k else k) w' t ob' bs' xs)"
proof -
  let ?supp = "g_supportUxpt (ux w)" and ?m = "ptes (ux w)"
  have v: "obj_view w p t w ob bs ?m" using rdy by (simp add: obj_ready_def)
  have "length (snd (run_steps xs (zeros ob))) = length (zeros ob)"
    using rdy by (intro run_steps_length) (auto simp: obj_ready_def)
  then have c: "content_of ob (rebuilt ob c bs) = c" using run by (intro content_rebuilt) (simp add: zeros_def)
  have lk: "rl_readers (rwlock ob) = 0" "\<not> rl_writer (rwlock ob)" using free by (simp_all add: lock_free_def)
  have pres: "?supp \<Longrightarrow> all_present t (touch (\<lambda>v. v OR 1) (obj_slots t) (pinned_entries ?supp t ?m))"
    using view_pin [OF v, of undefined] all_present_touched by (fastforce simp: pinned_entries_def)
  consider "\<not> purged ?supp t ob ?m" | "purged ?supp t ob ?m" b | "purged ?supp t ob ?m" "\<not> b" by blast
  then show ?thesis
  proof cases
    case 1
    then have v': "obj_view w p t w' (grant ob) bs (pinned_entries ?supp t ?m)"
      using out by (simp add: begin_outcome_def Let_def)
    then have "obj_ready w' p t (grant ob) bs xs" by (rule ready_view [OF rdy]) (simp add: grant)
    moreover have "ptes (ux w') = pinned_entries ?supp t ?m" "g_supportUxpt (ux w') = ?supp" using v' by (simp_all add: obj_view_def)
    ultimately show ?thesis
      using 1 by (intro exI [of _ "grant ob"] exI [of _ bs])
        (simp add: ok_def alone_end_def acc_of_purged, simp add: acc_of_def grant pinned_entries_def)
  next
    case 2
    let ?ob = "grant (count_build True ob)"
    have v': "obj_view w p t w' ?ob (rebuilt ob c bs) (rebuilt_entries ?supp t ?m)"
      using out 2 by (simp add: begin_outcome_def Let_def)
    then have "obj_ready w' p t ?ob (rebuilt ob c bs) xs" by (rule ready_view [OF rdy]) (simp add: grant count_build_def)
    moreover have "ptes (ux w') = rebuilt_entries ?supp t ?m" "g_supportUxpt (ux w') = ?supp" using v' by (simp_all add: obj_view_def)
    ultimately show ?thesis
      using 2 c pres by (intro exI [of _ ?ob] exI [of _ "rebuilt ob c bs"])
        (simp add: ok_def alone_end_def acc_of_purged, simp add: acc_of_def grant count_build_def rebuilt_entries_def)
  next
    case 3
    have v': "obj_view w p t w' ob (rebuilt ob c bs) (pin_all ?supp uxpte_dec t (rebuilt_entries ?supp t ?m))"
      using out 3 by (simp add: begin_outcome_def Let_def)
    then have "obj_ready w' p t ob (rebuilt ob c bs) xs" by (rule ready_view [OF rdy]) simp
    moreover have "ptes (ux w') = pin_all ?supp uxpte_dec t (rebuilt_entries ?supp t ?m)" "g_supportUxpt (ux w') = ?supp"
      using v' by (simp_all add: obj_view_def)
    ultimately show ?thesis
      using 3 c pres lk by (intro exI [of _ ob] exI [of _ "rebuilt ob c bs"])
        (simp add: ok_def alone_end_def acc_of_purged, simp add: acc_of_def rebuilt_entries_def)
  qed
qed

lemma acc_of_run:
  assumes "obj_ready w p t ob bs xs" "run_steps xs (zeros ob) = (b, c)"
  shows "run_steps (a_log (acc_of k w t ob bs xs)) (replicate (length (a_bytes (acc_of k w t ob bs xs))) 0) = (b, c)"
proof -
  have "unat (dataSizeInput ob) \<le> length bs"
    using assms(1) geometry_size(2) [of t ob] by (simp add: obj_ready_def obj_view_def)
  then show ?thesis using assms(2) by (simp add: acc_of_def zeros_def min_def)
qed

text \<open>The steps that end an access compute what \<open>PurgMemEndWrite\<close> and \<open>PurgMemEndRead\<close> do.\<close>

lemma threads_run_end_write:
  assumes rdy: "obj_ready w p t ob bs xs" and os: "locks_ok os" and wr: "rl_writer (rwlock ob)"
  shows "\<exists>w'. PurgMemEndWrite (calm os) p w = Some w' \<and>
    acc_alone\<^sup>*\<^sup>* (W_End, acc_of (Suc k) w t ob bs xs) (Out, acc_of k w' t (set_writer False ob) bs xs)"
proof -
  have v: "obj_view w p t w ob bs (ptes (ux w))" "builder ob \<noteq> NULL" using rdy by (simp_all add: obj_ready_def)
  obtain w' where w': "EndAccessPurgMem (calm os) p w = Some w'"
    "obj_view w p t w' (set_writer False ob) bs (pin_all (g_supportUxpt (ux w)) uxpte_dec t (ptes (ux w)))"
    using EndAccess_writer [OF v os wr] by blast
  have "acc_alone\<^sup>*\<^sup>* (W_End, acc_of (Suc k) w t ob bs xs) (Out, acc_of k w' t (set_writer False ob) bs xs)"
    using w'(2) by (intro alone_step, simp, intro alone_step) (simp add: acc_of_def obj_view_def)
  then show ?thesis using w'(1) by (simp add: PurgMemEndWrite_def)
qed

lemma threads_run_end_read:
  assumes rdy: "obj_ready w p t (add_reader ob) bs xs" and os: "locks_ok os" and wr: "\<not> rl_writer (rwlock ob)"
  shows "\<exists>w'. PurgMemEndRead (calm os) p w = Some w' \<and>
    acc_alone\<^sup>*\<^sup>* (R_End, acc_of (Suc k) w t (add_reader ob) bs xs) (Out, acc_of k w' t ob bs xs)"
proof -
  have v: "obj_view w p t w (add_reader ob) bs (ptes (ux w))" "builder ob \<noteq> NULL" using rdy by (simp_all add: obj_ready_def)
  obtain w' where w': "EndAccessPurgMem (calm os) p w = Some w'"
    "obj_view w p t w' ob bs (pin_all (g_supportUxpt (ux w)) uxpte_dec t (ptes (ux w)))"
    using EndAccess_reader [OF v os wr] by blast
  have "acc_alone\<^sup>*\<^sup>* (R_End, acc_of (Suc k) w t (add_reader ob) bs xs) (Out, acc_of k w' t ob bs xs)"
    using w'(2) by (intro alone_step, simp, intro alone_step) (simp add: acc_of_def obj_view_def)
  then show ?thesis using w'(1) by (simp add: PurgMemEndRead_def)
qed

text \<open>A modification step is what \<open>PurgMemAppendModify\<close> does when there is memory for the log.\<close>

lemma threads_run_modify:
  assumes rdy: "obj_ready w p t ob bs xs" and os: "touch_ok os t" and pres: "all_present t (ptes (ux w))"
    and f: "in_buffer f" "f (content_of ob bs) q = (True, d)"
    and new: "os_malloc os (Suc (now w)) \<noteq> NULL" "builders w (os_malloc os (Suc (now w))) = None"
  shows "\<exists>w' bs'. PurgMemAppendModify (calm os) p (Some f) q w = Some (True, w') \<and> obj_ready w' p t ob bs' (xs @ [(f, q)]) \<and>
       acc_of k w' t ob bs' (xs @ [(f, q)]) = (acc_of k w t ob bs xs)\<lparr>a_bytes := d, a_log := xs @ [(f, q)]\<rparr>"
proof -
  have lg: "obj_logged w p t ob bs xs" "builder ob \<noteq> NULL" using rdy by (simp_all add: obj_ready_logged)
  obtain w' where w': "PurgMemAppendModify (calm os) p (Some f) q w = Some (True, w')"
    "obj_ready w' p t ob (rebuilt ob d bs) (xs @ [(f, q)])"
    "obj_view (w\<lparr>builders := builders w'\<rparr>) p t w' ob (rebuilt ob d bs) (touch (\<lambda>v. v OR 1) (obj_slots t) (ptes (ux w)))"
    using AppendModify_logs [OF lg(1) os f refl new] lg(2) by (auto simp: first_builder_def)
  have "length (snd (f (content_of ob bs) q)) = length (content_of ob bs)" using f(1) unfolding in_buffer_def by blast
  then have "length d = unat (dataSizeInput ob)"
    using f(2) rdy geometry_size(2) [of t ob] by (simp add: obj_ready_def obj_view_def)
  then have c: "content_of ob (rebuilt ob d bs) = d" by (rule content_rebuilt)
  have "g_supportUxpt (ux w) \<Longrightarrow> all_present t (touch (\<lambda>v. v OR 1) (obj_slots t) (ptes (ux w)))"
    using all_present_touched rdy by (auto simp: obj_ready_def)
  then have "acc_of k w' t ob (rebuilt ob d bs) (xs @ [(f, q)]) = (acc_of k w t ob bs xs)\<lparr>a_bytes := d, a_log := xs @ [(f, q)]\<rparr>"
    using w'(3) c pres by (simp add: acc_of_def obj_view_def)
  then show ?thesis using w'(1,2) by blast
qed

end
