(* ===== verification/Acc_Props.thy ===== *)
theory Acc_Props
  imports Acc_Live Acc_Code Purg_Props
begin

text \<open>
  The properties of a C object that many threads use at once while the kernel purges it.
\<close>

section \<open>A thread that is left alone gets through\<close>

lemma move_again: "move i pc st (move i pc' st' s) = move i pc st s" "move i (a_pcs s i) (a_st s) s = s"
  by (simp_all add: move_def)

lemma move_update: "(move i pc st s)\<lparr>a_st := st'\<rparr> = move i pc st' s"
  by (cases s) (simp add: move_def)

lemma alone_runs:
  assumes "acc_alone\<^sup>*\<^sup>* (a_pcs s i, a_st s) y" "i < n"
  shows "runs (acc_step lf n) s [] (move i (fst y) (snd y) s)"
  using assms(1)
proof (induction rule: rtranclp_induct)
  case base
  then show ?case by (simp add: move_again runs_refl)
next
  case (step y z)
  have "acc_step lf n (move i (fst y) (snd y) s) [] (move i (fst z) (snd z) s)"
    using acc_run [of i n "move i (fst y) (snd y) s" "fst z" "snd z" lf] step.hyps(2) assms(2)
    by (simp add: acc_alone_def move_again)
  then show ?case using runs_step [OF step.IH] by simp
qed

text \<open>The threads of a program that shares one object.\<close>

definition shared_object :: "world \<Rightarrow> UxPageTableStruct \<Rightarrow> PurgMem \<Rightarrow> byte list \<Rightarrow> mod_step list \<Rightarrow> acc_sys" where
  "shared_object w t ob bs xs = \<lparr>a_st = acc_of 0 w t ob bs xs, a_pcs = (\<lambda>_. Out)\<rparr>"

lemma shared_reads:
  assumes "content_ok w p t ob bs xs c" "lock_free ob" "buildDataCount ob + 1 \<noteq> 0" "i < n"
  shows "\<exists>s. runs (acc_step lf n) (shared_object w t ob bs xs) [] s \<and> a_pcs s i = Reading"
proof -
  let ?st = "acc_of 0 w t ob bs xs" and ?s = "shared_object w t ob bs xs"
  have rdy: "obj_ready w p t ob bs xs" "run_steps xs (zeros ob) = (True, c)" using assms(1) by (simp_all add: content_ok_def)
  have "acc_step lf n ?s [] (move i R_Get ?st ?s)"
    using acc_begin [of i n ?s R_Get lf] assms(4) by (simp add: shared_object_def)
  then have one: "runs (acc_step lf n) ?s [] (move i R_Get ?st ?s)" by (rule runs_one)
  have "acc_alone\<^sup>*\<^sup>* (R_Get, ?st) (alone_end Reading 1 False True c ?st)"
    by (rule alone_read [OF _ _ _ acc_of_run [OF rdy]]) (use assms(2,3) in \<open>simp_all add: acc_of_def lock_free_def\<close>)
  then have "runs (acc_step lf n) (move i R_Get ?st ?s) []
      (move i (fst (alone_end Reading 1 False True c ?st)) (snd (alone_end Reading 1 False True c ?st)) (move i R_Get ?st ?s))"
    by (intro alone_runs) (simp_all add: assms(4))
  from runs_trans [OF this one] show ?thesis by (auto simp: alone_end_def)
qed

lemma shared_inv:
  assumes "content_ok w p t ob bs xs c" "lock_free ob" "runs (acc_step lf n) (shared_object w t ob bs xs) es s" "clean es"
  shows "acc_inv n s" "buffer_run c es = Some (acc_value (a_st s))"
proof -
  have "acc_inv n (shared_object w t ob bs xs)" "acc_value (a_st (shared_object w t ob bs xs)) = c"
    using rest_inv content_ok_rest [OF assms(1,2)] by (simp_all add: shared_object_def)
  then show "acc_inv n s" "buffer_run c es = Some (acc_value (a_st s))" using threads.refines [OF assms(3) _ assms(4)] by simp_all
qed

lemma shared_finish:
  assumes "content_ok w p t ob bs xs c" "lock_free ob" "runs (acc_step lf n) (shared_object w t ob bs xs) es s" "clean es"
    and "(acc_drain n ^^ k) s s'"
  shows "k \<le> 3 * n * (12 + length (a_log (a_st s))) \<and> ((\<exists>s''. acc_drain n s' s'') \<or> acc_rest n s')"
proof -
  note inv = shared_inv(1) [OF assms(1-4)]
  have d: "acc_inv n s'" "k \<le> acc_weight n s" using drain_weight [OF assms(5) inv] by simp_all
  have "acc_rest n s'" if "\<not> (\<exists>s''. acc_drain n s' s'')"
  proof -
    have out: "\<forall>i < n. a_pcs s' i = Out" using inv_progress [OF d(1)] that by blast
    then have "tally P n (a_pcs s') = 0" if "\<not> P Out" for P using that by (simp add: tally_zero)
    then have "tally has_read n (a_pcs s') = 0" "tally has_write n (a_pcs s') = 0" "tally has_pin n (a_pcs s') = 0" by simp_all
    then show ?thesis using d(1) out by (simp add: acc_inv_def acc_rest_def settled_def)
  qed
  then show ?thesis using d(2) weight_bound [OF inv] by auto
qed

section \<open>The threads run the code\<close>

text \<open>
  C8. The control points of a thread that begins a read, or a write, compute what \<open>PurgMemBeginRead\<close> and
  \<open>PurgMemBeginWrite\<close> compute in memory, on every object and whatever its log answers: the same
  result, lock, build count, content, and presence of the pages.
\<close>

theorem threads_run_begin:
  assumes rdy: "obj_ready w p t ob bs xs" and os: "pm_env os t" and free: "lock_free ob"
    and cnt: "buildDataCount ob + 1 \<noteq> 0"
  shows "(\<exists>r w' ob' bs'. PurgMemBeginRead (calm os) p w = Some (r, w') \<and> obj_ready w' p t ob' bs' xs \<and>
       acc_alone\<^sup>*\<^sup>* (R_Get, acc_of k w t ob bs xs)
         (if r then Reading else Out, acc_of (if r then Suc k else k) w' t ob' bs' xs)) \<and>
     (\<exists>r w' ob' bs'. PurgMemBeginWrite (calm os) p w = Some (r, w') \<and> obj_ready w' p t ob' bs' xs \<and>
       acc_alone\<^sup>*\<^sup>* (W_Get, acc_of k w t ob bs xs)
         (if r then Writing else Out, acc_of (if r then Suc k else k) w' t ob' bs' xs))"
proof -
  obtain b c where run: "run_steps xs (zeros ob) = (b, c)" by fastforce
  let ?st = "acc_of k w t ob bs xs"
  have st: "a_readers ?st = 0" "\<not> a_writer ?st" "a_count ?st + 1 \<noteq> 0"
    using free cnt by (simp_all add: acc_of_def lock_free_def)
  note run' = acc_of_run [OF rdy run, of k]
  obtain w1 where r: "PurgMemBeginRead (calm os) p w = Some (\<not> purged (g_supportUxpt (ux w)) t ob (ptes (ux w)) \<or> b, w1)"
    "begin_outcome add_reader w p t ob bs b c w1" using rd.outcome [OF rdy os free cnt run] by blast
  obtain w2 where w: "PurgMemBeginWrite (calm os) p w = Some (\<not> purged (g_supportUxpt (ux w)) t ob (ptes (ux w)) \<or> b, w2)"
    "begin_outcome (set_writer True) w p t ob bs b c w2" using wr.outcome [OF rdy os free cnt run] by blast
  have "begin_outcome (\<lambda>x. x\<lparr>rwlock := \<lparr>rl_readers = 1, rl_writer = False\<rparr>\<rparr>) w p t ob bs b c w1"
    "begin_outcome (\<lambda>x. x\<lparr>rwlock := \<lparr>rl_readers = 0, rl_writer = True\<rparr>\<rparr>) w p t ob bs b c w2"
    using r(2) w(2) free by (simp_all add: begin_outcome_def lock_free_def count_build_def Let_def cong: if_cong)
  note o1 = outcome_alone_end [OF rdy free run this(1), where pc = Reading and k = k, OF refl]
    and o2 = outcome_alone_end [OF rdy free run this(2), where pc = Writing and k = k, OF refl]
  show ?thesis
    using alone_read [OF st run'] r(1) o1 alone_write [OF st(1,2) run'] w(1) o2 by (metis (no_types, lifting))
qed

theorem threads_run_begin_witness:
  "\<exists>r w' ob' bs'. PurgMemBeginRead (calm ex_pm_os) 0x40 (ex_world fill_nines 0 ex_bytes) = Some (r, w') \<and>
     acc_alone\<^sup>*\<^sup>* (R_Get, acc_of 0 (ex_world fill_nines 0 ex_bytes) ex_table (ex_obj 0) ex_bytes [(fill_nines, 0)])
       (if r then Reading else Out, acc_of (if r then Suc 0 else 0) w' ex_table ob' bs' [(fill_nines, 0)])"
proof -
  have "buildDataCount (ex_obj 0) + 1 \<noteq> 0" by (simp add: ex_obj_def)
  from threads_run_begin [OF ex_ready_nines ex_env ex_free(1) this, of 0] show ?thesis by blast
qed

section \<open>The threads share a buffer\<close>

text \<open>
  C1. Purging is invisible to any number of threads that share an object: whatever they do (begin and end
  reads and writes, look at the content, modify it with \<open>PurgMemAppendModify\<close> inside a write access), in
  whatever order their steps interleave, whatever lock and \<open>memset_s\<close> calls fail and whatever the kernel
  purges, what they see and do is possible on a plain buffer that starts with the logged content. This
  holds for runs without incidents: a modification that fails or cannot be logged left the content
  alone, and no pin was lost to a reclaim in progress (\<open>unlogged_change_is_lost\<close> and
  \<open>lost_pin_shows_purged_content\<close> show that both are needed).
\<close>

theorem threads_refine_buffer:
  assumes "content_ok w p t ob bs xs c" "lock_free ob" "runs (acc_step lf n) (shared_object w t ob bs xs) es s" "clean es"
  shows "buffer_run c es = Some (acc_value (a_st s))"
  by (rule shared_inv(2) [OF assms])

lemma ex_shared_reads:
  "\<exists>s. runs (acc_step True 2) (shared_object (ex_world fill_nines 1 ex_bytes) ex_table (ex_obj 1) ex_bytes [(fill_nines, 0)])
     [Observe (a_bytes (a_st s))] s \<and> a_pcs s 1 = Reading"
proof -
  have "buildDataCount (ex_obj 1) + 1 \<noteq> 0" by (simp add: ex_obj_def)
  from shared_reads [OF ex_content ex_free(1) this, of 1 2 True] obtain s where
    s: "runs (acc_step True 2) (shared_object (ex_world fill_nines 1 ex_bytes) ex_table (ex_obj 1) ex_bytes [(fill_nines, 0)]) [] s"
    "a_pcs s 1 = Reading" by auto
  have "acc_step True 2 s [Observe (a_bytes (a_st s))] s" using acc_look [of 1 2 s True] s(2) by simp
  from runs_step [OF s(1) this] s(2) show ?thesis by auto
qed

theorem threads_refine_buffer_witness:
  "\<exists>s. runs (acc_step True 2) (shared_object (ex_world fill_nines 1 ex_bytes) ex_table (ex_obj 1) ex_bytes [(fill_nines, 0)])
       [Observe (a_bytes (a_st s))] s \<and>
     buffer_run (replicate 4 9) [Observe (a_bytes (a_st s))] = Some (acc_value (a_st s))"
proof -
  obtain s where s: "runs (acc_step True 2)
      (shared_object (ex_world fill_nines 1 ex_bytes) ex_table (ex_obj 1) ex_bytes [(fill_nines, 0)]) [Observe (a_bytes (a_st s))] s"
    using ex_shared_reads by blast
  have "clean [Observe (a_bytes (a_st s))]" by simp
  from threads_refine_buffer [OF ex_content ex_free(1) s this] s show ?thesis by blast
qed

text \<open>
  C14. In every state that is reached without an incident (a failed or unlogged modification that changed
  the content, a pin lost to a reclaim in progress): who holds the object exclusively (to write, to
  clear or to replay it) holds it alone, readers included; a thread inside an access has the object
  pinned, all pages present, and exactly the logged content before it; and no step of anybody changes a
  byte before a thread that reads.
\<close>

theorem threads_exclude:
  assumes "content_ok w p t ob bs xs c" "lock_free ob" "runs (acc_step lf n) (shared_object w t ob bs xs) es s" "clean es"
    and "i < n" "j < n"
  shows "(has_write (a_pcs s i) \<and> (has_read (a_pcs s j) \<or> has_write (a_pcs s j)) \<longrightarrow> i = j) \<and>
    (a_pcs s i \<in> {Reading, Writing} \<longrightarrow>
       0 < a_pins (a_st s) \<and> a_present (a_st s) \<and> a_bytes (a_st s) = acc_value (a_st s)) \<and>
    (a_pcs s i = Reading \<longrightarrow> (\<forall>es' s'. acc_step lf n s es' s' \<longrightarrow> a_bytes (a_st s') = a_bytes (a_st s)))"
proof -
  note inv = shared_inv(1) [OF assms(1-4)]
  have "knows (a_st s) (a_pcs s i)" "a_pins (a_st s) = tally has_pin n (a_pcs s)" using inv assms(5) by (simp_all add: acc_inv_def)
  then show ?thesis
    using write_alone [OF inv assms(5,6)] reads_are_stable [OF inv assms(5)] assms(5)
    by (auto simp: tally_pos intro: exI [of _ i])
qed

theorem threads_exclude_witness:
  "\<exists>es s. runs (acc_step True 2) (shared_object (ex_world fill_nines 1 ex_bytes) ex_table (ex_obj 1) ex_bytes [(fill_nines, 0)]) es s \<and>
     a_pcs s 1 = Reading \<and> \<not> has_write (a_pcs s 0) \<and> a_bytes (a_st s) = acc_value (a_st s)"
proof -
  obtain s where s: "runs (acc_step True 2)
      (shared_object (ex_world fill_nines 1 ex_bytes) ex_table (ex_obj 1) ex_bytes [(fill_nines, 0)]) [Observe (a_bytes (a_st s))] s"
    "a_pcs s 1 = Reading" using ex_shared_reads by blast
  note ex = threads_exclude [OF ex_content ex_free(1) s(1), simplified]
  show ?thesis using ex [of 0 1] ex [of 1 0] s by (auto simp: s(2))
qed

text \<open>
  C4. Accesses come to an end. From every state that is reached without an incident, let the threads go on in any order, users end
  the accesses they were granted, and no new ones begin: after at most \<open>3 n (12 + l)\<close> steps, \<open>l\<close> the
  length of the log, every thread is out, and the object is at rest again. No schedule makes the loop of
  \<open>PurgMemBeginRead\<close> run for ever, no thread waits for a lock nobody releases, and no pin is lost.
\<close>

theorem threads_finish:
  assumes "content_ok w p t ob bs xs c" "lock_free ob" "runs (acc_step lf n) (shared_object w t ob bs xs) es s" "clean es"
    and "(acc_drain n ^^ k) s s'"
  shows "k \<le> 3 * n * (12 + length (a_log (a_st s))) \<and> ((\<exists>s''. acc_drain n s' s'') \<or> acc_rest n s')"
  by (rule shared_finish [OF assms])

theorem threads_finish_witness:
  "\<exists>es s s'. runs (acc_step True 2) (shared_object (ex_world fill_nines 1 ex_bytes) ex_table (ex_obj 1) ex_bytes [(fill_nines, 0)]) es s \<and>
     a_pcs s 1 = Reading \<and> (acc_drain 2 ^^ 1) s s' \<and> ((\<exists>s''. acc_drain 2 s' s'') \<or> acc_rest 2 s')"
proof -
  obtain s where s: "runs (acc_step True 2)
      (shared_object (ex_world fill_nines 1 ex_bytes) ex_table (ex_obj 1) ex_bytes [(fill_nines, 0)]) [Observe (a_bytes (a_st s))] s"
    "a_pcs s 1 = Reading" using ex_shared_reads by blast
  have "acc_drain 2 s (move 1 R_End (a_st s) s)" using s(2) by (intro drain) (simp_all add: acc_advance_def)
  then have d: "(acc_drain 2 ^^ 1) s (move 1 R_End (a_st s) s)" by (simp add: relcomppI)
  show ?thesis using threads_finish [OF ex_content ex_free(1) s(1) _ d] d s by fastforce
qed

section \<open>A modification that is not logged\<close>

text \<open>
  Where the assumption on failed modifications is needed: what a modification that fails, or cannot be
  logged, leaves in the content is shown until the next purge, and then it is gone.
\<close>

lemma acc_solo_runs:
  assumes "acc_alone\<^sup>*\<^sup>* (pc, st) (pc', st')" "i < n"
  shows "runs (acc_step lf n) (move i pc st s) [] (move i pc' st' s)"
  using alone_runs [of "move i pc st s" i "(pc', st')" n lf] assms by (simp add: move_again)

lemma runs_next:
  assumes "runs step s es s'" "step s' es' s''"
  shows "runs step s (es @ es') s''"
  using assms by (rule runs_step)

theorem unlogged_change_is_lost:
  assumes ok: "content_ok w p t ob bs xs c" "lock_free ob" and cnt: "buildDataCount ob + 1 \<noteq> 0" "buildDataCount ob + 2 \<noteq> 0"
    and f: "in_buffer f" "f c q = (succ, d)" "d \<noteq> c"
  shows "\<exists>s. runs (acc_step lf 1) (shared_object w t ob bs xs) [Failed c d, Observe d, Observe c] s \<and>
    buffer_run c [Failed c d, Observe d, Observe c] = None"
proof -
  let ?st = "acc_of 0 w t ob bs xs" and ?s = "shared_object w t ob bs xs" and ?R = "acc_step lf 1"
  have rdy: "obj_ready w p t ob bs xs" "run_steps xs (zeros ob) = (True, c)" using ok(1) by (simp_all add: content_ok_def)
  note run = acc_of_run [OF rdy, of 0]
  have st: "a_readers ?st = 0" "\<not> a_writer ?st" "a_log ?st = xs" using ok(2) by (simp_all add: acc_of_def lock_free_def)
  have bytes: "\<not> acc_purged ?st \<Longrightarrow> a_bytes ?st = c"
    using content_ok_rest(1) [OF ok, of 1] content_ok_rest(2) [OF ok] by (simp add: acc_rest_def)
  have "\<exists>pr ct. alone_end Writing 0 True True c ?st = (Writing, st_of 0 True 1 pr ct c xs) \<and> ct + 1 \<noteq> 0"
    using st bytes cnt by (auto simp: alone_end_def acc_of_def add.assoc)
  then obtain pr ct where y: "alone_end Writing 0 True True c ?st = (Writing, st_of 0 True 1 pr ct c xs)" "ct + 1 \<noteq> 0" by blast
  have "acc_alone\<^sup>*\<^sup>* (W_Get, ?st) (Writing, st_of 0 True 1 pr ct c xs)"
    using alone_write [OF st(1,2) run] y(1) by simp
  note wr = acc_solo_runs [OF this, of 0 1 lf ?s]
  have len: "length d = length c" using f(1,2) unfolding in_buffer_def by (metis snd_conv)
  have logged: "run_steps xs (replicate (length d) 0) = (True, c)"
    using rdy(2) content_length [OF ok(1)] len by (simp add: zeros_def)
  let ?s1 = "move 0 Writing (st_of 0 True 1 pr ct c xs) ?s" and ?s2 = "move 0 Writing (st_of 0 True 1 pr ct d xs) ?s"
  let ?s3 = "move 0 Out (st_of 0 False 0 pr ct d xs) ?s" and ?s4 = "move 0 Out (st_of 0 False 0 False ct d xs) ?s"
  have "?R ?s [] (move 0 W_Get ?st ?s)" using acc_begin [of 0 1 ?s W_Get lf] by (simp add: shared_object_def)
  then have "runs ?R ?s [] (move 0 W_Get ?st ?s)" by (rule runs_one)
  from runs_trans [OF wr this] have r1: "runs ?R ?s [] ?s1" by simp
  have "?R ?s1 [Failed c d] ?s2" using acc_unlogged [of 0 1 ?s1 f q succ d lf] f by (simp add: move_update)
  from runs_next [OF r1 this] have r2: "runs ?R ?s [Failed c d] ?s2" by simp
  have "?R ?s2 [Observe d] ?s2" using acc_look [of 0 1 ?s2 lf] by simp
  note r2' = runs_next [OF r2 this]
  have "?R ?s2 [] (move 0 W_End (st_of 0 True 1 pr ct d xs) ?s)" using acc_end_write [of 0 1 ?s2 lf] by (simp add: move_again)
  note r3 = runs_next [OF r2' this]
  have "acc_alone\<^sup>*\<^sup>* (W_End, st_of 0 True 1 pr ct d xs) (Out, st_of 0 False 0 pr ct d xs)" by (rule alone_step, simp)+
  note r4 = runs_trans [OF acc_solo_runs [OF this, of 0 1 lf ?s] r3]
  have "?R ?s3 [] ?s4" using acc_purge [of ?s3 d lf 1] by (simp add: move_update)
  note r5 = runs_next [OF r4 this]
  have "?R ?s4 [] (move 0 R_Get (st_of 0 False 0 False ct d xs) ?s)" using acc_begin [of 0 1 ?s4 R_Get lf] by (simp add: move_again)
  note r6 = runs_next [OF r5 this]
  have "acc_alone\<^sup>*\<^sup>* (R_Get, st_of 0 False 0 False ct d xs) (Reading, st_of 1 False 1 True (ct + 1) c xs)"
    using alone_read [of "st_of 0 False 0 False ct d xs" True c] y(2) logged by (simp add: alone_end_def acc_purged_def)
  note r7 = runs_trans [OF acc_solo_runs [OF this, of 0 1 lf ?s] r6]
  let ?s5 = "move 0 Reading (st_of 1 False 1 True (ct + 1) c xs) ?s"
  have "?R ?s5 [Observe c] ?s5" using acc_look [of 0 1 ?s5 lf] by simp
  from runs_next [OF r7 this] f(3) show ?thesis by auto
qed

theorem unlogged_change_is_lost_witness:
  "\<exists>s. runs (acc_step False 1) (shared_object (ex_world fill_nines 1 ex_bytes) ex_table (ex_obj 1) ex_bytes [(fill_nines, 0)])
       [Failed (replicate 4 9) (replicate 4 2), Observe (replicate 4 2), Observe (replicate 4 9)] s"
proof -
  have "buildDataCount (ex_obj 1) + 1 \<noteq> 0" "buildDataCount (ex_obj 1) + 2 \<noteq> 0" by (simp_all add: ex_obj_def)
  moreover have "in_buffer fill_twos" "fill_twos (replicate 4 9) 0 = (True, replicate 4 2)" "replicate 4 2 \<noteq> (replicate 4 9 :: byte list)"
    by (simp_all add: in_buffer_def fill_twos_def)
  ultimately show ?thesis using unlogged_change_is_lost [OF ex_content ex_free(1)] by blast
qed

end
