(* ===== verification/Acc_Page_Props.thy ===== *)
theory Acc_Page_Props
  imports Acc_Page_Live Acc_Props
begin

text \<open>
  A C object that threads share, on its entries: they are the pages of \<open>Acc_Pages\<close>.
\<close>

section \<open>The object\<close>

abbreviation "obj_pages t \<equiv> req_pages (dataAddr t) (dataSize t)"

definition obj_entry :: "world \<Rightarrow> UxPageTableStruct \<Rightarrow> nat \<Rightarrow> uxpte_t" where
  "obj_entry w t j = (case ptes (ux w) (uxpte_slot t (obj_pages t ! j)) of None \<Rightarrow> 0 | Some v \<Rightarrow> v)"

text \<open>The entries of an object that nobody uses: no references, or under reclaim.\<close>

definition idle_entries :: "world \<Rightarrow> UxPageTableStruct \<Rightarrow> bool" where
  "idle_entries w t \<longleftrightarrow>
     g_supportUxpt (ux w) \<and>
     (\<forall>j < length (obj_pages t). IsUxpteUnderReclaim (obj_entry w t j) \<or> uxpte_refcnt (obj_entry w t j) = 0)"

definition pg_object :: "world \<Rightarrow> UxPageTableStruct \<Rightarrow> PurgMem \<Rightarrow> byte list \<Rightarrow> mod_step list \<Rightarrow> pg_sys" where
  "pg_object w t ob bs xs =
     \<lparr>pg_shared = \<lparr>pg_readers = rl_readers (rwlock ob), pg_writer = rl_writer (rwlock ob), pg_entry = obj_entry w t,
        pg_count = buildDataCount ob, pg_bytes = content_of ob bs, pg_log = xs\<rparr>,
      pg_pcs = (\<lambda>_. At Out)\<rparr>"

lemma pg_object_abs:
  assumes "g_supportUxpt (ux w)"
  shows "pg_abs (length (obj_pages t)) n (pg_object w t ob bs xs) = shared_object w t ob bs xs"
proof -
  have "tally (\<lambda>pc. has_pin (abs_pc pc)) n (\<lambda>_. At Out) = 0" by (simp add: tally_zero)
  moreover have "IsUxptePresent (obj_entry w t j) =
      (case ptes (ux w) (uxpte_slot t (obj_pages t ! j)) of None \<Rightarrow> False | Some v \<Rightarrow> IsUxptePresent v)" for j
    by (simp add: obj_entry_def IsUxptePresent_bit split: option.split)
  moreover have "(\<forall>j < length (obj_pages t). P (obj_pages t ! j)) \<longleftrightarrow> (\<forall>x \<in> set (obj_pages t). P x)" for P
    by (auto simp: all_set_conv_all_nth)
  ultimately show ?thesis
    using assms by (simp add: pg_abs_def pg_core_def pg_object_def shared_object_def acc_of_def all_present_def)
qed

lemma pg_object_inv: "idle_entries w t \<Longrightarrow> pg_inv (length (obj_pages t)) n (pg_object w t ob bs xs)"
proof -
  assume "idle_entries w t"
  moreover have "tally (pg_holds j) n (\<lambda>_. At Out) = 0" for j by (simp add: tally_zero)
  ultimately show ?thesis by (auto simp: pg_inv_def pg_object_def counts_def idle_entries_def)
qed

lemma obj_pages_pos: "content_ok w p t ob bs xs c \<Longrightarrow> 0 < length (obj_pages t)"
  using first_page by (metis content_ok_def length_pos_if_in_set obj_ready_def obj_view_def)

lemma pg_object_good:
  assumes "content_ok w p t ob bs xs c" "lock_free ob" "idle_entries w t" "n < 2 ^ 62"
  shows "pg_good (length (obj_pages t)) n (pg_object w t ob bs xs)"
  using rest_inv content_ok_rest [OF assms(1,2)] obj_pages_pos [OF assms(1)] assms(3,4)
  by (simp add: pg_good_def pg_object_inv pg_object_abs shared_object_def idle_entries_def)

lemma pg_object_sim:
  assumes ok: "content_ok w p t ob bs xs c" "lock_free ob" "idle_entries w t" "n < 2 ^ 62"
    and run: "runs (pg_step (length (obj_pages t)) lf n) (pg_object w t ob bs xs) es s" "clean es"
  shows "pg_good (length (obj_pages t)) n s"
    "runs (acc_step lf n) (shared_object w t ob bs xs) es (pg_abs (length (obj_pages t)) n s)"
  using pg_runs_sim [OF run] pg_object_good [OF ok] ok(3) by (simp_all add: pg_good_def pg_object_abs idle_entries_def)

text \<open>
  On the entries, too, all threads leave a shared object, after a number of steps bounded by its pages, its log
  and the threads, unless one of them meets an entry under reclaim.
\<close>

lemma pages_finish:
  assumes ok: "content_ok w p t ob bs xs c" "lock_free ob" "idle_entries w t" "n < 2 ^ 62"
    and run: "runs (pg_step (length (obj_pages t)) lf n) (pg_object w t ob bs xs) es s" "clean es"
    and drain: "(pg_drain (length (obj_pages t)) n ^^ k) s s'"
  shows "k \<le> n * (36 + 3 * length (pg_log (pg_shared s)) + 1) * (length (obj_pages t) + 2) * (3 * n + 1) + 3 * n"
    "(\<exists>s''. pg_drain (length (obj_pages t)) n s' s'') \<or> (\<forall>i < n. pg_pcs s' i = At Out) \<or>
     (\<exists>i < n. loses_pin (pg_pcs s' i) (pg_shared s'))"
proof -
  note good = pg_object_sim(1) [OF ok run]
  note d = pg_drain_weight [OF drain good]
  show "k \<le> n * (36 + 3 * length (pg_log (pg_shared s)) + 1) * (length (obj_pages t) + 2) * (3 * n + 1) + 3 * n"
    using d pg_weight_bound [OF good] by linarith
  show "(\<exists>s''. pg_drain (length (obj_pages t)) n s' s'') \<or> (\<forall>i < n. pg_pcs s' i = At Out) \<or>
     (\<exists>i < n. loses_pin (pg_pcs s' i) (pg_shared s'))"
    using d pg_progress [of "length (obj_pages t)" n s'] by blast
qed

section \<open>A thread on its own\<close>

text \<open>The next \<open>k\<close> steps of a thread that nobody disturbs and that loses no pin.\<close>

fun pg_go :: "nat \<Rightarrow> nat \<Rightarrow> pg_pc \<times> pg_st \<Rightarrow> (pg_pc \<times> pg_st) option" where
  "pg_go m 0 x = Some x"
| "pg_go m (Suc k) (pc, st) = (if loses_pin pc st then None else Option.bind (pg_next m pc st) (pg_go m k))"

lemma pg_go_numeral [simp]:
  "pg_go m (numeral k) (pc, st) = (if loses_pin pc st then None else Option.bind (pg_next m pc st) (pg_go m (pred_numeral k)))"
  by (simp add: numeral_eq_Suc)

lemma pg_move_again [simp]:
  "pg_move i pc st (pg_move i pc' st' s) = pg_move i pc st s" "(pg_move i pc st s)\<lparr>pg_shared := st'\<rparr> = pg_move i pc st' s"
  by (cases s; simp add: pg_move_def)+

lemma pg_go_runs:
  assumes "pg_go m k x = Some y" "i < n"
  shows "runs (pg_step m lf n) (pg_move i (fst x) (snd x) s) [] (pg_move i (fst y) (snd y) s)"
  using assms
proof (induction m k x rule: pg_go.induct)
  case (1 m x)
  then show ?case by (simp add: runs_refl)
next
  case (2 m k pc st)
  then obtain z where z: "\<not> loses_pin pc st" "pg_next m pc st = Some z" "pg_go m k z = Some y" by (cases "pg_next m pc st") (auto split: if_splits)
  have "pg_step m lf n (pg_move i pc st s) [] (pg_move i (fst z) (snd z) s)"
    using pg_run [of i n m "pg_move i pc st s" "fst z" "snd z" lf] z 2(3) by (simp add: pg_move_def)
  then have "runs (pg_step m lf n) (pg_move i pc st s) [] (pg_move i (fst z) (snd z) s)" by (rule runs_one)
  from runs_trans [OF 2(1) [OF z 2(3)] this] show ?case by simp
qed

lemma pg_go_on:
  assumes "runs (pg_step m lf n) s0 es (pg_move i pc st s)" "pg_go m k (pc, st) = Some (pc', st')" "i < n"
  shows "runs (pg_step m lf n) s0 es (pg_move i pc' st' s)"
  using runs_trans [OF pg_go_runs [OF assms(2,3), of lf s, simplified] assms(1)] by simp

definition one_page :: "nat \<Rightarrow> bool \<Rightarrow> (nat \<Rightarrow> uxpte_t) \<Rightarrow> uxpte_t \<Rightarrow> c_uint \<Rightarrow> byte list \<Rightarrow> pg_st" where
  "one_page r wr e v ct bs =
     \<lparr>pg_readers = r, pg_writer = wr, pg_entry = e(0 := v), pg_count = ct, pg_bytes = bs, pg_log = [(fill_nines, 0)]\<rparr>"

lemma one_page_simps [simp]:
  "pg_readers (one_page r wr e v ct bs) = r" "pg_writer (one_page r wr e v ct bs) = wr" "pg_entry (one_page r wr e v ct bs) 0 = v"
  "pg_count (one_page r wr e v ct bs) = ct" "pg_bytes (one_page r wr e v ct bs) = bs"
  "pg_log (one_page r wr e v ct bs) = [(fill_nines, 0)]"
  "one_page r wr e v ct bs\<lparr>pg_entry := (pg_entry (one_page r wr e v ct bs))(0 := v')\<rparr> = one_page r wr e v' ct bs"
  "one_page r wr e v ct bs\<lparr>pg_bytes := bs'\<rparr> = one_page r wr e v ct bs'"
  by (simp_all add: one_page_def)

lemma one_page_core [simp]:
  "pg_core (Suc 0) (one_page r wr e v ct bs) =
     \<lparr>a_readers = r, a_writer = wr, a_pins = 0, a_present = IsUxptePresent v, a_count = ct, a_bytes = bs, a_log = [(fill_nines, 0)]\<rparr>"
  by (simp add: pg_core_def)

lemma one_page_back [simp]:
  "pg_back (Suc 0) (one_page r wr e v ct bs)
     \<lparr>a_readers = r', a_writer = wr', a_pins = k, a_present = b, a_count = ct', a_bytes = bs', a_log = [(fill_nines, 0)]\<rparr> =
   one_page r' wr' e (if b then pg_touch v else v) ct' bs'"
  by (auto simp: pg_back_def one_page_def)

lemma ex_entry: "length (obj_pages ex_table) = 1" "obj_entry (ex_world fill_nines 1 ex_bytes) ex_table 0 = 1"
proof -
  show "length (obj_pages ex_table) = 1" using ex_slots by (metis length_Cons length_map list.size(3) One_nat_def req_slots_def)
  have "uxpte_slot ex_table (obj_pages ex_table ! 0) = 0x10010"
    using ex_slots nth_map [of 0 "obj_pages ex_table" "uxpte_slot ex_table"] by (cases "obj_pages ex_table") (auto simp: req_slots_def)
  then show "obj_entry (ex_world fill_nines 1 ex_bytes) ex_table 0 = 1"
    by (simp add: obj_entry_def ex_world_def ex_st_def ex_ptes_def in_mapping_def)
qed

abbreviation "ex_page_object \<equiv> pg_object (ex_world fill_nines 1 ex_bytes) ex_table (ex_obj 1) ex_bytes [(fill_nines, 0)]"

abbreviation "ex_entries \<equiv> obj_entry (ex_world fill_nines 1 ex_bytes) ex_table"

lemma ex_page_object:
  "pg_shared ex_page_object = one_page 0 False ex_entries 1 1 (replicate 4 9)"
  "pg_move i (At Out) (pg_shared ex_page_object) ex_page_object = ex_page_object"
  using ex_entry(2) by (auto simp: pg_object_def one_page_def pg_move_def ex_obj_def ex_bytes_def)

lemma ex_idle: "idle_entries (ex_world fill_nines 1 ex_bytes) ex_table"
  using ex_entry by (simp add: idle_entries_def ex_world_def ex_st_def uxpte_refcnt_def)

section \<open>Properties\<close>

text \<open>
  C15. The single steps of the threads are a faithful summary of what happens on the entries of the page table.
  Let any number of threads pin, unpin and look at the pages of an object one after the other, each pin a
  loop of loads and compare-and-swaps, and let the kernel mark entries without references as under
  reclaim and drop their pages at any moment: every run in which no pin is lost to a reclaim in progress
  and no unlogged modification changes the content is a run of the threads with whole-object
  steps (\<open>acc_step\<close>) and the same events; so it is possible on a plain buffer that starts with the logged content. And for
  a thread inside an access every entry counts a reference and is present.
\<close>

theorem pages_refine_threads:
  assumes ok: "content_ok w p t ob bs xs c" "lock_free ob" "idle_entries w t" "n < 2 ^ 62"
    and run: "runs (pg_step (length (obj_pages t)) lf n) (pg_object w t ob bs xs) es s" "clean es"
  shows "runs (acc_step lf n) (shared_object w t ob bs xs) es (pg_abs (length (obj_pages t)) n s) \<and>
    buffer_run c es = Some (acc_value (a_st (pg_abs (length (obj_pages t)) n s))) \<and>
    (\<forall>i j. i < n \<and> j < length (obj_pages t) \<and> pg_pcs s i \<in> {At Reading, At Writing} \<longrightarrow>
       \<not> IsUxpteUnderReclaim (pg_entry (pg_shared s) j) \<and> 0 < uxpte_refcnt (pg_entry (pg_shared s) j) \<and>
       IsUxptePresent (pg_entry (pg_shared s) j))"
proof -
  let ?m = "length (obj_pages t)"
  from pg_object_sim [OF ok run] have sim: "pg_inv ?m n s" "acc_inv n (pg_abs ?m n s)"
    "runs (acc_step lf n) (shared_object w t ob bs xs) es (pg_abs ?m n s)" by (simp_all add: pg_good_def)
  have "\<not> IsUxpteUnderReclaim (pg_entry (pg_shared s) j) \<and> 0 < uxpte_refcnt (pg_entry (pg_shared s) j) \<and>
      IsUxptePresent (pg_entry (pg_shared s) j)"
    if "i < n" "j < ?m" "pg_pcs s i \<in> {At Reading, At Writing}" for i j
  proof -
    have "knows (a_st (pg_abs ?m n s)) (abs_pc (pg_pcs s i))" using sim(2) that(1) by (simp add: acc_inv_def)
    moreover have "0 < tally (pg_holds j) n (pg_pcs s)" using that by (auto simp: tally_pos intro!: exI [of _ i])
    moreover have "counts (pg_entry (pg_shared s) j) (tally (pg_holds j) n (pg_pcs s))" using sim(1) that(2) by (simp add: pg_inv_def)
    ultimately show ?thesis using counts_held that(2,3) by (auto simp: pg_core_def)
  qed
  then show ?thesis using sim(3) shared_inv(2) [OF ok(1,2) sim(3) run(2)] by blast
qed


lemma touch_values [simp]: "pg_touch 0 = 1" "pg_touch 1 = 1" "pg_touch 3 = 3"
  by (simp_all add: pg_touch_def IsUxpteUnderReclaim_def)

lemma ex_page_reads:
  "\<exists>s. runs (pg_step 1 True 2) ex_page_object [Observe (pg_bytes (pg_shared s))] s \<and> pg_pcs s 1 = At Reading"
proof -
  let ?R = "pg_step 1 True 2" and ?st = "one_page 0 False ex_entries 1 1 (replicate 4 9)"
  let ?e = "pg_move 1 (At Reading) (one_page 1 False ex_entries 3 1 (replicate 4 9)) ex_page_object"
  have "?R ex_page_object [] (pg_move 1 (Getting False 0 (GetLoad 0)) ?st ex_page_object)"
    using pg_begin [of 1 2 ex_page_object 1 True False] by (simp add: ex_page_object) (simp add: pg_object_def)
  then have one: "runs ?R ex_page_object [] (pg_move 1 (Getting False 0 (GetLoad 0)) ?st ex_page_object)" by (rule runs_one)
  have "pg_go 1 5 (Getting False 0 (GetLoad 0), ?st) = Some (At Reading, one_page 1 False ex_entries 3 1 (replicate 4 9))"
    by (simp add: IsUxpteUnderReclaim_def IsUxptePresent_bit pg_at_def)
  from pg_go_on [OF one this] have "runs ?R ex_page_object [] ?e" by simp
  moreover have "?R ?e [Observe (pg_bytes (pg_shared ?e))] ?e" by (rule pg_look [of 1]) simp_all
  ultimately show ?thesis using runs_step [of ?R] by (intro exI [of _ ?e]) fastforce
qed

theorem pages_refine_threads_witness:
  "\<exists>s. runs (pg_step 1 True 2) ex_page_object [Observe (pg_bytes (pg_shared s))] s \<and>
     buffer_run (replicate 4 9) [Observe (pg_bytes (pg_shared s))] = Some (acc_value (a_st (pg_abs 1 2 s))) \<and>
     0 < uxpte_refcnt (pg_entry (pg_shared s) 0) \<and> IsUxptePresent (pg_entry (pg_shared s) 0)"
proof -
  obtain s where s: "runs (pg_step 1 True 2) ex_page_object [Observe (pg_bytes (pg_shared s))] s" "pg_pcs s 1 = At Reading"
    using ex_page_reads by blast
  have "(2 :: nat) < 2 ^ 62" "clean [Observe (pg_bytes (pg_shared s))]" by simp_all
  note r = pages_refine_threads [OF ex_content ex_free(1) ex_idle this(1), unfolded ex_entry(1), OF s(1) this(2)]
  note r(1) [THEN conjunct2, THEN conjunct1] r(1) [THEN conjunct2, THEN conjunct2, rule_format, of 1 0]
  then show ?thesis using s by (intro exI [of _ s] conjI) auto
qed

text \<open>
  C33. Where the assumption on lost pins is needed. An object is present and built; the kernel has marked its page as
  under reclaim when a reader pins it: the compare-and-swap of \<open>UxpteAdd\<close> writes 0 over the mark and
  counts nothing. The reader finds the page gone, rebuilds the content and is let in, with a reference
  count of zero; the kernel takes the page once more, and the reader, still inside its access, sees
  content that is not the one of the log. No plain buffer shows that.
\<close>

theorem lost_pin_shows_purged_content:
  "\<exists>s. runs (pg_step 1 False 1) ex_page_object [Lost_Pin, Observe (replicate 4 9), Observe (replicate 4 0)] s \<and>
     pg_pcs s 0 = At Reading \<and> buffer_run (replicate 4 9) [Lost_Pin, Observe (replicate 4 9), Observe (replicate 4 0)] = None"
proof -
  let ?R = "pg_step 1 False 1" and ?o = "ex_page_object" and ?p = "\<lambda>r wr. one_page r wr ex_entries" and ?nines = "replicate 4 (9 :: byte)"
  let ?s0 = "pg_move 0 (At Out) (?p 0 False UXPTE_UNDER_RECLAIM 1 ?nines) ?o"
  have "?R (pg_move 0 (At Out) (?p 0 False 1 1 ?nines) ?o) [] ?s0"
    using pg_reclaim [of 0 1 "pg_move 0 (At Out) (?p 0 False 1 1 ?nines) ?o" False 1] by simp
  then have r0: "runs ?R ?o [] ?s0" using ex_page_object by (intro runs_one) simp
  have "?R ?s0 [] (pg_move 0 (Getting False 0 (GetLoad 0)) (?p 0 False UXPTE_UNDER_RECLAIM 1 ?nines) ?o)"
    using pg_begin [of 0 1 ?s0 1 False False] by simp
  note r1 = runs_step [OF r0 this]
  have "pg_go 1 1 (Getting False 0 (GetLoad 0), ?p 0 False UXPTE_UNDER_RECLAIM 1 ?nines) =
      Some (Getting False 0 (GetCas UXPTE_UNDER_RECLAIM 0), ?p 0 False UXPTE_UNDER_RECLAIM 1 ?nines)"
    by (simp add: IsUxpteUnderReclaim_def)
  note r2 = pg_go_on [OF r1 this zero_less_one]
  have "?R (pg_move 0 (Getting False 0 (GetCas UXPTE_UNDER_RECLAIM 0)) (?p 0 False UXPTE_UNDER_RECLAIM 1 ?nines) ?o) [Lost_Pin]
      (pg_move 0 (At R_Lock) (?p 0 False 0 1 ?nines) ?o)"
    using pg_run [of 0 1 1 "pg_move 0 (Getting False 0 (GetCas UXPTE_UNDER_RECLAIM 0)) (?p 0 False UXPTE_UNDER_RECLAIM 1 ?nines) ?o"
      "At R_Lock" "?p 0 False 0 1 ?nines" False] by (simp add: IsUxpteUnderReclaim_def)
  then have r3: "runs ?R ?o [Lost_Pin] (pg_move 0 (At R_Lock) (?p 0 False 0 1 ?nines) ?o)" using runs_step [OF r2] by simp
  have "pg_go 1 14 (At R_Lock, ?p 0 False 0 1 ?nines) = Some (At Reading, ?p 1 False 1 2 ?nines)"
    by (simp add: IsUxptePresent_bit pg_at_def fill_nines_def)
  note r4 = pg_go_on [OF r3 this zero_less_one]
  have "?R (pg_move 0 (At Reading) (?p 1 False 1 2 ?nines) ?o) [Observe ?nines] (pg_move 0 (At Reading) (?p 1 False 1 2 ?nines) ?o)"
    using pg_look [of 0 1 "pg_move 0 (At Reading) (?p 1 False 1 2 ?nines) ?o"] by simp
  note r5 = runs_step [OF r4 this]
  have "?R (pg_move 0 (At Reading) (?p 1 False 1 2 ?nines) ?o) [] (pg_move 0 (At Reading) (?p 1 False UXPTE_UNDER_RECLAIM 2 ?nines) ?o)"
    using pg_reclaim [of 0 1 "pg_move 0 (At Reading) (?p 1 False 1 2 ?nines) ?o" False 1] by simp
  note r6 = runs_step [OF r5 this]
  have "?R (pg_move 0 (At Reading) (?p 1 False UXPTE_UNDER_RECLAIM 2 ?nines) ?o) [] (pg_move 0 (At Reading) (?p 1 False 0 2 (replicate 4 0)) ?o)"
    using pg_reclaimed [of 0 1 "pg_move 0 (At Reading) (?p 1 False UXPTE_UNDER_RECLAIM 2 ?nines) ?o" "replicate 4 0" False 1]
    by (simp add: IsUxpteUnderReclaim_def PAGE_SIZE_eq)
  note r7 = runs_step [OF r6 this]
  have "?R (pg_move 0 (At Reading) (?p 1 False 0 2 (replicate 4 0)) ?o) [Observe (replicate 4 0)]
      (pg_move 0 (At Reading) (?p 1 False 0 2 (replicate 4 0)) ?o)"
    using pg_look [of 0 1 "pg_move 0 (At Reading) (?p 1 False 0 2 (replicate 4 0)) ?o"] by simp
  from runs_step [OF r7 this] show ?thesis by (intro exI [of _ "pg_move 0 (At Reading) (?p 1 False 0 2 (replicate 4 0)) ?o"]) simp
qed

end
