(* ===== verification/Purg_Frame.thy ===== *)
theory Purg_Frame
  imports Purg_Props
begin

text \<open>
  Objects do not disturb each other: what is done to one purgeable object leaves the content, the log
  and the page table entries of every other object alone.
\<close>

section \<open>Frames\<close>

text \<open>Two objects that share no region and no page table entry.\<close>

definition apart :: "ptr \<Rightarrow> UxPageTableStruct \<Rightarrow> PurgMem \<Rightarrow> ptr \<Rightarrow> UxPageTableStruct \<Rightarrow> PurgMem \<Rightarrow> bool" where
  "apart p t ob p2 t2 ob2 \<longleftrightarrow>
     p \<noteq> p2 \<and> dataPtr ob \<noteq> dataPtr ob2 \<and> set (obj_slots t) \<inter> set (obj_slots t2) = {}"

definition entries_frame ::
  "UxPageTableStruct \<Rightarrow> (ptr \<Rightarrow> uxpte_t option) \<Rightarrow> (ptr \<Rightarrow> uxpte_t option) \<Rightarrow> bool" where
  "entries_frame t m m' \<longleftrightarrow>
     (\<forall>a. (a \<notin> set (obj_slots t) \<longrightarrow> m' a = m a) \<and> (m' a = None \<longleftrightarrow> m a = None))"

lemma entries_frames:
  "entries_frame t m m" "entries_frame t m (touch f (obj_slots t) m)"
  "entries_frame t m (pin_all supp f t m)" "entries_frame t m (pinned_entries supp t m)"
  "entries_frame t m (rebuilt_entries supp t m)" "entries_frame t m (pin_all supp f t (rebuilt_entries supp t m))"
  by (simp_all add: entries_frame_def pin_all_def pinned_entries_def rebuilt_entries_def)

lemma all_present_frame:
  assumes "entries_frame t m m'" "set (obj_slots t) \<inter> set (obj_slots t2) = {}"
  shows "all_present t2 m' = all_present t2 m"
proof -
  have "m' (uxpte_slot t2 x) = m (uxpte_slot t2 x)" if "x \<in> set (req_pages (dataAddr t2) (dataSize t2))" for x
  proof -
    have "uxpte_slot t2 x \<in> set (obj_slots t2)" using that by (simp add: req_slots_def)
    then show ?thesis using assms by (auto simp: entries_frame_def)
  qed
  then show ?thesis by (simp add: all_present_def)
qed

lemma bchain_cong: "bchain h p as xs \<Longrightarrow> (\<And>a. a \<in> set as \<Longrightarrow> h' a = h a) \<Longrightarrow> bchain h' p as xs"
  by (induction as arbitrary: p xs) (auto simp: bchain_Cons)

lemma heap_chain_cong: "heap_chain h p A xs \<Longrightarrow> (\<And>a. a \<in> A \<Longrightarrow> h' a = h a) \<Longrightarrow> heap_chain h' p A xs"
  unfolding heap_chain_def using bchain_cong by blast

text \<open>Everything that belongs to an object is as it was: its struct, its bytes, its entries, its log.\<close>

definition untouched :: "UxPageTableStruct \<Rightarrow> ptr \<Rightarrow> PurgMem \<Rightarrow> ptr set \<Rightarrow> world \<Rightarrow> world \<Rightarrow> bool" where
  "untouched t p ob D w w' \<longleftrightarrow>
     objs w' p = objs w p \<and> regions w' (dataPtr ob) = regions w (dataPtr ob) \<and>
     (\<forall>a \<in> set (obj_slots t). ptes (ux w') a = ptes (ux w) a) \<and>
     upts (ux w') (uxPageTable ob) = upts (ux w) (uxPageTable ob) \<and> (\<forall>a \<in> D. builders w' a = builders w a)"

lemma untouched_trans: "untouched t p ob D w w1 \<Longrightarrow> untouched t p ob D w1 w2 \<Longrightarrow> untouched t p ob D w w2"
  by (simp add: untouched_def)

lemma view_untouched:
  assumes "obj_view (w\<lparr>builders := builders w'\<rparr>) p t w' ob' bs' m'" "entries_frame t (ptes (ux w)) m'"
    "apart p t ob p2 t2 ob2" "dataPtr ob' = dataPtr ob" "\<And>a. a \<in> D \<Longrightarrow> builders w' a = builders w a"
  shows "untouched t2 p2 ob2 D w w'"
  using assms by (auto simp: untouched_def obj_view_def apart_def entries_frame_def)

lemma view_untouched_builders:
  assumes "obj_view w p t w' ob' bs' m'" "entries_frame t (ptes (ux w)) m'" "apart p t ob p2 t2 ob2" "dataPtr ob' = dataPtr ob"
  shows "untouched t2 p2 ob2 D w w'"
proof -
  have b: "builders w' = builders w" using assms(1) by (simp add: obj_view_def)
  then have "obj_view (w\<lparr>builders := builders w'\<rparr>) p t w' ob' bs' m'" using assms(1) by simp
  from view_untouched [OF this assms(2-4)] show ?thesis using b by simp
qed

text \<open>A change that only \<open>p\<close> sees, but for builders, keeps the content of the others.\<close>

lemma view_keeps_other:
  assumes v: "obj_view (w\<lparr>builders := builders w'\<rparr>) p t w' ob' bs' m'" and fr: "entries_frame t (ptes (ux w)) m'"
    and ap: "apart p t ob p2 t2 ob2" "dataPtr ob' = dataPtr ob"
    and ok: "content_ok w p2 t2 ob2 bs2 ys c2" and ch: "heap_chain (builders w') (builder ob2) D ys"
  shows "content_ok w' p2 t2 ob2 bs2 ys c2"
proof -
  have v2: "obj_view w p2 t2 w ob2 bs2 (ptes (ux w))" and rest: "builder ob2 \<noteq> NULL" "\<forall>(f, q) \<in> set ys. in_buffer f"
    and run: "run_steps ys (zeros ob2) = (True, c2)" using ok by (auto simp: content_ok_def obj_ready_def)
  have eq: "objs w' = (objs w)(p \<mapsto> ob')" "regions w' = (regions w)(dataPtr ob \<mapsto> bs')" "upts (ux w') = upts (ux w)"
    "g_supportUxpt (ux w') = g_supportUxpt (ux w)" "ptes (ux w') = m'" using v ap(2) by (simp_all add: obj_view_def)
  have mine: "objs w p2 = Some ob2" "regions w (dataPtr ob2) = Some bs2"
    using v2 view_obj [OF v2] by (auto simp: obj_view_def dest: fun_cong [where x = "dataPtr ob2"])
  have "upt_ok (ux w') (uxPageTable ob2) t2" if "g_supportUxpt (ux w)"
    using v2 that eq fr by (auto simp: obj_view_def entries_frame_def intro: upt_ok_cong)
  then have "obj_view w' p2 t2 w' ob2 bs2 (ptes (ux w'))"
    using v2 eq mine ap(1) by (auto simp: obj_view_def apart_def fun_upd_idem_iff)
  moreover have "purged (g_supportUxpt (ux w')) t2 ob2 (ptes (ux w')) = purged (g_supportUxpt (ux w)) t2 ob2 (ptes (ux w))"
    using all_present_frame [OF fr, of t2] ap(1) eq by (simp add: purged_def apart_def)
  ultimately show ?thesis using ok rest run ch by (auto simp: content_ok_def obj_ready_def)
qed

lemma view_keeps_other_builders:
  assumes v: "obj_view w p t w' ob' bs' m'" and fr: "entries_frame t (ptes (ux w)) m'"
    and ap: "apart p t ob p2 t2 ob2" "dataPtr ob' = dataPtr ob" and ok: "content_ok w p2 t2 ob2 bs2 ys c2"
  shows "content_ok w' p2 t2 ob2 bs2 ys c2"
proof -
  have b: "builders w' = builders w" using v by (simp add: obj_view_def)
  then have v': "obj_view (w\<lparr>builders := builders w'\<rparr>) p t w' ob' bs' m'" using v by simp
  obtain D where "heap_chain (builders w') (builder ob2) D ys" using ok b by (auto simp: content_ok_def obj_ready_def)
  from view_keeps_other [OF v' fr ap ok this] show ?thesis .
qed

section \<open>Operations\<close>

lemma begin_keeps_other:
  assumes "begin_outcome grant w p t ob bs b c w'" "apart p t ob p2 t2 ob2" "content_ok w p2 t2 ob2 bs2 ys c2"
    and "\<And>x. dataPtr (grant x) = dataPtr x"
  shows "content_ok w' p2 t2 ob2 bs2 ys c2 \<and> untouched t2 p2 ob2 D w w'"
  using assms view_keeps_other_builders [where ob = ob] view_untouched_builders [where ob = ob]
  by (auto simp: begin_outcome_def Let_def entries_frames count_build_def split: if_splits)

lemma end_keeps_other:
  assumes v: "obj_view w p t w ob bs (ptes (ux w))" "builder ob \<noteq> NULL" "locks_ok os" "rl_writer (rwlock ob)"
    and e: "EndAccessPurgMem (calm os) p w = Some w'" and o: "apart p t ob p2 t2 ob2" "content_ok w p2 t2 ob2 bs2 ys c2"
  shows "content_ok w' p2 t2 ob2 bs2 ys c2 \<and> untouched t2 p2 ob2 D w w'"
proof -
  have v': "obj_view w p t w' (set_writer False ob) bs (pin_all (g_supportUxpt (ux w)) uxpte_dec t (ptes (ux w)))"
    using EndAccess_writer [OF v] e by simp
  have "content_ok w' p2 t2 ob2 bs2 ys c2"
    by (rule view_keeps_other_builders [OF v']) (use o in \<open>simp_all add: entries_frames\<close>)
  moreover have "untouched t2 p2 ob2 D w w'"
    by (rule view_untouched_builders [OF v']) (use o in \<open>simp_all add: entries_frames\<close>)
  ultimately show ?thesis by blast
qed

text \<open>A new entry of the log writes the new node and the last node of its own chain.\<close>

lemma AppendBuilder_frame:
  assumes "heap_chain h b A xs" "heap_chain h c C ys" "b \<noteq> NULL" "c \<noteq> NULL" "A \<inter> C = {}"
    "PurgMemBuilderAppendBuilder b c h = Some (r, h')" "a \<notin> A"
  shows "h' a = h a"
proof -
  obtain as cs where as: "bchain h b as xs" "set as = A" "bchain h c cs ys" "set cs = C"
    using assms(1,2) by (auto simp: heap_chain_def)
  have "as \<noteq> []" using as assms(3) by auto
  then obtain nd where "AppendBuilder b c h = Some (h(last as \<mapsto> nd\<lparr>nextBuilder := c\<rparr>))" "last as \<in> A"
    using AppendBuilder_bchain [OF as(1) _ as(3)] as assms(5) last_in_set by blast
  then show ?thesis using assms(3,4,6,7) by (auto simp: PurgMemBuilderAppendBuilder_def)
qed

lemma append_builders_frame:
  assumes lg: "obj_logged w p t ob bs xs" and ch: "heap_chain (builders w) (builder ob) A xs" "builder ob \<noteq> NULL"
    and os: "touch_ok os t" and f: "in_buffer f" "f (content_of ob bs) q = (True, d)"
    and new: "os_malloc os (Suc (now w)) = newp" "newp \<noteq> NULL" "builders w newp = None"
    and res: "PurgMemAppendModify (calm os) p (Some f) q w = Some (r, w')" and a: "a \<notin> insert newp A"
  shows "builders w' a = builders w a"
proof -
  obtain w1 where v1: "obj_view w p t w1 ob (rebuilt ob d bs) (touch (\<lambda>v. v OR 1) (obj_slots t) (ptes (ux w)))"
    and w1: "now w1 = Suc (now w)" and step: "PurgMemAppendModify (calm os) p (Some f) q w = log_step os p ob f q w1"
    using AppendModify_applies [OF lg os f] by auto
  have bl: "builders w1 = builders w" using v1 by (simp add: obj_view_def)
  let ?h = "(builders w)(newp \<mapsto> \<lparr>nextBuilder = NULL, Build = Some f, bparam = q, bname = None\<rparr>)"
  note fresh = heap_chain_new(1,2) [OF ch(1) new(3,2), of f q None] heap_chain_new(3) [OF ch(1) new(3,2)]
  obtain h2 where h2: "PurgMemBuilderAppendBuilder (builder ob) newp ?h = Some (True, h2)"
    using purg_builder.append_to [OF fresh(1,2) ch(2) new(2)] fresh(3) by auto
  then have "builders w' = h2" using res step w1 bl new ch(2) by (auto simp: log_step_def PurgMemBuilderCreate_def)
  moreover have "h2 a = ?h a"
    using AppendBuilder_frame [OF fresh(1,2) ch(2) new(2) _ h2, of a] fresh(3) a by auto
  ultimately show ?thesis using a by simp
qed

lemma append_keeps_other:
  assumes ok: "content_ok w p t ob bs xs c" "content_of ob bs = c" and os: "touch_ok os t" and f: "in_buffer f" "f c q = (True, d)"
    and new: "os_malloc os (Suc (now w)) \<noteq> NULL" "builders w (os_malloc os (Suc (now w))) = None"
    and res: "PurgMemAppendModify (calm os) p (Some f) q w = Some (r, w')"
    and o: "apart p t ob p2 t2 ob2" "content_ok w p2 t2 ob2 bs2 ys c2"
    and ch: "heap_chain (builders w) (builder ob) A xs" "heap_chain (builders w) (builder ob2) D ys" "A \<inter> D = {}"
  shows "content_ok w' p2 t2 ob2 bs2 ys c2 \<and> untouched t2 p2 ob2 D w w'"
proof -
  have lg: "obj_logged w p t ob bs xs" "builder ob \<noteq> NULL" using ok(1) by (simp_all add: content_ok_def obj_ready_logged)
  have f': "f (content_of ob bs) q = (True, d)" using f(2) ok(2) by simp
  have v: "obj_view (w\<lparr>builders := builders w'\<rparr>) p t w' ob (rebuilt ob d bs) (touch (\<lambda>v. v OR 1) (obj_slots t) (ptes (ux w)))"
    using AppendModify_logs [OF lg(1) os f(1) f' refl new] res lg(2) by (auto simp: first_builder_def)
  have "a \<notin> insert (os_malloc os (Suc (now w))) A" if "a \<in> D" for a
    using that ch(3) heap_chain_new(3) [OF ch(2) new(2,1)] by auto
  then have fr: "\<And>a. a \<in> D \<Longrightarrow> builders w' a = builders w a"
    using append_builders_frame [OF lg(1) ch(1) lg(2) os f(1) f' refl new res] by blast
  then have "heap_chain (builders w') (builder ob2) D ys" by (intro heap_chain_cong [OF ch(2)])
  from view_keeps_other [OF v _ o(1) refl o(2) this] view_untouched [OF v _ o(1) refl fr] show ?thesis by (simp add: entries_frames)
qed

section \<open>A session on one object\<close>

text \<open>
  C22. Objects are independent. A whole session on one object (\<open>PurgMemBeginWrite\<close> with its rebuild if
  the object was purged, a modification through \<open>PurgMemAppendModify\<close>, \<open>PurgMemEndWrite\<close>) leaves any
  other object that shares no region, no page table entry and no builder with it as it was: its struct,
  its bytes, its page table entries (reference counts included), its table struct and its builders do
  not change, so its content and its log still agree, purged or not.
\<close>

theorem session_keeps_others:
  assumes ok: "content_ok w p t ob bs xs c" and os: "pm_env os t" and free: "lock_free ob"
    and cnt: "buildDataCount ob + 1 \<noteq> 0" and f: "in_buffer f" "f c q = (True, d)"
    and mem: "\<And>n. os_malloc os n \<noteq> NULL \<and> builders w (os_malloc os n) = None"
    and o: "apart p t ob p2 t2 ob2" "content_ok w p2 t2 ob2 bs2 ys c2"
    and ch: "heap_chain (builders w) (builder ob) A xs" "heap_chain (builders w) (builder ob2) D ys" "A \<inter> D = {}"
  shows "\<exists>w1 w2 w3. PurgMemBeginWrite (calm os) p w = Some (True, w1) \<and>
    PurgMemAppendModify (calm os) p (Some f) q w1 = Some (True, w2) \<and> PurgMemEndWrite (calm os) p w2 = Some w3 \<and>
    content_ok w1 p2 t2 ob2 bs2 ys c2 \<and> content_ok w2 p2 t2 ob2 bs2 ys c2 \<and> content_ok w3 p2 t2 ob2 bs2 ys c2 \<and>
    untouched t2 p2 ob2 D w w1 \<and> untouched t2 p2 ob2 D w w2 \<and> untouched t2 p2 ob2 D w w3"
proof -
  have env: "touch_ok os t" "locks_ok os" using os by (simp_all add: pm_env_def)
  obtain w1 bs1 b where w1: "PurgMemBeginWrite (calm os) p w = Some (True, w1)"
    "content_ok w1 p t (set_writer True (count_build b ob)) bs1 xs c" "content_of ob bs1 = c" "builders w1 = builders w"
    using wr.content [OF ok os free cnt] by blast
  let ?ob1 = "set_writer True (count_build b ob)"
  have same: "dataSizeInput ?ob1 = dataSizeInput ob" "dataPtr ?ob1 = dataPtr ob" "builder ?ob1 = builder ob"
    by (simp_all add: count_build_def)
  have rdy: "obj_ready w p t ob bs xs" "run_steps xs (zeros ob) = (True, c)" using ok by (simp_all add: content_ok_def)
  have "begin_outcome (set_writer True) w p t ob bs True c w1"
    using wr.outcome [OF rdy(1) os free cnt rdy(2)] w1(1) by auto
  then have o1: "content_ok w1 p2 t2 ob2 bs2 ys c2 \<and> untouched t2 p2 ob2 D w w1" by (rule begin_keeps_other [OF _ o]) simp
  have ap1: "apart p t ?ob1 p2 t2 ob2" using o(1) same(2) by (simp add: apart_def)
  have new: "os_malloc os (Suc (now w1)) \<noteq> NULL" "builders w1 (os_malloc os (Suc (now w1))) = None" using mem w1(4) by simp_all
  have c1: "content_of ?ob1 bs1 = c" using w1(3) same by simp
  obtain w2 bs2' where w2: "PurgMemAppendModify (calm os) p (Some f) q w1 = Some (True, w2)"
    "content_ok w2 p t ?ob1 bs2' (xs @ [(f, q)]) d"
    using append_content [OF w1(2) c1 env(1) f new] by blast
  have ch1: "heap_chain (builders w1) (builder ?ob1) A xs" "heap_chain (builders w1) (builder ob2) D ys"
    using ch w1(4) same(3) by simp_all
  have o2: "content_ok w2 p2 t2 ob2 bs2 ys c2 \<and> untouched t2 p2 ob2 D w1 w2"
    by (rule append_keeps_other [OF w1(2) c1 env(1) f new w2(1) ap1 conjunct1 [OF o1] ch1 ch(3)])
  have v2: "obj_view w2 p t w2 ?ob1 bs2' (ptes (ux w2))" "builder ?ob1 \<noteq> NULL"
    using w2(2) by (simp_all add: content_ok_def obj_ready_def)
  obtain w3 where w3: "EndAccessPurgMem (calm os) p w2 = Some w3" using EndAccess_writer [OF v2 env(2)] by auto
  have o3: "content_ok w3 p2 t2 ob2 bs2 ys c2 \<and> untouched t2 p2 ob2 D w2 w3"
    by (rule end_keeps_other [OF v2 env(2) _ w3 ap1 conjunct1 [OF o2]]) simp
  have u2: "untouched t2 p2 ob2 D w w2" using o1 o2 untouched_trans by blast
  then have "untouched t2 p2 ob2 D w w3" using o3 untouched_trans by blast
  then show ?thesis
    using w1(1) w2(1) w3 o1 o2 o3 u2 unfolding PurgMemEndWrite_def
    by (intro exI [of _ w1] exI [of _ w2] exI [of _ w3]) simp
qed

text \<open>A second object: its data at \<open>0x5000\<close>, its entry at \<open>0x20028\<close>, its builder at \<open>0x60\<close>.\<close>

definition ex_table2 :: UxPageTableStruct where
  "ex_table2 = \<lparr>dataAddr = 0x5000, dataSize = 0x1000, uxpte = 0x20000\<rparr>"

definition ex_obj2 :: PurgMem where
  "ex_obj2 = (ex_obj 1)\<lparr>dataPtr := 0x5000, builder := 0x60, uxPageTable := 0x10\<rparr>"

definition two_objects :: world where
  "two_objects = (ex_world fill_nines 1 ex_bytes)\<lparr>ux := ex_st\<lparr>g_supportUxpt := False\<rparr>,
     builders := [0x50 \<mapsto> ex_node fill_nines, 0x60 \<mapsto> ex_node fill_twos],
     regions := [0x2000 \<mapsto> ex_bytes, 0x5000 \<mapsto> replicate 4096 2], objs := [0x40 \<mapsto> ex_obj 1, 0x48 \<mapsto> ex_obj2]\<rparr>"

lemma two_objects_chains:
  "heap_chain (builders two_objects) 0x50 {0x50} [(fill_nines, 0)]" "heap_chain (builders two_objects) 0x60 {0x60} [(fill_twos, 0)]"
  unfolding heap_chain_def
  by (intro exI [of _ "[0x50]"] exI [of _ "[0x60]"], simp add: bchain_Cons ex_node_def two_objects_def)+

lemma two_objects_ok:
  "content_ok two_objects 0x40 ex_table (ex_obj 1) ex_bytes [(fill_nines, 0)] (replicate 4 9)"
  "content_ok two_objects 0x48 ex_table2 ex_obj2 (replicate 4096 2) [(fill_twos, 0)] (replicate 4 2)"
proof -
  have "geometry ex_table2 ex_obj2" by (simp add: geometry_def ex_table2_def ex_obj2_def ex_obj_def ex_round)
  then have "obj_view two_objects 0x48 ex_table2 two_objects ex_obj2 (replicate 4096 2) (ptes (ux two_objects))"
    by (simp add: obj_view_def two_objects_def ex_world_def ex_obj2_def ex_obj_def ex_st_def ex_table2_def fun_upd_idem_iff)
  then show "content_ok two_objects 0x48 ex_table2 ex_obj2 (replicate 4096 2) [(fill_twos, 0)] (replicate 4 2)"
    using two_objects_chains(2)
    by (auto simp: content_ok_def obj_ready_def ex_obj2_def ex_obj_def zeros_def fill_twos_def in_buffer_def)
  have "obj_view two_objects 0x40 ex_table two_objects (ex_obj 1) ex_bytes (ptes (ux two_objects))"
    using ex_geometry [of 1] ex_bytes_length
    by (simp add: obj_view_def two_objects_def ex_world_def ex_obj_def ex_st_def ex_table_def fun_upd_idem_iff fun_upd_twist)
  then show "content_ok two_objects 0x40 ex_table (ex_obj 1) ex_bytes [(fill_nines, 0)] (replicate 4 9)"
    using two_objects_chains(1) ex_log(1) [of 1] ex_buffers(1)
    by (auto simp: content_ok_def obj_ready_def ex_obj_def ex_bytes_def)
qed

lemma two_objects_apart: "apart 0x40 ex_table (ex_obj 1) 0x48 ex_table2 ex_obj2"
proof -
  have "req_pages 0x5000 0x1000 = [0x5000]"
    by (simp add: req_pages_def RoundDown_def RoundUp_def PAGE_SIZE_eq page_range_def)
  then have "obj_slots ex_table2 = [uxpte_slot ex_table2 0x5000]" by (simp add: req_slots_def ex_table2_def)
  moreover have "uxpte_slot ex_table2 0x5000 \<noteq> 0x10010"
    by (simp add: uxpte_slot_def ex_table2_def GetIndexInUxpte_def UxpteOffset_def VirtPageNo_def PAGE_SHIFT_def)
  ultimately show ?thesis by (simp add: apart_def ex_slots ex_obj2_def ex_obj_def)
qed

theorem session_keeps_others_witness:
  "\<exists>w1 w2 w3. PurgMemBeginWrite (calm (ex_pm_os\<lparr>os_malloc := \<lambda>_. 0x100\<rparr>)) 0x40 two_objects = Some (True, w1) \<and>
     PurgMemAppendModify (calm (ex_pm_os\<lparr>os_malloc := \<lambda>_. 0x100\<rparr>)) 0x40 (Some fill_twos) 0 w1 = Some (True, w2) \<and>
     PurgMemEndWrite (calm (ex_pm_os\<lparr>os_malloc := \<lambda>_. 0x100\<rparr>)) 0x40 w2 = Some w3 \<and>
     content_ok w3 0x48 ex_table2 ex_obj2 (replicate 4096 2) [(fill_twos, 0)] (replicate 4 2) \<and>
     untouched ex_table2 0x48 ex_obj2 {0x60} two_objects w3"
proof -
  let ?os = "ex_pm_os\<lparr>os_malloc := \<lambda>_. 0x100\<rparr>"
  have env: "pm_env ?os ex_table" using ex_env by (simp add: pm_env_def touch_ok_def memset_ok_def locks_ok_def)
  have cnt: "buildDataCount (ex_obj 1) + 1 \<noteq> 0" by (simp add: ex_obj_def)
  have f: "in_buffer fill_twos" "fill_twos (replicate 4 9) 0 = (True, replicate 4 2)"
    by (simp_all add: in_buffer_def fill_twos_def)
  have mem: "os_malloc ?os n \<noteq> NULL \<and> builders two_objects (os_malloc ?os n) = None" for n
    by (simp add: two_objects_def)
  have ch: "heap_chain (builders two_objects) (builder (ex_obj 1)) {0x50} [(fill_nines, 0)]"
    "heap_chain (builders two_objects) (builder ex_obj2) {0x60} [(fill_twos, 0)]"
    using two_objects_chains by (simp_all add: ex_obj2_def ex_obj_def)
  from session_keeps_others [OF two_objects_ok(1) env ex_free(1) cnt f mem two_objects_apart two_objects_ok(2) ch]
  show ?thesis by auto
qed

end
