(* ===== verification/Cpp_Builder.thy ===== *)
theory Cpp_Builder
  imports Purg_Builder
begin

text \<open>
  The builders of the C++ library, \<open>cpp/include/purgeable_mem_builder.h\<close> and
  \<open>cpp/src/purgeable_mem_builder.cpp\<close>. A builder owns its successor through a
  \<open>unique_ptr\<close>, so a chain is a value: no sharing and no cycle, hence a datatype. The pure
  virtual \<open>Build\<close> of the user's class is the first component; it receives the content (whose
  length is the \<open>size\<close> argument) and gives its verdict and the new content. The trailing
  underscore of member names is dropped.
\<close>

section \<open>Builders and their operations\<close>

type_synonym build_func = "byte list \<Rightarrow> bool \<times> byte list"

text \<open>A \<open>std::function<void()>\<close> is known by a number; running it is recorded in a list.\<close>

type_synonym callback = nat

datatype PurgeableMemBuilder =
  PurgeableMemBuilder
    (v_Build: build_func)
    (rebuildSuccessCallback: "callback option")
    (m_nextBuilder: "PurgeableMemBuilder option")

definition SetRebuildSuccessCallback :: "callback option \<Rightarrow> PurgeableMemBuilder \<Rightarrow> PurgeableMemBuilder" where
  "SetRebuildSuccessCallback cb b = PurgeableMemBuilder (v_Build b) cb (m_nextBuilder b)"

definition DoRebuildSuccessCallback :: "PurgeableMemBuilder \<Rightarrow> callback list \<Rightarrow> callback list" where
  "DoRebuildSuccessCallback b called =
     (case rebuildSuccessCallback b of Some cb \<Rightarrow> called @ [cb] | None \<Rightarrow> called)"

text \<open>The argument is moved into the chain; \<open>None\<close> is the null \<open>unique_ptr\<close>.\<close>

fun Cpp_AppendBuilder :: "PurgeableMemBuilder \<Rightarrow> PurgeableMemBuilder option \<Rightarrow> PurgeableMemBuilder" where
  "Cpp_AppendBuilder b None = b"
| "Cpp_AppendBuilder (PurgeableMemBuilder f cb (Some nxt)) (Some nb) =
     PurgeableMemBuilder f cb (Some (Cpp_AppendBuilder nxt (Some nb)))"
| "Cpp_AppendBuilder (PurgeableMemBuilder f cb None) (Some nb) = PurgeableMemBuilder f cb (Some nb)"

fun BuildAll :: "PurgeableMemBuilder \<Rightarrow> byte list \<Rightarrow> bool \<times> byte list" where
  "BuildAll (PurgeableMemBuilder f cb nxt) data =
     (let (succ, data1) = f data
      in if \<not> succ then (False, data1)
         else case nxt of None \<Rightarrow> (True, data1) | Some b \<Rightarrow> BuildAll b data1)"

text \<open>
  The destructor resets \<open>nextBuilder_\<close>, which destroys the successor, and so on. Counted are the
  builders that are destroyed.
\<close>

fun Destroy_PurgeableMemBuilder :: "PurgeableMemBuilder \<Rightarrow> nat" where
  "Destroy_PurgeableMemBuilder (PurgeableMemBuilder f cb nxt) =
     (case nxt of None \<Rightarrow> 0 | Some b \<Rightarrow> Destroy_PurgeableMemBuilder b) + 1"

section \<open>Specification: the list of build functions\<close>

fun chain_of :: "PurgeableMemBuilder \<Rightarrow> build_func list" where
  "chain_of (PurgeableMemBuilder f cb nxt) =
     f # (case nxt of None \<Rightarrow> [] | Some b \<Rightarrow> chain_of b)"

text \<open>Run a list of build functions, stop at the first that fails.\<close>

fun run_builds :: "build_func list \<Rightarrow> byte list \<Rightarrow> bool \<times> byte list" where
  "run_builds [] data = (True, data)"
| "run_builds (f # fs) data =
     (let (succ, data1) = f data in if succ then run_builds fs data1 else (False, data1))"

definition keeps_size :: "build_func \<Rightarrow> bool" where
  "keeps_size f \<longleftrightarrow> (\<forall>data. length (snd (f data)) = length data)"

lemma chain_of_nonempty [simp]: "chain_of b \<noteq> []"
  by (cases b) simp

lemma chain_of_append:
  "chain_of (Cpp_AppendBuilder b nb) =
     chain_of b @ (case nb of None \<Rightarrow> [] | Some n \<Rightarrow> chain_of n)"
  by (induction b nb rule: Cpp_AppendBuilder.induct) auto

lemma chain_of_callback [simp]: "chain_of (SetRebuildSuccessCallback cb b) = chain_of b"
  by (cases b) (simp add: SetRebuildSuccessCallback_def)

lemma BuildAll_run_builds: "BuildAll b data = run_builds (chain_of b) data"
  by (induction b data rule: BuildAll.induct) (auto simp: Let_def split: option.splits prod.splits)

lemma run_builds_append:
  "run_builds (fs @ gs) data =
     (let (succ, data1) = run_builds fs data in if succ then run_builds gs data1 else (False, data1))"
  by (induction fs arbitrary: data) (auto simp: Let_def split: prod.splits)

lemma run_builds_length:
  assumes "\<forall>f \<in> set fs. keeps_size f"
  shows "length (snd (run_builds fs data)) = length data"
  using assms
proof (induction fs arbitrary: data)
  case (Cons f fs)
  then have "length (snd (f data)) = length data" by (simp add: keeps_size_def)
  then show ?case using Cons by (auto simp: Let_def split: prod.splits)
qed simp

lemma Destroy_counts: "Destroy_PurgeableMemBuilder b = length (chain_of b)"
  by (induction b rule: Destroy_PurgeableMemBuilder.induct) (auto split: option.splits)

text \<open>The C library replays the same list when its builders hold the same functions.\<close>

definition as_steps :: "build_func list \<Rightarrow> mod_step list" where
  "as_steps fs = map (\<lambda>f. (\<lambda>data _. f data, NULL)) fs"

lemma run_steps_as_steps: "run_steps (as_steps fs) data = run_builds fs data"
  by (induction fs arbitrary: data) (auto simp: as_steps_def Let_def split: prod.splits)

end
