(* ===== verification/Cpp_Base.thy ===== *)
theory Cpp_Base
  imports Cpp_Builder Purgeable_Mem
begin

text \<open>
  The base class \<open>PurgeableMemBase\<close> of the C++ library, \<open>cpp/src/purgeable_mem_base.cpp\<close>. An object
  is a record; derived classes extend it. The virtual methods the base class calls are the record
  \<open>vtable\<close>, which a derived class provides; they read the object and change only the state of
  process and kernel, a \<open>world\<close> or an extension of it. Operations return their result, the object
  and the new state; \<open>None\<close> is \<^emph>\<open>does not return\<close>.
\<close>

section \<open>Objects, virtual methods, the lock\<close>

record PurgeableMemBase =
  m_dataPtr :: ptr
  m_dataLock :: bool
  m_isDataValid :: bool
  m_dataSizeInput :: size_t
  m_builder :: "PurgeableMemBuilder option"
  m_buildDataCount :: c_uint

text \<open>The members a base object starts with.\<close>

definition PurgeableMemBase_init :: PurgeableMemBase where
  "PurgeableMemBase_init =
     \<lparr>m_dataPtr = NULL, m_dataLock = False, m_isDataValid = True, m_dataSizeInput = 0,
      m_builder = None, m_buildDataCount = 0\<rparr>"

definition OHOS_MAXIMUM_PURGEABLE_MEMORY :: size_t where
  "OHOS_MAXIMUM_PURGEABLE_MEMORY = 1024 * 1024 * 1024"

definition MAX_BUILD_TRYTIMES :: nat where
  "MAX_BUILD_TRYTIMES = 3"

record ('ob, 'w) vtable =
  v_Pin :: "'ob \<Rightarrow> 'w \<Rightarrow> (bool \<times> 'w) option"
  v_Unpin :: "'ob \<Rightarrow> 'w \<Rightarrow> (bool \<times> 'w) option"
  v_IsPurged :: "'ob \<Rightarrow> 'w \<Rightarrow> (bool \<times> 'w) option"
  v_AfterRebuildSucc :: "'ob \<Rightarrow> 'w \<Rightarrow> 'w option"

text \<open>The methods of the base class itself.\<close>

definition Base_Pin :: "'ob \<Rightarrow> 'w \<Rightarrow> (bool \<times> 'w) option" where
  "Base_Pin ob w = Some (False, w)"

definition Base_Unpin :: "'ob \<Rightarrow> 'w \<Rightarrow> (bool \<times> 'w) option" where
  "Base_Unpin ob w = Some (False, w)"

definition Base_IsPurged :: "'ob \<Rightarrow> 'w \<Rightarrow> (bool \<times> 'w) option" where
  "Base_IsPurged ob w = Some (False, w)"

definition Base_AfterRebuildSucc :: "'ob \<Rightarrow> 'w \<Rightarrow> 'w option" where
  "Base_AfterRebuildSucc ob w = Some w"

definition Base_ResizeData :: "size_t \<Rightarrow> 'ob \<Rightarrow> 'w \<Rightarrow> 'ob \<times> 'w" where
  "Base_ResizeData newSize ob w = (ob, w)"

definition Base_GetPinStatus :: "'ob \<Rightarrow> int" where
  "Base_GetPinStatus ob = 0"

definition Base_ToString :: "'ob \<Rightarrow> string" where
  "Base_ToString ob = ''''"

definition base_vtable :: "('ob, 'w) vtable" where
  "base_vtable = \<lparr>v_Pin = Base_Pin, v_Unpin = Base_Unpin, v_IsPurged = Base_IsPurged,
                  v_AfterRebuildSucc = Base_AfterRebuildSucc\<rparr>"

text \<open>
  \<open>std::lock_guard<std::mutex> lock(dataLock_)\<close>: the rest of the function runs with the mutex held
  and releases it on return. The mutex is not recursive.
\<close>

definition lock_guard ::
  "('a PurgeableMemBase_scheme \<Rightarrow> 'w \<Rightarrow> ('r \<times> 'a PurgeableMemBase_scheme \<times> 'w) option) \<Rightarrow>
   'a PurgeableMemBase_scheme \<Rightarrow> 'w \<Rightarrow> ('r \<times> 'a PurgeableMemBase_scheme \<times> 'w) option" where
  "lock_guard body ob w =
     (if m_dataLock ob then None
      else do {
        (r, ob1, w1) \<leftarrow> body (ob\<lparr>m_dataLock := True\<rparr>) w;
        Some (r, ob1\<lparr>m_dataLock := False\<rparr>, w1)
      })"

section \<open>Rebuilding\<close>

definition Base_RoundUp :: "size_t \<Rightarrow> size_t \<Rightarrow> size_t" where
  "Base_RoundUp val algn =
     (if val + algn < val \<or> val + algn < algn then val
      else if algn = 0 then val
      else ((val + algn - 1) div algn) * algn)"

definition IfNeedRebuild ::
  "('a PurgeableMemBase_scheme, 'w) vtable \<Rightarrow> 'a PurgeableMemBase_scheme \<Rightarrow> 'w \<Rightarrow> (bool \<times> 'w) option" where
  "IfNeedRebuild vt ob w =
     (if m_buildDataCount ob = 0 then Some (True, w)
      else do { (p, w1) \<leftarrow> v_IsPurged vt ob w; if p then Some (True, w1) else Some (False, w1) })"

definition BuildContent ::
  "pm_os \<Rightarrow> 'a PurgeableMemBase_scheme \<Rightarrow> 'b world_scheme \<Rightarrow>
   (bool \<times> 'a PurgeableMemBase_scheme \<times> 'b world_scheme) option" where
  "BuildContent os ob w =
     do {
       bs \<leftarrow> regions w (m_dataPtr ob);
       let n = unat (m_dataSizeInput ob);
           (rc, bs1) = os_memset_s os bs (Base_RoundUp (m_dataSizeInput ob) PAGE_SIZE) 0 (m_dataSizeInput ob);
           w1 = store_data os (m_dataPtr ob) bs1 w
       in if rc \<noteq> 0 then Some (False, ob, w1)
          else do {
            b \<leftarrow> m_builder ob;
            let (succ, d2) = BuildAll b (take n bs1);
                w2 = store_data os (m_dataPtr ob) (d2 @ drop n bs1) w1
            in if succ then Some (True, ob\<lparr>m_buildDataCount := m_buildDataCount ob + 1\<rparr>, w2)
               else Some (False, ob, w2)
          }
     }"

section \<open>Accesses\<close>

text \<open>The loop of \<open>BeginRead\<close>, entered with the number of builds so far.\<close>

function BeginRead_while ::
  "pm_os \<Rightarrow> ('a PurgeableMemBase_scheme, 'b world_scheme) vtable \<Rightarrow> nat \<Rightarrow>
   'a PurgeableMemBase_scheme \<Rightarrow> 'b world_scheme \<Rightarrow>
   (bool \<times> 'a PurgeableMemBase_scheme \<times> 'b world_scheme) option" where
  "BeginRead_while os vt tryTimes ob w =
     do {
       (need, w1) \<leftarrow> IfNeedRebuild vt ob w;
       if \<not> need then Some (True, ob, w1)
       else do {
         (succ, ob1, w2) \<leftarrow> BuildContent os ob w1;
         w3 \<leftarrow> (if succ then v_AfterRebuildSucc vt ob1 w2 else Some w2);
         if \<not> succ \<or> tryTimes + 1 > MAX_BUILD_TRYTIMES then Some (False, ob1, w3)
         else BeginRead_while os vt (tryTimes + 1) ob1 w3
       }
     }"
  by pat_completeness auto
termination
  by (relation "measure (\<lambda>(os, vt, tryTimes, ob, w). MAX_BUILD_TRYTIMES - tryTimes)") auto

declare BeginRead_while.simps [simp del]

definition BeginRead_locked ::
  "pm_os \<Rightarrow> ('a PurgeableMemBase_scheme, 'b world_scheme) vtable \<Rightarrow>
   'a PurgeableMemBase_scheme \<Rightarrow> 'b world_scheme \<Rightarrow>
   (bool \<times> 'a PurgeableMemBase_scheme \<times> 'b world_scheme) option" where
  "BeginRead_locked os vt ob w =
     (if \<not> m_isDataValid ob then Some (False, ob, w)
      else IF_NULL_LOG_ACTION (m_dataPtr ob = NULL) (Some (False, ob, w))
      (IF_NULL_LOG_ACTION (m_builder ob = None) (Some (False, ob, w))
       (do {
        (_, w1) \<leftarrow> v_Pin vt ob w;
        (ret, ob1, w2) \<leftarrow> BeginRead_while os vt 0 ob w1;
        if \<not> ret then do { (_, w3) \<leftarrow> v_Unpin vt ob1 w2; Some (ret, ob1, w3) }
        else Some (ret, ob1, w2)
       })))"

definition BeginRead ::
  "pm_os \<Rightarrow> ('a PurgeableMemBase_scheme, 'b world_scheme) vtable \<Rightarrow>
   'a PurgeableMemBase_scheme \<Rightarrow> 'b world_scheme \<Rightarrow>
   (bool \<times> 'a PurgeableMemBase_scheme \<times> 'b world_scheme) option" where
  "BeginRead os vt = lock_guard (BeginRead_locked os vt)"

definition EndRead ::
  "('a PurgeableMemBase_scheme, 'w) vtable \<Rightarrow> 'a PurgeableMemBase_scheme \<Rightarrow> 'w \<Rightarrow>
   (unit \<times> 'a PurgeableMemBase_scheme \<times> 'w) option" where
  "EndRead vt = lock_guard (\<lambda>ob w.
     if m_isDataValid ob then do { (_, w1) \<leftarrow> v_Unpin vt ob w; Some ((), ob, w1) }
     else Some ((), ob, w))"

definition BeginWrite_locked ::
  "pm_os \<Rightarrow> ('a PurgeableMemBase_scheme, 'b world_scheme) vtable \<Rightarrow>
   'a PurgeableMemBase_scheme \<Rightarrow> 'b world_scheme \<Rightarrow>
   (bool \<times> 'a PurgeableMemBase_scheme \<times> 'b world_scheme) option" where
  "BeginWrite_locked os vt ob w =
     IF_NULL_LOG_ACTION (m_dataPtr ob = NULL) (Some (False, ob, w))
     (IF_NULL_LOG_ACTION (m_builder ob = None) (Some (False, ob, w))
      (do {
        (_, w1) \<leftarrow> v_Pin vt ob w;
        (need, w2) \<leftarrow> IfNeedRebuild vt ob w1;
        if \<not> need then Some (True, ob, w2)
        else do {
          (succ, ob1, w3) \<leftarrow> BuildContent os ob w2;
          if succ then do { w4 \<leftarrow> v_AfterRebuildSucc vt ob1 w3; Some (True, ob1, w4) }
          else do { (_, w4) \<leftarrow> v_Unpin vt ob1 w3; Some (False, ob1, w4) }
        }
      }))"

definition BeginWrite ::
  "pm_os \<Rightarrow> ('a PurgeableMemBase_scheme, 'b world_scheme) vtable \<Rightarrow>
   'a PurgeableMemBase_scheme \<Rightarrow> 'b world_scheme \<Rightarrow>
   (bool \<times> 'a PurgeableMemBase_scheme \<times> 'b world_scheme) option" where
  "BeginWrite os vt = lock_guard (BeginWrite_locked os vt)"

definition EndWrite ::
  "('a PurgeableMemBase_scheme, 'w) vtable \<Rightarrow> 'a PurgeableMemBase_scheme \<Rightarrow> 'w \<Rightarrow>
   (unit \<times> 'a PurgeableMemBase_scheme \<times> 'w) option" where
  "EndWrite vt = lock_guard (\<lambda>ob w. do { (_, w1) \<leftarrow> v_Unpin vt ob w; Some ((), ob, w1) })"

section \<open>Content and its log\<close>

text \<open>The modifier is moved in: on failure it is destroyed.\<close>

definition ModifyContentByBuilder ::
  "pm_os \<Rightarrow> PurgeableMemBuilder option \<Rightarrow> 'a PurgeableMemBase_scheme \<Rightarrow> 'b world_scheme \<Rightarrow>
   (bool \<times> 'a PurgeableMemBase_scheme \<times> 'b world_scheme) option" where
  "ModifyContentByBuilder os modifier ob w =
     (case modifier of
        None \<Rightarrow> Some (False, ob, w)
      | Some md \<Rightarrow>
          lock_guard (\<lambda>ob w.
            do {
              bs \<leftarrow> regions w (m_dataPtr ob);
              let n = unat (m_dataSizeInput ob);
                  (succ, d1) = v_Build md (take n bs);
                  w1 = store_data os (m_dataPtr ob) (d1 @ drop n bs) w
              in if \<not> succ then Some (False, ob, w1)
                 else case m_builder ob of
                   Some b \<Rightarrow> Some (True, ob\<lparr>m_builder := Some (Cpp_AppendBuilder b (Some md))\<rparr>, w1)
                 | None \<Rightarrow> Some (True, ob\<lparr>m_builder := Some md\<rparr>, w1)
            }) ob w)"

definition GetContent ::
  "'a PurgeableMemBase_scheme \<Rightarrow> 'w \<Rightarrow> (ptr \<times> 'a PurgeableMemBase_scheme \<times> 'w) option" where
  "GetContent = lock_guard (\<lambda>ob w. Some (m_dataPtr ob, ob, w))"

definition GetContentSize ::
  "'a PurgeableMemBase_scheme \<Rightarrow> 'w \<Rightarrow> (size_t \<times> 'a PurgeableMemBase_scheme \<times> 'w) option" where
  "GetContentSize = lock_guard (\<lambda>ob w. Some (m_dataSizeInput ob, ob, w))"

definition Base_SetRebuildSuccessCallback ::
  "callback option \<Rightarrow> 'a PurgeableMemBase_scheme \<Rightarrow> 'w \<Rightarrow>
   (unit \<times> 'a PurgeableMemBase_scheme \<times> 'w) option" where
  "Base_SetRebuildSuccessCallback cb = lock_guard (\<lambda>ob w.
     case m_builder ob of
       Some b \<Rightarrow> Some ((), ob\<lparr>m_builder := Some (SetRebuildSuccessCallback cb b)\<rparr>, w)
     | None \<Rightarrow> Some ((), ob, w))"

definition IsDataValid ::
  "'a PurgeableMemBase_scheme \<Rightarrow> 'w \<Rightarrow> (bool \<times> 'a PurgeableMemBase_scheme \<times> 'w) option" where
  "IsDataValid = lock_guard (\<lambda>ob w. Some (m_isDataValid ob, ob, w))"

definition SetDataValid ::
  "bool \<Rightarrow> 'a PurgeableMemBase_scheme \<Rightarrow> 'w \<Rightarrow> (unit \<times> 'a PurgeableMemBase_scheme \<times> 'w) option" where
  "SetDataValid target = lock_guard (\<lambda>ob w. Some ((), ob\<lparr>m_isDataValid := target\<rparr>, w))"

end
