(* ===== verification/Cpp_Seq.thy ===== *)
theory Cpp_Seq
  imports Cpp_Base Purg_Seq
begin

text \<open>
  Correctness of the base class, once for every derived class. The locale \<open>purgeable_class\<close> is what
  the base class expects of the virtual methods: pinning and unpinning act on an abstract pin
  state and leave the content alone, \<open>IsPurged\<close> answers whether the content is gone, and after a
  store followed by \<open>AfterRebuildSucc\<close> it is not. The derived classes interpret it.
\<close>

section \<open>The lock and the page size\<close>

lemma Base_RoundUp_eq: "Base_RoundUp = RoundUp"
  by (intro ext) (simp add: Base_RoundUp_def RoundUp_def)

lemma unlock_self [simp]: "\<not> m_dataLock ob \<Longrightarrow> ob\<lparr>m_dataLock := False\<rparr> = ob"
  by (cases ob) simp

lemma lock_guard_free:
  "\<not> m_dataLock ob \<Longrightarrow>
   lock_guard body ob w =
     map_option (\<lambda>(r, ob1, w1). (r, ob1\<lparr>m_dataLock := False\<rparr>, w1)) (body (ob\<lparr>m_dataLock := True\<rparr>) w)"
  by (cases "body (ob\<lparr>m_dataLock := True\<rparr>) w") (auto simp: lock_guard_def)

lemma lock_guard_held: "m_dataLock ob \<Longrightarrow> lock_guard body ob w = None"
  by (simp add: lock_guard_def)

lemma lock_guard_releases: "lock_guard body ob w = Some (r, ob1, w1) \<Longrightarrow> \<not> m_dataLock ob1"
  by (auto simp: lock_guard_def bind_eq_Some split: if_splits prod.splits)

section \<open>Content\<close>

definition b_zeros :: "'a PurgeableMemBase_scheme \<Rightarrow> byte list" where
  "b_zeros ob = replicate (unat (m_dataSizeInput ob)) 0"

text \<open>The content the log stands for, and whether the log can be replayed.\<close>

definition logged :: "'a PurgeableMemBase_scheme \<Rightarrow> byte list" where
  "logged ob = (case m_builder ob of None \<Rightarrow> [] | Some b \<Rightarrow> snd (run_builds (chain_of b) (b_zeros ob)))"

definition replays :: "'a PurgeableMemBase_scheme \<Rightarrow> bool" where
  "replays ob \<longleftrightarrow> (case m_builder ob of None \<Rightarrow> False | Some b \<Rightarrow> fst (run_builds (chain_of b) (b_zeros ob)))"

text \<open>An object that is ready for accesses, and its region.\<close>

definition base_ready :: "pm_os \<Rightarrow> 'a PurgeableMemBase_scheme \<Rightarrow> 'b world_scheme \<Rightarrow> byte list \<Rightarrow> bool" where
  "base_ready os ob w bs \<longleftrightarrow>
     \<not> m_dataLock ob \<and> m_isDataValid ob \<and> m_dataPtr ob \<noteq> NULL \<and>
     (\<exists>b. m_builder ob = Some b \<and> (\<forall>f \<in> set (chain_of b). keeps_size f)) \<and>
     regions w (m_dataPtr ob) = Some bs \<and> length bs = unat (RoundUp (m_dataSizeInput ob) PAGE_SIZE) \<and>
     unat (m_dataSizeInput ob) \<le> length bs \<and> memset_ok os (RoundUp (m_dataSizeInput ob) PAGE_SIZE)"

definition with_content :: "'a PurgeableMemBase_scheme \<Rightarrow> byte list \<Rightarrow> byte list \<Rightarrow> byte list" where
  "with_content ob c bs = c @ drop (unat (m_dataSizeInput ob)) bs"

lemma length_logged:
  assumes "base_ready os ob w bs"
  shows "length (logged ob) = unat (m_dataSizeInput ob)"
proof -
  obtain b where b: "m_builder ob = Some b" "\<forall>f \<in> set (chain_of b). keeps_size f"
    using assms by (auto simp: base_ready_def)
  show ?thesis using run_builds_length [OF b(2), of "b_zeros ob"] b(1) by (simp add: logged_def b_zeros_def)
qed

lemma length_with_logged:
  "base_ready os ob w bs \<Longrightarrow> length (with_content ob (logged ob) bs) = length bs"
  using length_logged [of os ob w bs] by (simp add: with_content_def base_ready_def)

lemma b_zeros_fields [simp]:
  "b_zeros (ob\<lparr>m_dataLock := l\<rparr>) = b_zeros ob" "b_zeros (ob\<lparr>m_buildDataCount := n\<rparr>) = b_zeros ob"
  "b_zeros (ob\<lparr>m_builder := x\<rparr>) = b_zeros ob"
  by (simp_all add: b_zeros_def)

lemma base_ready_fields [simp]:
  "logged (ob\<lparr>m_dataLock := l\<rparr>) = logged ob" "logged (ob\<lparr>m_buildDataCount := n\<rparr>) = logged ob"
  "replays (ob\<lparr>m_dataLock := l\<rparr>) = replays ob" "replays (ob\<lparr>m_buildDataCount := n\<rparr>) = replays ob"
  "with_content (ob\<lparr>m_dataLock := l\<rparr>) = with_content ob"
  "with_content (ob\<lparr>m_buildDataCount := n\<rparr>) = with_content ob"
  "with_content (ob\<lparr>m_builder := x\<rparr>) = with_content ob"
  by (simp_all add: logged_def replays_def with_content_def fun_eq_iff split: option.split)

lemma store_data_regions [simp]:
  "regions (store_data os d bs w) = (regions w)(d \<mapsto> bs)"
  by (simp add: store_data_def)

lemma store_store_regions:
  "regions (store_data os d bs (store_data os d bs1 w)) = (regions w)(d \<mapsto> bs)"
  by simp

lemma with_content_twice:
  "base_ready os ob w bs \<Longrightarrow>
   with_content ob (logged ob) (with_content ob (logged ob) bs) = with_content ob (logged ob) bs"
  using length_logged [of os ob w bs] by (simp add: with_content_def)

lemma base_ready_rebuilt:
  assumes "base_ready os ob w bs" "regions w' = (regions w)(m_dataPtr ob \<mapsto> bs')" "length bs' = length bs"
  shows "base_ready os ob w' bs'"
  using assms by (simp add: base_ready_def)

lemma base_ready_count:
  "base_ready os (ob\<lparr>m_buildDataCount := n\<rparr>) w bs = base_ready os ob w bs"
  by (simp add: base_ready_def)

text \<open>What \<open>BuildContent\<close> does: clear, replay, count.\<close>

lemma BuildContent_effect:
  assumes "base_ready os (ob\<lparr>m_dataLock := False\<rparr>) w bs"
  shows "\<exists>bs1. length bs1 = length bs \<and>
    BuildContent os ob w =
      Some (replays ob, if replays ob then ob\<lparr>m_buildDataCount := m_buildDataCount ob + 1\<rparr> else ob,
            store_data os (m_dataPtr ob) (with_content ob (logged ob) bs)
              (store_data os (m_dataPtr ob) bs1 w))"
proof -
  let ?n = "unat (m_dataSizeInput ob)" and ?mx = "RoundUp (m_dataSizeInput ob) PAGE_SIZE"
  obtain b where b: "m_builder ob = Some b" using assms by (auto simp: base_ready_def)
  have r: "regions w (m_dataPtr ob) = Some bs" "length bs = unat ?mx" "?n \<le> length bs" "memset_ok os ?mx"
    using assms by (simp_all add: base_ready_def)
  define bs1 where "bs1 = replicate ?n 0 @ drop ?n bs"
  have "os_memset_s os bs ?mx 0 (m_dataSizeInput ob) = (0, bs1)"
    using r unfolding memset_ok_def bs1_def by simp
  moreover have "take ?n bs1 = b_zeros ob" "drop ?n bs1 = drop ?n bs" "length bs1 = length bs"
    using r(3) by (simp_all add: bs1_def b_zeros_def)
  moreover obtain ok c where "run_builds (chain_of b) (b_zeros ob) = (ok, c)" by fastforce
  ultimately show ?thesis
    using r b
    by (intro exI [of _ bs1])
       (simp add: BuildContent_def Base_RoundUp_eq BuildAll_run_builds Let_def replays_def logged_def
          with_content_def)
qed

section \<open>The contract of a derived class\<close>

locale purgeable_class =
  fixes vt :: "('a PurgeableMemBase_scheme, 'b world_scheme) vtable"
    and os :: pm_os
    and inv :: "'a PurgeableMemBase_scheme \<Rightarrow> 'b world_scheme \<Rightarrow> bool"
    and gone :: "'a PurgeableMemBase_scheme \<Rightarrow> 'b world_scheme \<Rightarrow> bool"
    and pins :: "'a PurgeableMemBase_scheme \<Rightarrow> 'b world_scheme \<Rightarrow> 'p"
    and pin_up :: "'p \<Rightarrow> 'p" and pin_down :: "'p \<Rightarrow> 'p" and mark :: "'p \<Rightarrow> 'p"
    and touching :: bool
  assumes indep: "m_dataPtr ob' = m_dataPtr ob \<Longrightarrow> m_dataSizeInput ob' = m_dataSizeInput ob \<Longrightarrow>
      PurgeableMemBase.more ob' = PurgeableMemBase.more ob \<Longrightarrow>
      inv ob' w = inv ob w \<and> gone ob' w = gone ob w \<and> pins ob' w = pins ob w"
    and pin: "inv ob w \<Longrightarrow> \<exists>r w'. v_Pin vt ob w = Some (r, w') \<and> inv ob w' \<and> regions w' = regions w \<and>
      gone ob w' = gone ob w \<and> pins ob w' = pin_up (pins ob w)"
    and unpin: "inv ob w \<Longrightarrow> \<exists>r w'. v_Unpin vt ob w = Some (r, w') \<and> inv ob w' \<and> regions w' = regions w \<and>
      gone ob w' = gone ob w \<and> pins ob w' = pin_down (pins ob w)"
    and is_purged: "inv ob w \<Longrightarrow> \<exists>w'. v_IsPurged vt ob w = Some (gone ob w, w') \<and> inv ob w' \<and>
      regions w' = regions w \<and> gone ob w' = gone ob w \<and> pins ob w' = pins ob w"
    and store: "inv ob w \<Longrightarrow> regions w (m_dataPtr ob) = Some bs \<Longrightarrow> length bs' = length bs \<Longrightarrow>
      inv ob (store_data os (m_dataPtr ob) bs' w) \<and>
      pins ob (store_data os (m_dataPtr ob) bs' w) = mark (pins ob w)"
    and store_gone: "inv ob w \<Longrightarrow> regions w (m_dataPtr ob) = Some bs \<Longrightarrow> length bs' = length bs \<Longrightarrow>
      gone ob (store_data os (m_dataPtr ob) bs' w) = (gone ob w \<and> \<not> touching)"
    and rebuilt_present: "inv ob w \<Longrightarrow> regions w (m_dataPtr ob) = Some bs \<Longrightarrow> length bs' = length bs \<Longrightarrow>
      \<exists>w'. v_AfterRebuildSucc vt ob (store_data os (m_dataPtr ob) bs' w) = Some w' \<and> inv ob w' \<and>
           regions w' = (regions w)(m_dataPtr ob \<mapsto> bs') \<and> \<not> gone ob w' \<and>
           pins ob w' = mark (pins ob w)"
    and mark_idem: "mark (mark p) = mark p"
begin

lemma indep_simps [simp]:
  "inv (ob\<lparr>m_dataLock := l\<rparr>) w = inv ob w" "gone (ob\<lparr>m_dataLock := l\<rparr>) w = gone ob w"
  "pins (ob\<lparr>m_dataLock := l\<rparr>) w = pins ob w"
  "inv (ob\<lparr>m_buildDataCount := n\<rparr>) w = inv ob w" "gone (ob\<lparr>m_buildDataCount := n\<rparr>) w = gone ob w"
  "pins (ob\<lparr>m_buildDataCount := n\<rparr>) w = pins ob w"
  "inv (ob\<lparr>m_builder := x\<rparr>) w = inv ob w" "gone (ob\<lparr>m_builder := x\<rparr>) w = gone ob w"
  "pins (ob\<lparr>m_builder := x\<rparr>) w = pins ob w"
  "inv (ob\<lparr>m_isDataValid := v\<rparr>) w = inv ob w" "gone (ob\<lparr>m_isDataValid := v\<rparr>) w = gone ob w"
  "pins (ob\<lparr>m_isDataValid := v\<rparr>) w = pins ob w"
  using indep [of "ob\<lparr>m_dataLock := l\<rparr>" ob w] indep [of "ob\<lparr>m_buildDataCount := n\<rparr>" ob w]
    indep [of "ob\<lparr>m_builder := x\<rparr>" ob w] indep [of "ob\<lparr>m_isDataValid := v\<rparr>" ob w]
  by simp_all

definition need :: "'a PurgeableMemBase_scheme \<Rightarrow> 'b world_scheme \<Rightarrow> bool" where
  "need ob w \<longleftrightarrow> m_buildDataCount ob = 0 \<or> gone ob w"

lemma IfNeedRebuild_spec:
  assumes "inv ob w"
  shows "\<exists>w'. IfNeedRebuild vt ob w = Some (need ob w, w') \<and> inv ob w' \<and> regions w' = regions w \<and>
    gone ob w' = gone ob w \<and> pins ob w' = pins ob w"
  using is_purged [OF assms] assms by (auto simp: IfNeedRebuild_def need_def)

text \<open>A rebuild inside an access: the content is what the log says.\<close>

lemma rebuild_spec:
  assumes rdy: "base_ready os (ob\<lparr>m_dataLock := False\<rparr>) w bs" and inv: "inv ob w"
  defines "ob' \<equiv> ob\<lparr>m_buildDataCount := m_buildDataCount ob + 1\<rparr>"
  shows "replays ob \<Longrightarrow> \<exists>w1 w2. BuildContent os ob w = Some (True, ob', w1) \<and>
           v_AfterRebuildSucc vt ob' w1 = Some w2 \<and> inv ob' w2 \<and> \<not> gone ob' w2 \<and>
           regions w2 = (regions w)(m_dataPtr ob \<mapsto> with_content ob (logged ob) bs) \<and>
           pins ob' w2 = mark (pins ob w)"
    and "\<not> replays ob \<Longrightarrow> \<exists>w1. BuildContent os ob w = Some (False, ob, w1) \<and> inv ob w1 \<and>
           regions w1 = (regions w)(m_dataPtr ob \<mapsto> with_content ob (logged ob) bs) \<and>
           gone ob w1 = (gone ob w \<and> \<not> touching) \<and> pins ob w1 = mark (pins ob w)"
proof -
  let ?d = "m_dataPtr ob" and ?c = "with_content ob (logged ob) bs"
  obtain bs1 where bs1: "length bs1 = length bs" and eff: "BuildContent os ob w =
      Some (replays ob, if replays ob then ob' else ob, store_data os ?d ?c (store_data os ?d bs1 w))"
    using BuildContent_effect [OF rdy] unfolding ob'_def by blast
  have r: "regions w ?d = Some bs" using rdy by (simp add: base_ready_def)
  have len: "length ?c = length bs1" using length_with_logged [OF rdy] bs1 by simp
  define w1 where "w1 = store_data os ?d bs1 w"
  have inv1: "inv ob w1" "pins ob w1 = mark (pins ob w)" "regions w1 ?d = Some bs1"
    "regions w1 = (regions w)(?d \<mapsto> bs1)"
    using store [OF inv r bs1] by (simp_all add: w1_def)
  have gone1: "gone ob w1 = (gone ob w \<and> \<not> touching)" using store_gone [OF inv r bs1] by (simp add: w1_def)
  have ob': "m_dataPtr ob' = ?d" "inv ob' w1" "pins ob' w1 = pins ob w1"
    using inv1(1) by (simp_all add: ob'_def)
  { assume "replays ob"
    moreover obtain w2 where "v_AfterRebuildSucc vt ob' (store_data os ?d ?c w1) = Some w2" "inv ob' w2"
      "regions w2 = (regions w1)(?d \<mapsto> ?c)" "\<not> gone ob' w2" "pins ob' w2 = mark (pins ob' w1)"
      using rebuilt_present [of ob' w1 bs1 ?c] ob' inv1(3) len by auto
    ultimately show "\<exists>w1 w2. BuildContent os ob w = Some (True, ob', w1) \<and>
        v_AfterRebuildSucc vt ob' w1 = Some w2 \<and> inv ob' w2 \<and> \<not> gone ob' w2 \<and>
        regions w2 = (regions w)(?d \<mapsto> ?c) \<and> pins ob' w2 = mark (pins ob w)"
      using eff inv1 ob'(3) by (simp add: w1_def [symmetric] mark_idem) }
  { assume "\<not> replays ob"
    then show "\<exists>w1. BuildContent os ob w = Some (False, ob, w1) \<and> inv ob w1 \<and>
        regions w1 = (regions w)(?d \<mapsto> ?c) \<and> gone ob w1 = (gone ob w \<and> \<not> touching) \<and> pins ob w1 = mark (pins ob w)"
      using eff store [OF inv1(1,3) len] store_gone [OF inv1(1,3) len] gone1 inv1(2,4)
      by (simp add: w1_def [symmetric] mark_idem) }
qed

text \<open>The loop of \<open>BeginRead\<close>.\<close>

lemma while_present:
  assumes "inv ob w" "\<not> need ob w"
  shows "\<exists>w'. BeginRead_while os vt k ob w = Some (True, ob, w') \<and> inv ob w' \<and> regions w' = regions w \<and>
    gone ob w' = gone ob w \<and> pins ob w' = pins ob w"
  using IfNeedRebuild_spec [OF assms(1)] assms(2) by (auto simp: BeginRead_while.simps [of os vt k ob w])

lemma while_build:
  assumes rdy: "base_ready os (ob\<lparr>m_dataLock := False\<rparr>) w bs" and inv: "inv ob w"
    and need: "need ob w" and rep: "replays ob" and k: "k < 3"
  defines "ob' \<equiv> ob\<lparr>m_buildDataCount := m_buildDataCount ob + 1\<rparr>"
  shows "\<exists>w2. BeginRead_while os vt k ob w = BeginRead_while os vt (Suc k) ob' w2 \<and> inv ob' w2 \<and>
    \<not> gone ob' w2 \<and> regions w2 = (regions w)(m_dataPtr ob \<mapsto> with_content ob (logged ob) bs) \<and>
    pins ob' w2 = mark (pins ob w)"
proof -
  obtain w0 where w0: "IfNeedRebuild vt ob w = Some (True, w0)" "inv ob w0" "regions w0 = regions w"
    "pins ob w0 = pins ob w" using IfNeedRebuild_spec [OF inv] need by auto
  have rdy0: "base_ready os (ob\<lparr>m_dataLock := False\<rparr>) w0 bs" using rdy w0(3) by (simp add: base_ready_def)
  obtain w1 w2 where "BuildContent os ob w0 = Some (True, ob', w1)" "v_AfterRebuildSucc vt ob' w1 = Some w2"
    "inv ob' w2" "\<not> gone ob' w2" "pins ob' w2 = mark (pins ob w0)"
    "regions w2 = (regions w0)(m_dataPtr ob \<mapsto> with_content ob (logged ob) bs)"
    using rebuild_spec(1) [OF rdy0 w0(2) rep] unfolding ob'_def by blast
  then show ?thesis
    using w0 k by (intro exI [of _ w2]) (simp add: BeginRead_while.simps [of os vt k ob w] MAX_BUILD_TRYTIMES_def)
qed

lemma while_rebuilt:
  assumes rdy: "base_ready os (ob\<lparr>m_dataLock := False\<rparr>) w bs" and inv: "inv ob w"
    and need: "need ob w" and rep: "replays ob"
  shows "\<exists>n w'. BeginRead_while os vt 0 ob w = Some (True, ob\<lparr>m_buildDataCount := n\<rparr>, w') \<and> n \<noteq> 0 \<and>
    (m_buildDataCount ob + 1 \<noteq> 0 \<longrightarrow> n = m_buildDataCount ob + 1) \<and>
    inv ob w' \<and> \<not> gone ob w' \<and> pins ob w' = mark (pins ob w) \<and>
    regions w' = (regions w)(m_dataPtr ob \<mapsto> with_content ob (logged ob) bs)"
proof -
  let ?c = "with_content ob (logged ob) bs" and ?n = "m_buildDataCount ob + 1"
  let ?ob = "ob\<lparr>m_buildDataCount := ?n\<rparr>"
  obtain w2 where w2: "BeginRead_while os vt 0 ob w = BeginRead_while os vt (Suc 0) ?ob w2" "inv ?ob w2"
    "\<not> gone ?ob w2" "regions w2 = (regions w)(m_dataPtr ob \<mapsto> ?c)" "pins ?ob w2 = mark (pins ob w)"
    using while_build [OF assms, of 0] by auto
  show ?thesis
  proof (cases "?n = 0")
    case False
    then show ?thesis
      using while_present [OF w2(2), of "Suc 0"] w2 by (auto simp: need_def)
  next
    case True
    have len: "length ?c = length bs" using length_with_logged [OF rdy] by simp
    have c: "with_content ob (logged ob) ?c = ?c" using with_content_twice [OF rdy] by simp
    have rdy2: "base_ready os (?ob\<lparr>m_dataLock := False\<rparr>) w2 ?c"
      using rdy w2(4) len by (simp add: base_ready_def)
    have "need ?ob w2" "replays ?ob" using True rep by (simp_all add: need_def)
    from while_build [OF rdy2 w2(2) this, of "Suc 0"]
    obtain w3 where w3: "BeginRead_while os vt (Suc 0) ?ob w2 =
        BeginRead_while os vt (Suc (Suc 0)) (ob\<lparr>m_buildDataCount := ?n + 1\<rparr>) w3"
      "inv ob w3" "\<not> gone ob w3" "regions w3 = (regions w2)(m_dataPtr ob \<mapsto> ?c)"
      "pins ob w3 = mark (pins ob w2)" by (auto simp: c)
    have "inv (ob\<lparr>m_buildDataCount := ?n + 1\<rparr>) w3" "\<not> need (ob\<lparr>m_buildDataCount := ?n + 1\<rparr>) w3"
      using w3 True by (simp_all add: need_def)
    from while_present [OF this, of "Suc (Suc 0)"] show ?thesis
      using w2 w3 True by (intro exI [of _ 1]) (auto simp: mark_idem)
  qed
qed

lemma while_failed:
  assumes rdy: "base_ready os (ob\<lparr>m_dataLock := False\<rparr>) w bs" and inv: "inv ob w"
    and need: "need ob w" and rep: "\<not> replays ob"
  shows "\<exists>w'. BeginRead_while os vt k ob w = Some (False, ob, w') \<and> inv ob w' \<and>
    gone ob w' = (gone ob w \<and> \<not> touching) \<and> pins ob w' = mark (pins ob w) \<and>
    regions w' = (regions w)(m_dataPtr ob \<mapsto> with_content ob (logged ob) bs)"
proof -
  obtain w0 where w0: "IfNeedRebuild vt ob w = Some (True, w0)" "inv ob w0" "regions w0 = regions w"
    "gone ob w0 = gone ob w" "pins ob w0 = pins ob w" using IfNeedRebuild_spec [OF inv] need by auto
  have rdy0: "base_ready os (ob\<lparr>m_dataLock := False\<rparr>) w0 bs" using rdy w0(3) by (simp add: base_ready_def)
  show ?thesis
    using rebuild_spec(2) [OF rdy0 w0(2) rep] w0 by (auto simp: BeginRead_while.simps [of os vt k ob w])
qed

section \<open>Accesses\<close>

text \<open>
  How an access begins: present content is left alone; otherwise it is replayed from the log, and
  if that fails the pin is given back.
\<close>

definition begin_post ::
  "'a PurgeableMemBase_scheme \<Rightarrow> 'b world_scheme \<Rightarrow> byte list \<Rightarrow> bool \<Rightarrow>
   'a PurgeableMemBase_scheme \<Rightarrow> 'b world_scheme \<Rightarrow> bool" where
  "begin_post ob w bs r ob' w' \<longleftrightarrow>
     inv ob' w' \<and> (\<exists>n. ob' = ob\<lparr>m_buildDataCount := n\<rparr>) \<and>
     (if \<not> need ob w
      then r \<and> m_buildDataCount ob' = m_buildDataCount ob \<and> regions w' = regions w \<and> \<not> gone ob w' \<and> pins ob w' = pin_up (pins ob w)
      else regions w' = (regions w)(m_dataPtr ob \<mapsto> with_content ob (logged ob) bs) \<and>
           (if replays ob
            then r \<and> \<not> gone ob w' \<and> pins ob w' = mark (pin_up (pins ob w)) \<and>
                 (m_buildDataCount ob + 1 \<noteq> 0 \<longrightarrow> m_buildDataCount ob' = m_buildDataCount ob + 1)
            else \<not> r \<and> m_buildDataCount ob' = m_buildDataCount ob \<and> gone ob w' = (gone ob w \<and> \<not> touching) \<and>
                 pins ob w' = pin_down (mark (pin_up (pins ob w)))))"

lemma count_self [simp]: "\<exists>n. ob = ob\<lparr>m_buildDataCount := n\<rparr>"
  by (rule exI [of _ "m_buildDataCount ob"]) simp

lemma begin_postI:
  "\<not> need ob w \<Longrightarrow> inv ob w' \<Longrightarrow> regions w' = regions w \<Longrightarrow> \<not> gone ob w' \<Longrightarrow>
     pins ob w' = pin_up (pins ob w) \<Longrightarrow> begin_post ob w bs True ob w'"
  "need ob w \<Longrightarrow> replays ob \<Longrightarrow> inv ob w' \<Longrightarrow> \<not> gone ob w' \<Longrightarrow> pins ob w' = mark (pin_up (pins ob w)) \<Longrightarrow>
     regions w' = (regions w)(m_dataPtr ob \<mapsto> with_content ob (logged ob) bs) \<Longrightarrow>
     (m_buildDataCount ob + 1 \<noteq> 0 \<longrightarrow> n = m_buildDataCount ob + 1) \<Longrightarrow>
     begin_post ob w bs True (ob\<lparr>m_buildDataCount := n\<rparr>) w'"
  "need ob w \<Longrightarrow> \<not> replays ob \<Longrightarrow> inv ob w' \<Longrightarrow> pins ob w' = pin_down (mark (pin_up (pins ob w))) \<Longrightarrow>
     regions w' = (regions w)(m_dataPtr ob \<mapsto> with_content ob (logged ob) bs) \<Longrightarrow>
     gone ob w' = (gone ob w \<and> \<not> touching) \<Longrightarrow> begin_post ob w bs False ob w'"
  by (auto simp: begin_post_def)

text \<open>The two begin operations once the guards have passed, the pin is taken and the need is known.\<close>

lemma BeginRead_unfold:
  assumes rdy: "base_ready os ob w bs" and pin: "v_Pin vt (ob\<lparr>m_dataLock := True\<rparr>) w = Some (x, w1)"
  shows "BeginRead os vt ob w = map_option (\<lambda>(r, ob1, w1). (r, ob1\<lparr>m_dataLock := False\<rparr>, w1))
      (do { (ret, ob1, w2) \<leftarrow> BeginRead_while os vt 0 (ob\<lparr>m_dataLock := True\<rparr>) w1;
            if \<not> ret then do { (_, w3) \<leftarrow> v_Unpin vt ob1 w2; Some (ret, ob1, w3) } else Some (ret, ob1, w2) })"
  using assms by (auto simp: base_ready_def BeginRead_def lock_guard_free BeginRead_locked_def)

lemma BeginWrite_unfold:
  assumes rdy: "base_ready os ob w bs" and pin: "v_Pin vt (ob\<lparr>m_dataLock := True\<rparr>) w = Some (x, w1)"
    and nd: "IfNeedRebuild vt (ob\<lparr>m_dataLock := True\<rparr>) w1 = Some (nd, w2)"
  shows "BeginWrite os vt ob w = map_option (\<lambda>(r, ob1, w1). (r, ob1\<lparr>m_dataLock := False\<rparr>, w1))
      (if \<not> nd then Some (True, ob\<lparr>m_dataLock := True\<rparr>, w2)
       else do {
         (succ, ob1, w3) \<leftarrow> BuildContent os (ob\<lparr>m_dataLock := True\<rparr>) w2;
         if succ then do { w4 \<leftarrow> v_AfterRebuildSucc vt ob1 w3; Some (True, ob1, w4) }
         else do { (_, w4) \<leftarrow> v_Unpin vt ob1 w3; Some (False, ob1, w4) }
       })"
  using assms by (cases nd) (auto simp: base_ready_def BeginWrite_def lock_guard_free BeginWrite_locked_def)

text \<open>The lock and the pin at the start of both.\<close>

lemma begin_pinned:
  assumes "base_ready os ob w bs" "inv ob w"
  defines "ob1 \<equiv> ob\<lparr>m_dataLock := True\<rparr>"
  shows "\<exists>x w1. v_Pin vt ob1 w = Some (x, w1) \<and> inv ob1 w1 \<and> regions w1 = regions w \<and> need ob1 w1 = need ob w \<and>
    gone ob1 w1 = gone ob w \<and> pins ob1 w1 = pin_up (pins ob w) \<and> base_ready os (ob1\<lparr>m_dataLock := False\<rparr>) w1 bs"
  using pin [of ob1 w] assms by (auto simp: ob1_def need_def base_ready_def)

text \<open>A rebuild that failed: the pin is given back.\<close>

lemma failed_unpins:
  assumes nd: "need ob w" "\<not> replays ob" and w1: "inv (ob\<lparr>m_dataLock := True\<rparr>) w1"
    "regions w1 = (regions w)(m_dataPtr ob \<mapsto> with_content ob (logged ob) bs)"
    "gone (ob\<lparr>m_dataLock := True\<rparr>) w1 = (gone ob w \<and> \<not> touching)"
    "pins (ob\<lparr>m_dataLock := True\<rparr>) w1 = mark (pin_up (pins ob w))"
  shows "\<exists>y w2. v_Unpin vt (ob\<lparr>m_dataLock := True\<rparr>) w1 = Some (y, w2) \<and> begin_post ob w bs False ob w2"
proof -
  obtain y w2 where w2: "v_Unpin vt (ob\<lparr>m_dataLock := True\<rparr>) w1 = Some (y, w2)" "inv ob w2"
    "pins ob w2 = pin_down (mark (pin_up (pins ob w)))"
    "regions w2 = (regions w)(m_dataPtr ob \<mapsto> with_content ob (logged ob) bs)"
    "gone ob w2 = (gone ob w \<and> \<not> touching)"
    using unpin [OF w1(1)] w1(2-4) by auto
  then show ?thesis using begin_postI(3) [OF nd w2(2-5)] by blast
qed

lemma begin_read_post:
  assumes rdy: "base_ready os ob w bs" and inv: "inv ob w"
  shows "\<exists>r ob' w'. BeginRead os vt ob w = Some (r, ob', w') \<and> begin_post ob w bs r ob' w'"
proof -
  let ?ob = "ob\<lparr>m_dataLock := True\<rparr>"
  have g: "\<not> m_dataLock ob" using rdy by (simp add: base_ready_def)
  have self: "?ob\<lparr>m_buildDataCount := n, m_dataLock := False\<rparr> = ob\<lparr>m_buildDataCount := n\<rparr>" for n using g by simp
  obtain x w1 where w1: "v_Pin vt ?ob w = Some (x, w1)" "inv ?ob w1" "regions w1 = regions w" "need ?ob w1 = need ob w"
    "gone ?ob w1 = gone ob w" "pins ?ob w1 = pin_up (pins ob w)" and rdy1: "base_ready os (?ob\<lparr>m_dataLock := False\<rparr>) w1 bs"
    using begin_pinned [OF rdy inv] by blast
  note unf = BeginRead_unfold [OF rdy w1(1)] and need = w1(4)
  show ?thesis
  proof (cases "need ob w")
    case False
    then obtain w2 where w2: "BeginRead_while os vt 0 ?ob w1 = Some (True, ?ob, w2)" "inv ob w2"
      "regions w2 = regions w" "\<not> gone ob w2" "pins ob w2 = pin_up (pins ob w)"
      using while_present [OF w1(2), of 0] need w1 by (auto simp: need_def)
    then have "BeginRead os vt ob w = Some (True, ob, w2)" using unf g by simp
    with begin_postI(1) [OF False w2(2-5)] show ?thesis by blast
  next
    case nd: True
    show ?thesis
    proof (cases "replays ob")
      case True
      then obtain n w2 where w2: "BeginRead_while os vt 0 ?ob w1 = Some (True, ?ob\<lparr>m_buildDataCount := n\<rparr>, w2)"
        "inv ob w2" "\<not> gone ob w2" "pins ob w2 = mark (pin_up (pins ob w))"
        "regions w2 = (regions w)(m_dataPtr ob \<mapsto> with_content ob (logged ob) bs)"
        "m_buildDataCount ob + 1 \<noteq> 0 \<longrightarrow> n = m_buildDataCount ob + 1"
        using while_rebuilt [OF rdy1 w1(2)] nd need w1 by auto
      then have "BeginRead os vt ob w = Some (True, ob\<lparr>m_buildDataCount := n\<rparr>, w2)" using unf self by simp
      with begin_postI(2) [OF nd True w2(2-6)] show ?thesis by blast
    next
      case False
      then obtain w2 where w2: "BeginRead_while os vt 0 ?ob w1 = Some (False, ?ob, w2)" "inv ?ob w2"
        "regions w2 = (regions w)(m_dataPtr ob \<mapsto> with_content ob (logged ob) bs)"
        "gone ?ob w2 = (gone ob w \<and> \<not> touching)" "pins ?ob w2 = mark (pin_up (pins ob w))"
        using while_failed [OF rdy1 w1(2), of 0] nd need w1 by auto
      from failed_unpins [OF nd False w2(2-5)] show ?thesis using w2(1) unf g by auto
    qed
  qed
qed

lemma begin_write_post:
  assumes rdy: "base_ready os ob w bs" and inv: "inv ob w"
  shows "\<exists>r ob' w'. BeginWrite os vt ob w = Some (r, ob', w') \<and> begin_post ob w bs r ob' w'"
proof -
  let ?ob = "ob\<lparr>m_dataLock := True\<rparr>"
  have g: "\<not> m_dataLock ob" using rdy by (simp add: base_ready_def)
  have self: "?ob\<lparr>m_buildDataCount := n, m_dataLock := False\<rparr> = ob\<lparr>m_buildDataCount := n\<rparr>" for n using g by simp
  obtain x w1 where w1: "v_Pin vt ?ob w = Some (x, w1)" "inv ?ob w1" "regions w1 = regions w" "need ?ob w1 = need ob w"
    "gone ?ob w1 = gone ob w" "pins ?ob w1 = pin_up (pins ob w)" and rdy1: "base_ready os (?ob\<lparr>m_dataLock := False\<rparr>) w1 bs"
    using begin_pinned [OF rdy inv] by blast
  obtain w2 where w2: "IfNeedRebuild vt ?ob w1 = Some (need ob w, w2)" "inv ?ob w2" "regions w2 = regions w"
    "gone ?ob w2 = gone ob w" "pins ?ob w2 = pin_up (pins ob w)"
    using IfNeedRebuild_spec [OF w1(2)] w1 by auto
  have rdy2: "base_ready os (?ob\<lparr>m_dataLock := False\<rparr>) w2 bs" using rdy w2(3) by (simp add: base_ready_def)
  note unf = BeginWrite_unfold [OF rdy w1(1) w2(1)]
  consider "\<not> need ob w" | "need ob w" "replays ob" | "need ob w" "\<not> replays ob" by blast
  then show ?thesis
  proof cases
    case 1
    then have "\<not> gone ob w2" using w2(4) by (simp add: need_def)
    moreover have "BeginWrite os vt ob w = Some (True, ob, w2)"
      using 1 unf g by simp
    moreover from calculation(1) have "begin_post ob w bs True ob w2"
      using w2(2,3,5) by (intro begin_postI(1) [OF 1]) simp_all
    ultimately show ?thesis by blast
  next
    case 2
    let ?ob' = "?ob\<lparr>m_buildDataCount := m_buildDataCount ?ob + 1\<rparr>"
    obtain w3 w4 where w4: "BuildContent os ?ob w2 = Some (True, ?ob', w3)"
      "v_AfterRebuildSucc vt ?ob' w3 = Some w4" "inv ob w4" "\<not> gone ob w4"
      "pins ob w4 = mark (pin_up (pins ob w))"
      "regions w4 = (regions w)(m_dataPtr ob \<mapsto> with_content ob (logged ob) bs)"
      using rebuild_spec(1) [OF rdy2 w2(2)] 2 w2 by auto
    then have "BeginWrite os vt ob w = Some (True, ob\<lparr>m_buildDataCount := m_buildDataCount ob + 1\<rparr>, w4)"
      using 2(1) w4(1) unf self by simp
    with begin_postI(2) [OF 2 w4(3-6), of "m_buildDataCount ob + 1"] show ?thesis by blast
  next
    case 3
    then obtain w3 where w3: "BuildContent os ?ob w2 = Some (False, ?ob, w3)" "inv ?ob w3"
      "regions w3 = (regions w)(m_dataPtr ob \<mapsto> with_content ob (logged ob) bs)"
      "gone ?ob w3 = (gone ob w \<and> \<not> touching)" "pins ?ob w3 = mark (pin_up (pins ob w))"
      using rebuild_spec(2) [OF rdy2 w2(2)] w2 by auto
    from failed_unpins [OF 3 w3(2-5)] show ?thesis using 3(1) w3(1) unf g by auto
  qed
qed

lemma end_write_spec:
  assumes "\<not> m_dataLock ob" "inv ob w"
  shows "\<exists>w'. EndWrite vt ob w = Some ((), ob, w') \<and> inv ob w' \<and> regions w' = regions w \<and>
    gone ob w' = gone ob w \<and> pins ob w' = pin_down (pins ob w)"
  using unpin [of "ob\<lparr>m_dataLock := True\<rparr>" w] assms by (auto simp: EndWrite_def lock_guard_free)

lemma end_read_spec:
  assumes "\<not> m_dataLock ob" "inv ob w" "m_isDataValid ob"
  shows "\<exists>w'. EndRead vt ob w = Some ((), ob, w') \<and> inv ob w' \<and> regions w' = regions w \<and>
    gone ob w' = gone ob w \<and> pins ob w' = pin_down (pins ob w)"
  using unpin [of "ob\<lparr>m_dataLock := True\<rparr>" w] assms by (auto simp: EndRead_def lock_guard_free)

end

section \<open>Modifications\<close>

text \<open>A builder that was not chained to others: all a user of the class can pass.\<close>

definition single :: "PurgeableMemBuilder \<Rightarrow> bool" where
  "single md \<longleftrightarrow> m_nextBuilder md = None"

lemma chain_of_single: "single md \<Longrightarrow> chain_of md = [v_Build md]"
  by (cases md) (simp add: single_def)

definition append_log :: "PurgeableMemBuilder \<Rightarrow> 'a PurgeableMemBase_scheme \<Rightarrow> 'a PurgeableMemBase_scheme" where
  "append_log md ob =
     ob\<lparr>m_builder := Some (case m_builder ob of Some b \<Rightarrow> Cpp_AppendBuilder b (Some md) | None \<Rightarrow> md)\<rparr>"

lemma ModifyContent_effect:
  assumes "\<not> m_dataLock ob" "regions w (m_dataPtr ob) = Some bs"
    "v_Build md (take (unat (m_dataSizeInput ob)) bs) = (ok, c)"
  shows "ModifyContentByBuilder os (Some md) ob w =
    Some (ok, if ok then append_log md ob else ob, store_data os (m_dataPtr ob) (with_content ob c bs) w)"
proof -
  have "ob\<lparr>m_dataLock := False, m_builder := x\<rparr> = ob\<lparr>m_builder := x\<rparr>" for x using assms(1) by simp
  then show ?thesis
    using assms by (simp add: ModifyContentByBuilder_def lock_guard_free append_log_def with_content_def
        split: option.split)
qed

lemma run_append_log:
  assumes "single md" "m_builder ob = Some b" "replays ob" "v_Build md (logged ob) = (ok, c)"
  shows "replays (append_log md ob) = ok" "logged (append_log md ob) = c"
proof -
  obtain d where d: "run_builds (chain_of b) (b_zeros ob) = (True, d)" "logged ob = d"
    using assms(2,3) by (cases "run_builds (chain_of b) (b_zeros ob)") (auto simp: replays_def logged_def)
  then have "run_builds (chain_of (Cpp_AppendBuilder b (Some md))) (b_zeros ob) = (ok, c)"
    using assms(1,4) by (simp add: chain_of_append run_builds_append chain_of_single)
  then show "replays (append_log md ob) = ok" "logged (append_log md ob) = c"
    using assms(2) by (simp_all add: append_log_def replays_def logged_def)
qed

lemma base_ready_append:
  assumes "base_ready os ob w bs" "single md" "keeps_size (v_Build md)"
  shows "base_ready os (append_log md ob) w bs"
  using assms by (auto simp: base_ready_def append_log_def chain_of_append chain_of_single)

lemma append_log_simps [simp]:
  "m_dataPtr (append_log md ob) = m_dataPtr ob" "m_dataSizeInput (append_log md ob) = m_dataSizeInput ob"
  "m_dataLock (append_log md ob) = m_dataLock ob" "m_buildDataCount (append_log md ob) = m_buildDataCount ob"
  by (simp_all add: append_log_def)

text \<open>A present content agrees with the log.\<close>

context purgeable_class
begin

definition synced :: "'a PurgeableMemBase_scheme \<Rightarrow> 'b world_scheme \<Rightarrow> bool" where
  "synced ob w \<longleftrightarrow>
     (\<not> need ob w \<longrightarrow>
      (\<exists>bs. regions w (m_dataPtr ob) = Some bs \<and> take (unat (m_dataSizeInput ob)) bs = logged ob))"

text \<open>What the kernel may do while nobody holds the object: keep the content, or take it and say so.\<close>

definition may_purge :: "'a PurgeableMemBase_scheme \<Rightarrow> 'b world_scheme \<Rightarrow> 'b world_scheme \<Rightarrow> bool" where
  "may_purge ob w w' \<longleftrightarrow>
     inv ob w' \<and> (\<exists>bs bs'. regions w (m_dataPtr ob) = Some bs \<and> regions w' (m_dataPtr ob) = Some bs' \<and>
       length bs' = length bs \<and> (\<not> gone ob w' \<longrightarrow> bs' = bs))"

lemma begin_content:
  assumes rdy: "base_ready os ob w bs" and post: "begin_post ob w bs r ob' w'"
    and syn: "synced ob w" and rep: "replays ob"
  shows "r \<and> \<not> gone ob' w' \<and> (\<exists>bs'. base_ready os ob' w' bs' \<and> length bs' = length bs \<and>
           take (unat (m_dataSizeInput ob)) bs' = logged ob)"
proof -
  obtain n where ob': "ob' = ob\<lparr>m_buildDataCount := n\<rparr>" using post by (auto simp: begin_post_def)
  let ?c = "with_content ob (logged ob) bs"
  have len: "length ?c = length bs" by (rule length_with_logged [OF rdy])
  have "take (unat (m_dataSizeInput ob)) ?c = logged ob"
    using length_logged [OF rdy] by (simp add: with_content_def)
  moreover have "base_ready os ob' w' ?c" if "regions w' = (regions w)(m_dataPtr ob \<mapsto> ?c)"
    using base_ready_rebuilt [OF rdy that len] by (simp add: ob' base_ready_count)
  moreover have "base_ready os ob' w' bs" if "regions w' = regions w"
    using rdy that by (simp add: ob' base_ready_count base_ready_def)
  ultimately show ?thesis
    using post syn rep rdy len ob'
    by (cases "need ob w") (auto simp: begin_post_def synced_def base_ready_def)
qed

lemma modify_spec:
  assumes rdy: "base_ready os ob w bs" and inv: "inv ob w" and rep: "replays ob"
    and now: "take (unat (m_dataSizeInput ob)) bs = logged ob"
    and md: "single md" "keeps_size (v_Build md)" "v_Build md (logged ob) = (True, c)"
  defines "ob' \<equiv> append_log md ob"
  shows "\<exists>w' bs'. ModifyContentByBuilder os (Some md) ob w = Some (True, ob', w') \<and> inv ob' w' \<and>
    base_ready os ob' w' bs' \<and> replays ob' \<and> logged ob' = c \<and>
    take (unat (m_dataSizeInput ob)) bs' = c"
proof -
  let ?d = "m_dataPtr ob" and ?bs = "with_content ob c bs"
  obtain b where b: "m_builder ob = Some b" using rdy by (auto simp: base_ready_def)
  have r: "regions w ?d = Some bs" "\<not> m_dataLock ob" "unat (m_dataSizeInput ob) \<le> length bs"
    using rdy by (simp_all add: base_ready_def)
  have "length (snd (v_Build md (logged ob))) = length (logged ob)" using md(2) by (simp add: keeps_size_def)
  then have c: "length c = unat (m_dataSizeInput ob)" using md(3) length_logged [OF rdy] by simp
  then have len: "length ?bs = length bs" using r(3) by (simp add: with_content_def)
  have "base_ready os ob' (store_data os ?d ?bs w) ?bs"
    unfolding ob'_def
    by (rule base_ready_append [OF base_ready_rebuilt [OF rdy store_data_regions len] md(1,2)])
  moreover have "inv ob' (store_data os ?d ?bs w)"
    using store [OF inv r(1) len] by (simp add: ob'_def append_log_def)
  moreover have "replays ob'" "logged ob' = c"
    unfolding ob'_def using run_append_log [OF md(1) b rep md(3)] by simp_all
  moreover have "ModifyContentByBuilder os (Some md) ob w = Some (True, ob', store_data os ?d ?bs w)"
    using ModifyContent_effect [of ob w bs md True c os] r md(3) now by (simp add: ob'_def)
  moreover have "take (unat (m_dataSizeInput ob)) ?bs = c" using c by (simp add: with_content_def)
  ultimately show ?thesis by blast
qed

text \<open>A logged modification survives whatever the kernel purges afterwards.\<close>

lemma modification_survives:
  assumes rdy: "base_ready os ob w bs" and inv: "inv ob w" and rep: "replays ob" and syn: "synced ob w"
    and md: "single md" "keeps_size (v_Build md)" "v_Build md (logged ob) = (True, c)"
  shows "\<exists>ob1 w1 ob2 w2 w3.
    BeginWrite os vt ob w = Some (True, ob1, w1) \<and>
    ModifyContentByBuilder os (Some md) ob1 w1 = Some (True, ob2, w2) \<and>
    EndWrite vt ob2 w2 = Some ((), ob2, w3) \<and>
    (\<forall>w4. may_purge ob2 w3 w4 \<longrightarrow>
       (\<exists>ob5 w5 bs5. BeginRead os vt ob2 w4 = Some (True, ob5, w5) \<and>
          regions w5 (m_dataPtr ob) = Some bs5 \<and> take (unat (m_dataSizeInput ob)) bs5 = c))"
proof -
  obtain r ob1 w1 where b: "BeginWrite os vt ob w = Some (r, ob1, w1)" "begin_post ob w bs r ob1 w1"
    using begin_write_post [OF rdy inv] by blast
  obtain n where ob1: "ob1 = ob\<lparr>m_buildDataCount := n\<rparr>" and inv1: "inv ob1 w1"
    using b(2) by (auto simp: begin_post_def)
  obtain bs1 where bs1: "r" "base_ready os ob1 w1 bs1" "take (unat (m_dataSizeInput ob1)) bs1 = logged ob1"
    using begin_content [OF rdy b(2) syn rep] by (auto simp: ob1)
  have "replays ob1" "v_Build md (logged ob1) = (True, c)" using rep md(3) by (simp_all add: ob1)
  from modify_spec [OF bs1(2) inv1 this(1) bs1(3) md(1,2) this(2)]
  obtain ob2 w2 bs2 where m: "ModifyContentByBuilder os (Some md) ob1 w1 = Some (True, ob2, w2)" "inv ob2 w2"
    "base_ready os ob2 w2 bs2" "replays ob2" "logged ob2 = c" "take (unat (m_dataSizeInput ob)) bs2 = c"
    "ob2 = append_log md ob1"
    by (auto simp: ob1)
  have same: "m_dataPtr ob2 = m_dataPtr ob" "m_dataSizeInput ob2 = m_dataSizeInput ob" "\<not> m_dataLock ob2"
    using m(3) by (simp_all add: m(7) ob1 base_ready_def)
  obtain w3 where e: "EndWrite vt ob2 w2 = Some ((), ob2, w3)" "regions w3 = regions w2"
    using end_write_spec [OF same(3) m(2)] by blast
  have "\<exists>ob5 w5 bs5. BeginRead os vt ob2 w4 = Some (True, ob5, w5) \<and>
      regions w5 (m_dataPtr ob) = Some bs5 \<and> take (unat (m_dataSizeInput ob)) bs5 = c"
    if purge: "may_purge ob2 w3 w4" for w4
  proof -
    obtain bs4 where bs4: "inv ob2 w4" "regions w4 (m_dataPtr ob2) = Some bs4" "length bs4 = length bs2"
      "\<not> gone ob2 w4 \<longrightarrow> bs4 = bs2"
      using purge m(3) e(2) by (auto simp: may_purge_def base_ready_def)
    have rdy4: "base_ready os ob2 w4 bs4" using m(3) bs4(2,3) by (simp add: base_ready_def)
    have "synced ob2 w4" using bs4 m(5,6) same by (auto simp: synced_def need_def)
    moreover obtain r ob5 w5 where rd: "BeginRead os vt ob2 w4 = Some (r, ob5, w5)" "begin_post ob2 w4 bs4 r ob5 w5"
      using begin_read_post [OF rdy4 bs4(1)] by blast
    ultimately obtain bs5 where "r" "base_ready os ob5 w5 bs5" "take (unat (m_dataSizeInput ob2)) bs5 = c"
      using begin_content [OF rdy4 rd(2) _ m(4)] m(5) by blast
    moreover have "m_dataPtr ob5 = m_dataPtr ob" using rd(2) same(1) by (auto simp: begin_post_def)
    ultimately show ?thesis using rd(1) same by (auto simp: base_ready_def)
  qed
  moreover have "BeginWrite os vt ob w = Some (True, ob1, w1)" using b(1) bs1(1) by simp
  ultimately show ?thesis using m(1) e(1) by blast
qed

end

section \<open>Balanced pins\<close>

text \<open>Where unpinning undoes pinning, an access gives back every pin, and a failed one takes none.\<close>

locale balanced_class = purgeable_class vt os inv gone pins pin_up pin_down mark touching
  for vt :: "('a PurgeableMemBase_scheme, 'b world_scheme) vtable" and os inv gone
    and pins :: "'a PurgeableMemBase_scheme \<Rightarrow> 'b world_scheme \<Rightarrow> 'p" and pin_up pin_down mark touching +
  fixes countable :: "'p \<Rightarrow> bool"
  assumes down_up: "countable p \<Longrightarrow> pin_down (pin_up p) = p"
    and down_mark_up: "countable p \<Longrightarrow> pin_down (mark (pin_up p)) = mark p"
begin

lemma begin_pins:
  assumes post: "begin_post ob w bs r ob' w'" and cnt: "countable (pins ob w)"
  shows "\<not> r \<Longrightarrow> pins ob' w' = mark (pins ob w)"
    and "r \<Longrightarrow> pin_down (pins ob' w') = (if need ob w then mark (pins ob w) else pins ob w)"
  using post down_up [OF cnt] down_mark_up [OF cnt]
  by (auto simp: begin_post_def split: if_splits)

lemma read_access_balanced:
  assumes rdy: "base_ready os ob w bs" and inv: "inv ob w" and cnt: "countable (pins ob w)"
    and rep: "replays ob"
  shows "\<exists>ob1 w1 w2. BeginRead os vt ob w = Some (True, ob1, w1) \<and> EndRead vt ob1 w1 = Some ((), ob1, w2) \<and>
    pins ob w2 = (if need ob w then mark (pins ob w) else pins ob w) \<and> regions w2 = regions w1"
proof -
  obtain r ob1 w1 where b: "BeginRead os vt ob w = Some (r, ob1, w1)" "begin_post ob w bs r ob1 w1"
    using begin_read_post [OF rdy inv] by blast
  from b(2) rep have r: "r" "inv ob1 w1" by (simp_all add: begin_post_def split: if_splits)
  obtain n where ob1: "ob1 = ob\<lparr>m_buildDataCount := n\<rparr>" using b(2) by (auto simp: begin_post_def)
  have "\<not> m_dataLock ob1" "m_isDataValid ob1" using rdy by (simp_all add: ob1 base_ready_def)
  from end_read_spec [OF this(1) r(2) this(2)] obtain w2 where
    "EndRead vt ob1 w1 = Some ((), ob1, w2)" "regions w2 = regions w1" "pins ob1 w2 = pin_down (pins ob1 w1)"
    by blast
  then show ?thesis using b(1) r(1) begin_pins(2) [OF b(2) cnt r(1)] by (auto simp: ob1)
qed

lemma write_access_balanced:
  assumes rdy: "base_ready os ob w bs" and inv: "inv ob w" and cnt: "countable (pins ob w)"
    and rep: "replays ob"
  shows "\<exists>ob1 w1 w2. BeginWrite os vt ob w = Some (True, ob1, w1) \<and> EndWrite vt ob1 w1 = Some ((), ob1, w2) \<and>
    pins ob w2 = (if need ob w then mark (pins ob w) else pins ob w) \<and> regions w2 = regions w1"
proof -
  obtain r ob1 w1 where b: "BeginWrite os vt ob w = Some (r, ob1, w1)" "begin_post ob w bs r ob1 w1"
    using begin_write_post [OF rdy inv] by blast
  from b(2) rep have r: "r" "inv ob1 w1" by (simp_all add: begin_post_def split: if_splits)
  obtain n where ob1: "ob1 = ob\<lparr>m_buildDataCount := n\<rparr>" using b(2) by (auto simp: begin_post_def)
  have "\<not> m_dataLock ob1" using rdy by (simp add: ob1 base_ready_def)
  from end_write_spec [OF this r(2)] obtain w2 where
    "EndWrite vt ob1 w1 = Some ((), ob1, w2)" "regions w2 = regions w1" "pins ob1 w2 = pin_down (pins ob1 w1)"
    by blast
  then show ?thesis using b(1) r(1) begin_pins(2) [OF b(2) cnt r(1)] by (auto simp: ob1)
qed

lemma failed_access_balanced:
  assumes rdy: "base_ready os ob w bs" and inv: "inv ob w" and cnt: "countable (pins ob w)"
    and rep: "\<not> replays ob" "need ob w"
  shows "(\<exists>ob1 w1. BeginRead os vt ob w = Some (False, ob1, w1) \<and> pins ob w1 = mark (pins ob w)) \<and>
         (\<exists>ob1 w1. BeginWrite os vt ob w = Some (False, ob1, w1) \<and> pins ob w1 = mark (pins ob w))"
proof -
  have "r = False \<and> pins ob w1 = mark (pins ob w)" if "begin_post ob w bs r ob1 w1" for r ob1 w1
    using that rep down_mark_up [OF cnt] by (auto simp: begin_post_def)
  then show ?thesis
    using begin_read_post [OF rdy inv] begin_write_post [OF rdy inv] by blast
qed

end

end
