(* ===== verification/Cpp_Threads.thy ===== *)
theory Cpp_Threads
  imports Cpp_Seq Buffer_Spec Thread_Count
begin

text \<open>
  Any number of threads that use the same C++ object while the kernel purges it. Every operation of
  \<open>PurgeableMemBase\<close> holds the mutex \<open>dataLock_\<close> from its first line to its return; between the
  operations a user is inside an access without holding anything but a pin. A thread is at one of the
  control points of \<open>BeginRead\<close>, \<open>EndRead\<close>, \<open>BeginWrite\<close>, \<open>EndWrite\<close> and
  \<open>ModifyContentByBuilder\<close>, or in its user's code. \<open>ModifyContentByBuilder\<close> runs \<open>Build\<close> on the content
  (\<open>Modifying\<close>) and then appends the builder to the log (\<open>Logging\<close>); users inside an access are not kept
  out meanwhile.
\<close>

section \<open>Control points\<close>

datatype cpp_user = Outside | Reads | Writes

datatype cpp_call =
    Call_BeginRead | Call_EndRead | Call_BeginWrite | Call_EndWrite
  | Call_Modify build_func

text \<open>
  The flag says which begin operation runs: \<open>BeginWrite\<close> (\<open>True\<close>) or \<open>BeginRead\<close> (\<open>False\<close>); the number
  is \<open>tryTimes\<close>.
\<close>

datatype cpp_pc =
    User cpp_user
  | Lock cpp_call
  | Valid
  | Pin bool
  | Check bool nat
  | Clr bool nat
  | Rebuild bool nat "build_func list"
  | End_Valid
  | Unpin
  | Modifying build_func
  | Logging build_func
  | Unlock cpp_user

text \<open>What the threads share: the members of the object, the pins, whether the pages are there, the bytes.\<close>

record cpp_st =
  ct_mutex :: bool
  ct_valid :: bool
  ct_pins :: nat
  ct_present :: bool
  ct_count :: c_uint
  ct_bytes :: "byte list"
  ct_log :: "build_func list"

definition ct_need :: "cpp_st \<Rightarrow> bool" where
  "ct_need s \<longleftrightarrow> ct_count s = 0 \<or> \<not> ct_present s"

fun ct_entry :: "cpp_call \<Rightarrow> cpp_pc" where
  "ct_entry Call_BeginRead = Valid"
| "ct_entry Call_EndRead = End_Valid"
| "ct_entry Call_BeginWrite = Pin True"
| "ct_entry Call_EndWrite = Unpin"
| "ct_entry (Call_Modify f) = Modifying f"

text \<open>
  The next step of a thread inside an operation; \<open>None\<close>: it waits for the mutex, or for its user.
  \<open>touches\<close>: a store makes the pages present (\<open>PurgeableMem\<close>); otherwise only \<open>AfterRebuildSucc\<close>
  does (\<open>PurgeableAshMem\<close>).
\<close>

fun ct_next :: "bool \<Rightarrow> cpp_pc \<Rightarrow> cpp_st \<Rightarrow> (cpp_pc \<times> cpp_st) option" where
  "ct_next touches (User u) s = None"
| "ct_next touches (Lock call) s = (if ct_mutex s then None else Some (ct_entry call, s\<lparr>ct_mutex := True\<rparr>))"
| "ct_next touches Valid s = Some (if ct_valid s then Pin False else Unlock Outside, s)"
| "ct_next touches (Pin wr) s = Some (Check wr 0, s\<lparr>ct_pins := Suc (ct_pins s)\<rparr>)"
| "ct_next touches (Check wr k) s =
     Some (if ct_need s then Clr wr k else Unlock (if wr then Writes else Reads), s)"
| "ct_next touches (Clr wr k) s =
     Some (Rebuild wr k (ct_log s),
           s\<lparr>ct_present := ct_present s \<or> touches, ct_bytes := replicate (length (ct_bytes s)) 0\<rparr>)"
| "ct_next touches (Rebuild wr k []) s =
     Some (if wr then Unlock Writes else if k + 1 > MAX_BUILD_TRYTIMES then Unpin else Check False (k + 1),
           s\<lparr>ct_present := True, ct_count := ct_count s + 1\<rparr>)"
| "ct_next touches (Rebuild wr k (f # fs)) s =
     (let (succ, d) = f (ct_bytes s) in Some (if succ then Rebuild wr k fs else Unpin, s\<lparr>ct_bytes := d\<rparr>))"
| "ct_next touches End_Valid s = Some (if ct_valid s then Unpin else Unlock Outside, s)"
| "ct_next touches Unpin s = Some (Unlock Outside, s\<lparr>ct_pins := ct_pins s - 1\<rparr>)"
| "ct_next touches (Modifying f) s =
     (let (succ, d) = f (ct_bytes s) in Some (if succ then Logging f else Unlock Writes, s\<lparr>ct_bytes := d\<rparr>))"
| "ct_next touches (Logging f) s = Some (Unlock Writes, s\<lparr>ct_log := ct_log s @ [f]\<rparr>)"
| "ct_next touches (Unlock u) s = Some (User u, s\<lparr>ct_mutex := False\<rparr>)"

text \<open>What a step shows: a modification that fails, or one that is done and logged.\<close>

fun ct_event :: "cpp_pc \<Rightarrow> cpp_st \<Rightarrow> buf_event list" where
  "ct_event (Modifying f) s = (let (succ, d) = f (ct_bytes s) in if succ then [] else [Failed (ct_bytes s) d])"
| "ct_event (Logging f) s = [Modify f]"
| "ct_event _ s = []"

text \<open>Between the first line of \<open>Build\<close> and the end of \<open>AppendBuilder\<close>.\<close>

fun ct_modifying :: "cpp_pc \<Rightarrow> bool" where
  "ct_modifying (Modifying _) = True"
| "ct_modifying (Logging _) = True"
| "ct_modifying _ = False"

section \<open>The system\<close>

record cpp_sys =
  ct_st :: cpp_st
  ct_pcs :: "nat \<Rightarrow> cpp_pc"

definition ct_move :: "nat \<Rightarrow> cpp_pc \<Rightarrow> cpp_st \<Rightarrow> cpp_sys \<Rightarrow> cpp_sys" where
  "ct_move i pc st s = s\<lparr>ct_st := st, ct_pcs := (ct_pcs s)(i := pc)\<rparr>"

text \<open>
  What is allowed to happen. \<open>wraps\<close>: a rebuild by \<open>BeginWrite\<close> may take \<open>buildDataCount_\<close> from its
  maximum to zero; \<open>invalidates\<close>: \<open>SetDataValid\<close> may be called; \<open>loses\<close>: a \<open>Pin\<close>, whose result the begin
  operations ignore, may leave the object unpinned (the entry was under reclaim, or the driver refused).
\<close>

record cpp_env =
  touches :: bool
  wraps :: bool
  invalidates :: bool
  loses :: bool

text \<open>
  Steps with their events; \<open>memset_s\<close> may refuse to clear the content. A user looks at the content, or
  modifies it, inside an access; who looks while another thread modifies may see anything of the right
  length (\<open>Torn\<close>). \<open>SetDataValid\<close> is one step, taken while the mutex is free; the kernel purges only what
  nobody pins.
\<close>

inductive ct_step :: "cpp_env \<Rightarrow> nat \<Rightarrow> cpp_sys \<Rightarrow> buf_event list \<Rightarrow> cpp_sys \<Rightarrow> bool" for e n where
  ct_run: "i < n \<Longrightarrow> ct_next (touches e) (ct_pcs s i) (ct_st s) = Some (pc', st') \<Longrightarrow>
    wraps e \<or> (\<forall>k. ct_pcs s i = Rebuild True k [] \<longrightarrow> ct_count st' \<noteq> 0) \<Longrightarrow>
    ct_step e n s (ct_event (ct_pcs s i) (ct_st s)) (ct_move i pc' st' s)"
| ct_memset_error: "i < n \<Longrightarrow> ct_pcs s i = Clr wr k \<Longrightarrow> ct_step e n s [] (ct_move i Unpin (ct_st s) s)"
| ct_begin: "i < n \<Longrightarrow> ct_pcs s i = User Outside \<Longrightarrow> call \<in> {Call_BeginRead, Call_BeginWrite} \<Longrightarrow>
    ct_step e n s [] (ct_move i (Lock call) (ct_st s) s)"
| ct_end_read: "i < n \<Longrightarrow> ct_pcs s i = User Reads \<Longrightarrow> ct_step e n s [] (ct_move i (Lock Call_EndRead) (ct_st s) s)"
| ct_end_write: "i < n \<Longrightarrow> ct_pcs s i = User Writes \<Longrightarrow> ct_step e n s [] (ct_move i (Lock Call_EndWrite) (ct_st s) s)"
| ct_modify: "i < n \<Longrightarrow> ct_pcs s i = User Writes \<Longrightarrow> keeps_size f \<Longrightarrow>
    ct_step e n s [] (ct_move i (Lock (Call_Modify f)) (ct_st s) s)"
| ct_look: "i < n \<Longrightarrow> ct_pcs s i \<in> {User Reads, User Writes} \<Longrightarrow> (\<forall>j < n. \<not> ct_modifying (ct_pcs s j)) \<Longrightarrow>
    ct_step e n s [Observe (ct_bytes (ct_st s))] s"
| ct_torn: "i < n \<Longrightarrow> ct_pcs s i \<in> {User Reads, User Writes} \<Longrightarrow> j < n \<Longrightarrow> ct_modifying (ct_pcs s j) \<Longrightarrow>
    length seen = length (ct_bytes (ct_st s)) \<Longrightarrow> ct_step e n s [Torn seen] s"
| ct_lost_pin: "loses e \<Longrightarrow> i < n \<Longrightarrow> ct_pcs s i = Pin wr \<Longrightarrow> ct_step e n s [Lost_Pin] (ct_move i (Check wr 0) (ct_st s) s)"
| ct_set_valid: "invalidates e \<Longrightarrow> \<not> ct_mutex (ct_st s) \<Longrightarrow>
    ct_step e n s [] (s\<lparr>ct_st := (ct_st s)\<lparr>ct_valid := target\<rparr>\<rparr>)"
| ct_purge: "ct_pins (ct_st s) = 0 \<Longrightarrow> length bs = length (ct_bytes (ct_st s)) \<Longrightarrow>
    ct_step e n s [] (s\<lparr>ct_st := (ct_st s)\<lparr>ct_present := False, ct_bytes := bs\<rparr>\<rparr>)"

inductive_cases ct_stepE: "ct_step e n s es s'"

text \<open>The content the builders describe.\<close>

definition ct_value :: "cpp_st \<Rightarrow> byte list" where
  "ct_value s = snd (run_builds (ct_log s) (replicate (length (ct_bytes s)) 0))"

definition ct_log_ok :: "cpp_st \<Rightarrow> bool" where
  "ct_log_ok s \<longleftrightarrow> fst (run_builds (ct_log s) (replicate (length (ct_bytes s)) 0)) \<and> (\<forall>f \<in> set (ct_log s). keeps_size f)"

definition ct_shown :: "cpp_st \<Rightarrow> bool" where
  "ct_shown s \<longleftrightarrow> ct_bytes s = ct_value s"

text \<open>Nobody uses the object; content that counts as there is the one of the builders.\<close>

definition ct_idle :: "nat \<Rightarrow> cpp_sys \<Rightarrow> bool" where
  "ct_idle n s \<longleftrightarrow> (\<forall>i < n. ct_pcs s i = User Outside) \<and> \<not> ct_mutex (ct_st s)"

definition ct_rest :: "nat \<Rightarrow> cpp_sys \<Rightarrow> bool" where
  "ct_rest n s \<longleftrightarrow> ct_idle n s \<and> ct_log_ok (ct_st s) \<and> (\<not> ct_need (ct_st s) \<longrightarrow> ct_shown (ct_st s))"

end
