(* ===== verification/Cpp_Thread_Inv.thy ===== *)
theory Cpp_Thread_Inv
  imports Cpp_Threads
begin

text \<open>
  The invariant of the threads that share a C++ object: the mutex has one holder, every access has its
  pin, nobody is inside an access while the content is cleared and rebuilt, and content that counts as
  there is the one of the builders, except between the two halves of a modification.
\<close>

section \<open>What a thread holds\<close>

fun ct_holds :: "cpp_pc \<Rightarrow> bool" where
  "ct_holds (User _) = False" | "ct_holds (Lock _) = False"
| "ct_holds _ = True"

fun ct_has_pin :: "cpp_pc \<Rightarrow> bool" where
  "ct_has_pin (User u) = (u \<noteq> Outside)"
| "ct_has_pin (Unlock u) = (u \<noteq> Outside)"
| "ct_has_pin (Lock call) = (call \<noteq> Call_BeginRead \<and> call \<noteq> Call_BeginWrite)"
| "ct_has_pin Valid = False"
| "ct_has_pin (Pin _) = False"
| "ct_has_pin _ = True"

text \<open>Inside an access, from the moment it is granted to the call that ends it.\<close>

fun ct_inside :: "cpp_pc \<Rightarrow> bool" where
  "ct_inside (User u) = (u \<noteq> Outside)"
| "ct_inside (Unlock u) = (u \<noteq> Outside)"
| "ct_inside (Lock (Call_Modify _)) = True"
| "ct_inside (Modifying _) = True"
| "ct_inside (Logging _) = True"
| "ct_inside _ = False"

fun ct_building :: "cpp_pc \<Rightarrow> bool" where
  "ct_building (Rebuild _ _ _) = True"
| "ct_building _ = False"

fun ct_rebuilding :: "cpp_pc \<Rightarrow> bool" where
  "ct_rebuilding (Clr _ _) = True"
| "ct_rebuilding pc = ct_building pc"

text \<open>The content may differ from the one of the builders.\<close>

fun ct_unsettled :: "cpp_pc \<Rightarrow> bool" where
  "ct_unsettled (Rebuild _ _ _) = True"
| "ct_unsettled (Logging _) = True"
| "ct_unsettled _ = False"

text \<open>What a thread knows.\<close>

fun ct_local :: "cpp_st \<Rightarrow> cpp_pc \<Rightarrow> bool" where
  "ct_local s (Clr _ _) = ct_need s"
| "ct_local s (Rebuild _ _ fs) =
     (\<exists>built. ct_log s = built @ fs \<and> run_builds built (replicate (length (ct_bytes s)) 0) = (True, ct_bytes s))"
| "ct_local s (Lock (Call_Modify f)) = keeps_size f"
| "ct_local s (Modifying f) = keeps_size f"
| "ct_local s (Logging f) = (keeps_size f \<and> f (ct_value s) = (True, ct_bytes s))"
| "ct_local s _ = True"

definition ct_knows :: "cpp_st \<Rightarrow> cpp_pc \<Rightarrow> bool" where
  "ct_knows s pc \<longleftrightarrow> ct_local s pc \<and> (ct_inside pc \<longrightarrow> \<not> ct_need s)"

text \<open>
  The books of mutex and pins. A pin that is never given back needs data that are declared invalid, one that was
  never counted a page under reclaim.
\<close>

definition ct_books :: "cpp_env \<Rightarrow> nat \<Rightarrow> cpp_sys \<Rightarrow> bool" where
  "ct_books e n s \<longleftrightarrow>
     of_bool (ct_mutex (ct_st s)) = tally ct_holds n (ct_pcs s) \<and>
     (\<not> loses e \<longrightarrow> tally ct_has_pin n (ct_pcs s) \<le> ct_pins (ct_st s)) \<and>
     (\<not> invalidates e \<longrightarrow> ct_valid (ct_st s)) \<and>
     (\<not> loses e \<and> \<not> invalidates e \<longrightarrow> ct_pins (ct_st s) = tally ct_has_pin n (ct_pcs s))"

definition ct_inv :: "cpp_env \<Rightarrow> nat \<Rightarrow> cpp_sys \<Rightarrow> bool" where
  "ct_inv e n s \<longleftrightarrow>
     ct_books e n s \<and> ct_log_ok (ct_st s) \<and> (\<forall>i < n. ct_knows (ct_st s) (ct_pcs s i)) \<and>
     ((\<exists>i < n. ct_rebuilding (ct_pcs s i)) \<longrightarrow> (\<forall>i < n. \<not> ct_inside (ct_pcs s i))) \<and>
     ((\<forall>i < n. \<not> ct_unsettled (ct_pcs s i)) \<longrightarrow> ct_need (ct_st s) \<or> ct_shown (ct_st s))"

lemma idle_books:
  "ct_idle n s \<Longrightarrow> invalidates e \<or> ct_valid (ct_st s) \<and> ct_pins (ct_st s) = 0 \<Longrightarrow> ct_books e n s"
proof -
  assume r: "ct_idle n s" "invalidates e \<or> ct_valid (ct_st s) \<and> ct_pins (ct_st s) = 0"
  then have "tally ct_holds n (ct_pcs s) = 0" "tally ct_has_pin n (ct_pcs s) = 0"
    by (simp_all add: tally_zero ct_idle_def)
  then show ?thesis using r by (auto simp: ct_idle_def ct_books_def)
qed

lemma rest_ct_inv:
  "ct_rest n s \<Longrightarrow> invalidates e \<or> ct_valid (ct_st s) \<and> ct_pins (ct_st s) = 0 \<Longrightarrow> ct_inv e n s"
  using idle_books [of n s e] by (auto simp: ct_rest_def ct_idle_def ct_inv_def ct_knows_def)

text \<open>Members that are not content.\<close>

lemma ct_content_fields [simp]:
  "ct_value (s\<lparr>ct_mutex := b\<rparr>) = ct_value s" "ct_value (s\<lparr>ct_pins := k\<rparr>) = ct_value s"
  "ct_value (s\<lparr>ct_valid := b\<rparr>) = ct_value s" "ct_value (s\<lparr>ct_count := c\<rparr>) = ct_value s"
  "ct_value (s\<lparr>ct_present := b\<rparr>) = ct_value s"
  "ct_log_ok (s\<lparr>ct_mutex := b\<rparr>) = ct_log_ok s" "ct_log_ok (s\<lparr>ct_pins := k\<rparr>) = ct_log_ok s"
  "ct_log_ok (s\<lparr>ct_valid := b\<rparr>) = ct_log_ok s" "ct_log_ok (s\<lparr>ct_count := c\<rparr>) = ct_log_ok s"
  "ct_log_ok (s\<lparr>ct_present := b\<rparr>) = ct_log_ok s"
  "ct_need (s\<lparr>ct_mutex := b\<rparr>) = ct_need s" "ct_need (s\<lparr>ct_pins := k\<rparr>) = ct_need s"
  "ct_need (s\<lparr>ct_valid := b\<rparr>) = ct_need s" "ct_need (s\<lparr>ct_bytes := bs\<rparr>) = ct_need s"
  "ct_need (s\<lparr>ct_log := l\<rparr>) = ct_need s"
  by (simp_all add: ct_value_def ct_log_ok_def ct_need_def)

lemma ct_shown_fields [simp]:
  "ct_shown (s\<lparr>ct_mutex := b\<rparr>) = ct_shown s" "ct_shown (s\<lparr>ct_pins := k\<rparr>) = ct_shown s"
  "ct_shown (s\<lparr>ct_valid := b\<rparr>) = ct_shown s" "ct_shown (s\<lparr>ct_count := c\<rparr>) = ct_shown s"
  "ct_shown (s\<lparr>ct_present := b\<rparr>) = ct_shown s"
  by (simp_all add: ct_shown_def)

lemma ct_content_bytes:
  "length bs = length (ct_bytes s) \<Longrightarrow> ct_value (s\<lparr>ct_bytes := bs\<rparr>) = ct_value s"
  "length bs = length (ct_bytes s) \<Longrightarrow> ct_log_ok (s\<lparr>ct_bytes := bs\<rparr>) = ct_log_ok s"
  by (simp_all add: ct_value_def ct_log_ok_def)

section \<open>What one step guarantees\<close>

lemma ct_entry_holds [simp]: "ct_holds (ct_entry call)" "ct_has_pin (ct_entry call) = ct_has_pin (Lock call)"
    "\<not> ct_rebuilding (ct_entry call)" "\<not> ct_unsettled (ct_entry call)" "ct_inside (ct_entry call) = ct_inside (Lock call)"
    "ct_local s (ct_entry call) = ct_local s (Lock call)"
  by (cases call; simp)+

text \<open>The books: only an \<open>EndRead\<close> that finds the data invalid keeps its pin.\<close>

lemma ct_next_books:
  assumes "ct_next t pc s = Some (pc', s')" "ct_holds pc \<longrightarrow> ct_mutex s"
  shows "of_bool (ct_mutex s') + of_bool (ct_holds pc) = of_bool (ct_mutex s) + (of_bool (ct_holds pc') :: nat)"
    "(ct_has_pin pc \<longrightarrow> 0 < ct_pins s) \<Longrightarrow> ct_pins s + of_bool (ct_has_pin pc') \<le> ct_pins s' + of_bool (ct_has_pin pc)"
    "(ct_has_pin pc \<longrightarrow> 0 < ct_pins s) \<Longrightarrow> ct_valid s \<Longrightarrow>
     ct_pins s + of_bool (ct_has_pin pc') = ct_pins s' + of_bool (ct_has_pin pc)"
    "ct_valid s' = ct_valid s" "ct_holds pc \<or> \<not> ct_mutex s"
  using assms
  by (induction t pc s rule: ct_next.induct) (auto split: if_splits prod.splits simp: Let_def)

text \<open>The steps of a rebuild and of a modification.\<close>

lemma ct_build_step:
  assumes ok: "ct_log_ok s" and kn: "ct_local s (Rebuild wr k (f # fs))" and run: "f (ct_bytes s) = (succ, d)"
  shows "succ" "length d = length (ct_bytes s)" "ct_local (s\<lparr>ct_bytes := d\<rparr>) (Rebuild wr k fs)"
proof -
  let ?z = "replicate (length (ct_bytes s)) 0"
  obtain built where b: "ct_log s = built @ f # fs" "run_builds built ?z = (True, ct_bytes s)" using kn by auto
  have "keeps_size f" using ok b(1) by (auto simp: ct_log_ok_def)
  then show len: "length d = length (ct_bytes s)" using run by (metis keeps_size_def snd_conv)
  have "fst (run_builds (built @ f # fs) ?z)" using ok b(1) by (simp add: ct_log_ok_def)
  then show s: "succ" using b(2) run by (simp add: run_builds_append Let_def split: if_splits)
  have "run_builds (built @ [f]) ?z = (True, d)" using b(2) run s by (simp add: run_builds_append)
  then show "ct_local (s\<lparr>ct_bytes := d\<rparr>) (Rebuild wr k fs)" using b(1) len by (auto intro!: exI [of _ "built @ [f]"])
qed

text \<open>A modification has two halves: the content, and the log.\<close>

lemma ct_build_half:
  assumes f: "keeps_size f" "f (ct_bytes s) = (True, d)" and v: "ct_shown s"
  shows "ct_local (s\<lparr>ct_bytes := d\<rparr>) (Logging f)" "ct_value (s\<lparr>ct_bytes := d\<rparr>) = ct_value s"
    "ct_log_ok (s\<lparr>ct_bytes := d\<rparr>) = ct_log_ok s"
proof -
  have len: "length d = length (ct_bytes s)" using f by (metis keeps_size_def snd_conv)
  then show val: "ct_value (s\<lparr>ct_bytes := d\<rparr>) = ct_value s" "ct_log_ok (s\<lparr>ct_bytes := d\<rparr>) = ct_log_ok s"
    by (simp_all add: ct_content_bytes)
  show "ct_local (s\<lparr>ct_bytes := d\<rparr>) (Logging f)" using f v by (simp add: val ct_shown_def)
qed

lemma ct_log_half:
  assumes ok: "ct_log_ok s" and l: "ct_local s (Logging f)"
  defines "s' \<equiv> s\<lparr>ct_log := ct_log s @ [f]\<rparr>"
  shows "ct_log_ok s'" "ct_shown s'" "f (ct_value s) = (True, ct_value s')"
proof -
  let ?z = "replicate (length (ct_bytes s)) 0"
  have f: "keeps_size f" "f (ct_value s) = (True, ct_bytes s)" using l by simp_all
  have "run_builds (ct_log s) ?z = (True, ct_value s)" using ok by (metis ct_log_ok_def ct_value_def prod.collapse)
  then have r: "run_builds (ct_log s @ [f]) ?z = (True, ct_bytes s)" using f(2) by (simp add: run_builds_append)
  then show "ct_log_ok s'" using ok f(1) by (auto simp: s'_def ct_log_ok_def)
  have v: "ct_value s' = ct_bytes s" using r by (simp add: s'_def ct_value_def)
  then show "f (ct_value s) = (True, ct_value s')" "ct_shown s'" using f(2) by (simp_all add: s'_def ct_shown_def)
qed

text \<open>The thread that moves keeps the log, shows what a buffer would, and makes its own knowledge true.\<close>

definition ct_sound :: "cpp_st \<Rightarrow> cpp_pc \<Rightarrow> cpp_st \<Rightarrow> cpp_pc \<Rightarrow> bool" where
  "ct_sound s pc s' pc' \<longleftrightarrow>
     ct_log_ok s' \<and> buffer_run (ct_value s) (ct_event pc s) = Some (ct_value s') \<and> ct_knows s' pc' \<and>
     (\<not> ct_unsettled pc' \<longrightarrow> ct_need s' \<or> ct_shown s')"

lemma ct_next_rebuild:
  assumes st: "ct_next t (Rebuild wr k fs) s = Some (pc', s')" and ok: "ct_log_ok s" and kn: "ct_knows s (Rebuild wr k fs)"
    and cnt: "wr \<Longrightarrow> fs = [] \<Longrightarrow> ct_count s' \<noteq> 0"
  shows "ct_sound s (Rebuild wr k fs) s' pc'"
proof (cases fs)
  case Nil
  have "run_builds (ct_log s) (replicate (length (ct_bytes s)) 0) = (True, ct_bytes s)"
    using kn by (auto simp: ct_knows_def Nil)
  then have "ct_shown s" by (simp add: ct_shown_def ct_value_def)
  moreover have "s' = s\<lparr>ct_present := True, ct_count := ct_count s + 1\<rparr>"
    "pc' = (if wr then Unlock Writes else if k + 1 > MAX_BUILD_TRYTIMES then Unpin else Check False (k + 1))"
    using st by (simp_all add: Nil)
  ultimately show ?thesis using ok cnt by (simp add: ct_sound_def ct_knows_def ct_need_def Nil)
next
  case (Cons f fs')
  obtain succ d where d: "f (ct_bytes s) = (succ, d)" by fastforce
  have kn': "ct_local s (Rebuild wr k (f # fs'))" using kn by (simp add: ct_knows_def Cons)
  note r = ct_build_step [OF ok kn' d]
  have "s' = s\<lparr>ct_bytes := d\<rparr>" "pc' = Rebuild wr k fs'" using st r(1) d by (simp_all add: Cons)
  then show ?thesis using r ok by (simp add: ct_sound_def ct_content_bytes ct_knows_def Cons)
qed

lemma ct_next_content:
  assumes st: "ct_next t pc s = Some (pc', s')" and ok: "ct_log_ok s" and kn: "ct_knows s pc"
    and se: "ct_unsettled pc \<or> ct_need s \<or> ct_shown s" and cnt: "\<And>k. pc = Rebuild True k [] \<Longrightarrow> ct_count s' \<noteq> 0"
    and clean: "clean (ct_event pc s)"
  shows "ct_sound s pc s' pc'"
proof (cases pc)
  case (Rebuild wr k fs)
  then show ?thesis using ct_next_rebuild [of t wr k fs s pc' s'] st ok kn cnt by simp
next
  case (Clr wr k)
  then have "s' = s\<lparr>ct_present := ct_present s \<or> t, ct_bytes := replicate (length (ct_bytes s)) 0\<rparr>"
    "pc' = Rebuild wr k (ct_log s)" using st by simp_all
  then show ?thesis using ok Clr by (simp add: ct_sound_def ct_content_bytes ct_knows_def)
next
  case (Modifying f)
  obtain succ d where d: "f (ct_bytes s) = (succ, d)" by fastforce
  have g: "\<not> ct_need s" "keeps_size f" "ct_shown s" using kn se by (simp_all add: ct_knows_def Modifying)
  show ?thesis
  proof (cases succ)
    case True
    then have "pc' = Logging f" "s' = s\<lparr>ct_bytes := d\<rparr>" "ct_event pc s = []" using st d by (simp_all add: Modifying)
    then show ?thesis using ct_build_half [OF g(2) _ g(3), of d] d True ok g(1) by (simp add: ct_sound_def ct_knows_def)
  next
    case False
    then have "d = ct_bytes s" using clean d by (simp add: Modifying)
    then have "pc' = Unlock Writes" "s' = s" using st d False by (simp_all add: Modifying)
    then show ?thesis using ok g d False \<open>d = ct_bytes s\<close> by (simp add: ct_sound_def ct_knows_def ct_shown_def Modifying)
  qed
next
  case (Logging f)
  then have s': "pc' = Unlock Writes" "s' = s\<lparr>ct_log := ct_log s @ [f]\<rparr>" using st by simp_all
  have g: "\<not> ct_need s" "ct_local s (Logging f)" using kn by (simp_all add: ct_knows_def Logging)
  show ?thesis using ct_log_half [OF ok g(2)] g(1) by (simp add: ct_sound_def ct_knows_def s' Logging)
next
  case (Lock call)
  have "ct_local s' (Lock call) = ct_local s (Lock call)" by (cases call) simp_all
  then show ?thesis using assms by (auto split: if_splits simp: ct_sound_def Lock ct_knows_def)
qed (use assms in \<open>auto split: if_splits simp: ct_sound_def ct_knows_def\<close>)

text \<open>Outside of a rebuild, content that is there stays.\<close>

lemma ct_next_stays:
  "ct_next t pc s = Some (pc', s') \<Longrightarrow> \<not> ct_rebuilding pc \<Longrightarrow> \<not> ct_need s \<Longrightarrow> \<not> ct_need s' \<and> \<not> ct_rebuilding pc'"
  by (cases pc) (auto split: if_splits prod.splits)

section \<open>The invariant is kept\<close>

lemma ct_move_simps [simp]: "ct_st (ct_move i pc st s) = st" "ct_pcs (ct_move i pc st s) = (ct_pcs s)(i := pc)"
  by (simp_all add: ct_move_def)

lemma ct_booksD:
  assumes "ct_books e n s"
  shows "of_bool (ct_mutex (ct_st s)) = tally ct_holds n (ct_pcs s)"
    "\<not> loses e \<Longrightarrow> tally ct_has_pin n (ct_pcs s) \<le> ct_pins (ct_st s)" "\<not> invalidates e \<Longrightarrow> ct_valid (ct_st s)"
    "\<not> loses e \<Longrightarrow> \<not> invalidates e \<Longrightarrow> ct_pins (ct_st s) = tally ct_has_pin n (ct_pcs s)"
  using assms unfolding ct_books_def by blast+

lemma run_keeps_books:
  assumes bk: "ct_books e n s" and i: "i < n" and st: "ct_next t (ct_pcs s i) (ct_st s) = Some (pc', st')"
  shows "ct_books e n (ct_move i pc' st' s)" "ct_holds (ct_pcs s i) \<or> \<not> ct_mutex (ct_st s)"
proof -
  let ?pc = "ct_pcs s i" and ?st = "ct_st s"
  note iv = ct_booksD [OF bk]
  have mx: "ct_holds ?pc \<longrightarrow> ct_mutex ?st"
    using iv(1) i tally_pos [of ct_holds n "ct_pcs s"] by (cases "ct_mutex ?st") auto
  have pos: "ct_has_pin ?pc \<longrightarrow> 0 < ct_pins ?st" if "\<not> loses e"
    using iv(2) [OF that] i tally_pos [of ct_has_pin n "ct_pcs s"] by auto
  note b = ct_next_books [OF st mx]
  show "ct_holds ?pc \<or> \<not> ct_mutex ?st" by (rule b(5))
  show "ct_books e n (ct_move i pc' st' s)"
    using b(1-4) pos iv tally_upd [OF i, of ct_holds "ct_pcs s" pc'] tally_upd [OF i, of ct_has_pin "ct_pcs s" pc']
    by (cases "loses e"; cases "invalidates e") (simp_all add: ct_books_def)
qed

lemma call_keeps_books:
  assumes "ct_books e n s" "i < n" "ct_pcs s i = User u" "ct_has_pin (Lock call) = ct_has_pin (User u)"
  shows "ct_books e n (ct_move i (Lock call) (ct_st s) s)"
  using assms tally_upd [of i n ct_holds "ct_pcs s" "Lock call"] tally_upd [of i n ct_has_pin "ct_pcs s" "Lock call"]
  by (simp add: ct_books_def)

lemma ct_invD:
  assumes "ct_inv e n s"
  shows "ct_books e n s" "ct_log_ok (ct_st s)" "j < n \<Longrightarrow> ct_knows (ct_st s) (ct_pcs s j)"
    "j < n \<Longrightarrow> k < n \<Longrightarrow> ct_rebuilding (ct_pcs s j) \<Longrightarrow> \<not> ct_inside (ct_pcs s k)"
    "\<forall>j < n. \<not> ct_unsettled (ct_pcs s j) \<Longrightarrow> ct_need (ct_st s) \<or> ct_shown (ct_st s)"
  using assms unfolding ct_inv_def by blast+

lemma ct_inv_moveI:
  assumes "ct_books e n (ct_move i pc' st' s)" "ct_log_ok st'"
    and "\<And>j. j < n \<Longrightarrow> ct_knows st' (((ct_pcs s)(i := pc')) j)"
    and "\<And>j k. j < n \<Longrightarrow> k < n \<Longrightarrow>
      ct_rebuilding (((ct_pcs s)(i := pc')) j) \<Longrightarrow> \<not> ct_inside (((ct_pcs s)(i := pc')) k)"
    and "\<forall>j < n. \<not> ct_unsettled (((ct_pcs s)(i := pc')) j) \<Longrightarrow> ct_need st' \<or> ct_shown st'"
  shows "ct_inv e n (ct_move i pc' st' s)"
  unfolding ct_inv_def ct_move_simps using assms by blast

lemma rebuilding_holds: "ct_rebuilding pc \<Longrightarrow> ct_holds pc" "ct_unsettled pc \<Longrightarrow> ct_holds pc"
    "ct_rebuilding pc \<Longrightarrow> \<not> ct_inside pc" "ct_unsettled pc \<Longrightarrow> ct_rebuilding pc \<or> ct_modifying pc"
  by (cases pc; simp)+

text \<open>While a thread runs in an operation, the others wait or are in their users' code.\<close>

lemma ct_alone:
  assumes bk: "ct_books e n s" and ij: "i < n" "j < n" "i \<noteq> j" and i: "ct_holds (ct_pcs s i) \<or> \<not> ct_mutex (ct_st s)"
  shows "\<not> ct_holds (ct_pcs s j)"
proof
  assume j: "ct_holds (ct_pcs s j)"
  note m = ct_booksD(1) [OF bk]
  have "0 < tally ct_holds n (ct_pcs s)" using j ij(2) by (auto simp: tally_pos)
  then have "ct_mutex (ct_st s)" "tally ct_holds n (ct_pcs s) \<le> 1" using m by (cases "ct_mutex (ct_st s)"; simp)+
  then show False using tally_two [OF ij, of ct_holds "ct_pcs s"] i j by simp
qed

lemma ct_local_other: "\<not> ct_holds pc \<Longrightarrow> ct_local s' pc = ct_local s pc"
  by (cases "(s, pc)" rule: ct_local.cases) auto

lemma run_keeps_ct_inv:
  assumes inv: "ct_inv e n s" and i: "i < n" and st: "ct_next t (ct_pcs s i) (ct_st s) = Some (pc', st')"
    and cnt: "\<And>k. ct_pcs s i = Rebuild True k [] \<Longrightarrow> ct_count st' \<noteq> 0" and clean: "clean (ct_event (ct_pcs s i) (ct_st s))"
  shows "ct_inv e n (ct_move i pc' st' s)"
    "buffer_run (ct_value (ct_st s)) (ct_event (ct_pcs s i) (ct_st s)) = Some (ct_value st')"
proof -
  let ?pc = "ct_pcs s i" and ?st = "ct_st s" and ?pcs = "(ct_pcs s)(i := pc')"
  have iv: "ct_log_ok ?st" "ct_knows ?st ?pc" using ct_invD [OF inv] i by blast+
  note bk = run_keeps_books [OF ct_invD(1) [OF inv] i st]
  have free: "\<not> ct_holds (ct_pcs s j)" if "j < n" "j \<noteq> i" for j
    using ct_alone [OF ct_invD(1) [OF inv] i that(1)] that(2) bk(2) by blast
  then have nb: "\<not> ct_rebuilding (ct_pcs s j)" "\<not> ct_unsettled (ct_pcs s j)" if "j < n" "j \<noteq> i" for j
    using that rebuilding_holds by blast+
  have "ct_unsettled ?pc \<or> ct_need ?st \<or> ct_shown ?st" using ct_invD(5) [OF inv] nb(2) by metis
  note c = ct_next_content [OF st iv(1,2) this cnt clean, unfolded ct_sound_def]
  then show "buffer_run (ct_value ?st) (ct_event ?pc ?st) = Some (ct_value st')" by simp
  have others: "\<not> ct_need st' \<and> \<not> ct_rebuilding pc'" if "j < n" "j \<noteq> i" "ct_inside (ct_pcs s j)" for j
  proof -
    have "\<not> ct_rebuilding ?pc" "\<not> ct_need ?st" using ct_invD(3,4) [OF inv] i that unfolding ct_knows_def by blast+
    then show ?thesis using ct_next_stays [OF st] by simp
  qed
  show "ct_inv e n (ct_move i pc' st' s)"
  proof (rule ct_inv_moveI)
    show "ct_knows st' (?pcs j)" if "j < n" for j
      using c others [OF that] ct_invD(3) [OF inv that] ct_local_other [OF free [OF that], of st' ?st]
      by (cases "j = i") (auto simp: ct_knows_def)
    show "\<not> ct_inside (?pcs k)" if "j < n" "k < n" "ct_rebuilding (?pcs j)" for j k
    proof -
      have "ct_rebuilding pc'" using that(1,3) nb(1) [of j] by (cases "j = i") simp_all
      then show ?thesis using others [OF that(2)] rebuilding_holds(3) [of pc'] by (cases "k = i") auto
    qed
    show "ct_need st' \<or> ct_shown st'" if "\<forall>j < n. \<not> ct_unsettled (?pcs j)"
      using that [rule_format, OF i] c by simp
  qed (use bk(1) c in simp_all)
qed

text \<open>Calls: a thread joins the queue of the mutex.\<close>

lemma call_keeps_ct_inv:
  assumes inv: "ct_inv e n s" and i: "i < n" and pc: "ct_pcs s i = User u"
    and same: "ct_has_pin (Lock call) = ct_has_pin (User u)" "ct_inside (Lock call) \<longrightarrow> u \<noteq> Outside"
      "\<And>f. call = Call_Modify f \<Longrightarrow> keeps_size f"
  shows "ct_inv e n (ct_move i (Lock call) (ct_st s) s)"
proof -
  let ?pcs = "(ct_pcs s)(i := Lock call)"
  have eq: "ct_rebuilding (?pcs j) = ct_rebuilding (ct_pcs s j)" "ct_unsettled (?pcs j) = ct_unsettled (ct_pcs s j)"
    "ct_inside (?pcs j) \<Longrightarrow> ct_inside (ct_pcs s j)" for j using pc same(2) by (auto split: if_splits)
  have kn: "ct_knows (ct_st s) (?pcs j)" if "j < n" for j
  proof -
    have "ct_local (ct_st s) (Lock call)" using same(3) by (cases call) auto
    moreover have "ct_knows (ct_st s) (ct_pcs s j)" "ct_knows (ct_st s) (User u)"
      using inv that i pc by (auto simp: ct_inv_def dest: spec [of _ i])
    ultimately show ?thesis using same(2) by (auto simp: ct_knows_def)
  qed
  have "\<not> ct_inside (?pcs k)" if "j < n" "k < n" "ct_rebuilding (?pcs j)" for j k
    using ct_invD(4) [OF inv that(1,2) that(3) [unfolded eq(1)]] eq(3) [of k] by blast
  moreover have "ct_need (ct_st s) \<or> ct_shown (ct_st s)" if "\<forall>j < n. \<not> ct_unsettled (?pcs j)"
    using that ct_invD(5) [OF inv] unfolding eq(2) by blast
  ultimately show ?thesis
    using ct_invD(1,2) [OF inv] call_keeps_books [OF _ i pc same(1)] by (intro ct_inv_moveI kn) simp_all
qed

text \<open>The content could not be cleared.\<close>

lemma memset_keeps_books:
  assumes "ct_books e n s" "i < n" "ct_pcs s i = Clr wr k"
  shows "ct_books e n (ct_move i Unpin (ct_st s) s)"
  using assms tally_upd [of i n ct_holds "ct_pcs s" Unpin] tally_upd [of i n ct_has_pin "ct_pcs s" Unpin]
  by (simp add: ct_books_def)

lemma memset_keeps_ct_inv:
  assumes inv: "ct_inv e n s" and i: "i < n" and pc: "ct_pcs s i = Clr wr k"
  shows "ct_inv e n (ct_move i Unpin (ct_st s) s)"
proof (rule ct_inv_moveI)
  let ?pcs = "(ct_pcs s)(i := Unpin)"
  show "ct_books e n (ct_move i Unpin (ct_st s) s)" by (rule memset_keeps_books [OF ct_invD(1) [OF inv] i pc])
  show "ct_log_ok (ct_st s)" by (rule ct_invD(2) [OF inv])
  show "ct_knows (ct_st s) (?pcs j)" if "j < n" for j
    using ct_invD(3) [OF inv that] by (cases "j = i") (simp_all add: ct_knows_def)
  show "\<not> ct_inside (?pcs l)" if "j < n" "l < n" "ct_rebuilding (?pcs j)" for j l
    using that ct_invD(4) [OF inv that(1,2)] by (cases "j = i"; cases "l = i") simp_all
  show "ct_need (ct_st s) \<or> ct_shown (ct_st s)" using ct_invD(3) [OF inv i] pc by (simp add: ct_knows_def)
qed

text \<open>A purge finds nobody inside.\<close>

lemma purge_keeps_ct_inv:
  assumes inv: "ct_inv e n s" "\<not> loses e" and p: "ct_pins (ct_st s) = 0" "length bs = length (ct_bytes (ct_st s))"
  shows "ct_inv e n (s\<lparr>ct_st := (ct_st s)\<lparr>ct_present := False, ct_bytes := bs\<rparr>\<rparr>)"
proof -
  have "\<not> ct_has_pin (ct_pcs s j)" if "j < n" for j
    using ct_booksD(2) [OF ct_invD(1) [OF inv(1)] inv(2)] p(1) that by (simp add: tally_zero)
  moreover have "ct_knows st pc" if "\<not> ct_has_pin pc" for st pc
    using that by (cases "(st, pc)" rule: ct_local.cases) (auto simp: ct_knows_def)
  ultimately show ?thesis using inv p(2) by (simp add: ct_inv_def ct_books_def ct_content_bytes ct_need_def)
qed

lemma ct_knows_valid [simp]: "ct_knows (s\<lparr>ct_valid := b\<rparr>) pc = ct_knows s pc"
  by (cases "(s, pc)" rule: ct_local.cases) (auto simp: ct_knows_def)

text \<open>Who is inside an access while nobody modifies sees the content of the builders.\<close>

lemma inside_shown:
  assumes inv: "ct_inv e n s" and i: "i < n" "ct_inside (ct_pcs s i)" and m: "\<forall>j < n. \<not> ct_modifying (ct_pcs s j)"
  shows "ct_shown (ct_st s)"
proof -
  have "\<not> ct_unsettled (ct_pcs s j)" if "j < n" for j
    using ct_invD(4) [OF inv that i(1)] m that i(2) rebuilding_holds(4) by blast
  then show ?thesis using ct_invD(5) [OF inv] ct_invD(3) [OF inv i(1)] i(2) by (simp add: ct_knows_def)
qed

lemma step_keeps_ct_inv:
  assumes "ct_step e n s es s'" "ct_inv e n s" "\<not> wraps e" "\<not> loses e" "clean es"
  shows "ct_inv e n s' \<and> buffer_run (ct_value (ct_st s)) es = Some (ct_value (ct_st s'))"
  using assms(1)
proof (cases rule: ct_step.cases)
  case (ct_run i pc' st')
  then show ?thesis using run_keeps_ct_inv [OF assms(2), of i _ pc' st'] assms(3,5) by simp
next
  case (ct_look i)
  then have "ct_inside (ct_pcs s i)" by auto
  then show ?thesis using ct_look inside_shown [OF assms(2) ct_look(3) _ ct_look(5)] assms(2) by (simp add: ct_shown_def)
next
  case (ct_set_valid target)
  then show ?thesis using assms(2) by (simp add: ct_inv_def ct_books_def)
next
  case (ct_purge bs)
  then show ?thesis using purge_keeps_ct_inv [OF assms(2,4)] by (simp add: ct_content_bytes)
next
  case (ct_memset_error i wr k)
  then show ?thesis using memset_keeps_ct_inv [OF assms(2)] by simp
next
  case (ct_begin i call)
  then show ?thesis using call_keeps_ct_inv [OF assms(2) ct_begin(3,4), of call] by auto
qed (use assms(4,5) call_keeps_ct_inv [OF assms(2)] in auto)

abbreviation "ct_env t v \<equiv> \<lparr>touches = t, wraps = False, invalidates = v, loses = False\<rparr>"

interpretation cpp_threads: buffer_refinement "ct_step (ct_env t v) n" "ct_inv (ct_env t v) n" "\<lambda>s. ct_value (ct_st s)"
  using step_keeps_ct_inv [of "ct_env t v"] by unfold_locales auto

end
