(* ===== verification/Cpp_Thread_Live.thy ===== *)
theory Cpp_Thread_Live
  imports Cpp_Thread_Inv
begin

text \<open>
  Every operation on a shared C++ object comes to an end, whatever the builders answer and even if the
  build count wraps: the loop of \<open>BeginRead\<close> is bounded by \<open>MAX_BUILD_TRYTIMES\<close>, and who holds the mutex
  never waits.
\<close>

section \<open>Draining\<close>

text \<open>The threads go on, users end the access they are in, and no new access or modification begins.\<close>

definition ct_advance :: "bool \<Rightarrow> cpp_pc \<Rightarrow> cpp_st \<Rightarrow> (cpp_pc \<times> cpp_st) option" where
  "ct_advance t pc st =
     (case pc of User Reads \<Rightarrow> Some (Lock Call_EndRead, st) | User Writes \<Rightarrow> Some (Lock Call_EndWrite, st)
      | _ \<Rightarrow> ct_next t pc st)"

inductive ct_drain :: "bool \<Rightarrow> nat \<Rightarrow> cpp_sys \<Rightarrow> cpp_sys \<Rightarrow> bool" for t n where
  ct_drain: "i < n \<Longrightarrow> ct_advance t (ct_pcs s i) (ct_st s) = Some (pc', st') \<Longrightarrow> ct_drain t n s (ct_move i pc' st' s)"

text \<open>Rebuilds replay at most the log, and \<open>tryTimes\<close> stays in its bounds.\<close>

fun ct_pending :: "cpp_pc \<Rightarrow> bool" where
  "ct_pending (Lock (Call_Modify _)) = True"
| "ct_pending (Modifying _) = True"
| "ct_pending (Logging _) = True"
| "ct_pending _ = False"

fun ct_bounded :: "cpp_st \<Rightarrow> cpp_pc \<Rightarrow> bool" where
  "ct_bounded s (Check _ k) = (k \<le> MAX_BUILD_TRYTIMES)"
| "ct_bounded s (Clr _ k) = (k \<le> MAX_BUILD_TRYTIMES)"
| "ct_bounded s (Rebuild _ k fs) = (k \<le> MAX_BUILD_TRYTIMES \<and> length fs \<le> length (ct_log s))"
| "ct_bounded s _ = True"

definition ct_sane :: "cpp_env \<Rightarrow> nat \<Rightarrow> cpp_sys \<Rightarrow> bool" where
  "ct_sane e n s \<longleftrightarrow> ct_books e n s \<and> (\<forall>i < n. ct_bounded (ct_st s) (ct_pcs s i))"

lemma idle_sane:
  "ct_idle n s \<Longrightarrow> invalidates e \<or> ct_valid (ct_st s) \<and> ct_pins (ct_st s) = 0 \<Longrightarrow> ct_sane e n s"
  using idle_books [of n s e] by (auto simp: ct_sane_def ct_idle_def)

lemma ct_bounded_mono: "ct_bounded s pc \<Longrightarrow> length (ct_log s) \<le> length (ct_log s') \<Longrightarrow> ct_bounded s' pc"
  by (cases pc) auto

lemma ct_bounded_entry [simp]: "ct_bounded s (ct_entry call)"
  by (cases call) simp_all

lemma ct_next_bounded:
  assumes "ct_next t pc s = Some (pc', s')" "ct_bounded s pc"
  shows "ct_bounded s' pc'" "length (ct_log s) \<le> length (ct_log s')"
    "length (ct_log s') + of_bool (ct_pending pc') \<le> length (ct_log s) + of_bool (ct_pending pc)"
proof -
  have *: "ct_pending (ct_entry call) = ct_pending (Lock call)" for call by (cases call) simp_all
  show "ct_bounded s' pc'" "length (ct_log s) \<le> length (ct_log s')"
    "length (ct_log s') + of_bool (ct_pending pc') \<le> length (ct_log s) + of_bool (ct_pending pc)"
    using assms by (induction t pc s rule: ct_next.induct) (auto split: if_splits prod.splits simp: Let_def *)
qed

lemma run_keeps_sane:
  assumes "ct_sane e n s" "i < n" "ct_next t (ct_pcs s i) (ct_st s) = Some (pc', st')"
  shows "ct_sane e n (ct_move i pc' st' s)"
  using assms run_keeps_books(1) [OF _ assms(2,3)] ct_next_bounded [OF assms(3)]
  by (auto simp: ct_sane_def intro: ct_bounded_mono)

lemma call_keeps_sane:
  assumes "ct_sane e n s" "i < n" "ct_pcs s i = User u" "ct_has_pin (Lock call) = ct_has_pin (User u)"
  shows "ct_sane e n (ct_move i (Lock call) (ct_st s) s)"
  using assms call_keeps_books [OF _ assms(2-4)] by (auto simp: ct_sane_def)

lemma step_keeps_sane:
  assumes "ct_step e n s es s'" "ct_sane e n s"
  shows "ct_sane e n s'"
  using assms(1)
proof (cases rule: ct_step.cases)
  case (ct_run i pc' st')
  then show ?thesis using run_keeps_sane [OF assms(2)] by simp
next
  case (ct_memset_error i wr k)
  then show ?thesis using memset_keeps_books [of e n s i wr k] assms(2) by (simp add: ct_sane_def)
next
  case (ct_begin i call)
  then show ?thesis using call_keeps_sane [OF assms(2) ct_begin(3,4), of call] by auto
next
  case (ct_lost_pin i wr)
  then show ?thesis using assms(2) tally_upd [of i n ct_holds "ct_pcs s" "Check wr 0"] by (simp add: ct_sane_def ct_books_def)
next
  case (ct_purge bs)
  then show ?thesis using assms(2) by (auto simp: ct_sane_def ct_books_def intro: ct_bounded_mono)
next
  case (ct_set_valid target)
  then show ?thesis using assms(2) by (auto simp: ct_sane_def ct_books_def intro: ct_bounded_mono)
qed (use assms(2) call_keeps_sane [OF assms(2)] in auto)

lemma runs_keep_sane: "runs (ct_step e n) s es s' \<Longrightarrow> ct_sane e n s \<Longrightarrow> ct_sane e n s'"
  by (induction rule: runs.induct) (auto dest: step_keeps_sane)

section \<open>Nobody is stuck\<close>

lemma ct_holder_advances: "ct_holds pc \<Longrightarrow> ct_next t pc st \<noteq> None"
  by (cases "(t, pc, st)" rule: ct_next.cases) (auto split: prod.splits)

lemma ct_progress:
  assumes bk: "ct_books e n s" and i: "i < n" "ct_pcs s i \<noteq> User Outside"
  shows "\<exists>s'. ct_drain t n s s'"
proof (cases "ct_advance t (ct_pcs s i) (ct_st s)")
  case (Some x)
  then show ?thesis using ct_drain [OF i(1), of t s] by (cases x) blast
next
  case None
  have m: "ct_mutex (ct_st s)"
  proof (cases "ct_pcs s i")
    case (User u)
    then show ?thesis using None i(2) by (cases u) (simp_all add: ct_advance_def)
  next
    case (Lock call)
    then show ?thesis using None by (simp add: ct_advance_def split: if_splits)
  qed (use None ct_holder_advances [of "ct_pcs s i" t "ct_st s"] in \<open>simp_all add: ct_advance_def\<close>)
  then have "0 < tally ct_holds n (ct_pcs s)" using ct_booksD(1) [OF bk] by simp
  then obtain j where j: "j < n" "ct_holds (ct_pcs s j)" by (auto simp: tally_pos)
  then have "ct_advance t (ct_pcs s j) (ct_st s) = ct_next t (ct_pcs s j) (ct_st s)"
    by (cases "ct_pcs s j") (simp_all add: ct_advance_def)
  then show ?thesis using ct_drain [OF j(1), of t s] ct_holder_advances [OF j(2), of t "ct_st s"] by fastforce
qed

section \<open>The measure\<close>

text \<open>\<open>l\<close>: the length the log can reach. A thread makes at most four rebuilds of \<open>l + 3\<close> steps.\<close>

fun ct_rank :: "nat \<Rightarrow> cpp_pc \<Rightarrow> nat" where
  "ct_rank l (User Outside) = 0"
| "ct_rank l (User _) = 5"
| "ct_rank l (Unlock Outside) = 1"
| "ct_rank l (Unlock _) = 6"
| "ct_rank l Unpin = 2"
| "ct_rank l End_Valid = 3"
| "ct_rank l (Lock Call_EndRead) = 4"
| "ct_rank l (Lock Call_EndWrite) = 4"
| "ct_rank l (Logging f) = 7"
| "ct_rank l (Modifying f) = 8"
| "ct_rank l (Lock (Call_Modify f)) = 9"
| "ct_rank l (Check wr k) = 8 + (4 - k) * (l + 3)"
| "ct_rank l (Clr wr k) = 7 + (4 - k) * (l + 3)"
| "ct_rank l (Rebuild wr k fs) = 9 + (3 - k) * (l + 3) + length fs"
| "ct_rank l (Pin wr) = 9 + 4 * (l + 3)"
| "ct_rank l Valid = 10 + 4 * (l + 3)"
| "ct_rank l (Lock call) = 11 + 4 * (l + 3)"

lemma ct_advance_rank:
  assumes "ct_advance t pc st = Some (pc', st')" "ct_bounded st pc" "length (ct_log st) \<le> l"
  shows "ct_rank l pc' < ct_rank l pc"
proof (cases pc)
  case (User u)
  then show ?thesis using assms(1) by (cases u) (auto simp: ct_advance_def)
next
  case (Unlock u)
  then show ?thesis using assms(1) by (cases u) (auto simp: ct_advance_def)
next
  case (Lock call)
  then show ?thesis using assms(1) by (cases call) (auto simp: ct_advance_def split: if_splits)
next
  case (Clr wr k)
  then have "k \<le> 3" "pc' = Rebuild wr k (ct_log st)" using assms(1,2) by (auto simp: ct_advance_def MAX_BUILD_TRYTIMES_def)
  moreover have "(4 - k) * (l + 3) = (3 - k) * (l + 3) + (l + 3)" using \<open>k \<le> 3\<close> by (simp add: Suc_diff_le numeral_eq_Suc)
  ultimately show ?thesis using assms(3) Clr by simp
next
  case (Rebuild wr k fs)
  show ?thesis
  proof (cases fs)
    case Nil
    then show ?thesis using assms(1,2) Rebuild
      by (auto simp: ct_advance_def MAX_BUILD_TRYTIMES_def split: if_splits)
  next
    case (Cons f fs')
    then show ?thesis using assms(1) Rebuild by (auto simp: ct_advance_def split: prod.splits if_splits)
  qed
qed (use assms(1) in \<open>auto simp: ct_advance_def split: if_splits prod.splits cpp_user.splits\<close>)

definition ct_log_bound :: "nat \<Rightarrow> cpp_sys \<Rightarrow> nat" where
  "ct_log_bound n s = length (ct_log (ct_st s)) + tally ct_pending n (ct_pcs s)"

lemma ct_drain_step:
  assumes sane: "ct_sane e n s" and d: "ct_drain t n s s'" and l: "ct_log_bound n s \<le> l"
  shows "ct_sane e n s'" "ct_log_bound n s' \<le> l"
    "total_rank (ct_rank l) n (ct_pcs s') < total_rank (ct_rank l) n (ct_pcs s)"
proof -
  obtain i pc' st' where i: "i < n" "ct_advance t (ct_pcs s i) (ct_st s) = Some (pc', st')" "s' = ct_move i pc' st' s"
    using d by (auto elim: ct_drain.cases)
  have b: "ct_bounded (ct_st s) (ct_pcs s i)" using sane i(1) by (simp add: ct_sane_def)
  have l': "length (ct_log (ct_st s)) \<le> l" using l by (simp add: ct_log_bound_def)
  show "total_rank (ct_rank l) n (ct_pcs s') < total_rank (ct_rank l) n (ct_pcs s)"
    using ct_advance_rank [OF i(2) b l'] total_rank_upd [OF i(1), of "ct_rank l" "ct_pcs s" pc'] i(3) by simp
  have "ct_sane e n s' \<and>
    length (ct_log st') + of_bool (ct_pending pc') \<le> length (ct_log (ct_st s)) + of_bool (ct_pending (ct_pcs s i))"
  proof (cases "\<exists>u. ct_pcs s i = User u \<and> u \<noteq> Outside")
    case True
    then obtain u where u: "ct_pcs s i = User u" "u \<noteq> Outside" by blast
    then have "st' = ct_st s" "\<exists>call \<in> {Call_EndRead, Call_EndWrite}. pc' = Lock call"
      using i(2) by (cases u; auto simp: ct_advance_def)+
    then show ?thesis using call_keeps_sane [OF sane i(1) u(1)] u(2) by (auto simp: i(3) u(1))
  next
    case False
    then have "ct_next t (ct_pcs s i) (ct_st s) = Some (pc', st')"
      using i(2) by (auto simp: ct_advance_def split: cpp_pc.splits cpp_user.splits)
    then show ?thesis using run_keeps_sane [OF sane i(1)] ct_next_bounded(3) [OF _ b] i(3) by blast
  qed
  then show "ct_sane e n s'" "ct_log_bound n s' \<le> l"
    using l tally_upd [OF i(1), of ct_pending "ct_pcs s" pc'] i(3) by (simp_all add: ct_log_bound_def)
qed

lemma ct_drain_bound:
  assumes "(ct_drain t n ^^ k) s s'" "ct_sane e n s" "ct_log_bound n s \<le> l"
  shows "ct_sane e n s' \<and> ct_log_bound n s' \<le> l \<and>
    k + total_rank (ct_rank l) n (ct_pcs s') \<le> total_rank (ct_rank l) n (ct_pcs s)"
  using assms
proof (induction k arbitrary: s')
  case (Suc k)
  then obtain s1 where s1: "(ct_drain t n ^^ k) s s1" "ct_drain t n s1 s'" by auto
  from Suc.IH [OF s1(1) Suc.prems(2,3)] have i: "ct_sane e n s1" "ct_log_bound n s1 \<le> l"
    "k + total_rank (ct_rank l) n (ct_pcs s1) \<le> total_rank (ct_rank l) n (ct_pcs s)" by simp_all
  then show ?case using ct_drain_step [OF i(1) s1(2) i(2)] by simp
qed simp

lemma ct_rank_le:
  assumes "ct_bounded s pc" "length (ct_log s) \<le> l"
  shows "ct_rank l pc \<le> 23 + 4 * l"
proof -
  have m: "(4 - k) * (l + 3) \<le> 4 * (l + 3)" "(3 - k) * (l + 3) \<le> 3 * (l + 3)" for k
    by (rule mult_le_mono1; simp)+
  show ?thesis
  proof (cases pc)
    case (Check wr k)
    then show ?thesis using m(1) [of k] by simp
  next
    case (Clr wr k)
    then show ?thesis using m(1) [of k] by simp
  next
    case (Rebuild wr k fs)
    then show ?thesis using m(2) [of k] assms by simp
  next
    case (User u)
    then show ?thesis by (cases u) simp_all
  next
    case (Unlock u)
    then show ?thesis by (cases u) simp_all
  next
    case (Lock call)
    then show ?thesis by (cases call) simp_all
  qed simp_all
qed

text \<open>However the threads are scheduled, after a bounded number of steps nobody is left inside an operation.\<close>

lemma ct_finish:
  assumes sane: "ct_sane e n s" and d: "(ct_drain t n ^^ k) s s'"
  shows "k \<le> n * (23 + 4 * (length (ct_log (ct_st s)) + n))"
    "(\<exists>s''. ct_drain t n s' s'') \<or> ct_idle n s' \<and> (\<not> invalidates e \<and> \<not> loses e \<longrightarrow> ct_pins (ct_st s') = 0)"
proof -
  let ?l = "length (ct_log (ct_st s)) + n"
  have l: "ct_log_bound n s \<le> ?l" using tally_le by (simp add: ct_log_bound_def)
  have b: "ct_sane e n s'" "k \<le> total_rank (ct_rank ?l) n (ct_pcs s)" using ct_drain_bound [OF d sane l] by simp_all
  have "ct_rank ?l (ct_pcs s i) \<le> 23 + 4 * ?l" if "i < n" for i
    using sane that by (intro ct_rank_le [of "ct_st s"]) (simp_all add: ct_sane_def)
  then have "total_rank (ct_rank ?l) n (ct_pcs s) \<le> n * (23 + 4 * ?l)" by (rule total_rank_le)
  then show "k \<le> n * (23 + 4 * ?l)" using b(2) by simp
  have bk: "ct_books e n s'" using b(1) by (simp add: ct_sane_def)
  have "ct_idle n s' \<and> (\<not> invalidates e \<and> \<not> loses e \<longrightarrow> ct_pins (ct_st s') = 0)" if "\<not> (\<exists>s''. ct_drain t n s' s'')"
  proof -
    have out: "\<forall>i < n. ct_pcs s' i = User Outside" using ct_progress [OF bk] that by blast
    then have "tally ct_holds n (ct_pcs s') = 0" "tally ct_has_pin n (ct_pcs s') = 0" by (simp_all add: tally_zero)
    then show ?thesis using ct_booksD [OF bk] out by (simp add: ct_idle_def)
  qed
  then show "(\<exists>s''. ct_drain t n s' s'') \<or> ct_idle n s' \<and> (\<not> invalidates e \<and> \<not> loses e \<longrightarrow> ct_pins (ct_st s') = 0)" by blast
qed

end
