(* ===== verification/Decimal.thy ===== *)
theory Decimal
  imports PM_Prelude
begin

text \<open>
  Numbers as text, the part of the C and C++ standard library the sources rely on:
  \<open>std::to_string\<close>, \<open>strtoull\<close> with base 10, \<open>atoi\<close>, and the extraction of a word from a
  stream. Behaviour the standard leaves undefined is \<open>None\<close>.
\<close>

section \<open>Characters\<close>

definition isspace :: "char \<Rightarrow> bool" where
  "isspace c \<longleftrightarrow> (of_char c :: nat) = 32 \<or> (9 \<le> (of_char c :: nat) \<and> (of_char c :: nat) \<le> 13)"

definition isdigit :: "char \<Rightarrow> bool" where
  "isdigit c \<longleftrightarrow> 48 \<le> (of_char c :: nat) \<and> (of_char c :: nat) \<le> 57"

definition digit_val :: "char \<Rightarrow> nat" where
  "digit_val c = of_char c - 48"

definition digit_char :: "nat \<Rightarrow> char" where
  "digit_char d = char_of (48 + d)"

section \<open>Printing\<close>

fun to_string_nat :: "nat \<Rightarrow> string" where
  "to_string_nat n =
     (if n < 10 then [digit_char n] else to_string_nat (n div 10) @ [digit_char (n mod 10)])"

declare to_string_nat.simps [simp del]

definition to_string :: "int \<Rightarrow> string" where
  "to_string i = (if i < 0 then CHR ''-'' # to_string_nat (nat (- i)) else to_string_nat (nat i))"

section \<open>Reading\<close>

text \<open>The value of a row of digits, most significant first.\<close>

definition digits_val :: "string \<Rightarrow> nat" where
  "digits_val ds = foldl (\<lambda>n c. 10 * n + digit_val c) 0 ds"

text \<open>Leading white space, an optional sign, then as many digits as there are.\<close>

definition scan_number :: "string \<Rightarrow> bool \<times> nat" where
  "scan_number s =
     (let s1 = dropWhile isspace s;
          neg = (s1 \<noteq> [] \<and> hd s1 = CHR ''-'');
          s2 = (if s1 \<noteq> [] \<and> (hd s1 = CHR ''-'' \<or> hd s1 = CHR ''+'') then tl s1 else s1)
      in (neg, digits_val (takeWhile isdigit s2)))"

text \<open>Too large a number is answered with \<open>ULLONG_MAX\<close>; a sign negates in unsigned arithmetic.\<close>

definition strtoull :: "string \<Rightarrow> u64" where
  "strtoull s =
     (let (neg, n) = scan_number s
      in if 2 ^ 64 \<le> n then - 1 else if neg then - of_nat n else of_nat n)"

text \<open>The result of \<open>atoi\<close> is undefined when the number does not fit an \<open>int\<close>.\<close>

definition fits_int :: "int \<Rightarrow> bool" where
  "fits_int i \<longleftrightarrow> - (2 ^ 31) \<le> i \<and> i < 2 ^ 31"

definition atoi :: "string \<Rightarrow> int option" where
  "atoi s =
     (let (neg, n) = scan_number s; i = (if neg then - int n else int n)
      in if fits_int i then Some i else None)"

text \<open>\<open>stream >> word\<close>: skip white space, take what is up to the next one.\<close>

definition next_word :: "string \<Rightarrow> string \<times> string" where
  "next_word s = (let s1 = dropWhile isspace s
                  in (takeWhile (\<lambda>c. \<not> isspace c) s1, dropWhile (\<lambda>c. \<not> isspace c) s1))"

section \<open>Reading undoes printing\<close>

lemma of_char_digit_char: "d < 10 \<Longrightarrow> (of_char (digit_char d) :: nat) = 48 + d"
  by (simp add: digit_char_def)

lemma digit_char_props [simp]:
  assumes "d < 10"
  shows "isdigit (digit_char d)" "\<not> isspace (digit_char d)" "digit_val (digit_char d) = d"
    "digit_char d \<noteq> CHR ''-''" "digit_char d \<noteq> CHR ''+''"
proof -
  note of_char_digit_char [OF assms]
  then show "isdigit (digit_char d)" "\<not> isspace (digit_char d)" "digit_val (digit_char d) = d"
    using assms by (simp_all add: isdigit_def isspace_def digit_val_def)
  have "(of_char (CHR ''-'') :: nat) = 45" "(of_char (CHR ''+'') :: nat) = 43" by simp_all
  then show "digit_char d \<noteq> CHR ''-''" "digit_char d \<noteq> CHR ''+''"
    using of_char_digit_char [OF assms] by auto
qed

lemma digits_val_snoc: "digits_val (ds @ [c]) = 10 * digits_val ds + digit_val c"
  by (simp add: digits_val_def)

lemma to_string_nat_digits: "set (to_string_nat n) \<subseteq> {digit_char d | d. d < 10}"
proof (induction n rule: to_string_nat.induct)
  case (1 n)
  have "n mod 10 < 10" by simp
  then show ?case using 1 by (subst to_string_nat.simps) (fastforce split: if_splits)
qed

lemma to_string_nat_nonempty [simp]: "to_string_nat n \<noteq> []"
  by (subst to_string_nat.simps) simp

lemma digits_val_to_string: "digits_val (to_string_nat n) = n"
proof (induction n rule: to_string_nat.induct)
  case (1 n)
  show ?case
  proof (cases "n < 10")
    case True
    then show ?thesis by (subst to_string_nat.simps) (simp add: digits_val_def)
  next
    case False
    then show ?thesis using 1 by (subst to_string_nat.simps) (simp add: digits_val_snoc)
  qed
qed

lemma to_string_nat_all:
  "\<forall>c \<in> set (to_string_nat n). isdigit c \<and> \<not> isspace c \<and> c \<noteq> CHR ''-'' \<and> c \<noteq> CHR ''+''"
proof
  fix c
  assume "c \<in> set (to_string_nat n)"
  then obtain d where "d < 10" "c = digit_char d" using to_string_nat_digits [of n] by blast
  then show "isdigit c \<and> \<not> isspace c \<and> c \<noteq> CHR ''-'' \<and> c \<noteq> CHR ''+''" by simp
qed

lemma to_string_nat_hd:
  "\<not> isspace (hd (to_string_nat n))" "hd (to_string_nat n) \<noteq> CHR ''-''"
  "hd (to_string_nat n) \<noteq> CHR ''+''"
  using to_string_nat_all [of n] hd_in_set [OF to_string_nat_nonempty, of n] by auto

lemma takeWhile_all_append:
  "\<forall>c \<in> set xs. P c \<Longrightarrow> takeWhile P (xs @ ys) = xs @ takeWhile P ys"
  by (rule takeWhile_append2) blast

text \<open>A printed number behind white space and before anything that is not a digit.\<close>

lemma scan_to_string:
  assumes "\<forall>c \<in> set ws. isspace c" "rest = [] \<or> \<not> isdigit (hd rest)"
  shows "scan_number (ws @ to_string_nat n @ rest) = (False, n)"
proof -
  let ?t = "to_string_nat n @ rest"
  have hd: "hd ?t = hd (to_string_nat n)" by simp
  have "dropWhile isspace (ws @ ?t) = dropWhile isspace ?t"
    using assms(1) by (intro dropWhile_append2) blast
  also have "\<dots> = ?t" using to_string_nat_hd(1) [of n] by (subst dropWhile_eq_self_iff) simp
  finally have "dropWhile isspace (ws @ ?t) = ?t" .
  moreover have "takeWhile isdigit rest = []" using assms(2) by (cases rest) simp_all
  then have "takeWhile isdigit ?t = to_string_nat n"
    using to_string_nat_all [of n] by (subst takeWhile_all_append) auto
  ultimately show ?thesis
    using to_string_nat_hd [of n] hd by (simp add: scan_number_def digits_val_to_string)
qed

lemma strtoull_to_string:
  assumes "\<forall>c \<in> set ws. isspace c" "rest = [] \<or> \<not> isdigit (hd rest)" "n < 2 ^ 64"
  shows "strtoull (ws @ to_string_nat n @ rest) = of_nat n"
  using assms(3) by (simp add: strtoull_def scan_to_string [OF assms(1,2)])

lemma atoi_to_string:
  assumes "\<forall>c \<in> set ws. isspace c" "rest = [] \<or> \<not> isdigit (hd rest)"
  shows "atoi (ws @ to_string_nat n @ rest) = (if n < 2 ^ 31 then Some (int n) else None)"
  by (simp add: atoi_def scan_to_string [OF assms] fits_int_def)

lemma next_word_to_string:
  assumes "isspace c"
  shows "next_word (to_string_nat n @ c # rest) = (to_string_nat n, c # rest)"
proof -
  have "dropWhile isspace (to_string_nat n @ c # rest) = to_string_nat n @ c # rest"
    using to_string_nat_hd(1) [of n] by (subst dropWhile_eq_self_iff) simp
  moreover have "takeWhile (\<lambda>c. \<not> isspace c) (to_string_nat n @ c # rest) = to_string_nat n"
    using assms to_string_nat_all [of n] by (subst takeWhile_all_append) auto
  moreover have "dropWhile (\<lambda>c. \<not> isspace c) (to_string_nat n @ c # rest) = c # rest"
    using assms to_string_nat_all [of n] by (subst dropWhile_append2) auto
  ultimately show ?thesis by (simp add: next_word_def)
qed

lemma next_word_skip: "isspace c \<Longrightarrow> next_word (c # s) = next_word s"
  by (simp add: next_word_def)

end
