(* ===== verification/Cpp_Mem.thy ===== *)
theory Cpp_Mem
  imports Cpp_Base Decimal
begin

text \<open>
  The C++ classes \<open>UxPageTable\<close> (\<open>cpp/src/ux_page_table.cpp\<close>) and \<open>PurgeableMem\<close>
  (\<open>cpp/src/purgeable_mem.cpp\<close>): purgeable memory on the user extended page table. Constructors give
  the object they build, destructors consume it. An allocation by \<open>new\<close> or \<open>malloc\<close> that fails is
  the answer \<open>NULL\<close> of \<open>os_malloc\<close>; \<open>std::make_unique\<close> then throws, which \<open>MAKE_UNIQUE\<close> catches.
\<close>

section \<open>\<open>UxPageTable\<close>\<close>

record UxPageTable =
  m_uxpt :: ptr

definition cfree_upt :: "ptr \<Rightarrow> 'b world_scheme \<Rightarrow> 'b world_scheme" where
  "cfree_upt u w = (if u = NULL then w else free_upt u w)"

text \<open>A failed \<open>malloc\<close> is only logged; \<open>InitUxPageTable\<close> then gets the null pointer.\<close>

definition UxPageTable_ctor ::
  "pm_os \<Rightarrow> u64 \<Rightarrow> size_t \<Rightarrow> 'b world_scheme \<Rightarrow> (UxPageTable \<times> 'b world_scheme) option" where
  "UxPageTable_ctor os addr len w =
     (let u = os_malloc os (now w);
          w1 = bump w;
          w2 = (if u = NULL then w1
                else w1\<lparr>ux := (ux w1)\<lparr>upts := (upts (ux w1))(u \<mapsto> os_junk_upt os (now w))\<rparr>\<rparr>)
      in do {
        (err, w3) \<leftarrow> lift_ux (InitUxPageTable (uxos os) u addr len) w2;
        if err \<noteq> PM_OK then Some (\<lparr>m_uxpt = NULL\<rparr>, cfree_upt u w3)
        else Some (\<lparr>m_uxpt = u\<rparr>, w3)
      })"

definition UxPageTable_dtor :: "pm_os \<Rightarrow> UxPageTable \<Rightarrow> 'b world_scheme \<Rightarrow> 'b world_scheme option" where
  "UxPageTable_dtor os t w =
     (if m_uxpt t \<noteq> NULL then
        do {
          (err, w1) \<leftarrow> lift_ux (DeinitUxPageTable (uxos os) (m_uxpt t)) w;
          if err \<noteq> PM_OK then Some w1 else Some (free_upt (m_uxpt t) w1)
        }
      else Some w)"

definition Cpp_GetUxpte ::
  "pm_os \<Rightarrow> UxPageTable \<Rightarrow> u64 \<Rightarrow> size_t \<Rightarrow> 'b world_scheme \<Rightarrow> 'b world_scheme option" where
  "Cpp_GetUxpte os t addr len w = lift_ux_unit (UxpteGet (uxos os) (m_uxpt t) addr len) w"

definition Cpp_PutUxpte ::
  "pm_os \<Rightarrow> UxPageTable \<Rightarrow> u64 \<Rightarrow> size_t \<Rightarrow> 'b world_scheme \<Rightarrow> 'b world_scheme option" where
  "Cpp_PutUxpte os t addr len w = lift_ux_unit (UxptePut (uxos os) (m_uxpt t) addr len) w"

definition CheckPresent ::
  "pm_os \<Rightarrow> UxPageTable \<Rightarrow> u64 \<Rightarrow> size_t \<Rightarrow> 'b world_scheme \<Rightarrow> (bool \<times> 'b world_scheme) option" where
  "CheckPresent os t addr len w = lift_ux (UxpteIsPresent (uxos os) (m_uxpt t) addr len) w"

definition UxPageTable_ToString :: "UxPageTable \<Rightarrow> string" where
  "UxPageTable_ToString t =
     ''uxptAddr: '' @ (if m_uxpt t \<noteq> NULL then to_string_nat (unat (m_uxpt t)) else ''0'')"

section \<open>\<open>PurgeableMem\<close>\<close>

record PurgeableMem = PurgeableMemBase +
  m_pageTable :: "UxPageTable option"

definition Mem_RoundUp :: "size_t \<Rightarrow> size_t \<Rightarrow> size_t" where
  "Mem_RoundUp val algn =
     (if val + algn < val \<or> val + algn < algn then val
      else if algn = 0 then val
      else ((val + algn - 1) div algn) * algn)"

definition Mem_Pin :: "pm_os \<Rightarrow> PurgeableMem \<Rightarrow> 'b world_scheme \<Rightarrow> (bool \<times> 'b world_scheme) option" where
  "Mem_Pin os ob w =
     (case m_pageTable ob of
        None \<Rightarrow> Some (False, w)
      | Some t \<Rightarrow> do { w1 \<leftarrow> Cpp_GetUxpte os t (m_dataPtr ob) (m_dataSizeInput ob) w; Some (True, w1) })"

definition Mem_Unpin :: "pm_os \<Rightarrow> PurgeableMem \<Rightarrow> 'b world_scheme \<Rightarrow> (bool \<times> 'b world_scheme) option" where
  "Mem_Unpin os ob w =
     (case m_pageTable ob of
        None \<Rightarrow> Some (False, w)
      | Some t \<Rightarrow> do { w1 \<leftarrow> Cpp_PutUxpte os t (m_dataPtr ob) (m_dataSizeInput ob) w; Some (True, w1) })"

definition Mem_IsPurged :: "pm_os \<Rightarrow> PurgeableMem \<Rightarrow> 'b world_scheme \<Rightarrow> (bool \<times> 'b world_scheme) option" where
  "Mem_IsPurged os ob w =
     (case m_pageTable ob of
        None \<Rightarrow> Some (False, w)
      | Some t \<Rightarrow> do { (present, w1) \<leftarrow> CheckPresent os t (m_dataPtr ob) (m_dataSizeInput ob) w;
                      Some (\<not> present, w1) })"

definition Mem_AfterRebuildSucc :: "PurgeableMem \<Rightarrow> 'b world_scheme \<Rightarrow> 'b world_scheme option" where
  "Mem_AfterRebuildSucc ob w = Some w"

definition Mem_GetPinStatus :: "PurgeableMem \<Rightarrow> int" where
  "Mem_GetPinStatus ob = 0"

definition mem_vtable :: "pm_os \<Rightarrow> (PurgeableMem, 'b world_scheme) vtable" where
  "mem_vtable os = \<lparr>v_Pin = Mem_Pin os, v_Unpin = Mem_Unpin os, v_IsPurged = Mem_IsPurged os,
                    v_AfterRebuildSucc = Mem_AfterRebuildSucc\<rparr>"

text \<open>
  \<open>MAKE_UNIQUE\<close> of \<open>pm_smartptr_util.h\<close>: without memory \<open>std::make_unique\<close> throws, the exception is
  caught, the pointer stays null and the action is taken; otherwise the object is constructed.
\<close>

definition MAKE_UNIQUE :: "ptr \<Rightarrow> 'r \<Rightarrow> 'r \<Rightarrow> 'r" where
  [simp]: "MAKE_UNIQUE allocated errAction made = (if allocated = NULL then errAction else made)"

text \<open>\<open>unique_ptr::reset\<close> and the assignment of \<open>nullptr\<close> destroy the page table there was.\<close>

definition reset_pageTable ::
  "pm_os \<Rightarrow> PurgeableMem \<Rightarrow> 'b world_scheme \<Rightarrow> (PurgeableMem \<times> 'b world_scheme) option" where
  "reset_pageTable os ob w =
     (case m_pageTable ob of
        None \<Rightarrow> Some (ob, w)
      | Some t \<Rightarrow> do { w1 \<leftarrow> UxPageTable_dtor os t w; Some (ob\<lparr>m_pageTable := None\<rparr>, w1) })"

definition Mem_CreatePurgeableData ::
  "pm_os \<Rightarrow> PurgeableMem \<Rightarrow> 'b world_scheme \<Rightarrow> (bool \<times> PurgeableMem \<times> 'b world_scheme) option" where
  "Mem_CreatePurgeableData os ob w =
     do {
       (ob1, w1) \<leftarrow> reset_pageTable os ob w;
       let sz = Mem_RoundUp (m_dataSizeInput ob1) PAGE_SIZE;
           utype = MAP_ANONYMOUS OR (if UxpteIsEnabled (ux w1) then MAP_PURGEABLE else MAP_PRIVATE);
           d = os_mmap os (now w1) sz PROT_RW utype;
           w2 = bump w1
       in if d = MAP_FAILED then Some (False, ob1\<lparr>m_dataPtr := NULL\<rparr>, w2)
          else
          let ob2 = ob1\<lparr>m_dataPtr := d\<rparr>;
              w3 = w2\<lparr>regions := (regions w2)(d \<mapsto> replicate (unat sz) 0)\<rparr>;
              q = os_malloc os (now w3);
              w4 = bump w3
          in MAKE_UNIQUE q (Some (False, ob2, w4))
             (do {
               (t, w5) \<leftarrow> UxPageTable_ctor os d sz w4;
               Some (True, ob2\<lparr>m_pageTable := Some t\<rparr>, w5)
             })
     }"

definition PurgeableMem_new :: PurgeableMem where
  "PurgeableMem_new = PurgeableMemBase.extend PurgeableMemBase_init \<lparr>m_pageTable = None\<rparr>"

definition PurgeableMem_ctor ::
  "pm_os \<Rightarrow> size_t \<Rightarrow> PurgeableMemBuilder option \<Rightarrow> 'b world_scheme \<Rightarrow>
   (PurgeableMem \<times> 'b world_scheme) option" where
  "PurgeableMem_ctor os dataSz bld w =
     (let ob = PurgeableMem_new\<lparr>m_dataPtr := NULL, m_builder := None, m_pageTable := None,
                                m_buildDataCount := 0\<rparr>
      in if dataSz \<le> 0 \<or> dataSz \<ge> OHOS_MAXIMUM_PURGEABLE_MEMORY then Some (ob, w)
         else
         let ob1 = ob\<lparr>m_dataSizeInput := dataSz\<rparr>
         in IF_NULL_LOG_ACTION (bld = None) (Some (ob1, w))
            (do {
              (ok, ob2, w1) \<leftarrow> Mem_CreatePurgeableData os ob1 w;
              if \<not> ok then Some (ob2, w1) else Some (ob2\<lparr>m_builder := bld\<rparr>, w1)
            }))"

text \<open>The answer of \<open>IsPurged\<close> is only logged by the destructor.\<close>

definition PurgeableMem_dtor ::
  "pm_os \<Rightarrow> PurgeableMem \<Rightarrow> 'b world_scheme \<Rightarrow> (PurgeableMem \<times> 'b world_scheme) option" where
  "PurgeableMem_dtor os ob w =
     do {
       (ob1, w1) \<leftarrow>
         (if m_dataPtr ob \<noteq> NULL then
            let (rc, w1) = munmap_data os (m_dataPtr ob) (Mem_RoundUp (m_dataSizeInput ob) PAGE_SIZE) w
            in if rc \<noteq> 0 then Some (ob, w1)
               else do {
                 (_, w2) \<leftarrow> (if UxpteIsEnabled (ux w1) then Mem_IsPurged os ob w1 else Some (True, w1));
                 Some (ob\<lparr>m_dataPtr := NULL\<rparr>, w2)
               }
          else Some (ob, w));
       reset_pageTable os (ob1\<lparr>m_builder := None\<rparr>) w1
     }"

definition Mem_ResizeData ::
  "pm_os \<Rightarrow> size_t \<Rightarrow> PurgeableMem \<Rightarrow> 'b world_scheme \<Rightarrow> (PurgeableMem \<times> 'b world_scheme) option" where
  "Mem_ResizeData os newSize ob w =
     (if newSize \<le> 0 \<or> newSize \<ge> OHOS_MAXIMUM_PURGEABLE_MEMORY then Some (ob, w)
      else
      let (ob1, w1) =
            (if m_dataPtr ob \<noteq> NULL then
               let (rc, w1) = munmap_data os (m_dataPtr ob) (Mem_RoundUp (m_dataSizeInput ob) PAGE_SIZE) w
               in if rc \<noteq> 0 then (ob, w1) else (ob\<lparr>m_dataPtr := NULL\<rparr>, w1)
             else (ob, w))
      in do {
        (_, ob2, w2) \<leftarrow> Mem_CreatePurgeableData os (ob1\<lparr>m_dataSizeInput := newSize\<rparr>) w1;
        Some (ob2, w2)
      })"

definition Mem_ToString :: "PurgeableMem \<Rightarrow> string" where
  "Mem_ToString ob =
     ''dataAddr:'' @ (if m_dataPtr ob \<noteq> NULL then to_string_nat (unat (m_dataPtr ob)) else ''0'') @
     '' dataSizeInput:'' @ to_string_nat (unat (m_dataSizeInput ob)) @ '' '' @
     (case m_pageTable ob of Some t \<Rightarrow> UxPageTable_ToString t | None \<Rightarrow> ''0'')"

end
