(* ===== verification/Cpp_Mem_Seq.thy ===== *)
theory Cpp_Mem_Seq
  imports Cpp_Mem Cpp_Seq Purg_Access
begin

text \<open>
  \<open>PurgeableMem\<close> meets the contract of the base class: pins are reference counts in the page table,
  the content is gone when some page lacks its present bit. The table \<open>t\<close> is a parameter.
\<close>

section \<open>Objects in order\<close>

text \<open>The members of a C++ object that the geometry of a C object speaks about.\<close>

definition c_view :: "'a PurgeableMemBase_scheme \<Rightarrow> PurgMem" where
  "c_view ob = \<lparr>dataPtr = m_dataPtr ob, dataSizeInput = m_dataSizeInput ob, builder = NULL,
                uxPageTable = NULL, rwlock = \<lparr>rl_readers = 0, rl_writer = False\<rparr>, buildDataCount = 0\<rparr>"

definition mem_inv :: "pm_os \<Rightarrow> UxPageTableStruct \<Rightarrow> PurgeableMem \<Rightarrow> 'b world_scheme \<Rightarrow> bool" where
  "mem_inv os t ob w \<longleftrightarrow>
     touch_ok os t \<and> geometry t (c_view ob) \<and>
     (\<exists>u. m_pageTable ob = Some u \<and> (g_supportUxpt (ux w) \<longrightarrow> upt_ok (ux w) (m_uxpt u) t))"

definition mem_gone :: "UxPageTableStruct \<Rightarrow> PurgeableMem \<Rightarrow> 'b world_scheme \<Rightarrow> bool" where
  "mem_gone t ob w \<longleftrightarrow> g_supportUxpt (ux w) \<and> \<not> all_present t (ptes (ux w))"

type_synonym mem_pin_state = "bool \<times> (ptr \<Rightarrow> uxpte_t option)"

definition mem_pins :: "PurgeableMem \<Rightarrow> 'b world_scheme \<Rightarrow> mem_pin_state" where
  "mem_pins ob w = (g_supportUxpt (ux w), ptes (ux w))"

definition mem_up :: "UxPageTableStruct \<Rightarrow> mem_pin_state \<Rightarrow> mem_pin_state" where
  "mem_up t p = (fst p, pin_all (fst p) uxpte_inc t (snd p))"

definition mem_down :: "UxPageTableStruct \<Rightarrow> mem_pin_state \<Rightarrow> mem_pin_state" where
  "mem_down t p = (fst p, pin_all (fst p) uxpte_dec t (snd p))"

definition mem_mark :: "UxPageTableStruct \<Rightarrow> mem_pin_state \<Rightarrow> mem_pin_state" where
  "mem_mark t p = (fst p, touch (\<lambda>v. v OR 1) (obj_slots t) (snd p))"

lemma c_view_simps [simp]:
  "dataPtr (c_view ob) = m_dataPtr ob" "dataSizeInput (c_view ob) = m_dataSizeInput ob"
  by (simp_all add: c_view_def)

lemma mem_inv_cong:
  assumes "mem_inv os t ob w" "g_supportUxpt (ux w') = g_supportUxpt (ux w)"
    "upts (ux w') = upts (ux w)" "\<And>a. ptes (ux w') a = None \<longleftrightarrow> ptes (ux w) a = None"
  shows "mem_inv os t ob w'"
  using assms upt_ok_cong [of "ux w" _ t "ux w'"] by (fastforce simp: mem_inv_def)

context range_op
begin

lemma mem_op:
  assumes "mem_inv os t ob w" "m_pageTable ob = Some u"
  shows "\<exists>k. lift_ux_unit (ux_op (quieten (uxos os)) (m_uxpt u) (m_dataPtr ob) (m_dataSizeInput ob)) w =
    Some (w\<lparr>ux := (ux w)\<lparr>tick := k, ptes := pin_all (g_supportUxpt (ux w)) f t (ptes (ux w))\<rparr>\<rparr>)"
proof (cases "g_supportUxpt (ux w)")
  case True
  have ok: "upt_ok (ux w) (m_uxpt u) t" "geometry t (c_view ob)" using assms True by (auto simp: mem_inv_def)
  have "req_ok t (m_dataPtr ob) (m_dataSizeInput ob)"
    "req_slots t (m_dataPtr ob) (m_dataSizeInput ob) = obj_slots t"
    using geometry_req [OF ok(2)] by simp_all
  then show ?thesis
    using range_step [OF ok(1), of "uxos os" "m_dataPtr ob" "m_dataSizeInput ob"] True
    by (auto simp: range_effect_def pin_all_def lift_ux_unit_def)
next
  case False
  have "w = w\<lparr>ux := (ux w)\<lparr>tick := tick (ux w), ptes := ptes (ux w)\<rparr>\<rparr>" by simp
  then show ?thesis
    using False by (intro exI [of _ "tick (ux w)"]) (simp add: lift_ux_unit_def unsupported pin_all_def)
qed

end

lemma mem_all_present_touched:
  assumes "mem_inv os t ob w" "g_supportUxpt (ux w)"
  shows "all_present t (touch (\<lambda>v. v OR 1) (obj_slots t) (ptes (ux w)))"
proof -
  obtain u where ok: "upt_ok (ux w) u t" and geo: "geometry t (c_view ob)"
    using assms by (auto simp: mem_inv_def)
  have "req_ok t (dataAddr t) (dataSize t)"
    using geometry_size [OF geo] geo by (intro req_ok_whole) (simp_all add: geometry_def)
  note in_data = req_pages_in_data [OF ok this]
  have "odd (v OR 1 :: u64)" for v by (simp add: even_or_iff)
  then show ?thesis
    using slot_mapped [OF ok in_data]
    by (fastforce simp: all_present_def touch_def req_slots_def IsUxptePresent_bit)
qed

text \<open>What a store does to the page table.\<close>

lemma mem_store_ux:
  assumes "mem_inv os t ob w"
  shows "ux (store_data (calm os) (m_dataPtr ob) bs w) =
    (ux w)\<lparr>tick := Suc (now w), ptes := touch (\<lambda>v. v OR 1) (obj_slots t) (ptes (ux w))\<rparr>"
proof -
  have d: "dataAddr t = m_dataPtr ob" using assms by (simp add: mem_inv_def geometry_def)
  have "touch_ok os t" using assms by (simp add: mem_inv_def)
  then have "os_touch os (now w) (m_dataPtr ob) (ux w) =
      (ux w)\<lparr>ptes := touch (\<lambda>v. v OR 1) (obj_slots t) (ptes (ux w))\<rparr>"
    unfolding touch_ok_def d by blast
  then show ?thesis by (simp add: store_data_def bump_def now_def)
qed

lemma mem_IsPurged_spec:
  assumes "mem_inv os t ob w"
  shows "\<exists>k. Mem_IsPurged (calm os) ob w = Some (mem_gone t ob w, w\<lparr>ux := (ux w)\<lparr>tick := k\<rparr>\<rparr>)"
proof -
  obtain u where u: "m_pageTable ob = Some u" using assms by (auto simp: mem_inv_def)
  show ?thesis
  proof (cases "g_supportUxpt (ux w)")
    case True
    have ok: "upt_ok (ux w) (m_uxpt u) t" "geometry t (c_view ob)" using assms True u by (auto simp: mem_inv_def)
    have "range_present (ux w) t (m_dataPtr ob) (m_dataSizeInput ob) = all_present t (ptes (ux w))"
      using True geometry_req [OF ok(2)] by (simp add: range_present_def all_present_def page_present_def)
    then show ?thesis
      using UxpteIsPresent_effect [OF ok(1), of "uxos os" "m_dataPtr ob" "m_dataSizeInput ob"] True u
      by (auto simp: Mem_IsPurged_def CheckPresent_def lift_ux_def mem_gone_def)
  next
    case False
    have "w = w\<lparr>ux := (ux w)\<lparr>tick := tick (ux w)\<rparr>\<rparr>" by simp
    then show ?thesis
      using False u
      by (intro exI [of _ "tick (ux w)"])
         (simp add: Mem_IsPurged_def CheckPresent_def lift_ux_def mem_gone_def UxpteIsPresent_def)
  qed
qed

lemma m_pageTable_more:
  "PurgeableMemBase.more ob' = PurgeableMemBase.more ob \<Longrightarrow> m_pageTable ob' = m_pageTable ob"
  by (cases ob, cases ob') simp

lemma mem_pin_step:
  assumes "mem_inv os t ob w"
  shows "\<exists>k. Mem_Pin (calm os) ob w = Some (True, w\<lparr>ux := (ux w)\<lparr>tick := k,
      ptes := pin_all (g_supportUxpt (ux w)) uxpte_inc t (ptes (ux w))\<rparr>\<rparr>)"
    and "\<exists>k. Mem_Unpin (calm os) ob w = Some (True, w\<lparr>ux := (ux w)\<lparr>tick := k,
      ptes := pin_all (g_supportUxpt (ux w)) uxpte_dec t (ptes (ux w))\<rparr>\<rparr>)"
proof -
  obtain u where u: "m_pageTable ob = Some u" using assms by (auto simp: mem_inv_def)
  show "\<exists>k. Mem_Pin (calm os) ob w = Some (True, w\<lparr>ux := (ux w)\<lparr>tick := k,
      ptes := pin_all (g_supportUxpt (ux w)) uxpte_inc t (ptes (ux w))\<rparr>\<rparr>)"
    using pin.mem_op [OF assms u] u by (auto simp: Mem_Pin_def Cpp_GetUxpte_def)
  show "\<exists>k. Mem_Unpin (calm os) ob w = Some (True, w\<lparr>ux := (ux w)\<lparr>tick := k,
      ptes := pin_all (g_supportUxpt (ux w)) uxpte_dec t (ptes (ux w))\<rparr>\<rparr>)"
    using unpin.mem_op [OF assms u] u by (auto simp: Mem_Unpin_def Cpp_PutUxpte_def)
qed

lemmas mem_state_defs = mem_gone_def mem_pins_def mem_up_def mem_down_def mem_mark_def

lemma mem_store_spec:
  fixes bs :: "byte list"
  assumes "mem_inv os t ob w"
  defines "w' \<equiv> store_data (calm os) (m_dataPtr ob) bs w"
  shows "mem_inv os t ob w'" "mem_pins ob w' = mem_mark t (mem_pins ob w)" "\<not> mem_gone t ob w'"
proof -
  note u = mem_store_ux [OF assms(1), of bs, folded w'_def]
  show "mem_inv os t ob w'" by (rule mem_inv_cong [OF assms(1)]) (simp_all add: u)
  show "mem_pins ob w' = mem_mark t (mem_pins ob w)" by (simp add: u mem_state_defs)
  show "\<not> mem_gone t ob w'" using mem_all_present_touched [OF assms(1)] by (auto simp: mem_gone_def u)
qed

interpretation mem: purgeable_class "mem_vtable (calm os)" "calm os" "mem_inv os t" "mem_gone t" mem_pins
  "mem_up t" "mem_down t" "mem_mark t" True for os t
proof unfold_locales
  fix ob ob' :: PurgeableMem and w :: "'c world_scheme"
  assume eq: "m_dataPtr ob' = m_dataPtr ob" "m_dataSizeInput ob' = m_dataSizeInput ob"
    and more: "PurgeableMemBase.more ob' = PurgeableMemBase.more ob"
  have "m_pageTable ob' = m_pageTable ob" using more by (rule m_pageTable_more)
  with eq show "mem_inv os t ob' w = mem_inv os t ob w \<and> mem_gone t ob' w = mem_gone t ob w \<and>
      mem_pins ob' w = mem_pins ob w"
    by (simp add: mem_inv_def mem_gone_def mem_pins_def c_view_def)
next
  fix ob :: PurgeableMem and w :: "'c world_scheme"
  assume inv: "mem_inv os t ob w"
  have cong: "mem_inv os t ob (w\<lparr>ux := (ux w)\<lparr>tick := k, ptes := pin_all s f t (ptes (ux w))\<rparr>\<rparr>)" for k s f
    using inv by (rule mem_inv_cong) (simp_all add: pin_all_None)
  show "\<exists>r w'. v_Pin (mem_vtable (calm os)) ob w = Some (r, w') \<and> mem_inv os t ob w' \<and>
      regions w' = regions w \<and> mem_gone t ob w' = mem_gone t ob w \<and>
      mem_pins ob w' = mem_up t (mem_pins ob w)"
    using mem_pin_step(1) [OF inv] cong by (auto simp: mem_vtable_def mem_state_defs)
  show "\<exists>r w'. v_Unpin (mem_vtable (calm os)) ob w = Some (r, w') \<and> mem_inv os t ob w' \<and>
      regions w' = regions w \<and> mem_gone t ob w' = mem_gone t ob w \<and>
      mem_pins ob w' = mem_down t (mem_pins ob w)"
    using mem_pin_step(2) [OF inv] cong by (auto simp: mem_vtable_def mem_state_defs)
  have "mem_inv os t ob (w\<lparr>ux := (ux w)\<lparr>tick := k\<rparr>\<rparr>)" for k
    using inv by (rule mem_inv_cong) simp_all
  then show "\<exists>w'. v_IsPurged (mem_vtable (calm os)) ob w = Some (mem_gone t ob w, w') \<and>
      mem_inv os t ob w' \<and> regions w' = regions w \<and> mem_gone t ob w' = mem_gone t ob w \<and>
      mem_pins ob w' = mem_pins ob w"
    using mem_IsPurged_spec [OF inv] by (auto simp: mem_vtable_def mem_state_defs)
next
  fix ob :: PurgeableMem and w :: "'c world_scheme" and bs bs' :: "byte list"
  assume inv: "mem_inv os t ob w"
  let ?w = "store_data (calm os) (m_dataPtr ob) bs' w"
  from mem_store_spec [OF inv] show "mem_inv os t ob ?w \<and> mem_pins ob ?w = mem_mark t (mem_pins ob w)"
    "mem_gone t ob ?w = (mem_gone t ob w \<and> \<not> True)"
    "\<exists>w'. v_AfterRebuildSucc (mem_vtable (calm os)) ob ?w = Some w' \<and> mem_inv os t ob w' \<and>
       regions w' = (regions w)(m_dataPtr ob \<mapsto> bs') \<and> \<not> mem_gone t ob w' \<and>
       mem_pins ob w' = mem_mark t (mem_pins ob w)"
    by (simp_all add: mem_vtable_def Mem_AfterRebuildSucc_def)
next
  fix p
  show "mem_mark t (mem_mark t p) = mem_mark t p"
    by (simp add: mem_mark_def touch_or_one_idem)
qed

interpretation mem: balanced_class "mem_vtable (calm os)" "calm os" "mem_inv os t" "mem_gone t" mem_pins
  "mem_up t" "mem_down t" "mem_mark t" True "\<lambda>p. countable_entries t (snd p)" for os t
proof unfold_locales
  fix p :: mem_pin_state
  assume cnt: "countable_entries t (snd p)"
  show "mem_down t (mem_up t p) = p"
    using unpin_pinned [OF cnt, of "fst p"] by (simp add: mem_state_defs pinned_entries_def pin_all_def)
  show "mem_down t (mem_mark t (mem_up t p)) = mem_mark t p"
    using unpin_rebuilt [OF cnt, of "fst p"]
    by (simp add: mem_state_defs rebuilt_entries_def pinned_entries_def pin_all_def)
qed

end
