(* ===== verification/Cpp_Ashmem.thy ===== *)
theory Cpp_Ashmem
  imports Cpp_Base
begin

text \<open>
  The C++ class \<open>PurgeableAshMem\<close> (\<open>cpp/src/purgeable_ashmem.cpp\<close>): purgeable memory on a shared
  memory descriptor. The descriptor is used through \<open>AshmemCreate\<close>, \<open>AshmemSetProt\<close>, \<open>mmap\<close>,
  \<open>ioctl\<close> and \<open>close\<close>; every such call is recorded in the state, and the environment \<open>ash_os\<close>
  answers from that history, so any deterministic kernel, pin counts included, is an instance.
\<close>

section \<open>Descriptors, requests, environment\<close>

record ashmem_pin =
  pin_offset :: c_uint
  pin_len :: c_uint

datatype ash_req =
    ASHMEM_SET_PURGEABLE
  | ASHMEM_GET_PURGEABLE
  | PURGEABLE_ASHMEM_IS_PURGED
  | PURGEABLE_ASHMEM_REBUILD_SUCCESS
  | ASHMEM_PIN ashmem_pin
  | ASHMEM_UNPIN ashmem_pin
  | ASHMEM_GET_PIN_STATUS ashmem_pin

datatype ash_call =
    Ash_Create string size_t
  | Ash_SetProt int c_uint
  | Ash_Ioctl int ash_req
  | Ash_Close int

record ash_world = world +
  ash_calls :: "ash_call list"

definition MAP_SHARED :: c_uint where
  "MAP_SHARED = 0x01"

text \<open>
  \<open>ash_create\<close>, \<open>ash_setprot\<close>: the results of the two library calls; \<open>ash_mmap\<close>: the mapping of a
  descriptor (length, protection, flags, descriptor); \<open>ash_ioctl\<close>: the result of an \<open>ioctl\<close> and
  whether it was interrupted (\<open>errno = EINTR\<close>); memory itself is \<open>ash_mem\<close>.
\<close>

record ash_os =
  ash_mem :: pm_os
  ash_create :: "ash_call list \<Rightarrow> string \<Rightarrow> size_t \<Rightarrow> int"
  ash_setprot :: "ash_call list \<Rightarrow> int \<Rightarrow> c_uint \<Rightarrow> int"
  ash_mmap :: "nat \<Rightarrow> size_t \<Rightarrow> c_uint \<Rightarrow> c_uint \<Rightarrow> int \<Rightarrow> ptr"
  ash_ioctl :: "ash_call list \<Rightarrow> int \<Rightarrow> ash_req \<Rightarrow> int \<times> bool"

definition ash_call :: "ash_call \<Rightarrow> ash_world \<Rightarrow> ash_world" where
  "ash_call c w = w\<lparr>ash_calls := ash_calls w @ [c]\<rparr>"

definition ioctl :: "ash_os \<Rightarrow> int \<Rightarrow> ash_req \<Rightarrow> ash_world \<Rightarrow> int \<times> ash_world" where
  "ioctl os fd req w = (fst (ash_ioctl os (ash_calls w) fd req), ash_call (Ash_Ioctl fd req) w)"

definition close :: "int \<Rightarrow> ash_world \<Rightarrow> ash_world" where
  "close fd w = ash_call (Ash_Close fd) w"

text \<open>\<open>TEMP_FAILURE_RETRY(ioctl(fd, req))\<close>: again while it fails with \<open>EINTR\<close>.\<close>

partial_function (option) retry_ioctl ::
  "ash_os \<Rightarrow> int \<Rightarrow> ash_req \<Rightarrow> ash_world \<Rightarrow> (int \<times> ash_world) option" where
  "retry_ioctl os fd req w =
     (let (r, eintr) = ash_ioctl os (ash_calls w) fd req;
          w1 = ash_call (Ash_Ioctl fd req) w
      in if r = - 1 \<and> eintr then retry_ioctl os fd req w1 else Some (r, w1))"

section \<open>\<open>PurgeableAshMem\<close>\<close>

record PurgeableAshMem = PurgeableMemBase +
  m_ashmemFd :: int
  m_isSupport :: bool
  m_isChange :: bool
  m_pin :: ashmem_pin

definition Ash_RoundUp :: "size_t \<Rightarrow> size_t \<Rightarrow> size_t" where
  "Ash_RoundUp val algn =
     (if val + algn < val \<or> val + algn < algn then val
      else if algn = 0 then val
      else ((val + algn - 1) div algn) * algn)"

definition GetAshmemFd :: "PurgeableAshMem \<Rightarrow> int" where
  "GetAshmemFd ob = m_ashmemFd ob"

definition Ash_IsPurged :: "ash_os \<Rightarrow> PurgeableAshMem \<Rightarrow> ash_world \<Rightarrow> (bool \<times> ash_world) option" where
  "Ash_IsPurged os ob w =
     (if \<not> m_isSupport ob then Some (False, w)
      else let (ret, w1) = ioctl os (m_ashmemFd ob) PURGEABLE_ASHMEM_IS_PURGED w in Some (ret > 0, w1))"

text \<open>The log line of \<open>Pin\<close> and \<open>Unpin\<close> asks for the pin status as well.\<close>

definition Ash_Pin :: "ash_os \<Rightarrow> PurgeableAshMem \<Rightarrow> ash_world \<Rightarrow> (bool \<times> ash_world) option" where
  "Ash_Pin os ob w =
     (if \<not> m_isSupport ob then Some (True, w)
      else if m_ashmemFd ob > 0 then
        do {
          (_, w1) \<leftarrow> retry_ioctl os (m_ashmemFd ob) (ASHMEM_PIN (m_pin ob)) w;
          let (_, w2) = ioctl os (m_ashmemFd ob) (ASHMEM_GET_PIN_STATUS (m_pin ob)) w1 in Some (True, w2)
        }
      else Some (False, w))"

definition Ash_Unpin :: "ash_os \<Rightarrow> PurgeableAshMem \<Rightarrow> ash_world \<Rightarrow> (bool \<times> ash_world) option" where
  "Ash_Unpin os ob w =
     (if \<not> m_isSupport ob then Some (True, w)
      else if m_ashmemFd ob > 0 then
        do {
          (_, w1) \<leftarrow> retry_ioctl os (m_ashmemFd ob) (ASHMEM_UNPIN (m_pin ob)) w;
          let (_, w2) = ioctl os (m_ashmemFd ob) (ASHMEM_GET_PIN_STATUS (m_pin ob)) w1 in Some (True, w2)
        }
      else Some (False, w))"

definition Ash_GetPinStatus :: "ash_os \<Rightarrow> PurgeableAshMem \<Rightarrow> ash_world \<Rightarrow> int \<times> ash_world" where
  "Ash_GetPinStatus os ob w =
     (if \<not> m_isSupport ob then (0, w)
      else ioctl os (m_ashmemFd ob) (ASHMEM_GET_PIN_STATUS (m_pin ob)) w)"

definition Ash_AfterRebuildSucc :: "ash_os \<Rightarrow> PurgeableAshMem \<Rightarrow> ash_world \<Rightarrow> ash_world option" where
  "Ash_AfterRebuildSucc os ob w =
     do { (_, w1) \<leftarrow> retry_ioctl os (m_ashmemFd ob) PURGEABLE_ASHMEM_REBUILD_SUCCESS w; Some w1 }"

definition Ash_ToString :: "PurgeableAshMem \<Rightarrow> string" where
  "Ash_ToString ob = ''''"

definition ash_vtable :: "ash_os \<Rightarrow> (PurgeableAshMem, ash_world) vtable" where
  "ash_vtable os = \<lparr>v_Pin = Ash_Pin os, v_Unpin = Ash_Unpin os, v_IsPurged = Ash_IsPurged os,
                    v_AfterRebuildSucc = Ash_AfterRebuildSucc os\<rparr>"

text \<open>The last steps of setting up a descriptor, in \<open>CreatePurgeableData\<close> and \<open>ChangeAshmemData\<close>.\<close>

definition set_purgeable ::
  "ash_os \<Rightarrow> PurgeableAshMem \<Rightarrow> ash_world \<Rightarrow> (PurgeableAshMem \<times> ash_world) option" where
  "set_purgeable os ob w =
     do {
       (_, w1) \<leftarrow> retry_ioctl os (m_ashmemFd ob) ASHMEM_SET_PURGEABLE w;
       (r, w2) \<leftarrow> retry_ioctl os (m_ashmemFd ob) ASHMEM_GET_PURGEABLE w1;
       let ob1 = (if r = 1 then ob\<lparr>m_isSupport := True\<rparr> else ob)
       in do { (_, w3) \<leftarrow> Ash_Unpin os ob1 w2; Some (ob1, w3) }
     }"

definition Ash_CreatePurgeableData ::
  "ash_os \<Rightarrow> PurgeableAshMem \<Rightarrow> ash_world \<Rightarrow> (bool \<times> PurgeableAshMem \<times> ash_world) option" where
  "Ash_CreatePurgeableData os ob w =
     (if m_dataSizeInput ob = 0 then Some (False, ob, w)
      else
      let sz = Ash_RoundUp (m_dataSizeInput ob) PAGE_SIZE;
          fd = ash_create os (ash_calls w) ''PurgeableAshmem'' sz;
          w1 = ash_call (Ash_Create ''PurgeableAshmem'' sz) w
      in if fd < 0 then Some (False, ob, w1)
         else
         let rc = ash_setprot os (ash_calls w1) fd PROT_RW;
             w2 = ash_call (Ash_SetProt fd PROT_RW) w1
         in if rc < 0 then Some (False, ob, close fd w2)
            else
            let ob1 = ob\<lparr>m_ashmemFd := fd, m_pin := \<lparr>pin_offset = 0, pin_len = 0\<rparr>\<rparr>;
                d = ash_mmap os (now w2) sz PROT_RW MAP_SHARED (m_ashmemFd ob1);
                w3 = bump w2
            in if d = MAP_FAILED
               then Some (False, ob1\<lparr>m_dataPtr := NULL\<rparr>, close (m_ashmemFd ob1) w3)
               else do {
                 (ob2, w4) \<leftarrow> set_purgeable os (ob1\<lparr>m_dataPtr := d\<rparr>)
                                (w3\<lparr>regions := (regions w3)(d \<mapsto> replicate (unat sz) 0)\<rparr>);
                 Some (True, ob2, w4)
               })"

definition PurgeableAshMem_new :: PurgeableAshMem where
  "PurgeableAshMem_new =
     PurgeableMemBase.extend PurgeableMemBase_init
       \<lparr>m_ashmemFd = - 1, m_isSupport = False, m_isChange = False,
        m_pin = \<lparr>pin_offset = 0, pin_len = 0\<rparr>\<rparr>"

definition PurgeableAshMem_ctor_builder :: "PurgeableMemBuilder option \<Rightarrow> PurgeableAshMem" where
  "PurgeableAshMem_ctor_builder bld =
     (let ob = PurgeableAshMem_new\<lparr>m_dataPtr := NULL, m_builder := None, m_ashmemFd := - 1,
                                   m_buildDataCount := 0, m_isSupport := False, m_isChange := False\<rparr>
      in IF_NULL_LOG_ACTION (bld = None) ob (ob\<lparr>m_builder := bld\<rparr>))"

definition PurgeableAshMem_ctor ::
  "ash_os \<Rightarrow> size_t \<Rightarrow> PurgeableMemBuilder option \<Rightarrow> ash_world \<Rightarrow> (PurgeableAshMem \<times> ash_world) option" where
  "PurgeableAshMem_ctor os dataSz bld w =
     (let ob = PurgeableAshMem_new\<lparr>m_dataPtr := NULL, m_builder := None, m_ashmemFd := - 1,
                                   m_buildDataCount := 0, m_isSupport := False, m_isChange := False\<rparr>
      in if dataSz = 0 then Some (ob, w)
         else
         let ob1 = ob\<lparr>m_dataSizeInput := dataSz\<rparr>
         in IF_NULL_LOG_ACTION (bld = None) (Some (ob1, w))
            (do {
              (ok, ob2, w1) \<leftarrow> Ash_CreatePurgeableData os ob1 w;
              if \<not> ok then Some (ob2, w1) else Some (ob2\<lparr>m_builder := bld\<rparr>, w1)
            }))"

definition PurgeableAshMem_dtor ::
  "ash_os \<Rightarrow> PurgeableAshMem \<Rightarrow> ash_world \<Rightarrow> (PurgeableAshMem \<times> ash_world) option" where
  "PurgeableAshMem_dtor os ob w =
     do {
       (ob1, w1) \<leftarrow>
         (if \<not> m_isChange ob \<and> m_dataPtr ob \<noteq> NULL then
            let (rc, w1) = munmap_data (ash_mem os) (m_dataPtr ob)
                             (Ash_RoundUp (m_dataSizeInput ob) PAGE_SIZE) w
            in if rc \<noteq> 0 then Some (ob, w1)
               else do {
                 (_, w2) \<leftarrow> (if UxpteIsEnabled (ux w1) then Ash_IsPurged os ob w1 else Some (True, w1));
                 Some (ob\<lparr>m_dataPtr := NULL\<rparr>, close (m_ashmemFd ob) w2)
               }
          else Some (ob, w));
       Some (ob1\<lparr>m_builder := None\<rparr>, w1)
     }"

text \<open>Giving up the data there is, at the start of \<open>ResizeData\<close> and \<open>ChangeAshmemData\<close>.\<close>

definition drop_data :: "ash_os \<Rightarrow> PurgeableAshMem \<Rightarrow> ash_world \<Rightarrow> PurgeableAshMem \<times> ash_world" where
  "drop_data os ob w =
     (if m_dataPtr ob \<noteq> NULL then
        let (rc, w1) = munmap_data (ash_mem os) (m_dataPtr ob)
                         (Ash_RoundUp (m_dataSizeInput ob) PAGE_SIZE) w
        in if rc \<noteq> 0 then (ob, w1)
           else (ob\<lparr>m_dataPtr := NULL\<rparr>, if m_ashmemFd ob > 0 then close (m_ashmemFd ob) w1 else w1)
      else (ob, w))"

definition Ash_ResizeData ::
  "ash_os \<Rightarrow> size_t \<Rightarrow> PurgeableAshMem \<Rightarrow> ash_world \<Rightarrow> (PurgeableAshMem \<times> ash_world) option" where
  "Ash_ResizeData os newSize ob w =
     (if newSize \<le> 0 \<or> newSize \<ge> OHOS_MAXIMUM_PURGEABLE_MEMORY then Some (ob, w)
      else
      let (ob1, w1) = drop_data os ob w
      in do {
        (_, ob2, w2) \<leftarrow> Ash_CreatePurgeableData os (ob1\<lparr>m_dataSizeInput := newSize\<rparr>) w1;
        Some (ob2, w2)
      })"

definition ChangeAshmemData ::
  "ash_os \<Rightarrow> size_t \<Rightarrow> int \<Rightarrow> ptr \<Rightarrow> PurgeableAshMem \<Rightarrow> ash_world \<Rightarrow>
   (bool \<times> PurgeableAshMem \<times> ash_world) option" where
  "ChangeAshmemData os sz fd data ob w =
     (if sz \<le> 0 \<or> sz \<ge> OHOS_MAXIMUM_PURGEABLE_MEMORY then Some (False, ob, w)
      else
      let (ob1, w1) = drop_data os ob w
      in do {
        (ob2, w2) \<leftarrow> set_purgeable os
           (ob1\<lparr>m_dataSizeInput := sz, m_ashmemFd := fd, m_dataPtr := data,
                m_buildDataCount := m_buildDataCount ob1 + 1, m_isChange := True\<rparr>) w1;
        Some (True, ob2, w2)
      })"

end
