(* ===== verification/Cpp_Ash_Seq.thy ===== *)
theory Cpp_Ash_Seq
  imports Cpp_Ashmem Cpp_Seq
begin

text \<open>
  \<open>PurgeableAshMem\<close> meets the contract of the base class: pins are the requests sent to the driver,
  the content is gone when the driver says so. What the driver promises is \<open>ash_kernel\<close>.
\<close>

section \<open>Interrupted requests\<close>

definition interrupted :: "int \<times> bool \<Rightarrow> bool" where
  "interrupted a \<longleftrightarrow> fst a = - 1 \<and> snd a"

lemma retry_ioctl_unfold:
  "retry_ioctl os fd req w =
     (if interrupted (ash_ioctl os (ash_calls w) fd req)
      then retry_ioctl os fd req (ash_call (Ash_Ioctl fd req) w)
      else Some (fst (ash_ioctl os (ash_calls w) fd req), ash_call (Ash_Ioctl fd req) w))"
  by (subst retry_ioctl.simps) (auto simp: interrupted_def Let_def split: prod.splits)

lemma ash_call_simps [simp]:
  "ash_calls (ash_call c w) = ash_calls w @ [c]" "regions (ash_call c w) = regions w"
  "ux (ash_call c w) = ux w" "now (ash_call c w) = now w"
  by (simp_all add: ash_call_def now_def)

text \<open>Requests that are not interrupted any more after \<open>k\<close> attempts.\<close>

lemma retry_ends:
  assumes "\<not> interrupted (ash_ioctl os (ash_calls w @ replicate k (Ash_Ioctl fd req)) fd req)"
  shows "\<exists>j \<le> k. \<exists>r. retry_ioctl os fd req w =
           Some (r, w\<lparr>ash_calls := ash_calls w @ replicate (Suc j) (Ash_Ioctl fd req)\<rparr>) \<and>
         \<not> interrupted (ash_ioctl os (ash_calls w @ replicate j (Ash_Ioctl fd req)) fd req) \<and>
         r = fst (ash_ioctl os (ash_calls w @ replicate j (Ash_Ioctl fd req)) fd req)"
  using assms
proof (induction k arbitrary: w)
  case 0
  then show ?case by (subst retry_ioctl_unfold) (simp add: ash_call_def)
next
  case (Suc k)
  let ?c = "Ash_Ioctl fd req"
  show ?case
  proof (cases "interrupted (ash_ioctl os (ash_calls w) fd req)")
    case False
    then show ?thesis by (intro exI [of _ 0], subst retry_ioctl_unfold) (simp add: ash_call_def)
  next
    case True
    have "\<not> interrupted (ash_ioctl os (ash_calls (ash_call ?c w) @ replicate k ?c) fd req)"
      using Suc.prems by simp
    from Suc.IH [OF this] obtain j where "j \<le> k"
      "retry_ioctl os fd req (ash_call ?c w) =
         Some (fst (ash_ioctl os (ash_calls (ash_call ?c w) @ replicate j ?c) fd req),
               (ash_call ?c w)\<lparr>ash_calls := ash_calls (ash_call ?c w) @ replicate (Suc j) ?c\<rparr>)"
      "\<not> interrupted (ash_ioctl os (ash_calls (ash_call ?c w) @ replicate j ?c) fd req)" by blast
    then show ?thesis
      using True by (intro exI [of _ "Suc j"], subst retry_ioctl_unfold) (simp add: ash_call_def)
  qed
qed

section \<open>The driver\<close>

text \<open>
  Requests are not interrupted; asking, pinning and unpinning do not change whether the content
  counts as purged; after \<open>PURGEABLE_ASHMEM_REBUILD_SUCCESS\<close> it does not.
\<close>

definition ash_kernel :: "ash_os \<Rightarrow> int \<Rightarrow> bool" where
  "ash_kernel os fd \<longleftrightarrow>
     (\<forall>cs req. \<not> interrupted (ash_ioctl os cs fd req)) \<and>
     (\<forall>cs req. req \<noteq> PURGEABLE_ASHMEM_REBUILD_SUCCESS \<longrightarrow>
        fst (ash_ioctl os (cs @ [Ash_Ioctl fd req]) fd PURGEABLE_ASHMEM_IS_PURGED) =
        fst (ash_ioctl os cs fd PURGEABLE_ASHMEM_IS_PURGED)) \<and>
     (\<forall>cs. fst (ash_ioctl os (cs @ [Ash_Ioctl fd PURGEABLE_ASHMEM_REBUILD_SUCCESS]) fd
                  PURGEABLE_ASHMEM_IS_PURGED) \<le> 0)"

definition ash_inv :: "ash_os \<Rightarrow> PurgeableAshMem \<Rightarrow> ash_world \<Rightarrow> bool" where
  "ash_inv os ob w \<longleftrightarrow> ash_kernel os (m_ashmemFd ob) \<and> m_ashmemFd ob > 0"

definition ash_gone :: "ash_os \<Rightarrow> PurgeableAshMem \<Rightarrow> ash_world \<Rightarrow> bool" where
  "ash_gone os ob w \<longleftrightarrow>
     m_isSupport ob \<and> fst (ash_ioctl os (ash_calls w) (m_ashmemFd ob) PURGEABLE_ASHMEM_IS_PURGED) > 0"

text \<open>Pin requests minus unpin requests of a descriptor; without support none are sent.\<close>

definition net_pins :: "int \<Rightarrow> ashmem_pin \<Rightarrow> ash_call list \<Rightarrow> int" where
  "net_pins fd p cs =
     int (count_list cs (Ash_Ioctl fd (ASHMEM_PIN p))) - int (count_list cs (Ash_Ioctl fd (ASHMEM_UNPIN p)))"

definition ash_pins :: "PurgeableAshMem \<Rightarrow> ash_world \<Rightarrow> bool \<times> int" where
  "ash_pins ob w = (m_isSupport ob, net_pins (m_ashmemFd ob) (m_pin ob) (ash_calls w))"

definition ash_up :: "bool \<times> int \<Rightarrow> bool \<times> int" where
  "ash_up p = (fst p, if fst p then snd p + 1 else snd p)"

definition ash_down :: "bool \<times> int \<Rightarrow> bool \<times> int" where
  "ash_down p = (fst p, if fst p then snd p - 1 else snd p)"

lemma net_pins_simps [simp]:
  "net_pins fd p [] = 0" "net_pins fd p (cs @ ds) = net_pins fd p cs + net_pins fd p ds"
  "net_pins fd p (c # cs) =
     (if c = Ash_Ioctl fd (ASHMEM_PIN p) then 1 else if c = Ash_Ioctl fd (ASHMEM_UNPIN p) then - 1 else 0) +
     net_pins fd p cs"
  by (simp_all add: net_pins_def)

lemma retry_uninterrupted:
  "ash_kernel os fd \<Longrightarrow>
   retry_ioctl os fd req w = Some (fst (ash_ioctl os (ash_calls w) fd req), ash_call (Ash_Ioctl fd req) w)"
  by (subst retry_ioctl_unfold) (simp add: ash_kernel_def)

lemma ash_kernel_purged:
  assumes "ash_kernel os fd"
  shows "req \<noteq> PURGEABLE_ASHMEM_REBUILD_SUCCESS \<Longrightarrow>
      fst (ash_ioctl os (cs @ [Ash_Ioctl fd req]) fd PURGEABLE_ASHMEM_IS_PURGED) =
      fst (ash_ioctl os cs fd PURGEABLE_ASHMEM_IS_PURGED)"
    and "fst (ash_ioctl os (cs @ [Ash_Ioctl fd PURGEABLE_ASHMEM_REBUILD_SUCCESS]) fd
          PURGEABLE_ASHMEM_IS_PURGED) \<le> 0"
  using assms by (simp_all add: ash_kernel_def)

lemma ash_kernel_purged2:
  assumes "ash_kernel os fd" "req \<noteq> PURGEABLE_ASHMEM_REBUILD_SUCCESS" "req2 \<noteq> PURGEABLE_ASHMEM_REBUILD_SUCCESS"
  shows "fst (ash_ioctl os (cs @ [Ash_Ioctl fd req, Ash_Ioctl fd req2]) fd PURGEABLE_ASHMEM_IS_PURGED) =
    fst (ash_ioctl os cs fd PURGEABLE_ASHMEM_IS_PURGED)"
  using ash_kernel_purged(1) [OF assms(1,2), of cs]
    ash_kernel_purged(1) [OF assms(1,3), of "cs @ [Ash_Ioctl fd req]"] by simp

lemma ash_more:
  "PurgeableMemBase.more ob' = PurgeableMemBase.more ob \<Longrightarrow>
   m_ashmemFd ob' = m_ashmemFd ob \<and> m_isSupport ob' = m_isSupport ob \<and> m_pin ob' = m_pin ob"
  by (cases ob, cases ob') simp

lemma ash_store [simp]: "ash_calls (store_data os d bs w) = ash_calls w"
  by (simp add: store_data_def bump_def)

lemmas ash_state_defs = ash_gone_def ash_pins_def ash_up_def ash_down_def

lemmas ash_method_defs = ash_vtable_def Ash_Pin_def Ash_Unpin_def Ash_IsPurged_def Ash_AfterRebuildSucc_def
  ioctl_def

interpretation ash: purgeable_class "ash_vtable os" "ash_mem os" "ash_inv os" "ash_gone os" ash_pins
  ash_up ash_down "\<lambda>p. p" False for os
proof unfold_locales
  fix ob ob' :: PurgeableAshMem and w :: ash_world
  assume "PurgeableMemBase.more ob' = PurgeableMemBase.more ob"
  note ash_more [OF this]
  then show "ash_inv os ob' w = ash_inv os ob w \<and> ash_gone os ob' w = ash_gone os ob w \<and>
      ash_pins ob' w = ash_pins ob w"
    by (simp add: ash_inv_def ash_gone_def ash_pins_def)
next
  fix ob :: PurgeableAshMem and w :: ash_world
  assume inv: "ash_inv os ob w"
  then have k: "ash_kernel os (m_ashmemFd ob)" and fd: "m_ashmemFd ob > 0" by (simp_all add: ash_inv_def)
  note steps = ash_method_defs retry_uninterrupted [OF k] ash_kernel_purged [OF k] ash_kernel_purged2 [OF k]
  have any: "ash_inv os ob w'" for w' using inv by (simp add: ash_inv_def)
  show "\<exists>r w'. v_Pin (ash_vtable os) ob w = Some (r, w') \<and> ash_inv os ob w' \<and> regions w' = regions w \<and>
      ash_gone os ob w' = ash_gone os ob w \<and> ash_pins ob w' = ash_up (ash_pins ob w)"
    using fd any by (auto simp: steps ash_state_defs)
  show "\<exists>r w'. v_Unpin (ash_vtable os) ob w = Some (r, w') \<and> ash_inv os ob w' \<and> regions w' = regions w \<and>
      ash_gone os ob w' = ash_gone os ob w \<and> ash_pins ob w' = ash_down (ash_pins ob w)"
    using fd any by (auto simp: steps ash_state_defs)
  show "\<exists>w'. v_IsPurged (ash_vtable os) ob w = Some (ash_gone os ob w, w') \<and> ash_inv os ob w' \<and>
      regions w' = regions w \<and> ash_gone os ob w' = ash_gone os ob w \<and> ash_pins ob w' = ash_pins ob w"
    using any by (auto simp: steps ash_state_defs)
next
  fix ob :: PurgeableAshMem and w :: ash_world and bs bs' :: "byte list"
  assume inv: "ash_inv os ob w"
  then have k: "ash_kernel os (m_ashmemFd ob)" by (simp add: ash_inv_def)
  let ?w = "store_data (ash_mem os) (m_dataPtr ob) bs' w"
  have any: "ash_inv os ob w'" for w' using inv by (simp add: ash_inv_def)
  show "ash_inv os ob ?w \<and> ash_pins ob ?w = ash_pins ob w"
    using any by (simp add: ash_pins_def)
  show "ash_gone os ob ?w = (ash_gone os ob w \<and> \<not> False)" by (simp add: ash_gone_def)
  show "\<exists>w'. v_AfterRebuildSucc (ash_vtable os) ob ?w = Some w' \<and> ash_inv os ob w' \<and>
      regions w' = (regions w)(m_dataPtr ob \<mapsto> bs') \<and> \<not> ash_gone os ob w' \<and> ash_pins ob w' = ash_pins ob w"
    using any ash_kernel_purged(2) [OF k, of "ash_calls w"]
    by (auto simp: ash_method_defs retry_uninterrupted [OF k] ash_state_defs)
qed simp

interpretation ash: balanced_class "ash_vtable os" "ash_mem os" "ash_inv os" "ash_gone os" ash_pins
  ash_up ash_down "\<lambda>p. p" False "\<lambda>p. True" for os
  by unfold_locales (auto simp: ash_up_def ash_down_def)

end
