(* ===== verification/Cpp_Bound.thy ===== *)
theory Cpp_Bound
  imports Cpp_Seq
begin

text \<open>
  How often \<open>BeginRead\<close> rebuilds: at most \<open>MAX_BUILD_TRYTIMES + 1\<close> times, whatever the virtual
  methods and the builders answer; and what a class gets whose \<open>IsPurged\<close> never says no.
\<close>

text \<open>The virtual methods return and leave the region of the object mapped.\<close>

definition keeps_region :: "ptr \<Rightarrow> 'b world_scheme \<Rightarrow> bool" where
  "keeps_region d w \<longleftrightarrow> regions w d \<noteq> None"

definition methods_return :: "('a PurgeableMemBase_scheme, 'b world_scheme) vtable \<Rightarrow> ptr \<Rightarrow> bool" where
  "methods_return vt d \<longleftrightarrow>
     (\<forall>ob w. m_dataPtr ob = d \<and> keeps_region d w \<longrightarrow>
        (\<exists>r w'. v_Pin vt ob w = Some (r, w') \<and> keeps_region d w') \<and>
        (\<exists>r w'. v_Unpin vt ob w = Some (r, w') \<and> keeps_region d w') \<and>
        (\<exists>r w'. v_IsPurged vt ob w = Some (r, w') \<and> keeps_region d w') \<and>
        (\<exists>w'. v_AfterRebuildSucc vt ob w = Some w' \<and> keeps_region d w'))"

lemma methods_returnD:
  assumes "methods_return vt (m_dataPtr ob)" "keeps_region (m_dataPtr ob) w"
  shows "\<exists>r w'. v_Pin vt ob w = Some (r, w') \<and> keeps_region (m_dataPtr ob) w'"
    "\<exists>r w'. v_Unpin vt ob w = Some (r, w') \<and> keeps_region (m_dataPtr ob) w'"
    "\<exists>r w'. v_IsPurged vt ob w = Some (r, w') \<and> keeps_region (m_dataPtr ob) w'"
    "\<exists>w'. v_AfterRebuildSucc vt ob w = Some w' \<and> keeps_region (m_dataPtr ob) w'"
  using assms unfolding methods_return_def by blast+

definition count_up :: "nat \<Rightarrow> 'a PurgeableMemBase_scheme \<Rightarrow> 'a PurgeableMemBase_scheme" where
  "count_up j ob = ob\<lparr>m_buildDataCount := m_buildDataCount ob + of_nat j\<rparr>"

lemma count_up_simps [simp]:
  "m_dataPtr (count_up j ob) = m_dataPtr ob" "m_builder (count_up j ob) = m_builder ob"
  "count_up 0 ob = ob" "count_up i (count_up j ob) = count_up (i + j) ob"
  "(count_up j ob)\<lparr>m_dataLock := l\<rparr> = count_up j (ob\<lparr>m_dataLock := l\<rparr>)"
  by (simp_all add: count_up_def add_ac)

lemma BuildContent_returns:
  assumes "keeps_region (m_dataPtr ob) w" "m_builder ob \<noteq> None"
  obtains w' where "BuildContent os ob w = Some (True, count_up 1 ob, w')" "keeps_region (m_dataPtr ob) w'"
  | w' where "BuildContent os ob w = Some (False, ob, w')" "keeps_region (m_dataPtr ob) w'"
proof -
  obtain bs b where b: "regions w (m_dataPtr ob) = Some bs" "m_builder ob = Some b"
    using assms by (auto simp: keeps_region_def)
  obtain rc bs1 where "os_memset_s os bs (Base_RoundUp (m_dataSizeInput ob) PAGE_SIZE) 0 (m_dataSizeInput ob) = (rc, bs1)"
    by fastforce
  moreover obtain succ d2 where "BuildAll b (take (unat (m_dataSizeInput ob)) bs1) = (succ, d2)" by fastforce
  moreover define w1 where "w1 = store_data os (m_dataPtr ob) bs1 w"
  moreover define w2 where "w2 = store_data os (m_dataPtr ob) (d2 @ drop (unat (m_dataSizeInput ob)) bs1) w1"
  ultimately have "BuildContent os ob w =
      (if rc \<noteq> 0 then Some (False, ob, w1) else if succ then Some (True, count_up 1 ob, w2) else Some (False, ob, w2))"
    using b by (simp add: BuildContent_def Let_def count_up_def)
  moreover have "keeps_region (m_dataPtr ob) w1" "keeps_region (m_dataPtr ob) w2"
    by (simp_all add: keeps_region_def w1_def w2_def)
  ultimately show ?thesis
    using that(1) [of w2] that(2) [of w1] that(2) [of w2] by (cases "rc = 0"; cases succ) simp_all
qed

definition always_purged :: "('a PurgeableMemBase_scheme, 'b world_scheme) vtable \<Rightarrow> bool" where
  "always_purged vt \<longleftrightarrow> (\<forall>ob w r w'. v_IsPurged vt ob w = Some (r, w') \<longrightarrow> r)"

lemma IfNeedRebuild_returns:
  assumes "methods_return vt (m_dataPtr ob)" "keeps_region (m_dataPtr ob) w"
  obtains w' where "IfNeedRebuild vt ob w = Some (True, w')" "keeps_region (m_dataPtr ob) w'"
  | w' where "IfNeedRebuild vt ob w = Some (False, w')" "keeps_region (m_dataPtr ob) w'" "\<not> always_purged vt"
proof -
  obtain r w' where "v_IsPurged vt ob w = Some (r, w')" "keeps_region (m_dataPtr ob) w'"
    using methods_returnD(3) [OF assms] by blast
  then show ?thesis
    using that assms(2) by (cases "m_buildDataCount ob = 0"; cases r) (auto simp: IfNeedRebuild_def always_purged_def)
qed

text \<open>One round of the loop: return true, give up, or go round once more.\<close>

lemma while_round:
  assumes "methods_return vt (m_dataPtr ob)" "keeps_region (m_dataPtr ob) w" "m_builder ob \<noteq> None"
  obtains w' where "BeginRead_while os vt k ob w = Some (True, ob, w')" "keeps_region (m_dataPtr ob) w'"
      "\<not> always_purged vt"
  | j w' where "BeginRead_while os vt k ob w = Some (False, count_up j ob, w')" "j \<le> 1"
      "keeps_region (m_dataPtr ob) w'"
  | w' where "BeginRead_while os vt k ob w = BeginRead_while os vt (Suc k) (count_up 1 ob) w'" "k < 3"
      "keeps_region (m_dataPtr ob) w'"
proof -
  note unf = BeginRead_while.simps [of os vt k ob w] MAX_BUILD_TRYTIMES_def
  show ?thesis
  proof (rule IfNeedRebuild_returns [OF assms(1,2)])
    fix w1
    assume "IfNeedRebuild vt ob w = Some (False, w1)" "keeps_region (m_dataPtr ob) w1" "\<not> always_purged vt"
    then show ?thesis using that(1) [of w1] by (simp add: unf)
  next
    fix w1
    assume w1: "IfNeedRebuild vt ob w = Some (True, w1)" "keeps_region (m_dataPtr ob) w1"
    show ?thesis
    proof (rule BuildContent_returns [OF w1(2) assms(3), of os])
      fix w2
      assume "BuildContent os ob w1 = Some (False, ob, w2)" "keeps_region (m_dataPtr ob) w2"
      then show ?thesis using that(2) [of 0 w2] w1 by (simp add: unf)
    next
      fix w2
      assume w2: "BuildContent os ob w1 = Some (True, count_up 1 ob, w2)" "keeps_region (m_dataPtr ob) w2"
      obtain w3 where "v_AfterRebuildSucc vt (count_up 1 ob) w2 = Some w3" "keeps_region (m_dataPtr ob) w3"
        using methods_returnD(4) [of vt "count_up 1 ob" w2] assms(1) w2(2) by auto
      then show ?thesis
        using that(2) [of 1 w3] that(3) [of w3] w1 w2 by (cases "k < 3") (simp_all add: unf)
    qed
  qed
qed

lemma while_bounded:
  assumes "methods_return vt (m_dataPtr ob)" "keeps_region (m_dataPtr ob) w" "m_builder ob \<noteq> None" "k \<le> 3"
  shows "\<exists>r j w'. BeginRead_while os vt k ob w = Some (r, count_up j ob, w') \<and> j + k \<le> 4 \<and>
    keeps_region (m_dataPtr ob) w' \<and> (r \<longrightarrow> \<not> always_purged vt)"
  using assms
proof (induction "3 - k" arbitrary: k ob w)
  case 0
  show ?case
    by (rule while_round [OF 0(2-4), of os k])
       (use 0 in \<open>force intro: exI [of _ "0 :: nat"]\<close>, use 0 in force, use 0 in force)
next
  case (Suc n)
  show ?case
  proof (rule while_round [OF Suc.prems(1-3), of os k])
    fix w'
    assume "BeginRead_while os vt k ob w = BeginRead_while os vt (Suc k) (count_up 1 ob) w'" "k < 3"
      "keeps_region (m_dataPtr ob) w'"
    moreover have "n = 3 - Suc k" using Suc.hyps(2) by simp
    ultimately obtain r j w'' where
      "BeginRead_while os vt k ob w = Some (r, count_up j (count_up 1 ob), w'')"
      "j + Suc k \<le> 4" "keeps_region (m_dataPtr ob) w''" "r \<longrightarrow> \<not> always_purged vt"
      using Suc.hyps(1) [of "Suc k" "count_up 1 ob" w'] Suc.prems by auto
    then show ?thesis by (intro exI [of _ r] exI [of _ "Suc j"] exI [of _ w'']) simp
  qed (use Suc.prems(4) in \<open>force intro: exI [of _ "0 :: nat"]\<close>, use Suc.prems(4) in force)
qed

end
