(* ===== verification/Cpp_Props.thy ===== *)
theory Cpp_Props
  imports Cpp_Mem_Seq Cpp_Ash_Seq Cpp_Bound Purg_Props
begin

text \<open>
  Properties of the operations of the C++ classes: builders, accesses, recovery of the content, pins,
  the mutex, the bound on rebuilds, interrupted requests. Each is followed by a concrete instance.
\<close>

section \<open>Builders\<close>

text \<open>
  \<open>BuildAll\<close> of the C++ library and \<open>PurgMemBuilderBuildAll\<close> of the C library are the same
  function of the list of build functions: a C chain that holds the functions of a C++ chain gives
  the same verdict and the same content.
\<close>

theorem cpp_builder_equals_c:
  assumes "heap_chain h p A (as_steps (chain_of b))"
  shows "PurgMemBuilderBuildAll p data h = Some (BuildAll b data)"
proof -
  have "p \<noteq> NULL" using assms by (cases b) (auto simp: as_steps_def heap_chain_def)
  then show ?thesis
    using purg_builder.build_all [OF assms] by (simp add: run_steps_as_steps BuildAll_run_builds)
qed

definition fill_fives :: build_func where
  "fill_fives data = (True, replicate (length data) 5)"

definition fail_build :: build_func where
  "fail_build data = (False, data)"

definition ex_builder :: "build_func \<Rightarrow> PurgeableMemBuilder" where
  "ex_builder f = PurgeableMemBuilder f None None"

theorem cpp_builder_equals_c_witness:
  "PurgMemBuilderBuildAll 0x50 [1, 2] [0x50 \<mapsto> ex_node (\<lambda>data _. fill_fives data)] = Some (True, [5, 5])"
proof -
  have "heap_chain [0x50 \<mapsto> ex_node (\<lambda>data _. fill_fives data)] 0x50 {0x50} (as_steps (chain_of (ex_builder fill_fives)))"
    unfolding heap_chain_def
    by (intro exI [of _ "[0x50]"]) (simp add: bchain_Cons ex_node_def ex_builder_def as_steps_def)
  from cpp_builder_equals_c [OF this, of "[1, 2]"] show ?thesis
    by (simp add: ex_builder_def fill_fives_def)
qed

section \<open>A concrete object\<close>

definition ex_cpp :: "build_func \<Rightarrow> c_uint \<Rightarrow> PurgeableMem" where
  "ex_cpp f n = \<lparr>m_dataPtr = 0x2000, m_dataLock = False, m_isDataValid = True, m_dataSizeInput = 4,
     m_builder = Some (ex_builder f), m_buildDataCount = n, m_pageTable = Some \<lparr>m_uxpt = 8\<rparr>\<rparr>"

definition ex_cppw :: "byte list \<Rightarrow> world" where
  "ex_cppw bs = \<lparr>ux = ex_st, builders = Map.empty, regions = [0x2000 \<mapsto> bs], objs = Map.empty\<rparr>"

lemma ex_keeps: "keeps_size fill_fives" "keeps_size fail_build"
  by (simp_all add: keeps_size_def fill_fives_def fail_build_def)

lemma ex_memset: "memset_ok (calm ex_pm_os) 0x1000"
  by (simp add: memset_ok_def ex_pm_os_def)

lemma ex_cpp_ready:
  assumes "keeps_size f" "length bs = 4096"
  shows "base_ready (calm ex_pm_os) (ex_cpp f n) (ex_cppw bs) bs"
  using assms ex_memset by (simp add: base_ready_def ex_cpp_def ex_cppw_def ex_builder_def ex_round)

lemma ex_cpp_inv: "mem_inv ex_pm_os ex_table (ex_cpp f n) (ex_cppw bs)"
proof -
  have "touch_ok ex_pm_os ex_table" using ex_env by (simp add: pm_env_def)
  moreover have "geometry ex_table (c_view (ex_cpp f n))"
    using ex_geometry by (simp add: geometry_def ex_cpp_def ex_obj_def)
  ultimately show ?thesis using ex_ok by (simp add: mem_inv_def ex_cpp_def ex_cppw_def)
qed

lemma ex_cpp_log:
  "logged (ex_cpp fill_fives n) = replicate 4 5" "replays (ex_cpp fill_fives n)"
  "\<not> replays (ex_cpp fail_build n)"
  by (simp_all add: logged_def replays_def ex_cpp_def ex_builder_def b_zeros_def fill_fives_def fail_build_def)

section \<open>Accesses\<close>

text \<open>
  C7. What \<open>BeginRead\<close> of a \<open>PurgeableMem\<close> does: if the content is there it returns true with every
  page pinned and nothing else changed; if the content was purged or never built, it clears the
  buffer, replays the builders and returns true exactly if they succeed, with the replayed content
  and the pages pinned; if a builder fails it returns false and the pins are given back. The mutex
  is released in every case.
\<close>

theorem cpp_begin_read_spec:
  assumes "base_ready (calm os) ob w bs" "mem_inv os t ob w"
  shows "\<exists>r n w'. BeginRead (calm os) (mem_vtable (calm os)) ob w = Some (r, ob\<lparr>m_buildDataCount := n\<rparr>, w') \<and>
    mem_inv os t ob w' \<and>
    (if m_buildDataCount ob \<noteq> 0 \<and> \<not> mem_gone t ob w
     then r \<and> regions w' = regions w \<and> mem_pins ob w' = mem_up t (mem_pins ob w)
     else regions w' = (regions w)(m_dataPtr ob \<mapsto> with_content ob (logged ob) bs) \<and>
          r = replays ob \<and> (replays ob \<longrightarrow> \<not> mem_gone t ob w') \<and>
          mem_pins ob w' = (if replays ob then mem_mark t (mem_up t (mem_pins ob w))
                            else mem_down t (mem_mark t (mem_up t (mem_pins ob w)))))"
proof -
  obtain r ob' w' where b: "BeginRead (calm os) (mem_vtable (calm os)) ob w = Some (r, ob', w')"
    "mem.begin_post os t ob w bs r ob' w'" using mem.begin_read_post [OF assms] by blast
  then obtain n where n: "ob' = ob\<lparr>m_buildDataCount := n\<rparr>" by (auto simp: mem.begin_post_def)
  have "mem_inv os t ob w'" using b(2) n by (simp add: mem.begin_post_def)
  then show ?thesis
    using b n by (intro exI [of _ r] exI [of _ n] exI [of _ w']) (auto simp: mem.begin_post_def mem.need_def)
qed

theorem cpp_begin_read_spec_witness:
  "\<exists>n w'. BeginRead (calm ex_pm_os) (mem_vtable (calm ex_pm_os)) (ex_cpp fill_fives 0) (ex_cppw ex_bytes) =
      Some (True, ex_cpp fill_fives n, w') \<and> regions w' 0x2000 = Some (replicate 4 5 @ replicate 4092 7)"
proof -
  have "with_content (ex_cpp fill_fives 0) (logged (ex_cpp fill_fives 0)) ex_bytes = replicate 4 5 @ replicate 4092 7"
    by (simp add: with_content_def ex_cpp_log) (simp add: ex_cpp_def ex_bytes_def)
  moreover have "(ex_cpp fill_fives 0)\<lparr>m_buildDataCount := n\<rparr> = ex_cpp fill_fives n" for n
    by (simp add: ex_cpp_def)
  moreover have "m_buildDataCount (ex_cpp fill_fives 0) = 0" "m_dataPtr (ex_cpp fill_fives 0) = 0x2000"
    by (simp_all add: ex_cpp_def)
  ultimately show ?thesis
    using cpp_begin_read_spec [OF ex_cpp_ready [OF ex_keeps(1) ex_bytes_length] ex_cpp_inv, of 0] ex_cpp_log(2)
    by auto
qed

section \<open>A modification survives purging\<close>

text \<open>
  What the kernel may do while nobody holds an object: keep its content, or take it and report it
  as gone. An object is in sync when content that counts as there is what its builders give.
\<close>

definition kernel_may_purge ::
  "('ob \<Rightarrow> 'b world_scheme \<Rightarrow> bool) \<Rightarrow> ('ob \<Rightarrow> 'b world_scheme \<Rightarrow> bool) \<Rightarrow> ptr \<Rightarrow> 'ob \<Rightarrow>
   'b world_scheme \<Rightarrow> 'b world_scheme \<Rightarrow> bool" where
  "kernel_may_purge ok gone d ob w w' \<longleftrightarrow>
     ok ob w' \<and> (\<exists>bs bs'. regions w d = Some bs \<and> regions w' d = Some bs' \<and>
       length bs' = length bs \<and> (\<not> gone ob w' \<longrightarrow> bs' = bs))"

definition in_sync ::
  "('a PurgeableMemBase_scheme \<Rightarrow> 'b world_scheme \<Rightarrow> bool) \<Rightarrow> 'a PurgeableMemBase_scheme \<Rightarrow>
   'b world_scheme \<Rightarrow> bool" where
  "in_sync gone ob w \<longleftrightarrow>
     (m_buildDataCount ob \<noteq> 0 \<and> \<not> gone ob w \<longrightarrow>
      (\<exists>bs. regions w (m_dataPtr ob) = Some bs \<and> take (unat (m_dataSizeInput ob)) bs = logged ob))"

text \<open>
  The central promise, for \<open>PurgeableMem\<close>: a write access with \<open>ModifyContentByBuilder\<close> puts the
  result of the modifier into the content, and after \<open>EndWrite\<close>, whatever the kernel takes in the
  meantime, the next \<open>BeginRead\<close> returns true with exactly that content.
\<close>

theorem cpp_modification_survives:
  assumes "base_ready (calm os) ob w bs" "mem_inv os t ob w" "replays ob" "in_sync (mem_gone t) ob w"
    and "single md" "keeps_size (v_Build md)" "v_Build md (logged ob) = (True, c)"
  shows "\<exists>ob1 w1 ob2 w2 w3.
    BeginWrite (calm os) (mem_vtable (calm os)) ob w = Some (True, ob1, w1) \<and>
    ModifyContentByBuilder (calm os) (Some md) ob1 w1 = Some (True, ob2, w2) \<and>
    EndWrite (mem_vtable (calm os)) ob2 w2 = Some ((), ob2, w3) \<and>
    (\<forall>w4. kernel_may_purge (mem_inv os t) (mem_gone t) (m_dataPtr ob2) ob2 w3 w4 \<longrightarrow>
       (\<exists>ob5 w5 bs5. BeginRead (calm os) (mem_vtable (calm os)) ob2 w4 = Some (True, ob5, w5) \<and>
          regions w5 (m_dataPtr ob) = Some bs5 \<and> take (unat (m_dataSizeInput ob)) bs5 = c))"
proof -
  have syn: "mem.synced t ob w"
    using assms(4) by (simp add: mem.synced_def mem.need_def in_sync_def)
  show ?thesis
    using mem.modification_survives [OF assms(1-3) syn assms(5-7)]
    by (simp add: kernel_may_purge_def mem.may_purge_def)
qed

definition zero_first :: build_func where
  "zero_first data = (True, data[0 := 0])"

lemma ex_zero_first: "single (ex_builder zero_first)" "keeps_size (v_Build (ex_builder zero_first))"
  by (simp_all add: single_def ex_builder_def keeps_size_def zero_first_def)

theorem cpp_modification_survives_witness:
  "\<exists>ob1 w1 ob2 w2 w3.
    BeginWrite (calm ex_pm_os) (mem_vtable (calm ex_pm_os)) (ex_cpp fill_fives 0) (ex_cppw ex_bytes) = Some (True, ob1, w1) \<and>
    ModifyContentByBuilder (calm ex_pm_os) (Some (ex_builder zero_first)) ob1 w1 = Some (True, ob2, w2) \<and>
    EndWrite (mem_vtable (calm ex_pm_os)) ob2 w2 = Some ((), ob2, w3) \<and>
    (\<forall>w4. kernel_may_purge (mem_inv ex_pm_os ex_table) (mem_gone ex_table) (m_dataPtr ob2) ob2 w3 w4 \<longrightarrow>
       (\<exists>ob5 w5 bs5. BeginRead (calm ex_pm_os) (mem_vtable (calm ex_pm_os)) ob2 w4 = Some (True, ob5, w5) \<and>
          regions w5 0x2000 = Some bs5 \<and> take 4 bs5 = [0, 5, 5, 5]))"
proof -
  have syn: "in_sync (mem_gone ex_table) (ex_cpp fill_fives 0) (ex_cppw ex_bytes)"
    by (simp add: in_sync_def ex_cpp_def)
  have run: "v_Build (ex_builder zero_first) (logged (ex_cpp fill_fives 0)) = (True, [0, 5, 5, 5])"
    unfolding ex_cpp_log by (simp add: ex_builder_def zero_first_def numeral_eq_Suc)
  have "m_dataPtr (ex_cpp fill_fives 0) = 0x2000" "unat (m_dataSizeInput (ex_cpp fill_fives 0)) = 4"
    by (simp_all add: ex_cpp_def)
  then show ?thesis
    using cpp_modification_survives [OF ex_cpp_ready [OF ex_keeps(1) ex_bytes_length] ex_cpp_inv ex_cpp_log(2) syn ex_zero_first run]
    by simp
qed

text \<open>A driver that reports nothing as purged, and an object on it.\<close>

definition ex_ash :: ash_os where
  "ex_ash = \<lparr>ash_mem = ex_pm_os, ash_create = (\<lambda>_ _ _. 5), ash_setprot = (\<lambda>_ _ _. 0),
     ash_mmap = (\<lambda>_ _ _ _ _. 0x2000), ash_ioctl = (\<lambda>_ _ r. (if r = ASHMEM_GET_PURGEABLE then 1 else 0, False))\<rparr>"

definition ex_ashmem :: "build_func \<Rightarrow> c_uint \<Rightarrow> PurgeableAshMem" where
  "ex_ashmem f n = \<lparr>m_dataPtr = 0x2000, m_dataLock = False, m_isDataValid = True, m_dataSizeInput = 4,
     m_builder = Some (ex_builder f), m_buildDataCount = n, m_ashmemFd = 5, m_isSupport = True,
     m_isChange = False, m_pin = \<lparr>pin_offset = 0, pin_len = 0\<rparr>\<rparr>"

definition ex_ashw :: "byte list \<Rightarrow> ash_world" where
  "ex_ashw bs = \<lparr>ux = ex_st, builders = Map.empty, regions = [0x2000 \<mapsto> bs], objs = Map.empty, ash_calls = []\<rparr>"

lemma ex_ash_inv: "ash_inv ex_ash (ex_ashmem f n) w"
  by (simp add: ash_inv_def ash_kernel_def interrupted_def ex_ash_def ex_ashmem_def)

lemma ex_ash_ready:
  assumes "keeps_size f" "length bs = 4096"
  shows "base_ready (ash_mem ex_ash) (ex_ashmem f n) (ex_ashw bs) bs"
  using assms by (simp add: base_ready_def memset_ok_def ex_pm_os_def ex_ashmem_def ex_ashw_def ex_builder_def ex_round ex_ash_def)

lemma ex_ash_log:
  "logged (ex_ashmem fill_fives n) = replicate 4 5" "replays (ex_ashmem fill_fives n)"
  by (simp_all add: logged_def replays_def ex_ashmem_def ex_builder_def b_zeros_def fill_fives_def)

text \<open>
  The same promise for \<open>PurgeableAshMem\<close>, whose content the anonymous shared memory driver may
  take: it holds for every driver that reports what it took and believes
  \<open>PURGEABLE_ASHMEM_REBUILD_SUCCESS\<close>.
\<close>

theorem ash_modification_survives:
  assumes "base_ready (ash_mem os) ob w bs" "ash_inv os ob w" "replays ob" "in_sync (ash_gone os) ob w"
    and "single md" "keeps_size (v_Build md)" "v_Build md (logged ob) = (True, c)"
  shows "\<exists>ob1 w1 ob2 w2 w3.
    BeginWrite (ash_mem os) (ash_vtable os) ob w = Some (True, ob1, w1) \<and>
    ModifyContentByBuilder (ash_mem os) (Some md) ob1 w1 = Some (True, ob2, w2) \<and>
    EndWrite (ash_vtable os) ob2 w2 = Some ((), ob2, w3) \<and>
    (\<forall>w4. kernel_may_purge (ash_inv os) (ash_gone os) (m_dataPtr ob2) ob2 w3 w4 \<longrightarrow>
       (\<exists>ob5 w5 bs5. BeginRead (ash_mem os) (ash_vtable os) ob2 w4 = Some (True, ob5, w5) \<and>
          regions w5 (m_dataPtr ob) = Some bs5 \<and> take (unat (m_dataSizeInput ob)) bs5 = c))"
proof -
  have syn: "ash.synced os ob w"
    using assms(4) by (simp add: ash.synced_def ash.need_def in_sync_def)
  show ?thesis
    using ash.modification_survives [OF assms(1-3) syn assms(5-7)]
    by (simp add: kernel_may_purge_def ash.may_purge_def)
qed

theorem ash_modification_survives_witness:
  "\<exists>ob1 w1 ob2 w2 w3.
    BeginWrite (ash_mem ex_ash) (ash_vtable ex_ash) (ex_ashmem fill_fives 0) (ex_ashw ex_bytes) = Some (True, ob1, w1) \<and>
    ModifyContentByBuilder (ash_mem ex_ash) (Some (ex_builder zero_first)) ob1 w1 = Some (True, ob2, w2) \<and>
    EndWrite (ash_vtable ex_ash) ob2 w2 = Some ((), ob2, w3) \<and>
    (\<forall>w4. kernel_may_purge (ash_inv ex_ash) (ash_gone ex_ash) (m_dataPtr ob2) ob2 w3 w4 \<longrightarrow>
       (\<exists>ob5 w5 bs5. BeginRead (ash_mem ex_ash) (ash_vtable ex_ash) ob2 w4 = Some (True, ob5, w5) \<and>
          regions w5 0x2000 = Some bs5 \<and> take 4 bs5 = [0, 5, 5, 5]))"
proof -
  have syn: "in_sync (ash_gone ex_ash) (ex_ashmem fill_fives 0) (ex_ashw ex_bytes)"
    by (simp add: in_sync_def ex_ashmem_def)
  have run: "v_Build (ex_builder zero_first) (logged (ex_ashmem fill_fives 0)) = (True, [0, 5, 5, 5])"
    unfolding ex_ash_log by (simp add: ex_builder_def zero_first_def numeral_eq_Suc)
  have "m_dataPtr (ex_ashmem fill_fives 0) = 0x2000" "unat (m_dataSizeInput (ex_ashmem fill_fives 0)) = 4"
    by (simp_all add: ex_ashmem_def)
  then show ?thesis
    using ash_modification_survives [OF ex_ash_ready [OF ex_keeps(1) ex_bytes_length] ex_ash_inv ex_ash_log(2) syn ex_zero_first run]
    by simp
qed

section \<open>Pins are given back\<close>

text \<open>
  An access of a \<open>PurgeableMem\<close> gives back what it took: after \<open>BeginRead\<close> and \<open>EndRead\<close>, and
  after \<open>BeginWrite\<close> and \<open>EndWrite\<close>, every entry of the page table has the count it had before (the
  present bits of a rebuilt content apart), as long as no count was about to overflow.
\<close>

theorem cpp_access_balanced:
  assumes "base_ready (calm os) ob w bs" "mem_inv os t ob w" "countable_entries t (ptes (ux w))" "replays ob"
  defines "after \<equiv> if m_buildDataCount ob = 0 \<or> mem_gone t ob w then mem_mark t (mem_pins ob w) else mem_pins ob w"
  shows "(\<exists>ob1 w1 w2. BeginRead (calm os) (mem_vtable (calm os)) ob w = Some (True, ob1, w1) \<and>
            EndRead (mem_vtable (calm os)) ob1 w1 = Some ((), ob1, w2) \<and> mem_pins ob w2 = after) \<and>
         (\<exists>ob1 w1 w2. BeginWrite (calm os) (mem_vtable (calm os)) ob w = Some (True, ob1, w1) \<and>
            EndWrite (mem_vtable (calm os)) ob1 w1 = Some ((), ob1, w2) \<and> mem_pins ob w2 = after)"
proof -
  have cnt: "countable_entries t (snd (mem_pins ob w))" using assms(3) by (simp add: mem_pins_def)
  show ?thesis
    unfolding after_def
    using mem.read_access_balanced [OF assms(1,2) cnt assms(4)] mem.write_access_balanced [OF assms(1,2) cnt assms(4)]
    by (auto simp: mem.need_def)
qed

theorem cpp_access_balanced_witness:
  "\<exists>ob1 w1 w2. BeginRead (calm ex_pm_os) (mem_vtable (calm ex_pm_os)) (ex_cpp fill_fives 0) (ex_cppw ex_bytes) =
        Some (True, ob1, w1) \<and> EndRead (mem_vtable (calm ex_pm_os)) ob1 w1 = Some ((), ob1, w2) \<and>
      ptes (ux w2) = touch (\<lambda>v. v OR 1) [0x10010] ex_ptes"
proof -
  have "countable_entries ex_table (ptes (ux (ex_cppw ex_bytes)))"
    using ex_countable by (simp add: ex_cppw_def ex_world_def)
  note cpp_access_balanced [OF ex_cpp_ready [OF ex_keeps(1) ex_bytes_length, of 0] ex_cpp_inv this ex_cpp_log(2)]
  moreover have "m_buildDataCount (ex_cpp fill_fives 0) = 0" by (simp add: ex_cpp_def)
  moreover have "mem_mark ex_table (mem_pins ob (ex_cppw ex_bytes)) = (True, touch (\<lambda>v. v OR 1) [0x10010] ex_ptes)" for ob
    by (simp add: mem_mark_def mem_pins_def ex_cppw_def ex_st_def ex_slots)
  ultimately show ?thesis by (auto simp: mem_pins_def)
qed

text \<open>
  An access of a \<open>PurgeableAshMem\<close> sends as many unpin requests as pin requests, for reading and
  for writing, and also when the builders fail and \<open>Begin\<close> returns false.
\<close>

theorem ash_access_balanced:
  assumes "base_ready (ash_mem os) ob w bs" "ash_inv os ob w"
  defines "before \<equiv> net_pins (m_ashmemFd ob) (m_pin ob) (ash_calls w)"
  shows "(\<exists>r ob1 w1. BeginRead (ash_mem os) (ash_vtable os) ob w = Some (r, ob1, w1) \<and>
            (if r then \<exists>w2. EndRead (ash_vtable os) ob1 w1 = Some ((), ob1, w2) \<and>
                            net_pins (m_ashmemFd ob) (m_pin ob) (ash_calls w2) = before
             else net_pins (m_ashmemFd ob) (m_pin ob) (ash_calls w1) = before)) \<and>
         (\<exists>r ob1 w1. BeginWrite (ash_mem os) (ash_vtable os) ob w = Some (r, ob1, w1) \<and>
            (if r then \<exists>w2. EndWrite (ash_vtable os) ob1 w1 = Some ((), ob1, w2) \<and>
                            net_pins (m_ashmemFd ob) (m_pin ob) (ash_calls w2) = before
             else net_pins (m_ashmemFd ob) (m_pin ob) (ash_calls w1) = before))"
proof -
  have un: "\<not> m_dataLock ob" "m_isDataValid ob" using assms(1) by (simp_all add: base_ready_def)
  have pins: "net_pins (m_ashmemFd ob) (m_pin ob) (ash_calls w') = before" if "ash_pins ob w' = ash_pins ob w" for w'
    using that by (simp add: ash_pins_def before_def)
  have same: "ash_pins (ob\<lparr>m_buildDataCount := n\<rparr>) w' = ash_pins ob w'" for n w' by (simp add: ash_pins_def)
  have step: "if r then ash_down (ash_pins ob w1) = ash_pins ob w else ash_pins ob w1 = ash_pins ob w"
    "\<exists>n. ob1 = ob\<lparr>m_buildDataCount := n\<rparr>" "ash_inv os ob1 w1" if "ash.begin_post os ob w bs r ob1 w1" for r ob1 w1
    using ash.begin_pins [OF that] that by (auto simp: same ash.begin_post_def)
  obtain r ob1 w1 where rd: "BeginRead (ash_mem os) (ash_vtable os) ob w = Some (r, ob1, w1)"
    "ash.begin_post os ob w bs r ob1 w1" using ash.begin_read_post [OF assms(1,2)] by blast
  obtain n where n: "ob1 = ob\<lparr>m_buildDataCount := n\<rparr>" using step(2) [OF rd(2)] by blast
  obtain q ob2 w2 where wr: "BeginWrite (ash_mem os) (ash_vtable os) ob w = Some (q, ob2, w2)"
    "ash.begin_post os ob w bs q ob2 w2" using ash.begin_write_post [OF assms(1,2)] by blast
  obtain k where k: "ob2 = ob\<lparr>m_buildDataCount := k\<rparr>" using step(2) [OF wr(2)] by blast
  have "\<exists>w3. EndRead (ash_vtable os) ob1 w1 = Some ((), ob1, w3) \<and> ash_pins ob w3 = ash_down (ash_pins ob w1)"
    using ash.end_read_spec [OF _ step(3) [OF rd(2)]] un by (auto simp: n same)
  moreover have "\<exists>w3. EndWrite (ash_vtable os) ob2 w2 = Some ((), ob2, w3) \<and> ash_pins ob w3 = ash_down (ash_pins ob w2)"
    using ash.end_write_spec [OF _ step(3) [OF wr(2)]] un by (auto simp: k same)
  ultimately show ?thesis
    using rd(1) wr(1) step(1) [OF rd(2)] step(1) [OF wr(2)] pins by (cases r; cases q) fastforce+
qed

theorem ash_access_balanced_witness:
  "\<exists>r ob1 w1. BeginRead (ash_mem ex_ash) (ash_vtable ex_ash) (ex_ashmem fail_build 0) (ex_ashw ex_bytes) = Some (r, ob1, w1) \<and>
      (if r then \<exists>w2. EndRead (ash_vtable ex_ash) ob1 w1 = Some ((), ob1, w2) \<and>
                      net_pins 5 \<lparr>pin_offset = 0, pin_len = 0\<rparr> (ash_calls w2) = 0
       else net_pins 5 \<lparr>pin_offset = 0, pin_len = 0\<rparr> (ash_calls w1) = 0)"
proof -
  have e: "m_ashmemFd (ex_ashmem fail_build 0) = 5" "m_pin (ex_ashmem fail_build 0) = \<lparr>pin_offset = 0, pin_len = 0\<rparr>"
    "ash_calls (ex_ashw ex_bytes) = []" by (simp_all add: ex_ashmem_def ex_ashw_def)
  show ?thesis
    by (rule ash_access_balanced [OF ex_ash_ready [OF ex_keeps(2) ex_bytes_length, of 0] ex_ash_inv,
          unfolded e net_pins_simps(1), THEN conjunct1])
qed

section \<open>The loop, the mutex, interrupted requests\<close>

text \<open>
  C27. \<open>BeginRead\<close> ends, whatever the virtual methods and the builders answer: if the methods return
  and the region is mapped, it returns after at most four builds (\<open>MAX_BUILD_TRYTIMES + 1\<close>), each
  successful one counted in \<open>buildDataCount_\<close>, and nothing else of the object has changed.
\<close>

theorem begin_read_bounded:
  assumes "methods_return vt (m_dataPtr ob)" "regions w (m_dataPtr ob) \<noteq> None" "\<not> m_dataLock ob"
  shows "\<exists>r j w'. BeginRead os vt ob w = Some (r, ob\<lparr>m_buildDataCount := m_buildDataCount ob + of_nat j\<rparr>, w') \<and> j \<le> 4"
proof (cases "m_isDataValid ob \<and> m_dataPtr ob \<noteq> NULL \<and> m_builder ob \<noteq> None")
  case False
  then show ?thesis
    using assms(3) by (intro exI [of _ False] exI [of _ 0]) (auto simp: BeginRead_def lock_guard_free BeginRead_locked_def)
next
  case True
  let ?ob = "ob\<lparr>m_dataLock := True\<rparr>"
  have m: "methods_return vt (m_dataPtr ?ob)" "keeps_region (m_dataPtr ?ob) w" "m_builder ?ob \<noteq> None"
    using assms True by (simp_all add: keeps_region_def)
  obtain q w1 where w1: "v_Pin vt ?ob w = Some (q, w1)" "keeps_region (m_dataPtr ?ob) w1"
    using methods_returnD(1) [OF m(1,2)] by blast
  obtain r j w2 where w2: "BeginRead_while os vt 0 ?ob w1 = Some (r, count_up j ?ob, w2)" "j \<le> 4"
    "keeps_region (m_dataPtr ?ob) w2"
    using while_bounded [OF m(1) w1(2) m(3), of 0 os] by auto
  obtain q3 w3 where "v_Unpin vt (count_up j ?ob) w2 = Some (q3, w3)"
    using methods_returnD(2) [of vt "count_up j ?ob" w2] m(1) w2(3) by auto
  then have "\<exists>w'. BeginRead_locked os vt ?ob w = Some (r, count_up j ?ob, w')"
    using True w1(1) w2(1) by (auto simp: BeginRead_locked_def)
  then show ?thesis
    using w2(2) assms(3) by (auto simp: BeginRead_def lock_guard_free count_up_def)
qed

lemma ex_ash_kernel: "ash_kernel ex_ash fd"
  by (simp add: ash_kernel_def interrupted_def ex_ash_def)

lemma ex_ash_methods: "methods_return (ash_vtable ex_ash) d"
  by (auto simp: methods_return_def ash_method_defs retry_uninterrupted [OF ex_ash_kernel] keeps_region_def)

theorem begin_read_bounded_witness:
  "\<exists>r j w'. BeginRead ex_pm_os (ash_vtable ex_ash) (ex_ashmem fail_build 7) (ex_ashw ex_bytes) =
     Some (r, ex_ashmem fail_build (7 + of_nat j), w') \<and> j \<le> 4"
proof -
  have "regions (ex_ashw ex_bytes) (m_dataPtr (ex_ashmem fail_build 7)) \<noteq> None" "\<not> m_dataLock (ex_ashmem fail_build 7)"
    by (simp_all add: ex_ashw_def ex_ashmem_def)
  from begin_read_bounded [OF ex_ash_methods this, of ex_pm_os] show ?thesis by (simp add: ex_ashmem_def)
qed

text \<open>
  The mutex is held for exactly the time of a call: every public operation of the class waits
  forever if it is called with the mutex held (it is not recursive), and otherwise has released it
  when it returns, on every path.
\<close>

definition holds_mutex ::
  "('a PurgeableMemBase_scheme \<Rightarrow> 'w \<Rightarrow> ('r \<times> 'a PurgeableMemBase_scheme \<times> 'w) option) \<Rightarrow> bool" where
  "holds_mutex f \<longleftrightarrow>
     (\<forall>ob w. if m_dataLock ob then f ob w = None
             else (\<forall>r ob' w'. f ob w = Some (r, ob', w') \<longrightarrow> \<not> m_dataLock ob'))"

lemma lock_guard_holds: "holds_mutex (lock_guard body)"
  by (auto simp: holds_mutex_def lock_guard_held dest: lock_guard_releases)

theorem cpp_mutex_discipline:
  "holds_mutex (BeginRead os vt) \<and> holds_mutex (BeginWrite os vt) \<and> holds_mutex (EndRead vt) \<and>
   holds_mutex (EndWrite vt) \<and> holds_mutex (ModifyContentByBuilder os (Some md)) \<and>
   holds_mutex (SetDataValid v) \<and> holds_mutex IsDataValid \<and> holds_mutex (Base_SetRebuildSuccessCallback cb) \<and>
   holds_mutex GetContent \<and> holds_mutex GetContentSize"
proof -
  have "holds_mutex (ModifyContentByBuilder os (Some md))"
    by (auto simp: holds_mutex_def ModifyContentByBuilder_def lock_guard_held dest: lock_guard_releases)
  then show ?thesis
    unfolding BeginRead_def BeginWrite_def EndRead_def EndWrite_def SetDataValid_def IsDataValid_def
      Base_SetRebuildSuccessCallback_def GetContent_def GetContentSize_def
    by (intro conjI lock_guard_holds) assumption
qed

text \<open>
  \<open>TEMP_FAILURE_RETRY\<close> returns: if the request is not interrupted any more after \<open>k\<close> attempts, it
  returns the first answer that was not an interruption, having asked at most \<open>k + 1\<close> times.
\<close>

theorem retry_returns:
  assumes "\<not> interrupted (ash_ioctl os (ash_calls w @ replicate k (Ash_Ioctl fd req)) fd req)"
  shows "\<exists>j \<le> k. retry_ioctl os fd req w =
           Some (fst (ash_ioctl os (ash_calls w @ replicate j (Ash_Ioctl fd req)) fd req),
                 w\<lparr>ash_calls := ash_calls w @ replicate (Suc j) (Ash_Ioctl fd req)\<rparr>) \<and>
         \<not> interrupted (ash_ioctl os (ash_calls w @ replicate j (Ash_Ioctl fd req)) fd req)"
  using retry_ends [OF assms] by blast

definition ex_busy :: ash_os where
  "ex_busy = ex_ash\<lparr>ash_ioctl := \<lambda>cs _ _. if length cs < 2 then (- 1, True) else (7, False)\<rparr>"

theorem retry_returns_witness:
  "\<exists>j \<le> 2. retry_ioctl ex_busy 5 ASHMEM_GET_PURGEABLE (ex_ashw []) =
     Some (7, (ex_ashw [])\<lparr>ash_calls := replicate (Suc j) (Ash_Ioctl 5 ASHMEM_GET_PURGEABLE)\<rparr>)"
proof -
  have e: "ash_ioctl ex_busy (ash_calls (ex_ashw []) @ replicate j c) fd req = (if j < 2 then (- 1, True) else (7, False))" for j c fd req
    by (simp add: ex_busy_def ex_ashw_def)
  from retry_returns [of ex_busy "ex_ashw []" 2 5 ASHMEM_GET_PURGEABLE] show ?thesis
    unfolding e by (auto simp: interrupted_def ex_ashw_def split: if_splits)
qed

end
