(* ===== verification/Cpp_Reach.thy ===== *)
theory Cpp_Reach
  imports Cpp_Props
begin

text \<open>
  Any use of a C++ object: accesses, modifications and purges by the kernel in any order. The step
  relation has one rule per operation; the invariant is proved once in the contract of the base class.
\<close>

section \<open>The step relation\<close>

text \<open>
  The parameters \<open>purge\<close> and \<open>gone\<close> say what the kernel may do to the region and when the content
  counts as taken. Modifications happen while the content is there (inside an access) and succeed.
\<close>

inductive cpp_step ::
  "pm_os \<Rightarrow> ('a PurgeableMemBase_scheme, 'b world_scheme) vtable \<Rightarrow>
   ('a PurgeableMemBase_scheme \<Rightarrow> 'b world_scheme \<Rightarrow> bool) \<Rightarrow>
   ('a PurgeableMemBase_scheme \<Rightarrow> 'b world_scheme \<Rightarrow> 'b world_scheme \<Rightarrow> bool) \<Rightarrow>
   'a PurgeableMemBase_scheme \<times> 'b world_scheme \<Rightarrow> 'a PurgeableMemBase_scheme \<times> 'b world_scheme \<Rightarrow> bool"
  for os vt gone purge where
  step_begin_read: "BeginRead os vt ob w = Some (r, ob', w') \<Longrightarrow> cpp_step os vt gone purge (ob, w) (ob', w')"
| step_end_read: "EndRead vt ob w = Some ((), ob', w') \<Longrightarrow> cpp_step os vt gone purge (ob, w) (ob', w')"
| step_begin_write: "BeginWrite os vt ob w = Some (r, ob', w') \<Longrightarrow> cpp_step os vt gone purge (ob, w) (ob', w')"
| step_end_write: "EndWrite vt ob w = Some ((), ob', w') \<Longrightarrow> cpp_step os vt gone purge (ob, w) (ob', w')"
| step_modify: "m_buildDataCount ob \<noteq> 0 \<Longrightarrow> \<not> gone ob w \<Longrightarrow> single md \<Longrightarrow> keeps_size (v_Build md) \<Longrightarrow>
    ModifyContentByBuilder os (Some md) ob w = Some (True, ob', w') \<Longrightarrow> cpp_step os vt gone purge (ob, w) (ob', w')"
| step_kernel: "purge ob w w' \<Longrightarrow> cpp_step os vt gone purge (ob, w) (ob, w')"

inductive_cases cpp_stepE: "cpp_step os vt gone purge (ob, w) y"

text \<open>An object that can be used: set up, in order for its class, with builders that succeed and agree with the content.\<close>

definition in_order ::
  "pm_os \<Rightarrow> ('a PurgeableMemBase_scheme \<Rightarrow> 'b world_scheme \<Rightarrow> bool) \<Rightarrow>
   ('a PurgeableMemBase_scheme \<Rightarrow> 'b world_scheme \<Rightarrow> bool) \<Rightarrow> 'a PurgeableMemBase_scheme \<Rightarrow> 'b world_scheme \<Rightarrow> bool" where
  "in_order os ok gone ob w \<longleftrightarrow> (\<exists>bs. base_ready os ob w bs) \<and> ok ob w \<and> replays ob \<and> in_sync gone ob w"

section \<open>The invariant\<close>

context purgeable_class
begin

lemma in_sync_synced: "in_sync gone ob w = synced ob w"
  by (simp add: in_sync_def synced_def need_def)

lemma begin_in_order:
  assumes "in_order os inv gone ob w" "base_ready os ob w bs" "begin_post ob w bs r ob' w'"
  shows "r \<and> in_order os inv gone ob' w' \<and> logged ob' = logged ob \<and>
    (\<exists>bs'. regions w' (m_dataPtr ob) = Some bs' \<and> take (unat (m_dataSizeInput ob)) bs' = logged ob)"
proof -
  obtain n where n: "ob' = ob\<lparr>m_buildDataCount := n\<rparr>" and i: "inv ob' w'" using assms(3) by (auto simp: begin_post_def)
  have o: "synced ob w" "replays ob" using assms(1) by (simp_all add: in_order_def in_sync_synced)
  obtain bs' where b: "r" "base_ready os ob' w' bs'" "take (unat (m_dataSizeInput ob)) bs' = logged ob"
    using begin_content [OF assms(2,3) o] by blast
  have "regions w' (m_dataPtr ob') = Some bs'" using b(2) by (simp add: base_ready_def)
  then show ?thesis using b i o by (auto simp: n in_order_def in_sync_def)
qed

lemma end_in_order:
  assumes "in_order os inv gone ob w" "inv ob w'" "regions w' = regions w" "gone ob w' = gone ob w"
  shows "in_order os inv gone ob w'"
  using assms by (auto simp: in_order_def in_sync_def base_ready_def)

lemma modify_in_order:
  assumes o: "in_order os inv gone ob w" and pres: "m_buildDataCount ob \<noteq> 0" "\<not> gone ob w"
    and md: "single md" "keeps_size (v_Build md)" "ModifyContentByBuilder os (Some md) ob w = Some (True, ob', w')"
  shows "in_order os inv gone ob' w'"
proof -
  obtain bs where bs: "base_ready os ob w bs" "inv ob w" "replays ob" "take (unat (m_dataSizeInput ob)) bs = logged ob"
    using o pres by (auto simp: in_order_def in_sync_def base_ready_def)
  obtain ok c where run: "v_Build md (logged ob) = (ok, c)" by fastforce
  have "\<not> m_dataLock ob" "regions w (m_dataPtr ob) = Some bs" using bs(1) by (simp_all add: base_ready_def)
  from ModifyContent_effect [OF this, of md ok c os] run bs(4) md(3) have ok: "ok" by (auto split: if_splits)
  with run have "v_Build md (logged ob) = (True, c)" by simp
  from modify_spec [OF bs md(1,2) this] md(3) obtain bs' where
    "inv ob' w'" "base_ready os ob' w' bs'" "replays ob'" "logged ob' = c" "take (unat (m_dataSizeInput ob)) bs' = c"
    "ob' = append_log md ob" by auto
  then show ?thesis by (auto simp: in_order_def in_sync_def base_ready_def)
qed

lemma kernel_in_order:
  assumes "in_order os inv gone ob w" "may_purge ob w w'" "\<not> gone ob w' \<Longrightarrow> \<not> gone ob w"
  shows "in_order os inv gone ob w'"
proof -
  obtain bs where b: "base_ready os ob w bs" using assms(1) by (auto simp: in_order_def)
  then have r0: "regions w (m_dataPtr ob) = Some bs" by (simp add: base_ready_def)
  then obtain bs' where r: "base_ready os ob w bs" "regions w (m_dataPtr ob) = Some bs"
    "regions w' (m_dataPtr ob) = Some bs'" "length bs' = length bs" "inv ob w'" "gone ob w' \<or> bs' = bs"
    using assms(2) b by (auto simp: may_purge_def)
  have "base_ready os ob w' bs'" using r(1,3,4) by (simp add: base_ready_def)
  then show ?thesis using assms(1,3) r by (auto simp: in_order_def in_sync_def)
qed

lemma step_in_order:
  assumes step: "cpp_step os vt gone (\<lambda>ob w w'. may_purge ob w w' \<and> (gone ob w \<longrightarrow> gone ob w')) x y"
    and o: "in_order os inv gone (fst x) (snd x)"
  shows "in_order os inv gone (fst y) (snd y)"
  using step o
proof (cases rule: cpp_step.cases)
  case (step_begin_read ob w r ob' w')
  then obtain bs where "base_ready os ob w bs" "inv ob w" using o by (auto simp: in_order_def)
  then show ?thesis using step_begin_read begin_read_post [of ob w bs] begin_in_order o by fastforce
next
  case (step_end_read ob w ob' w')
  then have "\<not> m_dataLock ob" "inv ob w" "m_isDataValid ob" using o by (auto simp: in_order_def base_ready_def)
  then show ?thesis using step_end_read end_read_spec [of ob w] end_in_order o by auto
next
  case (step_begin_write ob w r ob' w')
  then obtain bs where "base_ready os ob w bs" "inv ob w" using o by (auto simp: in_order_def)
  then show ?thesis using step_begin_write begin_write_post [of ob w bs] begin_in_order o by fastforce
next
  case (step_end_write ob w ob' w')
  then have "\<not> m_dataLock ob" "inv ob w" using o by (auto simp: in_order_def base_ready_def)
  then show ?thesis using step_end_write end_write_spec [of ob w] end_in_order o by auto
next
  case (step_modify ob w md ob' w')
  then show ?thesis using modify_in_order o by simp
next
  case (step_kernel ob w w')
  then show ?thesis using kernel_in_order o by auto
qed

lemma reachable_in_order:
  assumes "(cpp_step os vt gone (\<lambda>ob w w'. may_purge ob w w' \<and> (gone ob w \<longrightarrow> gone ob w')))\<^sup>*\<^sup>* x y"
    "in_order os inv gone (fst x) (snd x)"
  shows "in_order os inv gone (fst y) (snd y)"
  using assms by (induction rule: rtranclp_induct) (auto dest: step_in_order)

lemma in_order_reads:
  assumes "in_order os inv gone ob w"
  shows "\<exists>ob' w' bs. BeginRead os vt ob w = Some (True, ob', w') \<and> regions w' (m_dataPtr ob) = Some bs \<and>
    take (unat (m_dataSizeInput ob)) bs = logged ob"
proof -
  obtain bs where b: "base_ready os ob w bs" "inv ob w" using assms by (auto simp: in_order_def)
  obtain r ob' w' where "BeginRead os vt ob w = Some (r, ob', w')" "begin_post ob w bs r ob' w'"
    using begin_read_post [OF b] by blast
  then show ?thesis using begin_in_order [OF assms b(1)] by fastforce
qed

end

section \<open>Operations are defined and keep objects well-formed\<close>

text \<open>
  Well-formed: set up, mutex free, data mapped with the size of the object, in order for its class.
  Nothing is assumed about the content or about what the builders answer.
\<close>

definition well_formed ::
  "pm_os \<Rightarrow> ('a PurgeableMemBase_scheme \<Rightarrow> 'b world_scheme \<Rightarrow> bool) \<Rightarrow> 'a PurgeableMemBase_scheme \<Rightarrow> 'b world_scheme \<Rightarrow> bool" where
  "well_formed os ok ob w \<longleftrightarrow> (\<exists>bs. base_ready os ob w bs) \<and> ok ob w"

definition gives_well_formed ::
  "pm_os \<Rightarrow> ('a PurgeableMemBase_scheme \<Rightarrow> 'b world_scheme \<Rightarrow> bool) \<Rightarrow>
   ('r \<times> 'a PurgeableMemBase_scheme \<times> 'b world_scheme) option \<Rightarrow> bool" where
  "gives_well_formed os ok res \<longleftrightarrow> (\<exists>r ob' w'. res = Some (r, ob', w') \<and> well_formed os ok ob' w')"

context purgeable_class
begin

lemma begin_well:
  assumes "base_ready os ob w bs" "begin_post ob w bs r ob' w'"
  shows "well_formed os inv ob' w'"
proof -
  obtain n where n: "ob' = ob\<lparr>m_buildDataCount := n\<rparr>" and i: "inv ob' w'" using assms(2) by (auto simp: begin_post_def)
  have "regions w' = regions w \<or> regions w' = (regions w)(m_dataPtr ob \<mapsto> with_content ob (logged ob) bs)"
    using assms(2) by (auto simp: begin_post_def split: if_splits)
  then have "\<exists>bs'. regions w' (m_dataPtr ob) = Some bs' \<and> length bs' = length bs"
    using assms(1) length_with_logged [OF assms(1)] by (auto simp: base_ready_def)
  then show ?thesis using i assms(1) by (auto simp: well_formed_def n base_ready_def)
qed

lemma operations_well:
  assumes "well_formed os inv ob w" "single md" "keeps_size (v_Build md)"
  shows "gives_well_formed os inv (BeginRead os vt ob w)" "gives_well_formed os inv (BeginWrite os vt ob w)"
    "gives_well_formed os inv (EndRead vt ob w)" "gives_well_formed os inv (EndWrite vt ob w)"
    "gives_well_formed os inv (ModifyContentByBuilder os (Some md) ob w)"
proof -
  obtain bs where b: "base_ready os ob w bs" "inv ob w" using assms(1) by (auto simp: well_formed_def)
  show "gives_well_formed os inv (BeginRead os vt ob w)" "gives_well_formed os inv (BeginWrite os vt ob w)"
    using begin_read_post [OF b] begin_write_post [OF b] begin_well [OF b(1)] by (auto simp: gives_well_formed_def)
  have u: "\<not> m_dataLock ob" "m_isDataValid ob" "regions w (m_dataPtr ob) = Some bs" "unat (m_dataSizeInput ob) \<le> length bs"
    using b(1) by (simp_all add: base_ready_def)
  have "base_ready os ob w' bs" if "regions w' = regions w" for w' using b(1) that by (simp add: base_ready_def)
  then show "gives_well_formed os inv (EndRead vt ob w)" "gives_well_formed os inv (EndWrite vt ob w)"
    using end_read_spec [OF u(1) b(2) u(2)] end_write_spec [OF u(1) b(2)]
    by (auto simp: gives_well_formed_def well_formed_def)
  obtain ok c where run: "v_Build md (take (unat (m_dataSizeInput ob)) bs) = (ok, c)" by fastforce
  have "length (snd (v_Build md (take (unat (m_dataSizeInput ob)) bs))) = length (take (unat (m_dataSizeInput ob)) bs)"
    using assms(3) unfolding keeps_size_def by blast
  then have len: "length (with_content ob c bs) = length bs" using run u(4) by (simp add: with_content_def)
  let ?w = "store_data os (m_dataPtr ob) (with_content ob c bs) w"
  have r: "base_ready os ob ?w (with_content ob c bs)" by (rule base_ready_rebuilt [OF b(1) store_data_regions len])
  have i: "inv ob ?w" "inv (append_log md ob) ?w" using store [OF b(2) u(3) len] by (simp_all add: append_log_def)
  show "gives_well_formed os inv (ModifyContentByBuilder os (Some md) ob w)"
    using ModifyContent_effect [OF u(1,3) run, of os] r i base_ready_append [OF r assms(2,3)]
    by (auto simp: gives_well_formed_def well_formed_def)
qed

end

text \<open>
  C11. None of the five operations on the content of a C++ object (\<open>BeginRead\<close>, \<open>BeginWrite\<close>, \<open>EndRead\<close>,
  \<open>EndWrite\<close>, \<open>ModifyContentByBuilder\<close>) goes wrong on a well-formed object, whose data is valid: for
  \<open>PurgeableMem\<close> and for \<open>PurgeableAshMem\<close> each returns (it does not wait for a mutex nobody releases,
  reads no unmapped memory, loops not forever), whatever the builders answer, and leaves a well-formed
  object. \<open>SetDataValid\<close>, \<open>ResizeData\<close> and \<open>ChangeAshmemData\<close> are not covered.
\<close>

theorem cpp_operations_well_formed:
  assumes mem: "well_formed (calm os) (mem_inv os t) ob w" and ash: "well_formed (ash_mem aos) (ash_inv aos) ob2 w2"
    and md: "single md" "keeps_size (v_Build md)"
  shows "gives_well_formed (calm os) (mem_inv os t) (BeginRead (calm os) (mem_vtable (calm os)) ob w) \<and>
     gives_well_formed (calm os) (mem_inv os t) (BeginWrite (calm os) (mem_vtable (calm os)) ob w) \<and>
     gives_well_formed (calm os) (mem_inv os t) (EndRead (mem_vtable (calm os)) ob w) \<and>
     gives_well_formed (calm os) (mem_inv os t) (EndWrite (mem_vtable (calm os)) ob w) \<and>
     gives_well_formed (calm os) (mem_inv os t) (ModifyContentByBuilder (calm os) (Some md) ob w) \<and>
     gives_well_formed (ash_mem aos) (ash_inv aos) (BeginRead (ash_mem aos) (ash_vtable aos) ob2 w2) \<and>
     gives_well_formed (ash_mem aos) (ash_inv aos) (BeginWrite (ash_mem aos) (ash_vtable aos) ob2 w2) \<and>
     gives_well_formed (ash_mem aos) (ash_inv aos) (EndRead (ash_vtable aos) ob2 w2) \<and>
     gives_well_formed (ash_mem aos) (ash_inv aos) (EndWrite (ash_vtable aos) ob2 w2) \<and>
     gives_well_formed (ash_mem aos) (ash_inv aos) (ModifyContentByBuilder (ash_mem aos) (Some md) ob2 w2)"
  by (intro conjI mem.operations_well [OF mem md] ash.operations_well [OF ash md])

theorem cpp_operations_well_formed_witness:
  "gives_well_formed (calm ex_pm_os) (mem_inv ex_pm_os ex_table)
     (BeginRead (calm ex_pm_os) (mem_vtable (calm ex_pm_os)) (ex_cpp fail_build 0) (ex_cppw ex_bytes))"
proof -
  have "well_formed (calm ex_pm_os) (mem_inv ex_pm_os ex_table) (ex_cpp fail_build 0) (ex_cppw ex_bytes)"
    "well_formed (ash_mem ex_ash) (ash_inv ex_ash) (ex_ashmem fail_build 0) (ex_ashw ex_bytes)"
    using ex_cpp_ready [OF ex_keeps(2) ex_bytes_length] ex_cpp_inv ex_ash_ready [OF ex_keeps(2) ex_bytes_length] ex_ash_inv
    unfolding well_formed_def by blast+
  from cpp_operations_well_formed [OF this ex_zero_first] show ?thesis by blast
qed

section \<open>Any use keeps the content\<close>

definition cpp_kernel_purges ::
  "('a PurgeableMemBase_scheme \<Rightarrow> 'b world_scheme \<Rightarrow> bool) \<Rightarrow> ('a PurgeableMemBase_scheme \<Rightarrow> 'b world_scheme \<Rightarrow> bool) \<Rightarrow>
   'a PurgeableMemBase_scheme \<Rightarrow> 'b world_scheme \<Rightarrow> 'b world_scheme \<Rightarrow> bool" where
  "cpp_kernel_purges ok gone ob w w' \<longleftrightarrow>
     kernel_may_purge ok gone (m_dataPtr ob) ob w w' \<and> (gone ob w \<longrightarrow> gone ob w')"

lemma mem_purges:
  "cpp_kernel_purges (mem_inv os t) (mem_gone t) =
     (\<lambda>ob w w'. mem.may_purge os t ob w w' \<and> (mem_gone t ob w \<longrightarrow> mem_gone t ob w'))"
  by (intro ext) (simp add: cpp_kernel_purges_def kernel_may_purge_def mem.may_purge_def)

lemma ash_purges:
  "cpp_kernel_purges (ash_inv os) (ash_gone os) =
     (\<lambda>ob w w'. ash.may_purge os ob w w' \<and> (ash_gone os ob w \<longrightarrow> ash_gone os ob w'))"
  by (intro ext) (simp add: cpp_kernel_purges_def kernel_may_purge_def ash.may_purge_def)

text \<open>Two example objects in order.\<close>

lemma ex_cpp_in_order:
  "in_order (calm ex_pm_os) (mem_inv ex_pm_os ex_table) (mem_gone ex_table) (ex_cpp fill_fives 0) (ex_cppw ex_bytes)"
  using ex_cpp_ready [OF ex_keeps(1) ex_bytes_length, of 0] ex_cpp_inv ex_cpp_log(2)
  by (auto simp: in_order_def in_sync_def) (simp add: ex_cpp_def)

lemma ex_ash_in_order:
  "in_order (ash_mem ex_ash) (ash_inv ex_ash) (ash_gone ex_ash) (ex_ashmem fill_fives 0) (ex_ashw ex_bytes)"
  using ex_ash_ready [OF ex_keeps(1) ex_bytes_length, of 0] ex_ash_inv ex_ash_log(2)
  by (auto simp: in_order_def in_sync_def) (simp add: ex_ashmem_def)

text \<open>
  Whatever a program does with a \<open>PurgeableMem\<close> (any sequence of accesses and of modifications
  made while the content is there) and whatever the kernel purges in between: the object stays in
  order, its mutex is free between the calls, and \<open>BeginRead\<close> returns true with exactly the content
  the builders describe.
\<close>

theorem mem_any_use_keeps_content:
  assumes "in_order (calm os) (mem_inv os t) (mem_gone t) ob w"
    and "(cpp_step (calm os) (mem_vtable (calm os)) (mem_gone t) (cpp_kernel_purges (mem_inv os t) (mem_gone t)))\<^sup>*\<^sup>* (ob, w) (ob', w')"
  shows "in_order (calm os) (mem_inv os t) (mem_gone t) ob' w' \<and>
    (\<exists>ob1 w1 bs. BeginRead (calm os) (mem_vtable (calm os)) ob' w' = Some (True, ob1, w1) \<and>
       regions w1 (m_dataPtr ob') = Some bs \<and> take (unat (m_dataSizeInput ob')) bs = logged ob')"
proof -
  have "in_order (calm os) (mem_inv os t) (mem_gone t) ob' w'"
    using mem.reachable_in_order [OF assms(2) [unfolded mem_purges]] assms(1) by simp
  then show ?thesis using mem.in_order_reads by blast
qed

theorem mem_any_use_keeps_content_witness:
  "\<exists>r ob1 w1 ob2 w2 bs. BeginWrite (calm ex_pm_os) (mem_vtable (calm ex_pm_os)) (ex_cpp fill_fives 0) (ex_cppw ex_bytes) = Some (r, ob1, w1) \<and>
     BeginRead (calm ex_pm_os) (mem_vtable (calm ex_pm_os)) ob1 w1 = Some (True, ob2, w2) \<and>
     regions w2 (m_dataPtr ob1) = Some bs \<and> take (unat (m_dataSizeInput ob1)) bs = logged ob1"
proof -
  note rdy = ex_cpp_ready [OF ex_keeps(1) ex_bytes_length, of 0]
  obtain r ob1 w1 where b: "BeginWrite (calm ex_pm_os) (mem_vtable (calm ex_pm_os)) (ex_cpp fill_fives 0) (ex_cppw ex_bytes) = Some (r, ob1, w1)"
    using mem.begin_write_post [OF rdy ex_cpp_inv] by blast
  then show ?thesis
    using mem_any_use_keeps_content [OF ex_cpp_in_order r_into_rtranclp [of "cpp_step _ _ _ _", OF step_begin_write [OF b]]] by blast
qed

text \<open>
  Whatever a program does with a \<open>PurgeableAshMem\<close> (any sequence of accesses and of modifications
  made while the content is there) and whatever the driver purges in between: the object stays in
  order, and \<open>BeginRead\<close> returns true with exactly the content the builders describe, for every
  driver that reports what it took and believes \<open>PURGEABLE_ASHMEM_REBUILD_SUCCESS\<close>.
\<close>

theorem ash_any_use_keeps_content:
  assumes "in_order (ash_mem os) (ash_inv os) (ash_gone os) ob w"
    and "(cpp_step (ash_mem os) (ash_vtable os) (ash_gone os) (cpp_kernel_purges (ash_inv os) (ash_gone os)))\<^sup>*\<^sup>* (ob, w) (ob', w')"
  shows "in_order (ash_mem os) (ash_inv os) (ash_gone os) ob' w' \<and>
    (\<exists>ob1 w1 bs. BeginRead (ash_mem os) (ash_vtable os) ob' w' = Some (True, ob1, w1) \<and>
       regions w1 (m_dataPtr ob') = Some bs \<and> take (unat (m_dataSizeInput ob')) bs = logged ob')"
proof -
  have "in_order (ash_mem os) (ash_inv os) (ash_gone os) ob' w'"
    using ash.reachable_in_order [OF assms(2) [unfolded ash_purges]] assms(1) by simp
  then show ?thesis using ash.in_order_reads by blast
qed

theorem ash_any_use_keeps_content_witness:
  "\<exists>r ob1 w1 ob2 w2 bs. BeginWrite (ash_mem ex_ash) (ash_vtable ex_ash) (ex_ashmem fill_fives 0) (ex_ashw ex_bytes) = Some (r, ob1, w1) \<and>
     BeginRead (ash_mem ex_ash) (ash_vtable ex_ash) ob1 w1 = Some (True, ob2, w2) \<and>
     regions w2 (m_dataPtr ob1) = Some bs \<and> take (unat (m_dataSizeInput ob1)) bs = logged ob1"
proof -
  note rdy = ex_ash_ready [OF ex_keeps(1) ex_bytes_length, of 0]
  obtain r ob1 w1 where b: "BeginWrite (ash_mem ex_ash) (ash_vtable ex_ash) (ex_ashmem fill_fives 0) (ex_ashw ex_bytes) = Some (r, ob1, w1)"
    using ash.begin_write_post [OF rdy ex_ash_inv] by blast
  then show ?thesis
    using ash_any_use_keeps_content [OF ex_ash_in_order r_into_rtranclp [of "cpp_step _ _ _ _", OF step_begin_write [OF b]]] by blast
qed

end
