(* ===== verification/Cpp_Refine.thy ===== *)
theory Cpp_Refine
  imports Cpp_Reach Buffer_Spec
begin

text \<open>
  The C++ classes refine the abstract buffer: a program that uses a \<open>PurgeableMem\<close> or a
  \<open>PurgeableAshMem\<close> sees what it would see of a buffer that is never purged. What keeps the content in
  place while an access is open are its pins: the kernel takes pages whose reference count is zero, the
  driver regions whose pin requests are all undone, and nothing else.
\<close>

section \<open>What the user sees\<close>

definition cpp_shown :: "'a PurgeableMemBase_scheme \<Rightarrow> 'b world_scheme \<Rightarrow> byte list" where
  "cpp_shown ob w =
     (case regions w (m_dataPtr ob) of None \<Rightarrow> [] | Some bs \<Rightarrow> take (unat (m_dataSizeInput ob)) bs)"

text \<open>
  The steps with their events, on the object, the memory, and the numbers \<open>rd\<close> and \<open>wr\<close> of read and
  write accesses that are open. An access that begins shows the content, and so does every look inside
  an access; a modification inside a write access is the builder's function, or a failure that may have
  changed the content; ends of accesses, accesses that are refused and purges by the kernel show
  nothing. An access begins only while fewer than \<open>2 ^ 62\<close> are open.
\<close>

inductive cpp_event ::
  "pm_os \<Rightarrow> ('a PurgeableMemBase_scheme, 'b world_scheme) vtable \<Rightarrow>
   ('a PurgeableMemBase_scheme \<Rightarrow> 'b world_scheme \<Rightarrow> 'b world_scheme \<Rightarrow> bool) \<Rightarrow>
   'a PurgeableMemBase_scheme \<times> 'b world_scheme \<times> nat \<times> nat \<Rightarrow> buf_event list \<Rightarrow>
   'a PurgeableMemBase_scheme \<times> 'b world_scheme \<times> nat \<times> nat \<Rightarrow> bool"
  for os vt reclaim where
  event_begin_read: "BeginRead os vt ob w = Some (r, ob', w') \<Longrightarrow> rd + wr < 2 ^ 62 \<Longrightarrow>
    cpp_event os vt reclaim (ob, w, rd, wr) (if r then [Observe (cpp_shown ob' w')] else [])
      (ob', w', if r then Suc rd else rd, wr)"
| event_end_read: "EndRead vt ob w = Some ((), ob', w') \<Longrightarrow>
    cpp_event os vt reclaim (ob, w, Suc rd, wr) [] (ob', w', rd, wr)"
| event_begin_write: "BeginWrite os vt ob w = Some (r, ob', w') \<Longrightarrow> rd + wr < 2 ^ 62 \<Longrightarrow>
    cpp_event os vt reclaim (ob, w, rd, wr) (if r then [Observe (cpp_shown ob' w')] else [])
      (ob', w', rd, if r then Suc wr else wr)"
| event_end_write: "EndWrite vt ob w = Some ((), ob', w') \<Longrightarrow>
    cpp_event os vt reclaim (ob, w, rd, Suc wr) [] (ob', w', rd, wr)"
| event_look: "0 < rd + wr \<Longrightarrow> cpp_event os vt reclaim (ob, w, rd, wr) [Observe (cpp_shown ob w)] (ob, w, rd, wr)"
| event_modify: "0 < wr \<Longrightarrow> single md \<Longrightarrow> keeps_size (v_Build md) \<Longrightarrow>
    ModifyContentByBuilder os (Some md) ob w = Some (r, ob', w') \<Longrightarrow>
    cpp_event os vt reclaim (ob, w, rd, wr) [if r then Modify (v_Build md) else Failed (cpp_shown ob w) (cpp_shown ob' w')]
      (ob', w', rd, wr)"
| event_kernel: "reclaim ob w w' \<Longrightarrow> cpp_event os vt reclaim (ob, w, rd, wr) [] (ob, w', rd, wr)"

section \<open>The simulation, once for every derived class\<close>

text \<open>
  What a derived class promises about its pins: \<open>held p k\<close> is kept in step by pinning, unpinning and
  storing, and a reclaim, which takes content that nobody holds as any purge does, leaves content alone
  that somebody holds.
\<close>

locale guarded_class = purgeable_class vt os inv gone pins pin_up pin_down mark touching
  for vt :: "('a PurgeableMemBase_scheme, 'b world_scheme) vtable" and os inv gone
    and pins :: "'a PurgeableMemBase_scheme \<Rightarrow> 'b world_scheme \<Rightarrow> 'p" and pin_up pin_down mark touching +
  fixes held :: "'p \<Rightarrow> nat \<Rightarrow> bool"
    and reclaim :: "'a PurgeableMemBase_scheme \<Rightarrow> 'b world_scheme \<Rightarrow> 'b world_scheme \<Rightarrow> bool"
  assumes held_up: "held p k \<Longrightarrow> k < 2 ^ 62 \<Longrightarrow> held (pin_up p) (Suc k)"
    and held_down: "held p (Suc k) \<Longrightarrow> Suc k \<le> 2 ^ 62 \<Longrightarrow> held (pin_down p) k"
    and held_mark: "held p k \<Longrightarrow> held (mark p) k"
    and reclaim_purges: "inv ob w \<Longrightarrow> reclaim ob w w' \<Longrightarrow> may_purge ob w w' \<and> (gone ob w \<longrightarrow> gone ob w')"
    and reclaim_holds: "inv ob w \<Longrightarrow> reclaim ob w w' \<Longrightarrow> held (pins ob w) k \<Longrightarrow> held (pins ob w') k"
    and reclaim_held: "inv ob w \<Longrightarrow> reclaim ob w w' \<Longrightarrow> held (pins ob w) (Suc k) \<Longrightarrow>
      gone ob w' = gone ob w \<and> regions w' (m_dataPtr ob) = regions w (m_dataPtr ob)"
begin

text \<open>An object with \<open>k\<close> open accesses: all of them hold it, and see the content of the builders.\<close>

definition guarded :: "nat \<Rightarrow> 'a PurgeableMemBase_scheme \<Rightarrow> 'b world_scheme \<Rightarrow> bool" where
  "guarded k ob w \<longleftrightarrow> in_order os inv gone ob w \<and> held (pins ob w) k \<and> k \<le> 2 ^ 62 \<and>
     (0 < k \<longrightarrow> \<not> gone ob w \<and> cpp_shown ob w = logged ob)"

lemma begin_guarded:
  assumes g: "guarded k ob w" "k < 2 ^ 62" and b: "base_ready os ob w bs" "begin_post ob w bs r ob' w'"
  shows "r \<and> guarded (Suc k) ob' w' \<and> cpp_shown ob' w' = logged ob \<and> logged ob' = logged ob"
proof -
  have o: "in_order os inv gone ob w" "held (pins ob w) k" "synced ob w" "replays ob"
    using g(1) by (simp_all add: guarded_def in_order_def in_sync_synced)
  obtain n where n: "ob' = ob\<lparr>m_buildDataCount := n\<rparr>" using b(2) by (auto simp: begin_post_def)
  from begin_in_order [OF o(1) b] obtain bs' where
    r: "r" "in_order os inv gone ob' w'" "logged ob' = logged ob"
    "regions w' (m_dataPtr ob) = Some bs'" "take (unat (m_dataSizeInput ob)) bs' = logged ob" by blast
  have "\<not> gone ob' w'" using begin_content [OF b o(3,4)] by blast
  moreover have "pins ob' w' = pin_up (pins ob w) \<or> pins ob' w' = mark (pin_up (pins ob w))"
    using b(2) o(4) by (auto simp: begin_post_def n split: if_splits)
  then have "held (pins ob' w') (Suc k)" using held_up [OF o(2) g(2)] held_mark by auto
  moreover have "cpp_shown ob' w' = logged ob" using r(4,5) by (simp add: n cpp_shown_def)
  ultimately show ?thesis using r g(2) by (simp add: guarded_def)
qed

text \<open>Ends of accesses leave the content alone.\<close>

lemma end_guarded:
  assumes g: "guarded (Suc k) ob w"
    and e: "EndRead vt ob w = Some ((), ob', w') \<or> EndWrite vt ob w = Some ((), ob', w')"
  shows "guarded k ob' w' \<and> ob' = ob"
proof -
  have o: "in_order os inv gone ob w" "held (pins ob w) (Suc k)" "Suc k \<le> 2 ^ 62" "\<not> gone ob w" "cpp_shown ob w = logged ob"
    using g by (simp_all add: guarded_def)
  have u: "\<not> m_dataLock ob" "inv ob w" "m_isDataValid ob" using o(1) by (auto simp: in_order_def base_ready_def)
  have w': "ob' = ob" "inv ob w'" "regions w' = regions w" "gone ob w' = gone ob w" "pins ob w' = pin_down (pins ob w)"
    using e end_read_spec [OF u] end_write_spec [OF u(1,2)] by auto
  then show ?thesis
    using end_in_order [OF o(1) w'(2-4)] held_down [OF o(2,3)] o(3-5) by (simp add: guarded_def cpp_shown_def)
qed

text \<open>A modification inside an access: done and logged, or failed; then the content may be another.\<close>

lemma modify_guarded:
  assumes g: "guarded k ob w" "0 < k" and md: "single md" "keeps_size (v_Build md)"
    and m: "ModifyContentByBuilder os (Some md) ob w = Some (r, ob', w')"
  shows "r \<Longrightarrow> guarded k ob' w' \<and> v_Build md (logged ob) = (True, logged ob')"
    "\<not> r \<Longrightarrow> cpp_shown ob' w' = cpp_shown ob w \<Longrightarrow> guarded k ob' w' \<and> ob' = ob"
proof -
  have o: "in_order os inv gone ob w" "held (pins ob w) k" "k \<le> 2 ^ 62" "\<not> gone ob w" "cpp_shown ob w = logged ob"
    using g by (simp_all add: guarded_def)
  obtain bs where bs: "base_ready os ob w bs" "inv ob w" "replays ob" using o(1) by (auto simp: in_order_def)
  then have u: "\<not> m_dataLock ob" "regions w (m_dataPtr ob) = Some bs" "unat (m_dataSizeInput ob) \<le> length bs"
    by (simp_all add: base_ready_def)
  have now: "take (unat (m_dataSizeInput ob)) bs = logged ob" using o(5) u(2) by (simp add: cpp_shown_def)
  obtain ok c where run: "v_Build md (logged ob) = (ok, c)" by fastforce
  let ?w = "store_data os (m_dataPtr ob) (with_content ob c bs) w"
  have eff: "r = ok" "ob' = (if ok then append_log md ob else ob)" "w' = ?w"
    using ModifyContent_effect [OF u(1,2), of md ok c os] run m now by simp_all
  have "length (snd (v_Build md (logged ob))) = length (logged ob)" using md(2) unfolding keeps_size_def by blast
  then have c: "length c = unat (m_dataSizeInput ob)" using run length_logged [OF bs(1)] by simp
  then have len: "length (with_content ob c bs) = length bs" using u(3) by (simp add: with_content_def)
  have st: "inv ob ?w" "held (pins ob ?w) k" "\<not> gone ob ?w"
    using store [OF bs(2) u(2) len] store_gone [OF bs(2) u(2) len] held_mark [OF o(2)] o(4) by simp_all
  have shown: "cpp_shown ob ?w = c" using c by (simp add: cpp_shown_def with_content_def)
  show "guarded k ob' w' \<and> v_Build md (logged ob) = (True, logged ob')" if r
  proof -
    have ob': "ob' = append_log md ob" "v_Build md (logged ob) = (True, c)" using that eff run by simp_all
    from modify_spec [OF bs now md ob'(2)] m that obtain bs' where
      s: "inv ob' w'" "base_ready os ob' w' bs'" "replays ob'" "logged ob' = c" by (auto simp: ob'(1))
    have same: "pins ob' w' = pins ob w'" "gone ob' w' = gone ob w'" "cpp_shown ob' w' = cpp_shown ob w'"
      by (simp_all add: ob'(1) append_log_def cpp_shown_def split: option.split)
    have "in_sync gone ob' w'" using shown s(2,4) unfolding eff(3) by (auto simp: in_sync_def ob'(1) append_log_def cpp_shown_def)
    then have "in_order os inv gone ob' w'" using s by (auto simp: in_order_def)
    then show ?thesis using st shown s(4) o(3) ob'(2) by (simp add: guarded_def eff(3) same [unfolded eff(3)])
  qed
  show "guarded k ob' w' \<and> ob' = ob" if "\<not> r" "cpp_shown ob' w' = cpp_shown ob w"
  proof -
    have ob': "ob' = ob" "c = logged ob" using that eff shown o(5) by simp_all
    have "base_ready os ob ?w (with_content ob c bs)" by (rule base_ready_rebuilt [OF bs(1) store_data_regions len])
    moreover have "in_sync gone ob ?w" using c ob'(2) by (auto simp: in_sync_def with_content_def)
    ultimately have "in_order os inv gone ob ?w" using st(1) bs(3) by (auto simp: in_order_def)
    then show ?thesis using st shown o(3) by (simp add: guarded_def eff(3) ob')
  qed
qed

text \<open>The kernel: content that an access holds stays, other content is purged.\<close>

lemma kernel_guarded:
  assumes g: "guarded k ob w" and p: "reclaim ob w w'"
  shows "guarded k ob w'"
proof -
  have o: "in_order os inv gone ob w" "held (pins ob w) k" "inv ob w" using g by (simp_all add: guarded_def in_order_def)
  have k: "in_order os inv gone ob w'" using kernel_in_order [OF o(1)] reclaim_purges [OF o(3) p] by blast
  have h: "held (pins ob w') k" by (rule reclaim_holds [OF o(3) p o(2)])
  have "\<not> gone ob w' \<and> cpp_shown ob w' = logged ob" if k: "0 < k"
  proof -
    obtain j where "k = Suc j" using k by (cases k) simp_all
    with reclaim_held [OF o(3) p, of j] o(2) have "gone ob w' = gone ob w" "regions w' (m_dataPtr ob) = regions w (m_dataPtr ob)"
      by simp_all
    then show ?thesis using g k by (simp add: guarded_def cpp_shown_def)
  qed
  then show ?thesis using k h g by (simp add: guarded_def)
qed

lemma event_simulates:
  assumes step: "cpp_event os vt reclaim (ob, w, rd, wr) es (ob', w', rd', wr')" "clean es" and g: "guarded (rd + wr) ob w"
  shows "guarded (rd' + wr') ob' w' \<and> buffer_run (logged ob) es = Some (logged ob')"
  using step(1)
proof (cases rule: cpp_event.cases)
  case (event_begin_read r)
  obtain bs where "base_ready os ob w bs" "inv ob w" using g by (auto simp: guarded_def in_order_def)
  then show ?thesis using event_begin_read begin_read_post [of ob w bs] begin_guarded [OF g, of bs r ob' w'] by auto
next
  case (event_begin_write r)
  obtain bs where "base_ready os ob w bs" "inv ob w" using g by (auto simp: guarded_def in_order_def)
  then show ?thesis using event_begin_write begin_write_post [of ob w bs] begin_guarded [OF g, of bs r ob' w'] by auto
next
  case event_end_read
  then show ?thesis using end_guarded [of "rd' + wr'" ob w ob' w'] g by auto
next
  case event_end_write
  then show ?thesis using end_guarded [of "rd' + wr'" ob w ob' w'] g by auto
next
  case event_look
  then show ?thesis using g by (simp add: guarded_def)
next
  case (event_modify md r)
  have pos: "0 < rd + wr" using event_modify by simp
  note m = modify_guarded [OF g pos event_modify(5,6,7)]
  show ?thesis
  proof (cases r)
    case True
    then show ?thesis using m(1) event_modify by simp
  next
    case False
    then have "cpp_shown ob' w' = cpp_shown ob w" using step(2) event_modify by simp
    moreover have "cpp_shown ob w = logged ob" using g pos by (auto simp: guarded_def)
    moreover have "guarded (rd + wr) ob' w'" "ob' = ob" using m(2) [OF False] calculation(1) by blast+
    ultimately show ?thesis using event_modify False by simp
  qed
next
  case event_kernel
  then show ?thesis using kernel_guarded [OF g] by simp
qed

lemma guarded_shows:
  assumes "guarded k ob w"
  shows "\<exists>ob' w'. BeginRead os vt ob w = Some (True, ob', w') \<and> cpp_shown ob' w' = logged ob"
proof -
  have o: "in_order os inv gone ob w" using assms by (simp add: guarded_def)
  then obtain bs where b: "base_ready os ob w bs" "inv ob w" by (auto simp: in_order_def)
  obtain r ob' w' where w': "BeginRead os vt ob w = Some (r, ob', w')" "begin_post ob w bs r ob' w'"
    using begin_read_post [OF b] by blast
  obtain n where n: "ob' = ob\<lparr>m_buildDataCount := n\<rparr>" using w'(2) by (auto simp: begin_post_def)
  show ?thesis using begin_in_order [OF o b(1) w'(2)] w'(1) by (auto simp: n cpp_shown_def)
qed

end

section \<open>The two classes\<close>

text \<open>
  Every entry of the object counts \<open>k\<close> references. The kernel takes a page by clearing an entry that counts
  none; then the bytes of the page are lost.
\<close>

definition mem_held :: "UxPageTableStruct \<Rightarrow> mem_pin_state \<Rightarrow> nat \<Rightarrow> bool" where
  "mem_held t p k \<longleftrightarrow> (fst p \<longrightarrow> (\<forall>a \<in> set (obj_slots t). \<exists>v. snd p a = Some v \<and> uxpte_refcnt v = k))"

definition mem_reclaim :: "UxPageTableStruct \<Rightarrow> PurgeableMem \<Rightarrow> 'b world_scheme \<Rightarrow> 'b world_scheme \<Rightarrow> bool" where
  "mem_reclaim t ob w w' \<longleftrightarrow> g_supportUxpt (ux w) \<and> (\<exists>m' bs bs'.
     w' = w\<lparr>ux := (ux w)\<lparr>ptes := m'\<rparr>, regions := (regions w)(m_dataPtr ob \<mapsto> bs')\<rparr> \<and>
     regions w (m_dataPtr ob) = Some bs \<and> length bs' = length bs \<and>
     (\<forall>a. m' a = ptes (ux w) a \<or>
        a \<in> set (obj_slots t) \<and> m' a = Some 0 \<and> (\<exists>v. ptes (ux w) a = Some v \<and> uxpte_refcnt v = 0)) \<and>
     (\<forall>i < length bs. bs' ! i = bs ! i \<or>
        (\<exists>x \<in> set (req_pages (dataAddr t) (dataSize t)). m' (uxpte_slot t x) = Some 0 \<and>
           unat x \<le> unat (dataAddr t) + i \<and> unat (dataAddr t) + i < unat x + unat PAGE_SIZE)))"

lemma mem_held_up: "mem_held t p k \<Longrightarrow> k < 2 ^ 62 \<Longrightarrow> mem_held t (mem_up t p) (Suc k)"
proof -
  assume h: "mem_held t p k" "k < 2 ^ 62"
  have "uxpte_refcnt (uxpte_inc v) = Suc k" if "uxpte_refcnt v = k" for v
  proof -
    have "unat v + 2 < 2 ^ 64" using that h(2) by (auto simp: uxpte_refcnt_def)
    moreover from this have "v \<noteq> UXPTE_UNDER_RECLAIM" by auto
    ultimately show ?thesis using that refcnt_add [of v] by (simp add: uxpte_inc_def)
  qed
  then show ?thesis using h(1) by (auto simp: mem_held_def mem_up_def pin_all_def touch_def)
qed

lemma mem_held_down: "mem_held t p (Suc k) \<Longrightarrow> mem_held t (mem_down t p) k"
proof -
  assume h: "mem_held t p (Suc k)"
  have "uxpte_refcnt (uxpte_dec v) = k" if "uxpte_refcnt v = Suc k" for v
    using that refcnt_sub [of v] by (simp add: uxpte_dec_def)
  then show ?thesis using h by (fastforce simp: mem_held_def mem_down_def pin_all_def touch_def)
qed

lemma mem_held_mark: "mem_held t p k \<Longrightarrow> mem_held t (mem_mark t p) k"
  by (fastforce simp: mem_held_def mem_mark_def touch_def refcnt_or_one)

text \<open>What a reclaim does to the entries and to the bytes.\<close>

lemma mem_reclaim_entries:
  assumes "mem_reclaim t ob w w'"
  shows "ptes (ux w') a = None \<longleftrightarrow> ptes (ux w) a = None"
    "g_supportUxpt (ux w') = g_supportUxpt (ux w)" "upts (ux w') = upts (ux w)"
    "mem_held t (mem_pins ob w) k \<Longrightarrow> mem_held t (mem_pins ob w') k"
    "mem_held t (mem_pins ob w) (Suc k) \<Longrightarrow> ptes (ux w') = ptes (ux w)"
    "mem_gone t ob w \<Longrightarrow> mem_gone t ob w'"
proof -
  have ch: "ptes (ux w') a = ptes (ux w) a \<or> a \<in> set (obj_slots t) \<and> ptes (ux w') a = Some 0 \<and>
      (\<exists>v. ptes (ux w) a = Some v \<and> uxpte_refcnt v = 0)" for a
    using assms by (auto simp: mem_reclaim_def)
  show "ptes (ux w') a = None \<longleftrightarrow> ptes (ux w) a = None" using ch [of a] by auto
  show supp: "g_supportUxpt (ux w') = g_supportUxpt (ux w)" and "upts (ux w') = upts (ux w)"
    using assms by (auto simp: mem_reclaim_def)
  show "mem_held t (mem_pins ob w') k" if h: "mem_held t (mem_pins ob w) k"
    unfolding mem_held_def mem_pins_def
  proof (intro impI ballI)
    fix a
    assume a: "fst (g_supportUxpt (ux w'), ptes (ux w'))" "a \<in> set (obj_slots t)"
    then obtain v where v: "ptes (ux w) a = Some v" "uxpte_refcnt v = k" using h supp by (auto simp: mem_held_def mem_pins_def)
    have "uxpte_refcnt 0 = 0" by (simp add: uxpte_refcnt_def)
    then show "\<exists>v. snd (g_supportUxpt (ux w'), ptes (ux w')) a = Some v \<and> uxpte_refcnt v = k" using ch [of a] v by auto
  qed
  show "ptes (ux w') = ptes (ux w)" if "mem_held t (mem_pins ob w) (Suc k)"
  proof
    have s: "g_supportUxpt (ux w)" using assms by (simp add: mem_reclaim_def)
    show "ptes (ux w') a = ptes (ux w) a" for a using ch [of a] that s by (fastforce simp: mem_held_def mem_pins_def)
  qed
  have "\<not> IsUxptePresent 0" by (simp add: IsUxptePresent_bit)
  then have "case ptes (ux w) (uxpte_slot t x) of None \<Rightarrow> False | Some v \<Rightarrow> IsUxptePresent v"
    if "case ptes (ux w') (uxpte_slot t x) of None \<Rightarrow> False | Some v \<Rightarrow> IsUxptePresent v" for x
    using ch [of "uxpte_slot t x"] that by auto
  then show "mem_gone t ob w \<Longrightarrow> mem_gone t ob w'" using supp unfolding mem_gone_def all_present_def by blast
qed

lemma mem_reclaim_bytes:
  assumes r: "mem_reclaim t ob w w'"
    and no: "\<forall>x \<in> set (req_pages (dataAddr t) (dataSize t)). ptes (ux w') (uxpte_slot t x) \<noteq> Some 0"
  shows "regions w' (m_dataPtr ob) = regions w (m_dataPtr ob)"
proof -
  from r obtain m' bs bs' where w': "w' = w\<lparr>ux := (ux w)\<lparr>ptes := m'\<rparr>, regions := (regions w)(m_dataPtr ob \<mapsto> bs')\<rparr>"
    and b: "regions w (m_dataPtr ob) = Some bs" "length bs' = length bs"
    and ch: "\<forall>i < length bs. bs' ! i = bs ! i \<or>
        (\<exists>x \<in> set (req_pages (dataAddr t) (dataSize t)). m' (uxpte_slot t x) = Some 0 \<and>
           unat x \<le> unat (dataAddr t) + i \<and> unat (dataAddr t) + i < unat x + unat PAGE_SIZE)"
    unfolding mem_reclaim_def by blast
  have "\<forall>x \<in> set (req_pages (dataAddr t) (dataSize t)). m' (uxpte_slot t x) \<noteq> Some 0" using no by (simp add: w')
  then have "bs' ! i = bs ! i" if "i < length bs" for i using ch that by blast
  then have "bs' = bs" using b(2) by (intro nth_equalityI) simp_all
  then show ?thesis using b(1) by (simp add: w')
qed

interpretation mem_guard: guarded_class "mem_vtable (calm os)" "calm os" "mem_inv os t" "mem_gone t" mem_pins
  "mem_up t" "mem_down t" "mem_mark t" True "mem_held t" "mem_reclaim t" for os t
proof (intro guarded_class.intro guarded_class_axioms.intro mem.purgeable_class_axioms)
  fix p :: mem_pin_state and k
  show "mem_held t p k \<Longrightarrow> k < 2 ^ 62 \<Longrightarrow> mem_held t (mem_up t p) (Suc k)" by (rule mem_held_up)
  show "mem_held t p (Suc k) \<Longrightarrow> mem_held t (mem_down t p) k" by (rule mem_held_down)
  show "mem_held t p k \<Longrightarrow> mem_held t (mem_mark t p) k" by (rule mem_held_mark)
next
  fix ob :: PurgeableMem and w w' :: "'c world_scheme" and k
  assume inv: "mem_inv os t ob w" and r: "mem_reclaim t ob w w'"
  note e = mem_reclaim_entries [OF r]
  have i: "mem_inv os t ob w'" by (rule mem_inv_cong [OF inv e(2,3,1)])
  have "\<exists>bs bs'. regions w (m_dataPtr ob) = Some bs \<and> regions w' (m_dataPtr ob) = Some bs' \<and> length bs' = length bs"
    using r by (auto simp: mem_reclaim_def)
  moreover have "regions w' (m_dataPtr ob) = regions w (m_dataPtr ob)" if "\<not> mem_gone t ob w'"
  proof (rule mem_reclaim_bytes [OF r])
    have "all_present t (ptes (ux w'))" using that r e(2) by (auto simp: mem_gone_def mem_reclaim_def)
    then show "\<forall>x \<in> set (req_pages (dataAddr t) (dataSize t)). ptes (ux w') (uxpte_slot t x) \<noteq> Some 0"
      by (auto simp: all_present_def IsUxptePresent_bit)
  qed
  ultimately show "mem.may_purge os t ob w w' \<and> (mem_gone t ob w \<longrightarrow> mem_gone t ob w')"
    using i e(6) by (auto simp: mem.may_purge_def)
  show "mem_held t (mem_pins ob w) k \<Longrightarrow> mem_held t (mem_pins ob w') k" by (rule e(4))
  assume h: "mem_held t (mem_pins ob w) (Suc k)"
  have p: "ptes (ux w') = ptes (ux w)" by (rule e(5) [OF h])
  have "ptes (ux w') (uxpte_slot t x) \<noteq> Some 0" if "x \<in> set (req_pages (dataAddr t) (dataSize t))" for x
  proof -
    have "uxpte_slot t x \<in> set (obj_slots t)" using that by (simp add: req_slots_def)
    then show ?thesis using h r unfolding p by (fastforce simp: mem_held_def mem_pins_def mem_reclaim_def uxpte_refcnt_def)
  qed
  then show "mem_gone t ob w' = mem_gone t ob w \<and> regions w' (m_dataPtr ob) = regions w (m_dataPtr ob)"
    using mem_reclaim_bytes [OF r] p e(2) by (simp add: mem_gone_def)
qed


definition ash_reclaim :: "ash_os \<Rightarrow> PurgeableAshMem \<Rightarrow> ash_world \<Rightarrow> ash_world \<Rightarrow> bool" where
  "ash_reclaim os ob w w' \<longleftrightarrow> m_isSupport ob \<and> ash_pins ob w' = ash_pins ob w \<and>
     (ash_gone os ob w \<longrightarrow> ash_gone os ob w') \<and>
     (\<exists>bs bs'. regions w (m_dataPtr ob) = Some bs \<and> regions w' (m_dataPtr ob) = Some bs' \<and> length bs' = length bs \<and>
        (\<not> ash_gone os ob w' \<longrightarrow> bs' = bs) \<and>
        (0 < net_pins (m_ashmemFd ob) (m_pin ob) (ash_calls w) \<longrightarrow> bs' = bs \<and> ash_gone os ob w' = ash_gone os ob w))"


abbreviation "mem_event os t \<equiv> cpp_event (calm os) (mem_vtable (calm os)) (mem_reclaim t)"

abbreviation "ash_event os \<equiv> cpp_event (ash_mem os) (ash_vtable os) (ash_reclaim os)"

interpretation mem_buffer: buffer_refinement "mem_event os t"
  "\<lambda>(ob, w, rd, wr). mem_guard.guarded os t (rd + wr) ob w" "\<lambda>(ob, w, rd, wr). logged ob"
  by unfold_locales (auto dest: mem_guard.event_simulates)


text \<open>
  C3. Purging is invisible to the users of a \<open>PurgeableMem\<close>. In every sequence of calls of the five
  operations and of purges between them, looks only inside accesses and modifications only inside write
  accesses, at most \<open>2 ^ 62\<close> accesses open, the kernel taking any page whose reference count is zero, and
  failed modifications leaving the content alone: the events are those of a buffer that starts with the
  content the builders describe and is never purged; every entry counts the open accesses; whoever is
  inside one sees what that buffer holds at the end, and so does the next \<open>BeginRead\<close>, which returns true.
\<close>

theorem mem_refines_buffer:
  assumes "in_order (calm os) (mem_inv os t) (mem_gone t) ob w" "mem_held t (mem_pins ob w) 0"
    and "runs (mem_event os t) (ob, w, 0, 0) es (ob', w', rd, wr)" "clean es"
  shows "\<exists>c ob1 w1. buffer_run (logged ob) es = Some c \<and> mem_held t (mem_pins ob' w') (rd + wr) \<and>
    (0 < rd + wr \<longrightarrow> cpp_shown ob' w' = c) \<and>
    BeginRead (calm os) (mem_vtable (calm os)) ob' w' = Some (True, ob1, w1) \<and> cpp_shown ob1 w1 = c"
proof -
  have "mem_guard.guarded os t 0 ob w" using assms(1,2) by (simp add: mem_guard.guarded_def)
  then have r: "mem_guard.guarded os t (rd + wr) ob' w'" "buffer_run (logged ob) es = Some (logged ob')"
    using mem_buffer.refines [OF assms(3) _ assms(4)] by simp_all
  then show ?thesis using mem_guard.guarded_shows [OF r(1)] by (auto simp: mem_guard.guarded_def)
qed

lemma ex_mem_idle: "mem_held ex_table (mem_pins (ex_cpp fill_fives 0) (ex_cppw ex_bytes)) 0"
  by (simp add: mem_held_def mem_pins_def ex_slots ex_cppw_def ex_st_def ex_ptes_def in_mapping_def uxpte_refcnt_def)

theorem mem_refines_buffer_witness:
  "\<exists>c ob' w'. runs (mem_event ex_pm_os ex_table) (ex_cpp fill_fives 0, ex_cppw ex_bytes, 0, 0) [Observe c, Observe c] (ob', w', 1, 0) \<and>
     buffer_run (logged (ex_cpp fill_fives 0)) [Observe c, Observe c] = Some c \<and> cpp_shown ob' w' = c \<and>
     mem_held ex_table (mem_pins ob' w') 1"
proof -
  from mem.in_order_reads [OF ex_cpp_in_order] obtain ob' w' where
    b: "BeginRead (calm ex_pm_os) (mem_vtable (calm ex_pm_os)) (ex_cpp fill_fives 0) (ex_cppw ex_bytes) = Some (True, ob', w')" by blast
  let ?c = "cpp_shown ob' w'" and ?R = "mem_event ex_pm_os ex_table"
  have "?R (ex_cpp fill_fives 0, ex_cppw ex_bytes, 0, 0) [Observe ?c] (ob', w', 1, 0)" using event_begin_read [OF b, of 0 0] by simp
  then have one: "runs ?R (ex_cpp fill_fives 0, ex_cppw ex_bytes, 0, 0) [Observe ?c] (ob', w', 1, 0)" by (rule runs_one)
  have "?R (ob', w', 1, 0) [Observe ?c] (ob', w', 1, 0)" by (rule event_look) simp
  from runs_step [OF one this] have r: "runs ?R (ex_cpp fill_fives 0, ex_cppw ex_bytes, 0, 0) [Observe ?c, Observe ?c] (ob', w', 1, 0)" by simp
  have "clean [Observe ?c, Observe ?c]" by simp
  from mem_refines_buffer [OF ex_cpp_in_order ex_mem_idle r this] r show ?thesis
    by (intro exI [of _ ?c] exI [of _ ob'] exI [of _ w']) (auto split: if_splits)
qed



end
