(* ===== verification/Cpp_Thread_Code.thy ===== *)
theory Cpp_Thread_Code
  imports Cpp_Thread_Inv Cpp_Refine
begin

text \<open>
  The threads run the code: alone, the control points of a thread compute what \<open>BeginRead\<close>,
  \<open>BeginWrite\<close>, \<open>EndRead\<close>, \<open>EndWrite\<close> and \<open>ModifyContentByBuilder\<close> compute in memory, for every
  derived class.
\<close>

section \<open>The shared state of an object\<close>

text \<open>\<open>k\<close>: the accesses that pin the object.\<close>

definition ct_of ::
  "('a PurgeableMemBase_scheme \<Rightarrow> 'b world_scheme \<Rightarrow> bool) \<Rightarrow> nat \<Rightarrow> 'a PurgeableMemBase_scheme \<Rightarrow>
   'b world_scheme \<Rightarrow> cpp_st" where
  "ct_of gone k ob w =
     \<lparr>ct_mutex = m_dataLock ob, ct_valid = m_isDataValid ob, ct_pins = k, ct_present = (\<not> gone ob w),
      ct_count = m_buildDataCount ob, ct_bytes = cpp_shown ob w,
      ct_log = (case m_builder ob of None \<Rightarrow> [] | Some b \<Rightarrow> chain_of b)\<rparr>"

definition ct_object ::
  "('a PurgeableMemBase_scheme \<Rightarrow> 'b world_scheme \<Rightarrow> bool) \<Rightarrow> 'a PurgeableMemBase_scheme \<Rightarrow>
   'b world_scheme \<Rightarrow> cpp_sys" where
  "ct_object gone ob w = \<lparr>ct_st = ct_of gone 0 ob w, ct_pcs = (\<lambda>_. User Outside)\<rparr>"

lemma shown_ready:
  assumes "base_ready os ob w bs"
  shows "cpp_shown ob w = take (unat (m_dataSizeInput ob)) bs"
    "replicate (length (cpp_shown ob w)) 0 = b_zeros ob"
  using assms by (simp_all add: base_ready_def cpp_shown_def b_zeros_def min_def)

lemma ct_of_log:
  assumes "base_ready os ob w bs"
  shows "run_builds (ct_log (ct_of gone k ob w)) (replicate (length (ct_bytes (ct_of gone k ob w))) 0) =
    (replays ob, logged ob)"
  using assms shown_ready(2) [OF assms] by (auto simp: ct_of_def base_ready_def replays_def logged_def)

text \<open>An object in order is an object at rest.\<close>

lemma in_order_rest:
  assumes "in_order os ok gone ob w"
  shows "ct_rest n (ct_object gone ob w)" "ct_value (ct_st (ct_object gone ob w)) = logged ob"
    "ct_valid (ct_st (ct_object gone ob w))" "ct_pins (ct_st (ct_object gone ob w)) = 0"
proof -
  obtain bs where b: "base_ready os ob w bs" and r: "replays ob" "in_sync gone ob w"
    using assms by (auto simp: in_order_def)
  note lg = ct_of_log [OF b, of gone 0]
  show v: "ct_value (ct_st (ct_object gone ob w)) = logged ob" using lg by (simp add: ct_value_def ct_object_def)
  have "ct_log_ok (ct_of gone 0 ob w)"
    using lg r(1) b by (auto simp: ct_log_ok_def ct_of_def base_ready_def)
  moreover have "ct_shown (ct_of gone 0 ob w)" if "\<not> ct_need (ct_of gone 0 ob w)"
    using that r(2) v by (auto simp: ct_shown_def ct_object_def in_sync_def ct_need_def ct_of_def cpp_shown_def)
  ultimately show "ct_rest n (ct_object gone ob w)"
    using b by (auto simp: ct_rest_def ct_idle_def ct_object_def ct_of_def base_ready_def)
  show "ct_valid (ct_st (ct_object gone ob w))" "ct_pins (ct_st (ct_object gone ob w)) = 0"
    using b by (simp_all add: ct_object_def ct_of_def base_ready_def)
qed

section \<open>A thread on its own\<close>

definition ct_solo :: "bool \<Rightarrow> cpp_pc \<times> cpp_st \<Rightarrow> cpp_pc \<times> cpp_st \<Rightarrow> bool" where
  "ct_solo t x y \<longleftrightarrow> ct_next t (fst x) (snd x) = Some y"

lemma solo_step:
  "(case ct_next t pc s of None \<Rightarrow> False | Some y \<Rightarrow> (ct_solo t)\<^sup>*\<^sup>* y z) \<Longrightarrow> (ct_solo t)\<^sup>*\<^sup>* (pc, s) z"
  by (auto split: option.splits intro: converse_rtranclp_into_rtranclp [of "ct_solo t" "(pc, s)"] simp: ct_solo_def)

abbreviation cs_of :: "bool \<Rightarrow> bool \<Rightarrow> nat \<Rightarrow> bool \<Rightarrow> c_uint \<Rightarrow> byte list \<Rightarrow> build_func list \<Rightarrow> cpp_st" where
  "cs_of m v k pr ct bs lg \<equiv>
     \<lparr>ct_mutex = m, ct_valid = v, ct_pins = k, ct_present = pr, ct_count = ct, ct_bytes = bs, ct_log = lg\<rparr>"

text \<open>Where a rebuild ends.\<close>

definition built_pc :: "bool \<Rightarrow> nat \<Rightarrow> bool \<Rightarrow> cpp_pc" where
  "built_pc wr k b =
     (if \<not> b then Unpin else if wr then Unlock Writes
      else if k + 1 > MAX_BUILD_TRYTIMES then Unpin else Check False (k + 1))"

lemma solo_build:
  "run_builds fs bs = (b, c) \<Longrightarrow>
   (ct_solo t)\<^sup>*\<^sup>* (Rebuild wr j fs, cs_of m v k pr ct bs lg) (built_pc wr j b, cs_of m v k (pr \<or> b) (ct + of_bool b) c lg)"
proof (induction fs arbitrary: bs)
  case Nil
  then show ?case by (intro solo_step) (auto simp: built_pc_def)
next
  case (Cons f fs)
  obtain succ d where d: "f bs = (succ, d)" by fastforce
  show ?case
  proof (cases succ)
    case True
    then show ?thesis using Cons.IH [of d] Cons.prems d by (intro solo_step) simp
  next
    case False
    then have "b = False" "c = d" using Cons.prems d by simp_all
    then show ?thesis using False d by (intro solo_step) (simp add: built_pc_def)
  qed
qed

text \<open>How a begin operation ends: \<open>u\<close> is the access that is granted.\<close>

definition solo_end :: "bool \<Rightarrow> cpp_user \<Rightarrow> bool \<Rightarrow> byte list \<Rightarrow> cpp_st \<Rightarrow> cpp_pc \<times> cpp_st" where
  "solo_end t u b c s =
     (if \<not> ct_need s then (User u, s\<lparr>ct_pins := Suc (ct_pins s)\<rparr>)
      else if b then (User u, s\<lparr>ct_pins := Suc (ct_pins s), ct_present := True, ct_count := ct_count s + 1, ct_bytes := c\<rparr>)
      else (User Outside, s\<lparr>ct_present := ct_present s \<or> t, ct_bytes := c\<rparr>))"

lemma solo_access:
  assumes cnt: "wr \<or> ct + 1 \<noteq> 0" and run: "run_builds lg (replicate (length bs) 0) = (b, c)"
  shows "(ct_solo t)\<^sup>*\<^sup>* (Check wr 0, cs_of True v (Suc k) pr ct bs lg)
    (solo_end t (if wr then Writes else Reads) b c (cs_of False v k pr ct bs lg))"
proof (cases "ct = 0 \<or> \<not> pr")
  case False
  then show ?thesis by (cases wr) (rule solo_step, simp add: ct_need_def solo_end_def)+
next
  case True
  let ?s = "cs_of True v (Suc k) (pr \<or> t \<or> b) (ct + of_bool b) c lg"
  have "(ct_solo t)\<^sup>*\<^sup>* (Check wr 0, cs_of True v (Suc k) pr ct bs lg) (built_pc wr 0 b, ?s)"
    using solo_build [OF run, of t wr 0 True v "Suc k" "pr \<or> t" ct lg]
    by - (rule solo_step, simp add: ct_need_def True split del: split_of_bool)+
  moreover have "(ct_solo t)\<^sup>*\<^sup>* (built_pc wr 0 b, ?s) (solo_end t (if wr then Writes else Reads) b c (cs_of False v k pr ct bs lg))"
    using True cnt
    by (cases b; cases wr) (simp_all add: built_pc_def solo_end_def ct_need_def MAX_BUILD_TRYTIMES_def,
        (rule solo_step, simp add: ct_need_def)+)
  ultimately show ?thesis by (rule rtranclp_trans)
qed

lemma solo_begin:
  assumes s: "\<not> ct_mutex s" "ct_valid s" and run: "run_builds (ct_log s) (replicate (length (ct_bytes s)) 0) = (b, c)"
  shows "ct_count s + 1 \<noteq> 0 \<Longrightarrow> (ct_solo t)\<^sup>*\<^sup>* (Lock Call_BeginRead, s) (solo_end t Reads b c s)"
    "(ct_solo t)\<^sup>*\<^sup>* (Lock Call_BeginWrite, s) (solo_end t Writes b c s)"
proof -
  obtain k pr ct bs lg where eq: "s = cs_of False True k pr ct bs lg" using s by (cases s) auto
  have run': "run_builds lg (replicate (length bs) 0) = (b, c)" using run by (simp add: eq)
  have pre: "(ct_solo t)\<^sup>*\<^sup>* (Lock Call_BeginRead, s) (Check False 0, cs_of True True (Suc k) pr ct bs lg)"
    "(ct_solo t)\<^sup>*\<^sup>* (Lock Call_BeginWrite, s) (Check True 0, cs_of True True (Suc k) pr ct bs lg)"
    unfolding eq by - (rule solo_step, simp)+
  show "(ct_solo t)\<^sup>*\<^sup>* (Lock Call_BeginRead, s) (solo_end t Reads b c s)" if "ct_count s + 1 \<noteq> 0"
    using rtranclp_trans [OF pre(1) solo_access [of False ct lg bs b c t True k pr, OF _ run']] that by (simp add: eq)
  show "(ct_solo t)\<^sup>*\<^sup>* (Lock Call_BeginWrite, s) (solo_end t Writes b c s)"
    using rtranclp_trans [OF pre(2) solo_access [of True ct lg bs b c t True k pr, OF _ run']] by (simp add: eq)
qed

lemma solo_finish:
  assumes "\<not> ct_mutex s"
  shows "(ct_solo t)\<^sup>*\<^sup>* (Lock Call_EndRead, s)
      (User Outside, s\<lparr>ct_pins := if ct_valid s then ct_pins s - 1 else ct_pins s\<rparr>)"
    "(ct_solo t)\<^sup>*\<^sup>* (Lock Call_EndWrite, s) (User Outside, s\<lparr>ct_pins := ct_pins s - 1\<rparr>)"
    "(ct_solo t)\<^sup>*\<^sup>* (Lock (Call_Modify f), s)
      (User Writes, if fst (f (ct_bytes s)) then s\<lparr>ct_bytes := snd (f (ct_bytes s)), ct_log := ct_log s @ [f]\<rparr>
                    else s\<lparr>ct_bytes := snd (f (ct_bytes s))\<rparr>)"
proof -
  obtain v k pr ct bs lg where eq: "s = cs_of False v k pr ct bs lg" using assms by (cases s) auto
  obtain succ d where d: "f bs = (succ, d)" by fastforce
  show "(ct_solo t)\<^sup>*\<^sup>* (Lock Call_EndRead, s) (User Outside, s\<lparr>ct_pins := if ct_valid s then ct_pins s - 1 else ct_pins s\<rparr>)"
    unfolding eq by (cases v) (rule solo_step, simp)+
  show "(ct_solo t)\<^sup>*\<^sup>* (Lock Call_EndWrite, s) (User Outside, s\<lparr>ct_pins := ct_pins s - 1\<rparr>)"
    unfolding eq by - (rule solo_step, simp)+
  show "(ct_solo t)\<^sup>*\<^sup>* (Lock (Call_Modify f), s)
      (User Writes, if fst (f (ct_bytes s)) then s\<lparr>ct_bytes := snd (f (ct_bytes s)), ct_log := ct_log s @ [f]\<rparr>
                    else s\<lparr>ct_bytes := snd (f (ct_bytes s))\<rparr>)"
    unfolding eq by (cases succ) (rule solo_step, simp add: d)+
qed

section \<open>The operations in memory, once for every derived class\<close>

context purgeable_class
begin

lemma post_solo_end:
  assumes rdy: "base_ready os ob w bs" and post: "begin_post ob w bs r ob' w'" and cnt: "m_buildDataCount ob + 1 \<noteq> 0"
  shows "solo_end touching u (replays ob) (logged ob) (ct_of gone k ob w) =
    (User (if r then u else Outside), ct_of gone (if r then Suc k else k) ob' w')"
proof -
  obtain n where n: "ob' = ob\<lparr>m_buildDataCount := n\<rparr>" using post by (auto simp: begin_post_def)
  have nd: "ct_need (ct_of gone k ob w) = need ob w" by (simp add: ct_need_def ct_of_def need_def)
  have c: "cpp_shown ob' w' = logged ob" if "regions w' = (regions w)(m_dataPtr ob \<mapsto> with_content ob (logged ob) bs)"
    using that length_logged [OF rdy] by (simp add: n cpp_shown_def with_content_def)
  consider "\<not> need ob w" | "need ob w" "replays ob" | "need ob w" "\<not> replays ob" by blast
  then show ?thesis
  proof cases
    case 1
    then have "r" "m_buildDataCount ob' = m_buildDataCount ob" "regions w' = regions w" "gone ob w' = gone ob w"
      using post by (auto simp: begin_post_def need_def)
    then show ?thesis using 1 by (simp add: solo_end_def nd) (simp add: ct_of_def n cpp_shown_def)
  next
    case 2
    then have "r" "m_buildDataCount ob' = m_buildDataCount ob + 1" "\<not> gone ob w'" "cpp_shown ob' w' = logged ob"
      using post cnt c by (auto simp: begin_post_def)
    then show ?thesis using 2 by (simp add: solo_end_def nd) (simp add: ct_of_def n)
  next
    case 3
    then have "\<not> r" "m_buildDataCount ob' = m_buildDataCount ob" "gone ob w' = (gone ob w \<and> \<not> touching)"
      "cpp_shown ob' w' = logged ob" using post c by (auto simp: begin_post_def)
    then show ?thesis using 3 by (simp add: solo_end_def nd) (simp add: ct_of_def n)
  qed
qed

lemma begin_solo:
  assumes rdy: "base_ready os ob w bs" and inv: "inv ob w" and cnt: "m_buildDataCount ob + 1 \<noteq> 0"
  shows "\<exists>r ob' w'. BeginRead os vt ob w = Some (r, ob', w') \<and>
      (ct_solo touching)\<^sup>*\<^sup>* (Lock Call_BeginRead, ct_of gone k ob w)
        (User (if r then Reads else Outside), ct_of gone (if r then Suc k else k) ob' w')"
    "\<exists>r ob' w'. BeginWrite os vt ob w = Some (r, ob', w') \<and>
      (ct_solo touching)\<^sup>*\<^sup>* (Lock Call_BeginWrite, ct_of gone k ob w)
        (User (if r then Writes else Outside), ct_of gone (if r then Suc k else k) ob' w')"
proof -
  have st: "\<not> ct_mutex (ct_of gone k ob w)" "ct_valid (ct_of gone k ob w)" "ct_count (ct_of gone k ob w) + 1 \<noteq> 0"
    using rdy cnt by (simp_all add: ct_of_def base_ready_def)
  note solo = solo_begin [OF st(1,2) ct_of_log [OF rdy]]
  obtain r ob' w' where "BeginRead os vt ob w = Some (r, ob', w')" "begin_post ob w bs r ob' w'"
    using begin_read_post [OF rdy inv] by blast
  then show "\<exists>r ob' w'. BeginRead os vt ob w = Some (r, ob', w') \<and>
      (ct_solo touching)\<^sup>*\<^sup>* (Lock Call_BeginRead, ct_of gone k ob w)
        (User (if r then Reads else Outside), ct_of gone (if r then Suc k else k) ob' w')"
    using solo(1) [OF st(3), of touching] post_solo_end [OF rdy _ cnt, of r ob' w' Reads k] by auto
  obtain r ob' w' where "BeginWrite os vt ob w = Some (r, ob', w')" "begin_post ob w bs r ob' w'"
    using begin_write_post [OF rdy inv] by blast
  then show "\<exists>r ob' w'. BeginWrite os vt ob w = Some (r, ob', w') \<and>
      (ct_solo touching)\<^sup>*\<^sup>* (Lock Call_BeginWrite, ct_of gone k ob w)
        (User (if r then Writes else Outside), ct_of gone (if r then Suc k else k) ob' w')"
    using solo(2) [of touching] post_solo_end [OF rdy _ cnt, of r ob' w' Writes k] by auto
qed

lemma end_solo:
  assumes "\<not> m_dataLock ob" "inv ob w"
  shows "\<exists>w'. EndRead vt ob w = Some ((), ob, w') \<and>
      (ct_solo touching)\<^sup>*\<^sup>* (Lock Call_EndRead, ct_of gone k ob w)
        (User Outside, ct_of gone (if m_isDataValid ob then k - 1 else k) ob w')"
    "\<exists>w'. EndWrite vt ob w = Some ((), ob, w') \<and>
      (ct_solo touching)\<^sup>*\<^sup>* (Lock Call_EndWrite, ct_of gone k ob w) (User Outside, ct_of gone (k - 1) ob w')"
proof -
  have m: "\<not> ct_mutex (ct_of gone k ob w)" using assms(1) by (simp add: ct_of_def)
  have same: "ct_of gone k' ob w' = (ct_of gone k ob w)\<lparr>ct_pins := k'\<rparr>"
    if "regions w' = regions w" "gone ob w' = gone ob w" for k' w' using that by (simp add: ct_of_def cpp_shown_def)
  have pins: "ct_pins (ct_of gone k ob w) = k" "ct_valid (ct_of gone k ob w) = m_isDataValid ob" by (simp_all add: ct_of_def)
  note fin = solo_finish [OF m, of touching, unfolded pins]
  show "\<exists>w'. EndRead vt ob w = Some ((), ob, w') \<and>
      (ct_solo touching)\<^sup>*\<^sup>* (Lock Call_EndRead, ct_of gone k ob w)
        (User Outside, ct_of gone (if m_isDataValid ob then k - 1 else k) ob w')"
  proof (cases "m_isDataValid ob")
    case True
    with end_read_spec [OF assms] obtain w' where
      "EndRead vt ob w = Some ((), ob, w')" "regions w' = regions w" "gone ob w' = gone ob w" by blast
    then show ?thesis using fin(1) same [of w' "k - 1"] True by auto
  next
    case False
    then have "EndRead vt ob w = Some ((), ob, w)" using assms(1) by (simp add: EndRead_def lock_guard_free)
    then show ?thesis using fin(1) same [of w k] False by auto
  qed
  from end_write_spec [OF assms] obtain w' where
    "EndWrite vt ob w = Some ((), ob, w')" "regions w' = regions w" "gone ob w' = gone ob w" by blast
  then show "\<exists>w'. EndWrite vt ob w = Some ((), ob, w') \<and>
      (ct_solo touching)\<^sup>*\<^sup>* (Lock Call_EndWrite, ct_of gone k ob w) (User Outside, ct_of gone (k - 1) ob w')"
    using fin(2) same [of w' "k - 1"] by auto
qed

lemma modify_solo:
  assumes rdy: "base_ready os ob w bs" and inv: "inv ob w" and here: "\<not> gone ob w"
    and md: "single md" "keeps_size (v_Build md)"
  shows "\<exists>r ob' w'. ModifyContentByBuilder os (Some md) ob w = Some (r, ob', w') \<and>
      (ct_solo touching)\<^sup>*\<^sup>* (Lock (Call_Modify (v_Build md)), ct_of gone k ob w) (User Writes, ct_of gone k ob' w')"
proof -
  let ?n = "unat (m_dataSizeInput ob)"
  obtain ok c where run: "v_Build md (take ?n bs) = (ok, c)" by fastforce
  have r: "regions w (m_dataPtr ob) = Some bs" "\<not> m_dataLock ob" "?n \<le> length bs" using rdy by (simp_all add: base_ready_def)
  obtain b where b: "m_builder ob = Some b" using rdy by (auto simp: base_ready_def)
  have "length (snd (v_Build md (take ?n bs))) = length (take ?n bs)" using md(2) unfolding keeps_size_def by blast
  then have len: "length c = ?n" using run r(3) by simp
  let ?w = "store_data os (m_dataPtr ob) (with_content ob c bs) w"
  have g: "\<not> gone ob ?w" using store_gone [OF inv r(1), of "with_content ob c bs"] here len r(3) by (simp add: with_content_def)
  have shown: "cpp_shown ob ?w = c" "cpp_shown ob w = take ?n bs"
    using len r(1) by (simp_all add: cpp_shown_def with_content_def)
  have m: "\<not> ct_mutex (ct_of gone k ob w)" using r(2) by (simp add: ct_of_def)
  have "cpp_shown (append_log md ob) ?w = cpp_shown ob ?w" "gone (append_log md ob) ?w = gone ob ?w"
    by (simp_all add: append_log_def cpp_shown_def)
  then have "(User Writes, if ok then (ct_of gone k ob w)\<lparr>ct_bytes := c, ct_log := ct_log (ct_of gone k ob w) @ [v_Build md]\<rparr>
      else (ct_of gone k ob w)\<lparr>ct_bytes := c\<rparr>) = (User Writes, ct_of gone k (if ok then append_log md ob else ob) ?w)"
    using g here shown b by (simp add: ct_of_def append_log_def chain_of_append chain_of_single [OF md(1)])
  then show ?thesis
    using ModifyContent_effect [OF r(2,1) run, of os] solo_finish(3) [OF m, of touching "v_Build md"] run shown(2)
    by (auto simp: ct_of_def)
qed

end

end
