(* ===== verification/Cpp_Thread_Props.thy ===== *)
theory Cpp_Thread_Props
  imports Cpp_Thread_Live Cpp_Thread_Code
begin

text \<open>
  The properties of a C++ object that many threads use at once while the kernel purges it.
\<close>

section \<open>A thread that is left alone gets through\<close>

lemma ct_move_again: "ct_move i pc st (ct_move i pc' st' s) = ct_move i pc st s" "ct_move i (ct_pcs s i) (ct_st s) s = s"
  by (simp_all add: ct_move_def)

text \<open>\<open>Q\<close>: the control points it passes, none of which modifies or wraps the count where that is excluded.\<close>

lemma solo_runs:
  assumes solo: "(ct_solo (touches e))\<^sup>*\<^sup>* (ct_pcs s i, ct_st s) y" and i: "i < n" and start: "Q (ct_pcs s i)"
    and step: "\<And>t pc st pc' st'. Q pc \<Longrightarrow> ct_next t pc st = Some (pc', st') \<Longrightarrow> Q pc'"
    and quiet: "\<And>pc st. Q pc \<Longrightarrow> ct_event pc st = []" "\<And>k. wraps e \<or> \<not> Q (Rebuild True k [])"
  shows "runs (ct_step e n) s [] (ct_move i (fst y) (snd y) s) \<and> Q (fst y)"
  using solo
proof (induction rule: rtranclp_induct)
  case base
  then show ?case using start by (simp add: ct_move_again runs_refl)
next
  case (step y z)
  have nx: "ct_next (touches e) (fst y) (snd y) = Some (fst z, snd z)" using step.hyps(2) by (simp add: ct_solo_def)
  have "ct_step e n (ct_move i (fst y) (snd y) s) (ct_event (fst y) (snd y)) (ct_move i (fst z) (snd z) s)"
    using ct_run [of i n e "ct_move i (fst y) (snd y) s" "fst z" "snd z"] nx i step.IH quiet(2)
    by (simp add: ct_move_again) metis
  then show ?case using runs_step [of "ct_step e n" s "[]"] step.IH quiet(1) assms(4) [OF _ nx] by fastforce
qed

fun ct_reader :: "cpp_pc \<Rightarrow> bool" where
  "ct_reader (Lock call) = (call = Call_BeginRead \<or> call = Call_EndRead)"
| "ct_reader (Pin wr) = (\<not> wr)"
| "ct_reader (Check wr _) = (\<not> wr)"
| "ct_reader (Clr wr _) = (\<not> wr)"
| "ct_reader (Rebuild wr _ _) = (\<not> wr)"
| "ct_reader (Modifying _) = False"
| "ct_reader (Logging _) = False"
| "ct_reader _ = True"

lemma reader_step: "ct_reader pc \<Longrightarrow> ct_next t pc st = Some (pc', st') \<Longrightarrow> ct_reader pc'"
  by (induction t pc st rule: ct_next.induct) (auto split: if_splits prod.splits)

lemma reader_event: "ct_reader pc \<Longrightarrow> ct_event pc st = []"
  by (cases pc) auto

lemma ct_event_quiet: "\<not> ct_pending pc \<Longrightarrow> ct_event pc st = []"
  by (cases pc) auto

lemma modifying_pending: "ct_modifying pc \<Longrightarrow> ct_pending pc"
  by (cases pc) auto

lemma unpending_step: "\<not> ct_pending pc \<Longrightarrow> ct_next t pc st = Some (pc', st') \<Longrightarrow> \<not> ct_pending pc'"
proof (induction t pc st rule: ct_next.induct)
  case (2 touches call s)
  then show ?case by (cases call) (auto split: if_splits)
qed (auto split: if_splits prod.splits)

lemmas reader_runs = solo_runs [where Q = ct_reader, OF _ _ _ reader_step reader_event]
lemmas unpending_runs = solo_runs [where Q = "\<lambda>pc. \<not> ct_pending pc", OF _ _ _ unpending_step ct_event_quiet]

text \<open>Some thread of a shared object reads it.\<close>

lemma object_reads:
  assumes o: "in_order os ok gone ob w" and cnt: "m_buildDataCount ob + 1 \<noteq> 0" and i: "i < n"
  shows "\<exists>s. runs (ct_step e n) (ct_object gone ob w) [] s \<and> ct_pcs s = (\<lambda>_. User Outside)(i := User Reads)"
proof -
  let ?s = "ct_object gone ob w" and ?st = "ct_of gone 0 ob w"
  obtain bs where b: "base_ready os ob w bs" "replays ob" using o by (auto simp: in_order_def)
  have st: "\<not> ct_mutex ?st" "ct_valid ?st" "ct_count ?st + 1 \<noteq> 0" using b cnt by (simp_all add: ct_of_def base_ready_def)
  let ?y = "solo_end (touches e) Reads True (logged ob) ?st" and ?s1 = "ct_move i (Lock Call_BeginRead) ?st ?s"
  have one: "runs (ct_step e n) ?s [] ?s1"
    using ct_begin [of i n ?s Call_BeginRead e] i by (intro runs_one) (simp add: ct_object_def)
  have "(ct_solo (touches e))\<^sup>*\<^sup>* (Lock Call_BeginRead, ?st) ?y"
    using solo_begin(1) [OF st(1,2) ct_of_log [OF b(1)] st(3)] b(2) by simp
  then have "runs (ct_step e n) ?s1 [] (ct_move i (fst ?y) (snd ?y) ?s1) \<and> ct_reader (fst ?y)"
    by (intro reader_runs) (simp_all add: i)
  from runs_trans [OF conjunct1 [OF this] one] show ?thesis
    by (intro exI [of _ "ct_move i (fst ?y) (snd ?y) ?s1"]) (auto simp: solo_end_def ct_object_def)
qed

text \<open>A read of content that counts as never built clears it first.\<close>

lemma solo_clears:
  assumes "\<not> ct_mutex s" "ct_valid s" "ct_count s = 0"
  shows "\<exists>pc s'. (ct_solo t)\<^sup>*\<^sup>* (Lock Call_BeginRead, s) (pc, s') \<and> ct_bytes s' = replicate (length (ct_bytes s)) 0"
proof -
  obtain k pr bs lg where eq: "s = cs_of False True k pr 0 bs lg" using assms by (cases s) auto
  have "(ct_solo t)\<^sup>*\<^sup>* (Lock Call_BeginRead, s) (Rebuild False 0 lg, cs_of True True (Suc k) (pr \<or> t) 0 (replicate (length bs) 0) lg)"
    unfolding eq by - (rule solo_step, simp add: ct_need_def)+
  then show ?thesis by (intro exI conjI) (assumption, simp add: eq)
qed

section \<open>Properties\<close>

text \<open>
  C2. Any number of threads share a C++ object, of either class: whatever they do (begin and end reads and
  writes, look at the content, modify it with builders inside a write access, declare it invalid), in
  whatever order their steps interleave and whatever the kernel purges, what they see and do is possible
  on a plain buffer that starts with the content the builders describe. This holds as long as no
  \<open>BeginWrite\<close> wraps \<open>buildDataCount_\<close> to zero, no pin is lost, and the run has no incident: a modification
  that fails leaves the content alone, and nobody looks while another thread is inside
  \<open>ModifyContentByBuilder\<close>, whose \<open>Build\<close> and \<open>AppendBuilder\<close> are steps of their own and do not keep users
  out.
\<close>

theorem cpp_threads_refine_buffer:
  assumes "in_order os ok gone ob w" "runs (ct_step (ct_env t v) n) (ct_object gone ob w) es s" "clean es"
  shows "buffer_run (logged ob) es = Some (ct_value (ct_st s))"
proof -
  note r = in_order_rest [OF assms(1)]
  have "ct_inv (ct_env t v) n (ct_object gone ob w)" using r by (intro rest_ct_inv) simp_all
  then show ?thesis using cpp_threads.refines [OF assms(2) _ assms(3)] r(2) by simp
qed

lemma ex_object_reads:
  "\<exists>s. runs (ct_step e 3) (ct_object (mem_gone ex_table) (ex_cpp fill_fives 0) (ex_cppw ex_bytes)) [] s \<and>
     ct_pcs s = (\<lambda>_. User Outside)(1 := User Reads)"
  using object_reads [OF ex_cpp_in_order, of 1 3 e] by (auto simp: ex_cpp_def)

theorem cpp_threads_refine_buffer_witness:
  "\<exists>s. runs (ct_step (ct_env True True) 3)
         (ct_object (mem_gone ex_table) (ex_cpp fill_fives 0) (ex_cppw ex_bytes)) [Observe (ct_bytes (ct_st s))] s \<and>
       buffer_run (logged (ex_cpp fill_fives 0)) [Observe (ct_bytes (ct_st s))] = Some (ct_value (ct_st s))"
proof -
  let ?e = "ct_env True True"
  obtain s where s: "runs (ct_step ?e 3) (ct_object (mem_gone ex_table) (ex_cpp fill_fives 0) (ex_cppw ex_bytes)) [] s"
    "ct_pcs s = (\<lambda>_. User Outside)(1 := User Reads)" using ex_object_reads by blast
  have "ct_step ?e 3 s [Observe (ct_bytes (ct_st s))] s" using ct_look [of 1 3 s ?e] s(2) by simp
  from runs_step [OF s(1) this] have "runs (ct_step ?e 3)
      (ct_object (mem_gone ex_table) (ex_cpp fill_fives 0) (ex_cppw ex_bytes)) [Observe (ct_bytes (ct_st s))] s" by simp
  moreover have "clean [Observe (ct_bytes (ct_st s))]" by simp
  ultimately show ?thesis using cpp_threads_refine_buffer [OF ex_cpp_in_order] by blast
qed

text \<open>
  C16. In every state of a shared C++ object that is reached with no pin lost, no count wrapped, and no failed
  modification that changed the content: one thread at most holds the mutex; while a thread clears or
  rebuilds the content nobody is inside an access; a thread inside an access, reading or writing, has the
  object pinned and the pages present, although other accesses, writing ones included, may be going on;
  and unless another thread is inside \<open>ModifyContentByBuilder\<close> it has exactly the content of the builders
  before it.
\<close>

theorem cpp_threads_exclude:
  assumes "in_order os ok gone ob w" "runs (ct_step (ct_env t v) n) (ct_object gone ob w) es s" "clean es"
    and "i < n" "j < n"
  shows "(ct_holds (ct_pcs s i) \<and> ct_holds (ct_pcs s j) \<longrightarrow> i = j) \<and>
    \<not> (ct_rebuilding (ct_pcs s i) \<and> ct_inside (ct_pcs s j)) \<and>
    (ct_pcs s i \<in> {User Reads, User Writes} \<longrightarrow>
       0 < ct_pins (ct_st s) \<and> ct_present (ct_st s) \<and>
       ((\<forall>k < n. \<not> ct_modifying (ct_pcs s k)) \<longrightarrow> ct_bytes (ct_st s) = ct_value (ct_st s)))"
proof -
  have "ct_inv (ct_env t v) n (ct_object gone ob w)" using in_order_rest [OF assms(1)] by (intro rest_ct_inv) simp_all
  then have inv: "ct_inv (ct_env t v) n s" using cpp_threads.refines [OF assms(2) _ assms(3)] by simp
  note bk = ct_invD(1) [OF inv]
  have "0 < ct_pins (ct_st s)" if "ct_has_pin (ct_pcs s i)"
    using ct_booksD(2) [OF bk] tally_pos [of ct_has_pin n "ct_pcs s"] that assms(4) by auto
  moreover have "ct_present (ct_st s)" if "ct_inside (ct_pcs s i)"
    using ct_invD(3) [OF inv assms(4)] that by (simp add: ct_knows_def ct_need_def)
  moreover have "ct_bytes (ct_st s) = ct_value (ct_st s)" if "ct_inside (ct_pcs s i)" "\<forall>k < n. \<not> ct_modifying (ct_pcs s k)"
    using inside_shown [OF inv assms(4) that] by (simp add: ct_shown_def)
  ultimately show ?thesis
    using ct_alone [OF bk assms(4,5)] ct_invD(4) [OF inv assms(4,5)] by auto
qed

theorem cpp_threads_exclude_witness:
  "\<exists>s. runs (ct_step (ct_env True True) 3)
         (ct_object (mem_gone ex_table) (ex_cpp fill_fives 0) (ex_cppw ex_bytes)) [] s \<and>
       ct_pcs s 1 = User Reads \<and> \<not> ct_rebuilding (ct_pcs s 0) \<and> ct_bytes (ct_st s) = ct_value (ct_st s)"
proof -
  obtain s where s: "runs (ct_step (ct_env True True) 3)
      (ct_object (mem_gone ex_table) (ex_cpp fill_fives 0) (ex_cppw ex_bytes)) [] s"
    "ct_pcs s = (\<lambda>_. User Outside)(1 := User Reads)"
    using ex_object_reads by blast
  note ex = cpp_threads_exclude [OF ex_cpp_in_order s(1), simplified]
  show ?thesis using ex [of 0 1] ex [of 1 0] s by (intro exI [of _ s]) (simp add: s(2))
qed

text \<open>
  C5. Operations on a shared C++ object come to an end, on every object whose mutex is free, whatever its
  builders answer and even if the build count wraps. From every reachable state, let the threads go on in
  any order, users end the accesses they are in, and no new ones begin: after at most
  \<open>n (23 + 4 (l + n))\<close> steps, \<open>l\<close> the length of the log, every thread is out and the mutex is free; and unless the data was
  declared invalid meanwhile, or a pin was lost, no pin is left.
\<close>

theorem cpp_threads_finish:
  assumes "\<not> m_dataLock ob" "v \<or> m_isDataValid ob"
    and "runs (ct_step \<lparr>touches = t, wraps = wr, invalidates = v, loses = ls\<rparr> n) (ct_object gone ob w) es s"
    and "(ct_drain t n ^^ k) s s'"
  shows "k \<le> n * (23 + 4 * (length (ct_log (ct_st s)) + n)) \<and>
    ((\<exists>s''. ct_drain t n s' s'') \<or> ct_idle n s' \<and> (\<not> v \<and> \<not> ls \<longrightarrow> ct_pins (ct_st s') = 0))"
proof -
  have "ct_sane \<lparr>touches = t, wraps = wr, invalidates = v, loses = ls\<rparr> n (ct_object gone ob w)"
    using assms(1,2) by (intro idle_sane) (auto simp: ct_object_def ct_of_def ct_idle_def)
  from ct_finish [OF runs_keep_sane [OF assms(3) this] assms(4)] show ?thesis by simp
qed

theorem cpp_threads_finish_witness:
  "\<exists>s s'. runs (ct_step (ct_env True False) 3)
         (ct_object (mem_gone ex_table) (ex_cpp fill_fives 0) (ex_cppw ex_bytes)) [] s \<and> ct_pcs s 1 = User Reads \<and>
       (ct_drain True 3 ^^ 1) s s' \<and> ((\<exists>s''. ct_drain True 3 s' s'') \<or> ct_idle 3 s' \<and> ct_pins (ct_st s') = 0)"
proof -
  obtain s where "runs (ct_step (ct_env True False) 3)
      (ct_object (mem_gone ex_table) (ex_cpp fill_fives 0) (ex_cppw ex_bytes)) [] s"
    "ct_pcs s = (\<lambda>_. User Outside)(1 := User Reads)" using ex_object_reads by blast
  then have s: "runs (ct_step (ct_env True False) 3)
      (ct_object (mem_gone ex_table) (ex_cpp fill_fives 0) (ex_cppw ex_bytes)) [] s" "ct_pcs s 1 = User Reads" by simp_all
  have "ct_drain True 3 s (ct_move 1 (Lock Call_EndRead) (ct_st s) s)"
    using s(2) by (intro ct_drain) (simp_all add: ct_advance_def)
  then have d: "(ct_drain True 3 ^^ 1) s (ct_move 1 (Lock Call_EndRead) (ct_st s) s)" by (simp add: relcomppI)
  have "\<not> m_dataLock (ex_cpp fill_fives 0)" "False \<or> m_isDataValid (ex_cpp fill_fives 0)" by (simp_all add: ex_cpp_def)
  from cpp_threads_finish [OF this s(1) d] s d show ?thesis by blast
qed

text \<open>
  C9. The control points of a thread that calls \<open>BeginRead\<close>, or \<open>BeginWrite\<close>, of a \<open>PurgeableMem\<close> compute
  what these operations compute in memory, on every object and whatever its builders answer: the same
  result, mutex, build count, content, and presence of the pages.
\<close>

theorem mem_threads_run_begin:
  assumes "base_ready (calm os) ob w bs" "mem_inv os t ob w" "m_buildDataCount ob + 1 \<noteq> 0"
  shows "(\<exists>r ob' w'. BeginRead (calm os) (mem_vtable (calm os)) ob w = Some (r, ob', w') \<and>
       (ct_solo True)\<^sup>*\<^sup>* (Lock Call_BeginRead, ct_of (mem_gone t) k ob w)
         (User (if r then Reads else Outside), ct_of (mem_gone t) (if r then Suc k else k) ob' w')) \<and>
     (\<exists>r ob' w'. BeginWrite (calm os) (mem_vtable (calm os)) ob w = Some (r, ob', w') \<and>
       (ct_solo True)\<^sup>*\<^sup>* (Lock Call_BeginWrite, ct_of (mem_gone t) k ob w)
         (User (if r then Writes else Outside), ct_of (mem_gone t) (if r then Suc k else k) ob' w'))"
  using mem.begin_solo [OF assms] by blast

theorem mem_threads_run_begin_witness:
  "\<exists>r ob' w'. BeginRead (calm ex_pm_os) (mem_vtable (calm ex_pm_os)) (ex_cpp fail_build 0) (ex_cppw ex_bytes) = Some (r, ob', w') \<and>
     (ct_solo True)\<^sup>*\<^sup>* (Lock Call_BeginRead, ct_of (mem_gone ex_table) 2 (ex_cpp fail_build 0) (ex_cppw ex_bytes))
       (User (if r then Reads else Outside), ct_of (mem_gone ex_table) (if r then Suc 2 else 2) ob' w')"
proof -
  have "m_buildDataCount (ex_cpp fail_build 0) + 1 \<noteq> 0" by (simp add: ex_cpp_def)
  from mem_threads_run_begin [OF ex_cpp_ready [OF ex_keeps(2) ex_bytes_length] ex_cpp_inv this, where k = 2] show ?thesis by blast
qed

text \<open>
  The same for \<open>PurgeableAshMem\<close>, where a store does not make the pages present and the driver is told
  that a rebuild succeeded.
\<close>

theorem ash_threads_run_begin:
  assumes "base_ready (ash_mem os) ob w bs" "ash_inv os ob w" "m_buildDataCount ob + 1 \<noteq> 0"
  shows "(\<exists>r ob' w'. BeginRead (ash_mem os) (ash_vtable os) ob w = Some (r, ob', w') \<and>
       (ct_solo False)\<^sup>*\<^sup>* (Lock Call_BeginRead, ct_of (ash_gone os) k ob w)
         (User (if r then Reads else Outside), ct_of (ash_gone os) (if r then Suc k else k) ob' w')) \<and>
     (\<exists>r ob' w'. BeginWrite (ash_mem os) (ash_vtable os) ob w = Some (r, ob', w') \<and>
       (ct_solo False)\<^sup>*\<^sup>* (Lock Call_BeginWrite, ct_of (ash_gone os) k ob w)
         (User (if r then Writes else Outside), ct_of (ash_gone os) (if r then Suc k else k) ob' w'))"
  using ash.begin_solo [OF assms] by blast

text \<open>
  The control points of a thread that ends an access of a \<open>PurgeableMem\<close>, or modifies the content inside
  one, compute what \<open>EndRead\<close>, \<open>EndWrite\<close> and \<open>ModifyContentByBuilder\<close> compute in memory.
\<close>

theorem mem_threads_run_others:
  assumes "base_ready (calm os) ob w bs" "mem_inv os t ob w"
  shows "(\<exists>w'. EndRead (mem_vtable (calm os)) ob w = Some ((), ob, w') \<and>
       (ct_solo True)\<^sup>*\<^sup>* (Lock Call_EndRead, ct_of (mem_gone t) k ob w) (User Outside, ct_of (mem_gone t) (k - 1) ob w')) \<and>
     (\<exists>w'. EndWrite (mem_vtable (calm os)) ob w = Some ((), ob, w') \<and>
       (ct_solo True)\<^sup>*\<^sup>* (Lock Call_EndWrite, ct_of (mem_gone t) k ob w) (User Outside, ct_of (mem_gone t) (k - 1) ob w')) \<and>
     (\<forall>md. single md \<and> keeps_size (v_Build md) \<and> \<not> mem_gone t ob w \<longrightarrow>
       (\<exists>r ob' w'. ModifyContentByBuilder (calm os) (Some md) ob w = Some (r, ob', w') \<and>
         (ct_solo True)\<^sup>*\<^sup>* (Lock (Call_Modify (v_Build md)), ct_of (mem_gone t) k ob w)
           (User Writes, ct_of (mem_gone t) k ob' w')))"
proof -
  have "\<not> m_dataLock ob" "m_isDataValid ob" using assms(1) by (simp_all add: base_ready_def)
  then show ?thesis using mem.end_solo [OF _ assms(2), of k] mem.modify_solo [OF assms] by auto
qed

section \<open>A build count that wraps\<close>

text \<open>
  Where the assumption that no \<open>BeginWrite\<close> wraps \<open>buildDataCount_\<close> is needed. \<open>BeginWrite\<close> returns after
  one rebuild even if the count is then zero, which means \<^emph>\<open>never built\<close>; the next \<open>BeginRead\<close> clears the
  content under the writer that is inside its access. \<open>BeginRead\<close> itself goes round its loop again and
  leaves the count at one.
\<close>

theorem wrapped_count_tears_content:
  assumes o: "in_order os ok gone ob w" and cnt: "m_buildDataCount ob + 1 = 0" and ne: "logged ob \<noteq> b_zeros ob"
  shows "\<exists>es s. runs (ct_step \<lparr>touches = t, wraps = True, invalidates = False, loses = False\<rparr> 2) (ct_object gone ob w) es s \<and>
    ct_pcs s 0 = User Writes \<and> buffer_run (logged ob) es = None"
proof -
  let ?e = "\<lparr>touches = t, wraps = True, invalidates = False, loses = False\<rparr>" and ?s = "ct_object gone ob w"
  let ?st = "(ct_of gone 0 ob w)\<lparr>ct_present := False, ct_bytes := ct_bytes (ct_of gone 0 ob w)\<rparr>"
  obtain bs where b: "base_ready os ob w bs" "replays ob" using o by (auto simp: in_order_def)
  note z = shown_ready(2) [OF b(1)] and lg = ct_of_log [OF b(1), of gone 0]
  have st: "\<not> ct_mutex ?st" "ct_valid ?st" "ct_need ?st" using b by (simp_all add: ct_of_def base_ready_def ct_need_def)
  have run: "run_builds (ct_log ?st) (replicate (length (ct_bytes ?st)) 0) = (True, logged ob)" using lg b(2) by simp
  define s1 where "s1 = ?s\<lparr>ct_st := ?st\<rparr>"
  have r1: "runs (ct_step ?e 2) ?s [] s1" using ct_purge [of ?s "ct_bytes (ct_of gone 0 ob w)" ?e 2]
    by (intro runs_one) (simp add: s1_def ct_object_def ct_of_def)
  define s2 where "s2 = ct_move 0 (Lock Call_BeginWrite) ?st s1"
  have r2: "runs (ct_step ?e 2) s1 [] s2" using ct_begin [of 0 2 s1 Call_BeginWrite ?e]
    by (intro runs_one) (simp add: s1_def s2_def ct_object_def)
  let ?y = "solo_end t Writes True (logged ob) ?st"
  have "(ct_solo t)\<^sup>*\<^sup>* (Lock Call_BeginWrite, ?st) ?y" by (rule solo_begin(2) [OF st(1,2) run])
  then have r3: "runs (ct_step ?e 2) s2 [] (ct_move 0 (fst ?y) (snd ?y) s2)"
    using unpending_runs [of ?e s2 0 ?y 2] by (simp add: s2_def)
  have y: "fst ?y = User Writes" "ct_count (snd ?y) = 0" "\<not> ct_mutex (snd ?y)" "ct_valid (snd ?y)"
    "length (ct_bytes (snd ?y)) = length (b_zeros ob)"
    using st cnt length_logged [OF b(1)] by (simp_all add: solo_end_def) (simp_all add: ct_of_def b_zeros_def)
  define s3 where "s3 = ct_move 0 (fst ?y) (snd ?y) s2"
  define s4 where "s4 = ct_move 1 (Lock Call_BeginRead) (snd ?y) s3"
  have r4: "runs (ct_step ?e 2) s3 [] s4" using ct_begin [of 1 2 s3 Call_BeginRead ?e]
    by (intro runs_one) (simp add: s1_def s2_def s3_def s4_def ct_object_def)
  obtain pc st' where solo: "(ct_solo t)\<^sup>*\<^sup>* (Lock Call_BeginRead, snd ?y) (pc, st')" "ct_bytes st' = b_zeros ob"
    using solo_clears [OF y(3,4,2), of t] y(5) by (auto simp: b_zeros_def)
  have "runs (ct_step ?e 2) s4 [] (ct_move 1 (fst (pc, st')) (snd (pc, st')) s4) \<and> \<not> ct_pending (fst (pc, st'))"
    using solo(1) by (intro unpending_runs) (simp_all add: s4_def)
  then have r5: "runs (ct_step ?e 2) s4 [] (ct_move 1 pc st' s4)" and quiet: "\<not> ct_modifying pc"
    using modifying_pending [of pc] by auto
  have "ct_pcs (ct_move 1 pc st' s4) 0 = User Writes" using y(1) by (simp only: s4_def s3_def ct_move_simps fun_upd_apply) simp
  moreover from this have "\<forall>j < 2. \<not> ct_modifying (ct_pcs (ct_move 1 pc st' s4) j)" using quiet by (auto simp: less_2_cases_iff)
  then have "ct_step ?e 2 (ct_move 1 pc st' s4) [Observe (b_zeros ob)] (ct_move 1 pc st' s4)"
    using ct_look [of 0 2 "ct_move 1 pc st' s4" ?e] solo(2) calculation by simp
  ultimately show ?thesis
    using runs_trans [OF runs_one runs_trans [OF r5 runs_trans [OF r4 runs_trans [OF r3 [folded s3_def] runs_trans [OF r2 r1]]]]] ne
    by (intro exI [of _ "[Observe (b_zeros ob)]"] exI [of _ "ct_move 1 pc st' s4"]) auto
qed

theorem wrapped_count_tears_content_witness:
  "\<exists>es s. runs (ct_step \<lparr>touches = True, wraps = True, invalidates = False, loses = False\<rparr> 2)
       (ct_object (mem_gone ex_table) (ex_cpp fill_fives 0xFFFFFFFF) (ex_cppw (replicate 4 5 @ replicate 4092 7))) es s \<and>
     ct_pcs s 0 = User Writes \<and> buffer_run (replicate 4 5) es = None"
proof -
  let ?bs = "replicate 4 5 @ replicate 4092 (7 :: byte)" and ?ob = "ex_cpp fill_fives 0xFFFFFFFF"
  have "base_ready (calm ex_pm_os) ?ob (ex_cppw ?bs) ?bs" by (rule ex_cpp_ready [OF ex_keeps(1)]) simp
  then have o: "in_order (calm ex_pm_os) (mem_inv ex_pm_os ex_table) (mem_gone ex_table) ?ob (ex_cppw ?bs)"
    using ex_cpp_inv ex_cpp_log(2) unfolding in_order_def in_sync_def ex_cpp_log(1)
    by (auto simp: ex_cpp_def ex_cppw_def)
  have "m_buildDataCount ?ob + 1 = 0" by (simp add: ex_cpp_def)
  moreover have "logged ?ob \<noteq> b_zeros ?ob" 
    unfolding ex_cpp_log(1) by (simp add: ex_cpp_def b_zeros_def)
  ultimately show ?thesis using wrapped_count_tears_content [OF o, of True] unfolding ex_cpp_log(1) by blast
qed

end
