(* ===== verification/Cpp_Life.thy ===== *)
theory Cpp_Life
  imports Cpp_Mem_Seq Cpp_Bound Purg_Life
begin

text \<open>
  Life of a \<open>PurgeableMem\<close>: construction, resizing and destruction, and an object whose page table
  could not be mapped.
\<close>

lemma Mem_RoundUp_eq: "Mem_RoundUp = RoundUp"
  by (intro ext) (simp add: Mem_RoundUp_def RoundUp_def)

lemma mem_vtable_sel [simp]:
  "v_Pin (mem_vtable os) = Mem_Pin os" "v_Unpin (mem_vtable os) = Mem_Unpin os"
  "v_IsPurged (mem_vtable os) = Mem_IsPurged os" "v_AfterRebuildSucc (mem_vtable os) = Mem_AfterRebuildSucc"
  by (simp_all add: mem_vtable_def)

section \<open>Without a page table\<close>

text \<open>On the null table nothing is pinned and no page counts as present.\<close>

lemma no_table_methods:
  assumes "m_pageTable ob = Some \<lparr>m_uxpt = NULL\<rparr>" "g_supportUxpt (ux w)"
  shows "Mem_Pin os ob w = Some (True, w)" "Mem_Unpin os ob w = Some (True, w)"
    "Mem_IsPurged os ob w = Some (True, w)"
  using assms
  by (simp_all add: Mem_Pin_def Mem_Unpin_def Mem_IsPurged_def Cpp_GetUxpte_def Cpp_PutUxpte_def CheckPresent_def
      lift_ux_def lift_ux_unit_def UxpteGet_def UxptePut_def UxpteIsPresent_def UxpteOps_def)

definition touch_keeps_support :: "pm_os \<Rightarrow> bool" where
  "touch_keeps_support os \<longleftrightarrow> (\<forall>n d s. g_supportUxpt (os_touch os n d s) = g_supportUxpt s)"

lemma store_support:
  "touch_keeps_support os \<Longrightarrow> g_supportUxpt (ux (store_data os d bs w)) = g_supportUxpt (ux w)"
  by (simp add: touch_keeps_support_def store_data_def bump_def)

lemma no_table_build:
  assumes "base_ready os (ob\<lparr>m_dataLock := False\<rparr>) w bs" "replays ob" "touch_keeps_support os" "g_supportUxpt (ux w)"
  shows "\<exists>w'. BuildContent os ob w = Some (True, count_up 1 ob, w') \<and> g_supportUxpt (ux w') \<and>
    base_ready os (ob\<lparr>m_dataLock := False\<rparr>) w' (with_content ob (logged ob) bs)"
proof -
  obtain bs1 where "BuildContent os ob w = Some (True, count_up 1 ob,
      store_data os (m_dataPtr ob) (with_content ob (logged ob) bs) (store_data os (m_dataPtr ob) bs1 w))"
    using BuildContent_effect [OF assms(1)] assms(2) by (auto simp: count_up_def)
  moreover have "length (with_content ob (logged ob) bs) = length bs" using length_with_logged [OF assms(1)] by simp
  then have "base_ready os (ob\<lparr>m_dataLock := False\<rparr>)
      (store_data os (m_dataPtr ob) (with_content ob (logged ob) bs) (store_data os (m_dataPtr ob) bs1 w))
      (with_content ob (logged ob) bs)"
    using assms(1) by (simp add: base_ready_def)
  ultimately show ?thesis using assms(3,4) by (simp add: store_support)
qed

lemma count_up_logged [simp]:
  "replays (count_up j ob) = replays ob" "logged (count_up j ob) = logged ob"
  "m_dataLock (count_up j ob) = m_dataLock ob" "m_pageTable (count_up j ob) = m_pageTable ob"
  "base_ready os (count_up j ob) w bs = base_ready os ob w bs"
  by (simp_all add: count_up_def base_ready_count)

lemma no_table_need:
  assumes "m_pageTable ob = Some \<lparr>m_uxpt = NULL\<rparr>" "g_supportUxpt (ux w)"
  shows "IfNeedRebuild (mem_vtable os) ob w = Some (True, w)"
  using no_table_methods(3) [OF assms, of os] by (simp add: IfNeedRebuild_def)

lemma no_table_while:
  assumes "m_pageTable ob = Some \<lparr>m_uxpt = NULL\<rparr>" "g_supportUxpt (ux w)" "touch_keeps_support os"
    "base_ready os (ob\<lparr>m_dataLock := False\<rparr>) w bs" "replays ob" "k \<le> 3"
  shows "\<exists>w'. BeginRead_while os (mem_vtable os) k ob w = Some (False, count_up (4 - k) ob, w') \<and>
    g_supportUxpt (ux w')"
  using assms
proof (induction "3 - k" arbitrary: k ob w bs)
  case 0
  then have k: "k = 3" by simp
  obtain w' where "BuildContent os ob w = Some (True, count_up 1 ob, w')" "g_supportUxpt (ux w')"
    using no_table_build [OF 0(5,6,4,3)] by blast
  then show ?case
    using no_table_need [OF 0(2,3), of os]
    by (simp add: BeginRead_while.simps [of os _ 3 ob w] Mem_AfterRebuildSucc_def MAX_BUILD_TRYTIMES_def k)
next
  case (Suc n)
  obtain w1 where w1: "BuildContent os ob w = Some (True, count_up 1 ob, w1)" "g_supportUxpt (ux w1)"
    "base_ready os (ob\<lparr>m_dataLock := False\<rparr>) w1 (with_content ob (logged ob) bs)"
    using no_table_build [OF Suc(6,7,5,4)] by blast
  have k: "k < 3" "n = 3 - Suc k" "Suc (3 - k) = 4 - k" using Suc.hyps(2) by simp_all
  then have "BeginRead_while os (mem_vtable os) k ob w =
      BeginRead_while os (mem_vtable os) (Suc k) (count_up 1 ob) w1"
    using no_table_need [OF Suc(3,4), of os] w1(1)
    by (simp add: BeginRead_while.simps [of os _ k ob w] Mem_AfterRebuildSucc_def MAX_BUILD_TRYTIMES_def)
  then show ?case
    using Suc.hyps(1) [OF k(2), of "count_up 1 ob" w1 "with_content ob (logged ob) bs"] w1 Suc.prems k by simp
qed

lemma no_table_accesses:
  assumes tab: "m_pageTable ob = Some \<lparr>m_uxpt = NULL\<rparr>" "g_supportUxpt (ux w)" "touch_keeps_support os"
    and rdy: "base_ready os ob w bs" "replays ob"
  shows "\<exists>w'. BeginRead os (mem_vtable os) ob w = Some (False, count_up 4 ob, w')"
    and "\<exists>w'. BeginWrite os (mem_vtable os) ob w = Some (True, count_up 1 ob, w')"
proof -
  let ?ob = "ob\<lparr>m_dataLock := True\<rparr>"
  have g: "\<not> m_dataLock ob" "m_isDataValid ob" "m_dataPtr ob \<noteq> NULL" "\<exists>b. m_builder ob = Some b"
    using rdy(1) by (auto simp: base_ready_def)
  have ob: "m_pageTable ?ob = Some \<lparr>m_uxpt = NULL\<rparr>" "base_ready os (?ob\<lparr>m_dataLock := False\<rparr>) w bs" "replays ?ob"
    using tab rdy g(1) by simp_all
  obtain w1 where "BeginRead_while os (mem_vtable os) 0 ?ob w = Some (False, count_up 4 ?ob, w1)" "g_supportUxpt (ux w1)"
    using no_table_while [OF ob(1) tab(2,3) ob(2,3), of 0] by auto
  moreover have "m_pageTable (count_up 4 ?ob) = Some \<lparr>m_uxpt = NULL\<rparr>" using ob(1) by simp
  ultimately show "\<exists>w'. BeginRead os (mem_vtable os) ob w = Some (False, count_up 4 ob, w')"
    using g no_table_methods(1) [OF ob(1) tab(2), of os] no_table_methods(2) [of "count_up 4 ?ob" w1 os]
    by (auto simp: BeginRead_def lock_guard_free BeginRead_locked_def)
  obtain w2 where "BuildContent os ?ob w = Some (True, count_up 1 ?ob, w2)"
    using no_table_build [OF ob(2,3) tab(3,2)] by blast
  moreover obtain b where "m_builder ob = Some b" using g(4) by blast
  ultimately have "BeginWrite os (mem_vtable os) ob w = Some (True, count_up 1 ob, w2)"
    using g(1,3) no_table_methods(1) [OF ob(1) tab(2), of os] no_table_need [OF ob(1) tab(2), of os]
    by (simp add: BeginWrite_def lock_guard_free BeginWrite_locked_def Mem_AfterRebuildSucc_def)
  then show "\<exists>w'. BeginWrite os (mem_vtable os) ob w = Some (True, count_up 1 ob, w')" by blast
qed

section \<open>Construction\<close>

text \<open>
  What a constructor asks for, in order: the data mapping, the \<open>UxPageTable\<close> object, its struct, the
  table mapping.
\<close>

definition cpp_data_at :: "pm_os \<Rightarrow> size_t \<Rightarrow> 'b world_scheme \<Rightarrow> ptr" where
  "cpp_data_at os len w = os_mmap os (now w) (RoundUp len PAGE_SIZE) PROT_RW (TypeCast w)"

definition cpp_upt_at :: "pm_os \<Rightarrow> 'b world_scheme \<Rightarrow> ptr" where
  "cpp_upt_at os w = os_malloc os (Suc (Suc (now w)))"

definition cpp_table_at :: "pm_os \<Rightarrow> size_t \<Rightarrow> 'b world_scheme \<Rightarrow> ptr" where
  "cpp_table_at os len w =
     table_mmap (uxos os) (Suc (Suc (Suc (now w)))) (cpp_data_at os len w) (RoundUp len PAGE_SIZE)"

definition cpp_table :: "pm_os \<Rightarrow> size_t \<Rightarrow> 'b world_scheme \<Rightarrow> UxPageTableStruct" where
  "cpp_table os len w =
     \<lparr>dataAddr = cpp_data_at os len w, dataSize = RoundUp len PAGE_SIZE, uxpte = cpp_table_at os len w\<rparr>"

definition cpp_new_obj :: "ptr \<Rightarrow> size_t \<Rightarrow> PurgeableMemBuilder \<Rightarrow> ptr \<Rightarrow> PurgeableMem" where
  "cpp_new_obj d len b u =
     \<lparr>m_dataPtr = d, m_dataLock = False, m_isDataValid = True, m_dataSizeInput = len,
      m_builder = Some b, m_buildDataCount = 0, m_pageTable = Some \<lparr>m_uxpt = u\<rparr>\<rparr>"

text \<open>All requests are granted, with memory that was not in use.\<close>

definition cpp_create_env :: "pm_os \<Rightarrow> size_t \<Rightarrow> 'b world_scheme \<Rightarrow> bool" where
  "cpp_create_env os len w \<longleftrightarrow>
     (let d = cpp_data_at os len w in
      d \<noteq> MAP_FAILED \<and> d \<noteq> NULL \<and> unat d mod 4096 = 0 \<and> unat d + unat len + 8192 < 2 ^ 64 \<and>
      regions w d = None \<and> os_malloc os (Suc (now w)) \<noteq> NULL \<and> cpp_upt_at os w \<noteq> NULL \<and>
      upts (ux w) (cpp_upt_at os w) = None \<and>
      (g_supportUxpt (ux w) \<longrightarrow>
         mmap_fresh (cpp_table_at os len w) (GetUxPageSize d (RoundUp len PAGE_SIZE)) (ux w)))"

definition valid_size :: "size_t \<Rightarrow> bool" where
  "valid_size len \<longleftrightarrow> 0 < len \<and> len < OHOS_MAXIMUM_PURGEABLE_MEMORY"

text \<open>The state before the page table object is set up.\<close>

definition cpp_before_init :: "pm_os \<Rightarrow> size_t \<Rightarrow> 'b world_scheme \<Rightarrow> 'b world_scheme" where
  "cpp_before_init os len w =
     w\<lparr>ux := (ux w)\<lparr>tick := Suc (Suc (now w))\<rparr>,
       regions := (regions w)(cpp_data_at os len w \<mapsto> replicate (unat (RoundUp len PAGE_SIZE)) 0)\<rparr>"

lemma ctor_unfold:
  assumes "valid_size len" "cpp_data_at os len w \<noteq> MAP_FAILED" "os_malloc os (Suc (now w)) \<noteq> NULL"
  shows "PurgeableMem_ctor os len (Some b) w =
    do { (t, w5) \<leftarrow> UxPageTable_ctor os (cpp_data_at os len w) (RoundUp len PAGE_SIZE) (cpp_before_init os len w);
         Some ((cpp_new_obj (cpp_data_at os len w) len b 0)\<lparr>m_pageTable := Some t\<rparr>, w5) }"
proof -
  let ?d = "cpp_data_at os len w" and ?sz = "RoundUp len PAGE_SIZE"
  let ?ob = "\<lparr>m_dataPtr = NULL, m_dataLock = False, m_isDataValid = True, m_dataSizeInput = len,
      m_builder = None, m_buildDataCount = 0, m_pageTable = None\<rparr>"
  have "now (bump w\<lparr>regions := r\<rparr>) = Suc (now w)"
    "bump (bump w\<lparr>regions := r\<rparr>) = w\<lparr>ux := (ux w)\<lparr>tick := Suc (Suc (now w))\<rparr>, regions := r\<rparr>" for r
    by (simp_all add: bump_def now_def)
  then have create: "Mem_CreatePurgeableData os ?ob w =
      do { (t, w5) \<leftarrow> UxPageTable_ctor os ?d ?sz (cpp_before_init os len w);
           Some (True, ?ob\<lparr>m_dataPtr := ?d, m_pageTable := Some t\<rparr>, w5) }"
    using assms(2,3)
    by (simp add: Mem_CreatePurgeableData_def reset_pageTable_def Mem_RoundUp_eq TypeCast_def [symmetric]
        cpp_data_at_def [symmetric] cpp_before_init_def Let_def)
  have "\<not> (len \<le> 0 \<or> len \<ge> OHOS_MAXIMUM_PURGEABLE_MEMORY)" using assms(1) by (auto simp: valid_size_def)
  then have "PurgeableMem_ctor os len (Some b) w =
      do { (ok, ob2, w1) \<leftarrow> Mem_CreatePurgeableData os ?ob w;
           if \<not> ok then Some (ob2, w1) else Some (ob2\<lparr>m_builder := Some b\<rparr>, w1) }"
    by (simp add: PurgeableMem_ctor_def PurgeableMem_new_def PurgeableMemBase_init_def PurgeableMemBase.extend_def Let_def)
  then show ?thesis
    unfolding create
    by (cases "UxPageTable_ctor os ?d ?sz (cpp_before_init os len w)") (auto simp: cpp_new_obj_def)
qed

text \<open>The page table object on a new region, with kernel support and without.\<close>

lemma cpp_geometry:
  assumes "cpp_create_env os len w" "valid_size len"
  shows "geometry (cpp_table os len w) (c_view (cpp_new_obj (cpp_data_at os len w) len b u))"
    "0 < unat (RoundUp len PAGE_SIZE)"
    "unat (cpp_data_at os len w) + unat (RoundUp len PAGE_SIZE) + 4096 < 2 ^ 64"
    "unat len \<le> unat (RoundUp len PAGE_SIZE)"
proof -
  have "0 < unat len" using assms(2) by (simp add: valid_size_def word_less_nat_alt)
  then show geo: "geometry (cpp_table os len w) (c_view (cpp_new_obj (cpp_data_at os len w) len b u))"
    using assms(1) by (simp add: geometry_def cpp_table_def cpp_new_obj_def cpp_create_env_def Let_def)
  have "unat len \<le> unat (RoundUp len PAGE_SIZE)" "unat (RoundUp len PAGE_SIZE) < unat len + 4096"
    using geometry_size(2,3) [OF geo] by (simp_all add: cpp_table_def cpp_new_obj_def)
  then show "0 < unat (RoundUp len PAGE_SIZE)" "unat len \<le> unat (RoundUp len PAGE_SIZE)"
    "unat (cpp_data_at os len w) + unat (RoundUp len PAGE_SIZE) + 4096 < 2 ^ 64"
    using \<open>0 < unat len\<close> assms(1) by (simp_all add: cpp_create_env_def Let_def)
qed

text \<open>What the page table component looks like after a construction.\<close>

definition cpp_inited :: "pm_os \<Rightarrow> size_t \<Rightarrow> 'b world_scheme \<Rightarrow> uxpt_st \<Rightarrow> bool" where
  "cpp_inited os len w s \<longleftrightarrow>
     (let t = cpp_table os len w; sz = GetUxPageSize (dataAddr t) (dataSize t) in
      g_supportUxpt s = g_supportUxpt (ux w) \<and> (\<exists>x. upts s = (upts (ux w))(cpp_upt_at os w \<mapsto> x)) \<and>
      (if g_supportUxpt (ux w) then
         upt_ok s (cpp_upt_at os w) t \<and> uxpte t \<noteq> NULL \<and> \<not> all_present t (ptes s) \<and>
         (\<forall>a. if in_mapping (uxpte t) sz a then ptes (ux w) a = None else ptes s a = ptes (ux w) a)
       else ptes s = ptes (ux w)))"

definition before_table :: "pm_os \<Rightarrow> 'b world_scheme \<Rightarrow> uxpt_st" where
  "before_table os w = (ux w)\<lparr>tick := Suc (Suc (Suc (now w))),
     upts := (upts (ux w))(cpp_upt_at os w \<mapsto> os_junk_upt os (Suc (Suc (now w))))\<rparr>"

lemma UxPageTable_ctor_unfold:
  assumes "cpp_upt_at os w \<noteq> NULL"
  shows "UxPageTable_ctor (calm os) (cpp_data_at os len w) (RoundUp len PAGE_SIZE) (cpp_before_init os len w) =
      do { (err, s1) \<leftarrow> InitUxPageTable (quieten (uxos os)) (cpp_upt_at os w) (cpp_data_at os len w)
                          (RoundUp len PAGE_SIZE) (before_table os w);
           if err \<noteq> PM_OK
           then Some (\<lparr>m_uxpt = NULL\<rparr>, cfree_upt (cpp_upt_at os w) ((cpp_before_init os len w)\<lparr>ux := s1\<rparr>))
           else Some (\<lparr>m_uxpt = cpp_upt_at os w\<rparr>, (cpp_before_init os len w)\<lparr>ux := s1\<rparr>) }"
proof -
  let ?w = "cpp_before_init os len w" and ?u = "cpp_upt_at os w" and ?d = "cpp_data_at os len w" and ?sz = "RoundUp len PAGE_SIZE"
  have n: "now ?w = Suc (Suc (now w))" by (simp add: now_def cpp_before_init_def)
  have e: "ux ((bump ?w)\<lparr>ux := (ux (bump ?w))\<lparr>upts := (upts (ux (bump ?w)))(?u \<mapsto> os_junk_upt os (Suc (Suc (now w))))\<rparr>\<rparr>) =
      before_table os w"
    by (simp add: before_table_def bump_def cpp_before_init_def now_def)
  show ?thesis
    using assms e
    by (cases "InitUxPageTable (quieten (uxos os)) ?u ?d ?sz (before_table os w)")
       (auto simp: UxPageTable_ctor_def n cpp_upt_at_def [symmetric] Let_def lift_ux_def bump_def)
qed

lemma UxPageTable_ctor_spec:
  assumes env: "cpp_create_env os len w" and len: "valid_size len"
  shows "\<exists>s1. UxPageTable_ctor (calm os) (cpp_data_at os len w) (RoundUp len PAGE_SIZE) (cpp_before_init os len w) =
           Some (\<lparr>m_uxpt = cpp_upt_at os w\<rparr>, (cpp_before_init os len w)\<lparr>ux := s1\<rparr>) \<and> cpp_inited os len w s1"
proof -
  let ?d = "cpp_data_at os len w" and ?sz = "RoundUp len PAGE_SIZE" and ?u = "cpp_upt_at os w"
  let ?t = "cpp_table os len w" and ?p = "cpp_table_at os len w"
  define s where "s = before_table os w"
  note s_fields = s_def before_table_def
  have u: "?u \<noteq> NULL" "upts (ux w) ?u = None" using env by (simp_all add: cpp_create_env_def Let_def)
  note unf = UxPageTable_ctor_unfold [OF u(1), folded s_def]
  show ?thesis
  proof (cases "g_supportUxpt (ux w)")
    case False
    then have "InitUxPageTable (quieten (uxos os)) ?u ?d ?sz s = Some (PM_OK, s)"
      by (simp add: InitUxPageTable_def s_fields)
    moreover have "cpp_inited os len w s"
      using False by (auto simp: s_fields cpp_inited_def Let_def)
    ultimately show ?thesis by (intro exI [of _ s]) (simp add: unf)
  next
    case True
    have s: "g_supportUxpt s" "upts s ?u = Some (os_junk_upt os (Suc (Suc (now w))))" "ptes s = ptes (ux w)"
      "tick s = Suc (Suc (Suc (now w)))" "upts s = (upts (ux w))(?u \<mapsto> os_junk_upt os (Suc (Suc (now w))))"
      using True by (simp_all add: s_fields)
    have p: "?p = table_mmap (uxos os) (tick s) ?d ?sz" "mmap_fresh ?p (GetUxPageSize ?d ?sz) s"
      using env True s by (simp_all add: cpp_table_at_def cpp_create_env_def Let_def mmap_fresh_def)
    have t: "?t = \<lparr>dataAddr = ?d, dataSize = ?sz, uxpte = ?p\<rparr>" by (simp add: cpp_table_def)
    obtain s1 where s1: "InitUxPageTable (quieten (uxos os)) ?u ?d ?sz s = Some (PM_OK, s1)" "g_supportUxpt s1"
      "upts s1 = (upts s)(?u \<mapsto> ?t)" "upt_ok s1 ?u ?t"
      "\<forall>a. \<not> in_mapping ?p (GetUxPageSize ?d ?sz) a \<longrightarrow> ptes s1 a = ptes s a"
      "req_ok ?t ?d ?sz \<longrightarrow> (\<forall>x \<in> set (req_pages ?d ?sz). ptes s1 (uxpte_slot ?t x) = Some 0)"
      using Init_effect [OF s(1) u(1) s(2) cpp_geometry(2,3) [OF env len] p t] by blast
    note geo = cpp_geometry(1) [OF env len]
    have "req_ok ?t ?d ?sz"
      using geometry_size [OF geo] geo req_ok_whole [of ?t] by (simp add: geometry_def cpp_table_def cpp_new_obj_def)
    then have "\<not> all_present ?t (ptes s1)"
      using s1(6) first_page [OF geo] by (auto simp: all_present_def t IsUxptePresent_bit)
    moreover have "?p \<noteq> NULL" "\<forall>a. in_mapping ?p (GetUxPageSize ?d ?sz) a \<longrightarrow> ptes (ux w) a = None"
      using p(2) s(3) by (simp_all add: mmap_fresh_def)
    ultimately have "cpp_inited os len w s1"
      using s1 s True by (auto simp: cpp_inited_def Let_def cpp_table_def)
    then show ?thesis using s1(1) by (intro exI [of _ s1]) (simp add: unf)
  qed
qed

text \<open>If the table cannot be mapped, the struct is freed again and the object keeps a null table.\<close>

lemma UxPageTable_ctor_fails:
  assumes "g_supportUxpt (ux w)" "cpp_upt_at os w \<noteq> NULL" "cpp_table_at os len w = MAP_FAILED"
  shows "\<exists>s1. UxPageTable_ctor (calm os) (cpp_data_at os len w) (RoundUp len PAGE_SIZE) (cpp_before_init os len w) =
           Some (\<lparr>m_uxpt = NULL\<rparr>, (cpp_before_init os len w)\<lparr>ux := s1\<rparr>) \<and> g_supportUxpt s1"
proof -
  obtain s1 where "InitUxPageTable (quieten (uxos os)) (cpp_upt_at os w) (cpp_data_at os len w) (RoundUp len PAGE_SIZE)
      (before_table os w) = Some (PM_MMAP_UXPT_FAIL, s1)" "g_supportUxpt s1"
    using assms by (simp add: InitUxPageTable_def before_table_def MapUxptePages_def mmap_uxpt_def Let_def cpp_table_at_def)
  then show ?thesis
    using assms(2)
    by (intro exI [of _ "s1\<lparr>upts := (upts s1)(cpp_upt_at os w := None)\<rparr>"])
       (simp add: UxPageTable_ctor_unfold [OF assms(2)] cfree_upt_def free_upt_def)
qed

text \<open>A new object is in order, its content not built.\<close>

lemma PurgeableMem_ctor_spec:
  assumes env: "cpp_create_env os len w" and len: "valid_size len"
  shows "\<exists>s1. PurgeableMem_ctor (calm os) len (Some b) w =
           Some (cpp_new_obj (cpp_data_at os len w) len b (cpp_upt_at os w), (cpp_before_init os len w)\<lparr>ux := s1\<rparr>) \<and>
         cpp_inited os len w s1"
proof -
  have d: "cpp_data_at os len w \<noteq> MAP_FAILED" "os_malloc os (Suc (now w)) \<noteq> NULL"
    using env by (simp_all add: cpp_create_env_def Let_def)
  have [simp]: "cpp_data_at (calm os) len w = cpp_data_at os len w"
    "cpp_before_init (calm os) len w = cpp_before_init os len w"
    by (simp_all add: cpp_data_at_def cpp_before_init_def)
  show ?thesis
    using UxPageTable_ctor_spec [OF env len] ctor_unfold [of len "calm os" w b] d len
    by (auto simp: cpp_new_obj_def)
qed

text \<open>So it can be accessed, and its first access builds the content.\<close>

lemma cpp_new_ready:
  assumes env: "cpp_create_env os len w" and len: "valid_size len" and s: "cpp_inited os len w s1"
    and b: "\<forall>f \<in> set (chain_of b). keeps_size f" "memset_ok os (RoundUp len PAGE_SIZE)"
    and os: "touch_ok os (cpp_table os len w)"
  defines "ob \<equiv> cpp_new_obj (cpp_data_at os len w) len b (cpp_upt_at os w)"
    and "w' \<equiv> (cpp_before_init os len w)\<lparr>ux := s1\<rparr>"
  shows "base_ready (calm os) ob w' (replicate (unat (RoundUp len PAGE_SIZE)) 0)"
    "mem_inv os (cpp_table os len w) ob w'"
proof -
  have "cpp_data_at os len w \<noteq> NULL" using env by (simp add: cpp_create_env_def Let_def)
  then show "base_ready (calm os) ob w' (replicate (unat (RoundUp len PAGE_SIZE)) 0)"
    using b cpp_geometry(4) [OF env len]
    by (auto simp: base_ready_def ob_def w'_def cpp_new_obj_def cpp_before_init_def memset_ok_def)
  show "mem_inv os (cpp_table os len w) ob w'"
    using os s cpp_geometry(1) [OF env len, of b "cpp_upt_at os w"]
    by (auto simp: mem_inv_def ob_def w'_def cpp_inited_def Let_def cpp_new_obj_def)
qed

section \<open>Destruction\<close>

text \<open>What the object held is gone: the region, the table struct, the entries of the table mapping.\<close>

definition cpp_released :: "'b world_scheme \<Rightarrow> UxPageTableStruct \<Rightarrow> ptr \<Rightarrow> ptr \<Rightarrow> 'b world_scheme \<Rightarrow> bool" where
  "cpp_released w t d u w' \<longleftrightarrow>
     regions w' = (regions w)(d := None) \<and> upts (ux w') = (upts (ux w))(u := None) \<and>
     g_supportUxpt (ux w') = g_supportUxpt (ux w) \<and>
     ptes (ux w') = (if g_supportUxpt (ux w)
        then (\<lambda>a. if in_mapping (uxpte t) (GetUxPageSize (dataAddr t) (dataSize t)) a then None
                  else ptes (ux w) a)
        else ptes (ux w))"

lemma UxPageTable_dtor_spec:
  assumes "unmaps_ok os" "u \<noteq> NULL" "g_supportUxpt (ux w) \<Longrightarrow> upts (ux w) u = Some t \<and> uxpte t \<noteq> NULL"
  shows "\<exists>w'. UxPageTable_dtor (calm os) \<lparr>m_uxpt = u\<rparr> w = Some w' \<and> regions w' = regions w \<and>
    upts (ux w') = (upts (ux w))(u := None) \<and> g_supportUxpt (ux w') = g_supportUxpt (ux w) \<and>
     ptes (ux w') = (if g_supportUxpt (ux w)
        then (\<lambda>a. if in_mapping (uxpte t) (GetUxPageSize (dataAddr t) (dataSize t)) a then None
                  else ptes (ux w) a)
        else ptes (ux w))"
proof (cases "g_supportUxpt (ux w)")
  case True
  have t: "upts (ux w) u = Some t" "uxpte t \<noteq> NULL" using assms(3) [OF True] by simp_all
  show ?thesis
    using Deinit_effect [OF True assms(2) t, of "uxos os"] assms(1,2) True
    by (simp add: UxPageTable_dtor_def lift_ux_def unmaps_ok_def free_upt_def cong: if_cong)
next
  case False
  then show ?thesis
    using assms(2) by (simp add: UxPageTable_dtor_def lift_ux_def DeinitUxPageTable_def free_upt_def)
qed

lemma PurgeableMem_dtor_spec:
  assumes os: "unmaps_ok os" and inv: "mem_inv os t ob w"
    and u: "m_pageTable ob = Some \<lparr>m_uxpt = u\<rparr>" "u \<noteq> NULL" "uxpte t \<noteq> NULL" and d: "m_dataPtr ob \<noteq> NULL"
  shows "\<exists>w'. PurgeableMem_dtor (calm os) ob w =
           Some (ob\<lparr>m_dataPtr := NULL, m_builder := None, m_pageTable := None\<rparr>, w') \<and>
         cpp_released w t (m_dataPtr ob) u w'"
proof -
  define w1 where "w1 = (bump w)\<lparr>regions := (regions w)(m_dataPtr ob := None)\<rparr>"
  have un: "munmap_data (calm os) (m_dataPtr ob) sz w = (0, w1)" for sz
    using os by (simp add: munmap_data_def unmaps_ok_def Let_def w1_def bump_def)
  have w1: "g_supportUxpt (ux w1) = g_supportUxpt (ux w)" "upts (ux w1) = upts (ux w)" "ptes (ux w1) = ptes (ux w)"
    by (simp_all add: w1_def bump_def)
  then have "mem_inv os t ob w1" by (intro mem_inv_cong [OF inv]) simp_all
  then obtain k where k: "Mem_IsPurged (calm os) ob w1 = Some (mem_gone t ob w1, w1\<lparr>ux := (ux w1)\<lparr>tick := k\<rparr>\<rparr>)"
    using mem_IsPurged_spec by blast
  define w2 where "w2 = (if g_supportUxpt (ux w1) then w1\<lparr>ux := (ux w1)\<lparr>tick := k\<rparr>\<rparr> else w1)"
  have w2: "regions w2 = (regions w)(m_dataPtr ob := None)" "g_supportUxpt (ux w2) = g_supportUxpt (ux w)"
    "upts (ux w2) = upts (ux w)" "ptes (ux w2) = ptes (ux w)"
    using w1 by (simp_all add: w2_def w1_def)
  have "g_supportUxpt (ux w2) \<Longrightarrow> upts (ux w2) u = Some t \<and> uxpte t \<noteq> NULL"
    using inv u w2 upt_ok_upts by (auto simp: mem_inv_def)
  then obtain w3 where w3: "UxPageTable_dtor (calm os) \<lparr>m_uxpt = u\<rparr> w2 = Some w3" "regions w3 = regions w2"
    "upts (ux w3) = (upts (ux w2))(u := None)" "g_supportUxpt (ux w3) = g_supportUxpt (ux w2)"
    "ptes (ux w3) = (if g_supportUxpt (ux w2)
        then (\<lambda>a. if in_mapping (uxpte t) (GetUxPageSize (dataAddr t) (dataSize t)) a then None
                  else ptes (ux w2) a)
        else ptes (ux w2))"
    using UxPageTable_dtor_spec [OF os u(2), of w2 t] by blast
  have "(if UxpteIsEnabled (ux w1) then Mem_IsPurged (calm os) ob w1 else Some (True, w1)) =
      Some (if g_supportUxpt (ux w1) then mem_gone t ob w1 else True, w2)"
    using k by (simp add: w2_def UxpteIsEnabled_def)
  then have "PurgeableMem_dtor (calm os) ob w =
      Some (ob\<lparr>m_dataPtr := NULL, m_builder := None, m_pageTable := None\<rparr>, w3)"
    using d u(1) w3(1) by (simp add: PurgeableMem_dtor_def un reset_pageTable_def)
  moreover have "cpp_released w t (m_dataPtr ob) u w3" using w2 w3 by (simp add: cpp_released_def cong: if_cong)
  ultimately show ?thesis by blast
qed

end
