(* ===== verification/Cpp_Life_Props.thy ===== *)
theory Cpp_Life_Props
  imports Cpp_Life Cpp_Props Life_Props
begin

text \<open>
  Properties of the life of C++ objects: construction, first access and destruction of a
  \<open>PurgeableMem\<close>, sizes that are refused, a page table that could not be mapped, resizing, and what
  \<open>PurgeableAshMem\<close> does with its descriptors.
\<close>

section \<open>A whole life\<close>

lemma cpp_touch_outside:
  assumes "upt_ok s u t" "geometry t ob" "\<not> in_mapping (uxpte t) (GetUxPageSize (dataAddr t) (dataSize t)) a"
  shows "snd (mem_up t p) a = snd p a" "snd (mem_down t p) a = snd p a" "snd (mem_mark t p) a = snd p a"
  using touch_outside [OF assms]
  by (simp_all add: mem_up_def mem_down_def mem_mark_def pin_all_def)

text \<open>Construction and a first read: content and pins.\<close>

lemma cpp_first_read:
  assumes env: "cpp_create_env os len w" and len: "valid_size len" and s: "cpp_inited os len w s1"
    and os: "touch_ok os (cpp_table os len w)" "memset_ok os (RoundUp len PAGE_SIZE)"
    and b: "\<forall>f \<in> set (chain_of b). keeps_size f" "run_builds (chain_of b) (replicate (unat len) 0) = (True, c)"
  defines "ob \<equiv> cpp_new_obj (cpp_data_at os len w) len b (cpp_upt_at os w)"
    and "w1 \<equiv> (cpp_before_init os len w)\<lparr>ux := s1\<rparr>" and "t \<equiv> cpp_table os len w"
  shows "\<exists>n w2 w3 bs. BeginRead (calm os) (mem_vtable (calm os)) ob w1 = Some (True, ob\<lparr>m_buildDataCount := n\<rparr>, w2) \<and>
    EndRead (mem_vtable (calm os)) (ob\<lparr>m_buildDataCount := n\<rparr>) w2 = Some ((), ob\<lparr>m_buildDataCount := n\<rparr>, w3) \<and>
    regions w2 = (regions w1)(m_dataPtr ob \<mapsto> bs) \<and> take (unat len) bs = c \<and> regions w3 = regions w2 \<and>
    mem_inv os t (ob\<lparr>m_buildDataCount := n\<rparr>) w3 \<and>
    mem_pins ob w3 = mem_down t (mem_mark t (mem_up t (g_supportUxpt s1, ptes s1)))"
proof -
  let ?bs = "replicate (unat (RoundUp len PAGE_SIZE)) (0 :: byte)"
  note rdy = cpp_new_ready [OF env len s b(1) os(2,1), folded w1_def ob_def t_def]
  have log: "logged ob = c" "replays ob" "m_buildDataCount ob = 0" "m_isDataValid ob" "\<not> m_dataLock ob"
    using b(2) by (simp_all add: ob_def logged_def replays_def b_zeros_def cpp_new_obj_def)
  have c: "length c = unat len" "take (unat len) (with_content ob c ?bs) = c"
    using length_logged [OF rdy(1)] log by (simp_all add: ob_def cpp_new_obj_def with_content_def)
  obtain r ob2 w2 where w2: "BeginRead (calm os) (mem_vtable (calm os)) ob w1 = Some (r, ob2, w2)"
    "mem.begin_post os t ob w1 ?bs r ob2 w2" using mem.begin_read_post [OF rdy] by blast
  then obtain n where n: "ob2 = ob\<lparr>m_buildDataCount := n\<rparr>" by (auto simp: mem.begin_post_def)
  have post: "r" "mem_inv os t ob2 w2" "regions w2 = (regions w1)(m_dataPtr ob \<mapsto> with_content ob c ?bs)"
    "mem_pins ob2 w2 = mem_mark t (mem_up t (mem_pins ob w1))"
    using w2(2) log by (auto simp: mem.begin_post_def mem.need_def)
  obtain w3 where w3: "EndRead (mem_vtable (calm os)) ob2 w2 = Some ((), ob2, w3)" "mem_inv os t ob2 w3"
    "regions w3 = regions w2" "mem_pins ob2 w3 = mem_down t (mem_pins ob2 w2)"
    using mem.end_read_spec [OF _ post(2)] log by (auto simp: n)
  have "mem_pins ob w1 = (g_supportUxpt s1, ptes s1)" by (simp add: mem_pins_def w1_def)
  then show ?thesis
    using w2(1) post(1,3,4) w3 c(2)
    by (intro exI [of _ n] exI [of _ w2] exI [of _ w3] exI [of _ "with_content ob c ?bs"]) (simp add: n)
qed

text \<open>What an access leaves in the table disappears with it.\<close>

lemma cpp_life_entries:
  assumes env: "cpp_create_env os len w" "valid_size len" and s: "cpp_inited os len w s1" "g_supportUxpt (ux w)"
    and pins: "mem_pins ob w3 = mem_down t (mem_mark t (mem_up t (g_supportUxpt s1, ptes s1)))"
    and rel: "cpp_released w3 t d u w4" and t_def: "t = cpp_table os len w"
  shows "ptes (ux w4) = ptes (ux w)"
proof
  fix a
  have t: "g_supportUxpt s1" "upt_ok s1 (cpp_upt_at os w) t"
    "\<forall>a. if in_mapping (uxpte t) (GetUxPageSize (dataAddr t) (dataSize t)) a then ptes (ux w) a = None
         else ptes s1 a = ptes (ux w) a"
    using s by (simp_all add: cpp_inited_def Let_def t_def)
  have sup: "g_supportUxpt (ux w3)" using pins t(1) by (simp add: mem_pins_def mem_state_defs)
  have geo: "geometry t (c_view (cpp_new_obj (cpp_data_at os len w) len b u))" for b u
    unfolding t_def by (rule cpp_geometry(1) [OF env])
  show "ptes (ux w4) a = ptes (ux w) a"
  proof (cases "in_mapping (uxpte t) (GetUxPageSize (dataAddr t) (dataSize t)) a")
    case True
    then show ?thesis using rel t(3) sup by (simp add: cpp_released_def)
  next
    case False
    have "ptes (ux w4) a = snd (mem_pins ob w3) a"
      using rel sup False by (simp add: cpp_released_def mem_pins_def)
    also have "\<dots> = ptes s1 a" unfolding pins cpp_touch_outside [OF t(2) geo False] by simp
    finally show ?thesis using t(3) False by simp
  qed
qed

text \<open>
  C21. A \<open>PurgeableMem\<close> from construction to destruction, on a kernel that supports the page tables
  and grants the requests: the first \<open>BeginRead\<close> builds the content, and after \<open>EndRead\<close> and the
  destructor the mapped memory, the page table entries and the table struct are as before the
  construction.
\<close>

theorem cpp_object_life:
  assumes env: "cpp_create_env os len w" and len: "valid_size len" and sup: "g_supportUxpt (ux w)"
    and os: "unmaps_ok os" "touch_ok os (cpp_table os len w)" "memset_ok os (RoundUp len PAGE_SIZE)"
    and b: "\<forall>f \<in> set (chain_of b). keeps_size f" "run_builds (chain_of b) (replicate (unat len) 0) = (True, c)"
  shows "\<exists>ob w1 ob2 w2 w3 ob4 w4.
     PurgeableMem_ctor (calm os) len (Some b) w = Some (ob, w1) \<and>
     BeginRead (calm os) (mem_vtable (calm os)) ob w1 = Some (True, ob2, w2) \<and>
     (\<exists>bs. regions w2 (m_dataPtr ob2) = Some bs \<and> take (unat len) bs = c) \<and>
     EndRead (mem_vtable (calm os)) ob2 w2 = Some ((), ob2, w3) \<and>
     PurgeableMem_dtor (calm os) ob2 w3 = Some (ob4, w4) \<and> m_dataPtr ob4 = NULL \<and> m_pageTable ob4 = None \<and>
     regions w4 = regions w \<and> ptes (ux w4) = ptes (ux w) \<and> upts (ux w4) (cpp_upt_at os w) = None"
proof -
  let ?d = "cpp_data_at os len w" and ?u = "cpp_upt_at os w" and ?t = "cpp_table os len w"
  let ?ob = "cpp_new_obj ?d len b ?u"
  obtain s1 where s1: "PurgeableMem_ctor (calm os) len (Some b) w = Some (?ob, (cpp_before_init os len w)\<lparr>ux := s1\<rparr>)"
    "cpp_inited os len w s1" using PurgeableMem_ctor_spec [OF env len] by blast
  obtain n w2 w3 bs where acc:
    "BeginRead (calm os) (mem_vtable (calm os)) ?ob ((cpp_before_init os len w)\<lparr>ux := s1\<rparr>) =
       Some (True, ?ob\<lparr>m_buildDataCount := n\<rparr>, w2)"
    "EndRead (mem_vtable (calm os)) (?ob\<lparr>m_buildDataCount := n\<rparr>) w2 = Some ((), ?ob\<lparr>m_buildDataCount := n\<rparr>, w3)"
    "regions w2 = (regions ((cpp_before_init os len w)\<lparr>ux := s1\<rparr>))(m_dataPtr ?ob \<mapsto> bs)" "take (unat len) bs = c"
    "regions w3 = regions w2" "mem_inv os ?t (?ob\<lparr>m_buildDataCount := n\<rparr>) w3"
    "mem_pins ?ob w3 = mem_down ?t (mem_mark ?t (mem_up ?t (g_supportUxpt s1, ptes s1)))"
    using cpp_first_read [OF env len s1(2) os(2,3) b] by blast
  let ?ob2 = "?ob\<lparr>m_buildDataCount := n\<rparr>"
  have d: "?d \<noteq> NULL" "?u \<noteq> NULL" "regions w ?d = None" using env by (simp_all add: cpp_create_env_def Let_def)
  have ob: "m_pageTable ?ob2 = Some \<lparr>m_uxpt = ?u\<rparr>" "m_dataPtr ?ob2 = ?d" by (simp_all add: cpp_new_obj_def)
  have t: "uxpte ?t \<noteq> NULL" using s1(2) sup by (simp add: cpp_inited_def Let_def)
  obtain w4 where w4:
    "PurgeableMem_dtor (calm os) ?ob2 w3 = Some (?ob2\<lparr>m_dataPtr := NULL, m_builder := None, m_pageTable := None\<rparr>, w4)"
    "cpp_released w3 ?t (m_dataPtr ?ob2) ?u w4"
    using PurgeableMem_dtor_spec [OF os(1) acc(6) ob(1) d(2) t] ob(2) d(1) by auto
  have "regions w4 = regions w" "upts (ux w4) ?u = None"
    using w4(2) acc(3,5) d(3) ob(2) by (simp_all add: cpp_released_def cpp_before_init_def fun_upd_idem)
  moreover have "ptes (ux w4) = ptes (ux w)" by (rule cpp_life_entries [OF env len s1(2) sup acc(7) w4(2) refl])
  moreover have "regions w2 (m_dataPtr ?ob2) = Some bs" using acc(3) by simp
  ultimately show ?thesis
    using s1(1) acc(1,2,4) w4(1)
    by (intro exI [of _ ?ob] exI [of _ "(cpp_before_init os len w)\<lparr>ux := s1\<rparr>"] exI [of _ ?ob2] exI [of _ w2] exI [of _ w3]
        exI [of _ "?ob2\<lparr>m_dataPtr := NULL, m_builder := None, m_pageTable := None\<rparr>"] exI [of _ w4]) simp
qed

lemma ex_cpp_requests:
  "cpp_data_at ex_pm_os 4 empty_world = 0x2000" "cpp_upt_at ex_pm_os empty_world = 0x180"
  "cpp_table_at ex_pm_os 4 empty_world = 0x10000" "cpp_table ex_pm_os 4 empty_world = ex_table"
  by (simp_all add: cpp_data_at_def cpp_upt_at_def cpp_table_at_def cpp_table_def ex_table_def now_def
      empty_world_def ex_st0_def ex_pm_os_def ex_os_def ex_round)

lemma ex_cpp_env: "cpp_create_env ex_pm_os 4 empty_world" "valid_size 4"
proof -
  have "mmap_fresh 0x10000 0x1000 (ux empty_world)"
    by (simp add: mmap_fresh_def empty_world_def ex_st0_def)
  moreover have "os_malloc ex_pm_os n \<noteq> NULL" for n by (simp add: ex_pm_os_def)
  ultimately show "cpp_create_env ex_pm_os 4 empty_world"
    unfolding cpp_create_env_def ex_cpp_requests by (simp add: ex_round ex_size empty_world_def ex_st0_def)
  show "valid_size 4" by (simp add: valid_size_def OHOS_MAXIMUM_PURGEABLE_MEMORY_def)
qed

theorem cpp_object_life_witness:
  "\<exists>ob w1 ob2 w2 w3 ob4 w4.
     PurgeableMem_ctor (calm ex_pm_os) 4 (Some (ex_builder fill_fives)) empty_world = Some (ob, w1) \<and>
     BeginRead (calm ex_pm_os) (mem_vtable (calm ex_pm_os)) ob w1 = Some (True, ob2, w2) \<and>
     (\<exists>bs. regions w2 (m_dataPtr ob2) = Some bs \<and> take 4 bs = [5, 5, 5, 5]) \<and>
     EndRead (mem_vtable (calm ex_pm_os)) ob2 w2 = Some ((), ob2, w3) \<and>
     PurgeableMem_dtor (calm ex_pm_os) ob2 w3 = Some (ob4, w4) \<and>
     regions w4 = Map.empty \<and> ptes (ux w4) = Map.empty"
proof -
  have "g_supportUxpt (ux empty_world)" "unmaps_ok ex_pm_os"
    by (simp_all add: empty_world_def ex_st0_def unmaps_ok_def ex_pm_os_def ex_os_def)
  moreover have "touch_ok ex_pm_os (cpp_table ex_pm_os 4 empty_world)"
    using ex_env by (simp add: ex_cpp_requests pm_env_def)
  moreover have "memset_ok ex_pm_os (RoundUp 4 PAGE_SIZE)" by (simp add: memset_ok_def ex_pm_os_def)
  moreover have "\<forall>f \<in> set (chain_of (ex_builder fill_fives)). keeps_size f"
    "run_builds (chain_of (ex_builder fill_fives)) (replicate (unat (4 :: size_t)) 0) = (True, [5, 5, 5, 5])"
    by (simp_all add: ex_builder_def ex_keeps) (simp add: fill_fives_def numeral_eq_Suc)
  moreover have "regions empty_world = Map.empty" "ptes (ux empty_world) = Map.empty"
    by (simp_all add: empty_world_def ex_st0_def)
  ultimately show ?thesis using cpp_object_life [OF ex_cpp_env] by fastforce
qed

section \<open>Sizes\<close>

text \<open>
  A size of zero, or of \<open>OHOS_MAXIMUM_PURGEABLE_MEMORY\<close> (1 GiB) and more, is refused without a
  request to the system: the constructor of \<open>PurgeableMem\<close> gives an object without data on which
  every access returns false, and \<open>ResizeData\<close> and \<open>ChangeAshmemData\<close> leave the object they are
  called on as it is.
\<close>

theorem cpp_size_limits:
  fixes w :: "'b world_scheme"
  assumes "len = 0 \<or> 0x40000000 \<le> len"
  shows "(\<exists>ob. PurgeableMem_ctor os len bld w = Some (ob, w) \<and> m_dataPtr ob = NULL \<and> m_builder ob = None \<and>
            (\<forall>w' :: 'b world_scheme. BeginRead os (mem_vtable os) ob w' = Some (False, ob, w') \<and>
                  BeginWrite os (mem_vtable os) ob w' = Some (False, ob, w'))) \<and>
         Mem_ResizeData os len ob1 w = Some (ob1, w) \<and>
         Ash_ResizeData aos len ob2 w2 = Some (ob2, w2) \<and>
         ChangeAshmemData aos len fd d ob2 w2 = Some (False, ob2, w2)"
proof -
  have bad: "len \<le> 0 \<or> len \<ge> OHOS_MAXIMUM_PURGEABLE_MEMORY"
    using assms by (auto simp: OHOS_MAXIMUM_PURGEABLE_MEMORY_def)
  define ob where "ob = PurgeableMem_new\<lparr>m_dataPtr := NULL, m_builder := None, m_pageTable := None, m_buildDataCount := 0\<rparr>"
  have "PurgeableMem_ctor os len bld w = Some (ob, w)"
    using bad by (simp only: PurgeableMem_ctor_def ob_def Let_def if_True)
  moreover have "m_dataPtr ob = NULL" "m_builder ob = None" "\<not> m_dataLock ob"
    by (simp_all add: ob_def PurgeableMem_new_def PurgeableMemBase.extend_def PurgeableMemBase_init_def)
  moreover from this have "BeginRead os (mem_vtable os) ob w' = Some (False, ob, w')"
      "BeginWrite os (mem_vtable os) ob w' = Some (False, ob, w')" for w' :: "'b world_scheme"
    by (auto simp: BeginRead_def BeginWrite_def lock_guard_free BeginRead_locked_def BeginWrite_locked_def)
  moreover have "Mem_ResizeData os len ob1 w = Some (ob1, w)" "Ash_ResizeData aos len ob2 w2 = Some (ob2, w2)"
    "ChangeAshmemData aos len fd d ob2 w2 = Some (False, ob2, w2)"
    using bad by (simp_all only: Mem_ResizeData_def Ash_ResizeData_def ChangeAshmemData_def if_True)
  ultimately show ?thesis by blast
qed

theorem cpp_size_limits_witness:
  "ChangeAshmemData ex_ash 0x40000000 7 0x3000 (ex_ashmem fill_fives 1) (ex_ashw []) =
     Some (False, ex_ashmem fill_fives 1, ex_ashw [])"
  using cpp_size_limits [of "0x40000000" ex_pm_os None empty_world "ex_cpp fill_fives 1" ex_ash
      "ex_ashmem fill_fives 1" "ex_ashw []" 7 "0x3000"] by simp

section \<open>A page table that could not be mapped\<close>

text \<open>
  C34. If the kernel supports the page tables but the mapping of the table fails, the constructor of
  \<open>PurgeableMem\<close> still succeeds: it leaves an object with data, builder and a \<open>UxPageTable\<close> without
  table, which the caller cannot tell from a good one. On it \<open>BeginWrite\<close> returns true without
  having pinned anything, and \<open>BeginRead\<close> rebuilds the content four times and returns false.
\<close>

theorem cpp_missing_table:
  assumes len: "valid_size len" and sup: "g_supportUxpt (ux w)" and tch: "touch_keeps_support os"
    and data: "cpp_data_at os len w \<noteq> MAP_FAILED" "cpp_data_at os len w \<noteq> NULL"
    and mem: "os_malloc os (Suc (now w)) \<noteq> NULL" "cpp_upt_at os w \<noteq> NULL" "memset_ok os (RoundUp len PAGE_SIZE)"
    and fit: "unat len \<le> unat (RoundUp len PAGE_SIZE)"
    and fail: "cpp_table_at os len w = MAP_FAILED"
    and b: "\<forall>f \<in> set (chain_of b). keeps_size f" "fst (run_builds (chain_of b) (replicate (unat len) 0))"
  shows "\<exists>ob w1. PurgeableMem_ctor (calm os) len (Some b) w = Some (ob, w1) \<and>
     m_dataPtr ob = cpp_data_at os len w \<and> m_builder ob = Some b \<and> m_pageTable ob = Some \<lparr>m_uxpt = NULL\<rparr> \<and>
     (\<exists>w2. BeginWrite (calm os) (mem_vtable (calm os)) ob w1 = Some (True, ob\<lparr>m_buildDataCount := 1\<rparr>, w2)) \<and>
     (\<exists>w2. BeginRead (calm os) (mem_vtable (calm os)) ob w1 = Some (False, ob\<lparr>m_buildDataCount := 4\<rparr>, w2))"
proof -
  let ?d = "cpp_data_at os len w" and ?ob = "cpp_new_obj (cpp_data_at os len w) len b NULL"
  have c [simp]: "cpp_data_at (calm os) len w = ?d" "cpp_before_init (calm os) len w = cpp_before_init os len w"
    by (simp_all add: cpp_data_at_def cpp_before_init_def)
  obtain s1 where s1: "UxPageTable_ctor (calm os) ?d (RoundUp len PAGE_SIZE) (cpp_before_init os len w) =
      Some (\<lparr>m_uxpt = NULL\<rparr>, (cpp_before_init os len w)\<lparr>ux := s1\<rparr>)" "g_supportUxpt s1"
    using UxPageTable_ctor_fails [OF sup mem(2) fail] by blast
  define w1 where "w1 = (cpp_before_init os len w)\<lparr>ux := s1\<rparr>"
  have ctor: "PurgeableMem_ctor (calm os) len (Some b) w = Some (?ob, w1)"
    using ctor_unfold [OF len, of "calm os" w b] data(1) mem(1) s1(1) by (simp add: cpp_new_obj_def w1_def)
  have ob: "m_pageTable ?ob = Some \<lparr>m_uxpt = NULL\<rparr>" "g_supportUxpt (ux w1)" "touch_keeps_support (calm os)" "replays ?ob"
    using s1(2) tch b(2) by (simp_all add: cpp_new_obj_def w1_def touch_keeps_support_def replays_def b_zeros_def)
  have "base_ready (calm os) ?ob w1 (replicate (unat (RoundUp len PAGE_SIZE)) 0)"
    using data(2) mem(3) fit b(1) by (simp add: base_ready_def cpp_new_obj_def w1_def cpp_before_init_def memset_ok_def)
  note no_table_accesses [OF ob(1-3) this ob(4)]
  moreover have "count_up 4 ?ob = ?ob\<lparr>m_buildDataCount := 4\<rparr>" "count_up 1 ?ob = ?ob\<lparr>m_buildDataCount := 1\<rparr>"
    by (simp_all add: count_up_def cpp_new_obj_def)
  moreover have "m_dataPtr ?ob = ?d" "m_builder ?ob = Some b" by (simp_all add: cpp_new_obj_def)
  ultimately show ?thesis using ctor ob(1) by (intro exI [of _ ?ob] exI [of _ w1]) simp
qed

text \<open>A kernel that supports the tables but refuses to map one.\<close>

definition ex_no_table :: pm_os where
  "ex_no_table = ex_pm_os\<lparr>uxos := ex_os\<lparr>ux_mmap := \<lambda>_ _ _ _ _. MAP_FAILED\<rparr>\<rparr>"

theorem cpp_missing_table_witness:
  "\<exists>ob w1. PurgeableMem_ctor (calm ex_no_table) 4 (Some (ex_builder fill_fives)) empty_world = Some (ob, w1) \<and>
     m_pageTable ob = Some \<lparr>m_uxpt = NULL\<rparr> \<and>
     (\<exists>w2. BeginRead (calm ex_no_table) (mem_vtable (calm ex_no_table)) ob w1 = Some (False, ob\<lparr>m_buildDataCount := 4\<rparr>, w2))"
proof -
  have "g_supportUxpt (ux empty_world)" "touch_keeps_support ex_no_table" "memset_ok ex_no_table (RoundUp 4 PAGE_SIZE)"
    "unat (4 :: size_t) \<le> unat (RoundUp 4 PAGE_SIZE)"
    by (simp_all add: empty_world_def ex_st0_def touch_keeps_support_def ex_no_table_def ex_pm_os_def memset_ok_def ex_round)
  moreover have "cpp_data_at ex_no_table 4 empty_world = 0x2000" "cpp_upt_at ex_no_table empty_world = 0x180"
    "os_malloc ex_no_table (Suc (now empty_world)) \<noteq> NULL" "cpp_table_at ex_no_table 4 empty_world = MAP_FAILED"
    by (simp_all add: cpp_data_at_def cpp_upt_at_def cpp_table_at_def now_def empty_world_def ex_st0_def
        ex_no_table_def ex_pm_os_def)
  moreover have "\<forall>f \<in> set (chain_of (ex_builder fill_fives)). keeps_size f"
    "fst (run_builds (chain_of (ex_builder fill_fives)) (replicate (unat (4 :: size_t)) 0))"
    by (simp_all add: ex_builder_def ex_keeps fill_fives_def)
  ultimately show ?thesis using cpp_missing_table [OF ex_cpp_env(2), of empty_world ex_no_table] by fastforce
qed

section \<open>Resizing\<close>

text \<open>
  C35. \<open>ResizeData\<close> does not reset \<open>buildDataCount_\<close>. Without kernel support nothing else tells
  \<open>BeginRead\<close> that the new region has no content: after a resize it returns true at once, on a
  region of zeros, and the builders are not run.
\<close>

theorem cpp_resize_forgets_content:
  assumes len: "valid_size len" and sup: "\<not> g_supportUxpt (ux w)" and un: "unmaps_ok os"
    and ob: "\<not> m_dataLock ob" "m_isDataValid ob" "m_dataPtr ob \<noteq> NULL" "m_builder ob \<noteq> None" "m_buildDataCount ob \<noteq> 0"
      "m_pageTable ob = Some \<lparr>m_uxpt = u\<rparr>" "u \<noteq> NULL"
    and req: "\<And>n. os_mmap os n (RoundUp len PAGE_SIZE) PROT_RW (TypeCast w) = d" "d \<noteq> MAP_FAILED" "d \<noteq> NULL"
      "\<And>n. os_malloc os n \<noteq> NULL"
  shows "\<exists>ob1 w1. Mem_ResizeData (calm os) len ob w = Some (ob1, w1) \<and> m_dataPtr ob1 = d \<and> m_dataSizeInput ob1 = len \<and>
    regions w1 d = Some (replicate (unat (RoundUp len PAGE_SIZE)) 0) \<and>
    BeginRead (calm os) (mem_vtable (calm os)) ob1 w1 = Some (True, ob1, w1)"
proof -
  have bad: "\<not> (len \<le> 0 \<or> len \<ge> OHOS_MAXIMUM_PURGEABLE_MEMORY)" using len by (auto simp: valid_size_def)
  define w0 where "w0 = (bump w)\<lparr>regions := (regions w)(m_dataPtr ob := None)\<rparr>"
  define w3 where "w3 = free_upt u w0"
  have un0: "munmap_data (calm os) (m_dataPtr ob) sz w = (0, w0)" for sz
    using un by (simp add: munmap_data_def unmaps_ok_def Let_def w0_def bump_def)
  have sups: "g_supportUxpt (ux w0) = g_supportUxpt (ux w)" "g_supportUxpt (ux w3) = g_supportUxpt (ux w)"
    "TypeCast w3 = TypeCast w" by (simp_all add: w0_def w3_def bump_def free_upt_def TypeCast_def UxpteIsEnabled_def)
  have dt: "UxPageTable_dtor (calm os) \<lparr>m_uxpt = u\<rparr> w0 = Some w3"
    using sup sups(1) ob(7) by (simp add: UxPageTable_dtor_def lift_ux_def DeinitUxPageTable_def w3_def)
  define w4 where "w4 = bump ((bump w3)\<lparr>regions := (regions w3)(d \<mapsto> replicate (unat (RoundUp len PAGE_SIZE)) 0)\<rparr>)"
  have sup4: "\<not> g_supportUxpt (ux w4)" using sup sups by (simp add: w4_def bump_def)
  obtain q w5 where t: "UxPageTable_ctor (calm os) d (RoundUp len PAGE_SIZE) w4 = Some (\<lparr>m_uxpt = q\<rparr>, w5)"
    "regions w5 = regions w4" "g_supportUxpt (ux w5) = g_supportUxpt (ux w4)"
    using sup4 req(4) by (simp add: UxPageTable_ctor_def InitUxPageTable_def lift_ux_def Let_def bump_def)
  let ?ob1 = "ob\<lparr>m_dataPtr := d, m_dataSizeInput := len, m_pageTable := Some \<lparr>m_uxpt = q\<rparr>\<rparr>"
  have "Mem_CreatePurgeableData (calm os) (ob\<lparr>m_dataPtr := NULL, m_dataSizeInput := len\<rparr>) w0 = Some (True, ?ob1, w5)"
    using ob(6) dt req t(1) sups(3)
    by (simp add: Mem_CreatePurgeableData_def reset_pageTable_def Mem_RoundUp_eq TypeCast_def Let_def w4_def bump_def)
  then have "Mem_ResizeData (calm os) len ob w = Some (?ob1, w5)"
    using bad ob(3) by (simp add: Mem_ResizeData_def un0)
  moreover have "regions w5 d = Some (replicate (unat (RoundUp len PAGE_SIZE)) 0)"
    using t(2) by (simp add: w4_def bump_def)
  moreover have "BeginRead (calm os) (mem_vtable (calm os)) ?ob1 w5 = Some (True, ?ob1, w5)"
    using ob req(3) t(3) sup4
    by (auto simp: BeginRead_def lock_guard_free BeginRead_locked_def BeginRead_while.simps [of _ _ 0] IfNeedRebuild_def
        Mem_Pin_def Mem_IsPurged_def Cpp_GetUxpte_def CheckPresent_def lift_ux_def lift_ux_unit_def UxpteGet_def
        UxpteIsPresent_def UxpteOps_def)
  ultimately show ?thesis by (intro exI [of _ ?ob1] exI [of _ w5]) simp
qed

definition ex_plain :: world where
  "ex_plain = (ex_cppw ex_bytes)\<lparr>ux := ex_st\<lparr>g_supportUxpt := False\<rparr>\<rparr>"

theorem cpp_resize_forgets_content_witness:
  "\<exists>ob1 w1. Mem_ResizeData (calm ex_pm_os) 4 (ex_cpp fill_fives 1) ex_plain = Some (ob1, w1) \<and>
    regions w1 0x2000 = Some (replicate 4096 0) \<and>
    BeginRead (calm ex_pm_os) (mem_vtable (calm ex_pm_os)) ob1 w1 = Some (True, ob1, w1)"
proof -
  have w: "\<not> g_supportUxpt (ux ex_plain)" "unmaps_ok ex_pm_os"
    by (simp_all add: ex_plain_def unmaps_ok_def ex_pm_os_def ex_os_def)
  have ob: "\<not> m_dataLock (ex_cpp fill_fives 1)" "m_isDataValid (ex_cpp fill_fives 1)" "m_dataPtr (ex_cpp fill_fives 1) \<noteq> NULL"
    "m_builder (ex_cpp fill_fives 1) \<noteq> None" "m_buildDataCount (ex_cpp fill_fives 1) \<noteq> 0"
    "m_pageTable (ex_cpp fill_fives 1) = Some \<lparr>m_uxpt = 8\<rparr>" "(8 :: ptr) \<noteq> NULL"
    by (simp_all add: ex_cpp_def)
  have req: "os_mmap ex_pm_os n (RoundUp 4 PAGE_SIZE) PROT_RW (TypeCast ex_plain) = 0x2000" "(0x2000 :: ptr) \<noteq> MAP_FAILED"
    "(0x2000 :: ptr) \<noteq> NULL" "os_malloc ex_pm_os n \<noteq> NULL" for n
    by (simp_all add: ex_pm_os_def)
  show ?thesis
    using cpp_resize_forgets_content [OF ex_cpp_env(2) w ob req] by (auto simp: ex_round)
qed

section \<open>Descriptors of \<open>PurgeableAshMem\<close>\<close>

text \<open>
  A creation of shared memory that fails gives back what it took: nothing is mapped, and a
  descriptor that was opened is closed by the last request. If it was the mapping that failed, the
  object still names the closed descriptor (\<open>GetAshmemFd\<close>).
\<close>

theorem ash_create_failure:
  assumes "Ash_CreatePurgeableData os ob w = Some (False, ob', w')" "m_dataSizeInput ob \<noteq> 0"
  defines "sz \<equiv> RoundUp (m_dataSizeInput ob) PAGE_SIZE"
  defines "fd \<equiv> ash_create os (ash_calls w) ''PurgeableAshmem'' sz"
  shows "regions w' = regions w \<and> m_isSupport ob' = m_isSupport ob \<and>
    (if fd < 0 then ob' = ob \<and> ash_calls w' = ash_calls w @ [Ash_Create ''PurgeableAshmem'' sz]
     else ash_calls w' = ash_calls w @ [Ash_Create ''PurgeableAshmem'' sz, Ash_SetProt fd PROT_RW, Ash_Close fd] \<and>
          (ob' = ob \<or> m_dataPtr ob' = NULL \<and> GetAshmemFd ob' = fd))"
proof -
  have r: "Ash_RoundUp = RoundUp" by (intro ext) (simp add: Ash_RoundUp_def RoundUp_def)
  have bump [simp]: "regions (bump v) = regions v" "ash_calls (bump v) = ash_calls v" for v :: ash_world
    by (simp_all add: bump_def)
  show ?thesis
    using assms(1,2)
    by (auto simp: Ash_CreatePurgeableData_def Let_def r sz_def fd_def close_def ash_call_def GetAshmemFd_def
        split: if_splits Option.bind_splits)
qed

definition ex_no_map :: ash_os where
  "ex_no_map = ex_ash\<lparr>ash_mmap := \<lambda>_ _ _ _ _. MAP_FAILED\<rparr>"

theorem ash_create_failure_witness:
  "\<exists>ob' w'. Ash_CreatePurgeableData ex_no_map (ex_ashmem fill_fives 1) (ex_ashw []) = Some (False, ob', w') \<and>
     ash_calls w' = [Ash_Create ''PurgeableAshmem'' 0x1000, Ash_SetProt 5 PROT_RW, Ash_Close 5]"
proof -
  have "\<exists>ob' w'. Ash_CreatePurgeableData ex_no_map (ex_ashmem fill_fives 1) (ex_ashw []) = Some (False, ob', w')"
    by (simp add: Ash_CreatePurgeableData_def Let_def ex_no_map_def ex_ash_def ex_ashmem_def)
  then obtain ob' w' where c: "Ash_CreatePurgeableData ex_no_map (ex_ashmem fill_fives 1) (ex_ashw []) = Some (False, ob', w')"
    by blast
  moreover have "m_dataSizeInput (ex_ashmem fill_fives 1) = 4" "ash_calls (ex_ashw []) = []" "ash_create ex_no_map cs n z = 5" for cs n z
    by (simp_all add: ex_ashmem_def ex_ashw_def ex_no_map_def ex_ash_def)
  ultimately show ?thesis using ash_create_failure [OF c] by (simp add: ex_round)
qed

text \<open>Setting up a descriptor only sends requests to it.\<close>

lemma set_purgeable_spec:
  assumes "ash_kernel os (m_ashmemFd ob)" "m_ashmemFd ob > 0"
  shows "\<exists>v reqs. set_purgeable os ob w = Some (ob\<lparr>m_isSupport := v\<rparr>,
           w\<lparr>ash_calls := ash_calls w @ map (Ash_Ioctl (m_ashmemFd ob)) reqs\<rparr>)"
proof -
  define yes where "yes \<longleftrightarrow> fst (ash_ioctl os (ash_calls w @ [Ash_Ioctl (m_ashmemFd ob) ASHMEM_SET_PURGEABLE])
    (m_ashmemFd ob) ASHMEM_GET_PURGEABLE) = 1"
  define ob1 where "ob1 = (if yes then ob\<lparr>m_isSupport := True\<rparr> else ob)"
  let ?reqs = "[ASHMEM_SET_PURGEABLE, ASHMEM_GET_PURGEABLE] @
    (if m_isSupport ob1 then [ASHMEM_UNPIN (m_pin ob), ASHMEM_GET_PIN_STATUS (m_pin ob)] else [])"
  have ob1: "ob1 = ob\<lparr>m_isSupport := m_isSupport ob1\<rparr>" "m_ashmemFd ob1 = m_ashmemFd ob" "m_pin ob1 = m_pin ob"
    by (simp_all add: ob1_def)
  have "set_purgeable os ob w = Some (ob1, w\<lparr>ash_calls := ash_calls w @ map (Ash_Ioctl (m_ashmemFd ob)) ?reqs\<rparr>)"
    using assms(2) ob1(2,3)
    by (simp add: set_purgeable_def retry_uninterrupted [OF assms(1)] ash_call_def yes_def [symmetric] Let_def
        ob1_def [symmetric] Ash_Unpin_def ioctl_def del: if_split)
  then show ?thesis using ob1(1) by metis
qed

lemma Ash_Create_ok:
  assumes len: "m_dataSizeInput ob \<noteq> 0"
    and fd: "\<And>cs. ash_create os cs ''PurgeableAshmem'' (RoundUp (m_dataSizeInput ob) PAGE_SIZE) = fd" "fd > 0" "ash_kernel os fd"
      "\<And>cs. ash_setprot os cs fd PROT_RW \<ge> 0"
    and d: "\<And>n. ash_mmap os n (RoundUp (m_dataSizeInput ob) PAGE_SIZE) PROT_RW MAP_SHARED fd = d" "d \<noteq> MAP_FAILED"
  shows "\<exists>v reqs w1. Ash_CreatePurgeableData os ob w =
      Some (True, ob\<lparr>m_ashmemFd := fd, m_pin := \<lparr>pin_offset = 0, pin_len = 0\<rparr>, m_dataPtr := d, m_isSupport := v\<rparr>, w1) \<and>
    regions w1 = (regions w)(d \<mapsto> replicate (unat (RoundUp (m_dataSizeInput ob) PAGE_SIZE)) 0) \<and>
    ash_calls w1 = ash_calls w @ Ash_Create ''PurgeableAshmem'' (RoundUp (m_dataSizeInput ob) PAGE_SIZE) #
      Ash_SetProt fd PROT_RW # map (Ash_Ioctl fd) reqs"
proof -
  let ?sz = "RoundUp (m_dataSizeInput ob) PAGE_SIZE"
  let ?ob = "ob\<lparr>m_ashmemFd := fd, m_pin := \<lparr>pin_offset = 0, pin_len = 0\<rparr>, m_dataPtr := d\<rparr>"
  let ?w = "(bump (w\<lparr>ash_calls := ash_calls w @ [Ash_Create ''PurgeableAshmem'' ?sz, Ash_SetProt fd PROT_RW]\<rparr>))
     \<lparr>regions := (regions w)(d \<mapsto> replicate (unat ?sz) 0)\<rparr>"
  have r: "Ash_RoundUp = RoundUp" by (intro ext) (simp add: Ash_RoundUp_def RoundUp_def)
  have neg: "\<not> ash_setprot os cs fd PROT_RW < 0" "\<not> fd < 0" for cs using fd(2) fd(4) [of cs] by auto
  obtain v reqs where v: "set_purgeable os ?ob ?w = Some (?ob\<lparr>m_isSupport := v\<rparr>,
      ?w\<lparr>ash_calls := ash_calls ?w @ map (Ash_Ioctl fd) reqs\<rparr>)"
    using set_purgeable_spec [of os ?ob ?w] fd(2,3) by auto
  have "Ash_CreatePurgeableData os ob w = do { (ob2, w4) \<leftarrow> set_purgeable os ?ob ?w; Some (True, ob2, w4) }"
    using len fd(1) neg d
    by (simp add: Ash_CreatePurgeableData_def r Let_def ash_call_def bump_def now_def)
  then show ?thesis
    using v by (intro exI [of _ v] exI [of _ reqs] exI [of _ "?w\<lparr>ash_calls := ash_calls ?w @ map (Ash_Ioctl fd) reqs\<rparr>"])
      (simp add: bump_def)
qed

text \<open>
  Once \<open>ChangeAshmemData\<close> has been called, the destructor takes the memory for somebody else's.
  A later \<open>ResizeData\<close> allocates memory of the object's own without saying so: the destructor then
  leaves the new region mapped and the new descriptor open.
\<close>

theorem ash_resize_after_change_leaks:
  assumes len: "valid_size len" and ob: "m_isChange ob"
    and fd: "\<And>cs. ash_create os cs ''PurgeableAshmem'' (RoundUp len PAGE_SIZE) = fd" "fd > 0" "ash_kernel os fd"
      "\<And>cs. ash_setprot os cs fd PROT_RW \<ge> 0"
    and d: "\<And>n. ash_mmap os n (RoundUp len PAGE_SIZE) PROT_RW MAP_SHARED fd = d" "d \<noteq> MAP_FAILED"
  shows "\<exists>ob1 w1 ob2 pre post. Ash_ResizeData os len ob w = Some (ob1, w1) \<and> m_ashmemFd ob1 = fd \<and> m_dataPtr ob1 = d \<and>
    regions w1 d = Some (replicate (unat (RoundUp len PAGE_SIZE)) 0) \<and>
    ash_calls w1 = pre @ Ash_Create ''PurgeableAshmem'' (RoundUp len PAGE_SIZE) # post \<and> Ash_Close fd \<notin> set post \<and>
    PurgeableAshMem_dtor os ob1 w1 = Some (ob2, w1)"
proof -
  have bad: "\<not> (len \<le> 0 \<or> len \<ge> OHOS_MAXIMUM_PURGEABLE_MEMORY)" "len \<noteq> 0" using len by (auto simp: valid_size_def)
  obtain ob0 w0 where dr: "drop_data os ob w = (ob0, w0)" "m_isChange ob0"
    using ob by (cases "drop_data os ob w") (auto simp: drop_data_def Let_def split: if_splits prod.splits)
  obtain v reqs w1 where cr: "Ash_CreatePurgeableData os (ob0\<lparr>m_dataSizeInput := len\<rparr>) w0 =
      Some (True, ob0\<lparr>m_dataSizeInput := len, m_ashmemFd := fd, m_pin := \<lparr>pin_offset = 0, pin_len = 0\<rparr>, m_dataPtr := d, m_isSupport := v\<rparr>, w1)"
    "regions w1 = (regions w0)(d \<mapsto> replicate (unat (RoundUp len PAGE_SIZE)) 0)"
    "ash_calls w1 = ash_calls w0 @ Ash_Create ''PurgeableAshmem'' (RoundUp len PAGE_SIZE) #
      Ash_SetProt fd PROT_RW # map (Ash_Ioctl fd) reqs"
    using Ash_Create_ok [of "ob0\<lparr>m_dataSizeInput := len\<rparr>" os fd d w0] bad(2) fd d by auto
  let ?ob1 = "ob0\<lparr>m_dataSizeInput := len, m_ashmemFd := fd, m_pin := \<lparr>pin_offset = 0, pin_len = 0\<rparr>, m_dataPtr := d, m_isSupport := v\<rparr>"
  have "Ash_ResizeData os len ob w = Some (?ob1, w1)" using bad(1) dr(1) cr(1) by (simp add: Ash_ResizeData_def)
  moreover have "\<exists>ob2. PurgeableAshMem_dtor os ?ob1 w1 = Some (ob2, w1)" using dr(2) by (simp add: PurgeableAshMem_dtor_def)
  moreover have "Ash_Close fd \<notin> set (Ash_SetProt fd PROT_RW # map (Ash_Ioctl fd) reqs)" by auto
  moreover have "m_ashmemFd ?ob1 = fd" "m_dataPtr ?ob1 = d" by simp_all
  ultimately show ?thesis using cr(2,3) by (metis fun_upd_same)
qed

definition ex_changed :: PurgeableAshMem where
  "ex_changed = (ex_ashmem fill_fives 1)\<lparr>m_isChange := True\<rparr>"

theorem ash_resize_after_change_leaks_witness:
  "\<exists>ob1 w1 ob2. Ash_ResizeData ex_ash 4 ex_changed (ex_ashw ex_bytes) = Some (ob1, w1) \<and>
     regions w1 0x2000 = Some (replicate 4096 0) \<and> PurgeableAshMem_dtor ex_ash ob1 w1 = Some (ob2, w1)"
proof -
  have "m_isChange ex_changed" "(5 :: int) > 0" "(0x2000 :: ptr) \<noteq> MAP_FAILED"
    "ash_create ex_ash cs ''PurgeableAshmem'' (RoundUp 4 PAGE_SIZE) = 5" "ash_setprot ex_ash cs 5 PROT_RW \<ge> 0"
    "ash_mmap ex_ash n (RoundUp 4 PAGE_SIZE) PROT_RW MAP_SHARED 5 = 0x2000" for cs n
    by (simp_all add: ex_changed_def ex_ash_def)
  then show ?thesis
    using ash_resize_after_change_leaks [OF ex_cpp_env(2) _ _ _ ex_ash_kernel, of ex_changed 5 "0x2000" "ex_ashw ex_bytes"]
    by (fastforce simp: ex_round)
qed

text \<open>
  \<open>SetDataValid(false)\<close> between \<open>BeginRead\<close> and \<open>EndRead\<close> loses a pin: \<open>EndRead\<close> then does not
  unpin, so the driver has seen one pin request too many and the memory stays pinned.
\<close>

theorem invalidation_leaks_pin:
  assumes rdy: "base_ready (ash_mem os) ob w bs" and inv: "ash_inv os ob w"
    and rep: "replays ob" and sup: "m_isSupport ob"
  shows "\<exists>ob1 w1 ob2. BeginRead (ash_mem os) (ash_vtable os) ob w = Some (True, ob1, w1) \<and>
    SetDataValid False ob1 w1 = Some ((), ob2, w1) \<and> EndRead (ash_vtable os) ob2 w1 = Some ((), ob2, w1) \<and>
    net_pins (m_ashmemFd ob) (m_pin ob) (ash_calls w1) = net_pins (m_ashmemFd ob) (m_pin ob) (ash_calls w) + 1"
proof -
  obtain r ob1 w1 where b: "BeginRead (ash_mem os) (ash_vtable os) ob w = Some (r, ob1, w1)"
    "ash.begin_post os ob w bs r ob1 w1" using ash.begin_read_post [OF rdy inv] by blast
  then obtain n where n: "ob1 = ob\<lparr>m_buildDataCount := n\<rparr>" by (auto simp: ash.begin_post_def)
  have p: "r" "ash_pins ob1 w1 = ash_up (ash_pins ob w)"
    using b(2) rep by (auto simp: ash.begin_post_def split: if_splits)
  have "\<not> m_dataLock ob1" using rdy by (simp add: n base_ready_def)
  then have "SetDataValid False ob1 w1 = Some ((), ob1\<lparr>m_isDataValid := False\<rparr>, w1)"
    "EndRead (ash_vtable os) (ob1\<lparr>m_isDataValid := False\<rparr>) w1 = Some ((), ob1\<lparr>m_isDataValid := False\<rparr>, w1)"
    by (simp_all add: SetDataValid_def EndRead_def lock_guard_free)
  moreover have "net_pins (m_ashmemFd ob) (m_pin ob) (ash_calls w1) = net_pins (m_ashmemFd ob) (m_pin ob) (ash_calls w) + 1"
    using p(2) sup by (simp add: n ash_pins_def ash_up_def)
  moreover have "BeginRead (ash_mem os) (ash_vtable os) ob w = Some (True, ob1, w1)" using b(1) p(1) by simp
  ultimately show ?thesis by blast
qed

theorem invalidation_leaks_pin_witness:
  "\<exists>ob1 w1 ob2. BeginRead (ash_mem ex_ash) (ash_vtable ex_ash) (ex_ashmem fill_fives 0) (ex_ashw ex_bytes) = Some (True, ob1, w1) \<and>
    SetDataValid False ob1 w1 = Some ((), ob2, w1) \<and> EndRead (ash_vtable ex_ash) ob2 w1 = Some ((), ob2, w1) \<and>
    net_pins 5 \<lparr>pin_offset = 0, pin_len = 0\<rparr> (ash_calls w1) = 1"
proof -
  have e: "m_ashmemFd (ex_ashmem fill_fives 0) = 5" "m_pin (ex_ashmem fill_fives 0) = \<lparr>pin_offset = 0, pin_len = 0\<rparr>"
    "ash_calls (ex_ashw ex_bytes) = []" "m_isSupport (ex_ashmem fill_fives 0)" by (simp_all add: ex_ashmem_def ex_ashw_def)
  show ?thesis
    using invalidation_leaks_pin [OF ex_ash_ready [OF ex_keeps(1) ex_bytes_length, of 0] ex_ash_inv ex_ash_log(2) e(4)]
    unfolding e by simp
qed

end
