(* ===== verification/Failed_Props.thy ===== *)
theory Failed_Props
  imports Purg_Props Cpp_Props
begin

text \<open>
  What is left after a rebuild that fails. The clearing and the builders touch the pages, so the
  kernel marks them present; and the code takes present pages for a complete rebuild.
\<close>

section \<open>C objects\<close>

text \<open>
  C23. A purged object that was built before and whose log now fails: the first \<open>PurgMemBeginRead\<close> returns
  false, but the next one returns true, on the half-built content \<open>c\<close> the failing log has left.
\<close>

theorem failed_rebuild_is_shown:
  assumes rdy: "obj_ready w p t ob bs xs" and os: "pm_env os t" and free: "lock_free ob"
    and cnt: "buildDataCount ob \<noteq> 0" "buildDataCount ob + 1 \<noteq> 0" "countable_entries t (ptes (ux w))"
    and run: "run_steps xs (zeros ob) = (False, c)" and pg: "purged (g_supportUxpt (ux w)) t ob (ptes (ux w))"
  shows "\<exists>w1 w2 bs2. PurgMemBeginRead (calm os) p w = Some (False, w1) \<and>
    PurgMemBeginRead (calm os) p w1 = Some (True, w2) \<and>
    regions w2 (dataPtr ob) = Some bs2 \<and> take (unat (dataSizeInput ob)) bs2 = c"
proof -
  let ?m = "touch (\<lambda>v. v OR 1) (obj_slots t) (ptes (ux w))"
  obtain w1 where w1: "PurgMemBeginRead (calm os) p w = Some (False, w1)" "access_outcome w p t ob bs False c w1"
    using rd.failed [OF rdy os free cnt(2) run cnt(3) pg] by blast
  then have v1: "obj_view w p t w1 ob (rebuilt ob c bs) ?m"
    using pg by (simp add: access_outcome_def Let_def count_build_def)
  then have rdy1: "obj_ready w1 p t ob (rebuilt ob c bs) xs" by (rule ready_view [OF rdy]) simp
  have v: "obj_view w p t w ob bs (ptes (ux w))" using rdy by (simp add: obj_ready_def)
  have "\<not> purged (g_supportUxpt (ux w1)) t ob (ptes (ux w1))"
    using v1 cnt(1) all_present_touched [OF v] by (auto simp: purged_def obj_view_def)
  then obtain w2 where "PurgMemBeginRead (calm os) p w1 = Some (True, w2)"
    "obj_view w1 p t w2 (add_reader ob) (rebuilt ob c bs) (pinned_entries (g_supportUxpt (ux w1)) t (ptes (ux w1)))"
    using rd.outcome [OF rdy1 os free cnt(2) run] by (auto simp: begin_outcome_def Let_def)
  moreover have "length (snd (run_steps xs (zeros ob))) = length (zeros ob)"
    using rdy by (intro run_steps_length) (auto simp: obj_ready_def)
  ultimately show ?thesis
    using w1(1) run content_rebuilt [of c ob bs] by (auto simp: obj_view_def zeros_def)
qed

text \<open>An object that was built once and whose page the kernel has taken.\<close>

definition taken_ptes :: "ptr \<Rightarrow> uxpte_t option" where
  "taken_ptes a = map_option (\<lambda>_. 0) (ex_ptes a)"

definition taken_world :: "modify_func \<Rightarrow> world" where
  "taken_world f = (ex_world f 1 ex_bytes)\<lparr>ux := ex_st\<lparr>ptes := taken_ptes\<rparr>\<rparr>"

lemma taken_table: "upt_ok (ex_st\<lparr>ptes := taken_ptes\<rparr>) 8 ex_table" "\<not> all_present ex_table taken_ptes"
proof -
  show "upt_ok (ex_st\<lparr>ptes := taken_ptes\<rparr>) 8 ex_table"
    by (rule upt_ok_cong [OF ex_ok]) (simp_all add: taken_ptes_def ex_st_def)
  have "obj_slots ex_table = map (uxpte_slot ex_table) (req_pages (dataAddr ex_table) (dataSize ex_table))"
    by (simp add: req_slots_def)
  then obtain x where "x \<in> set (req_pages (dataAddr ex_table) (dataSize ex_table))" using ex_slots by (auto simp: ex_slots)
  then show "\<not> all_present ex_table taken_ptes"
    by (fastforce simp: all_present_def taken_ptes_def IsUxptePresent_bit split: option.splits)
qed

lemma taken_ready:
  assumes "in_buffer f"
  shows "obj_ready (taken_world f) 0x40 ex_table (ex_obj 1) ex_bytes [(f, 0)]"
  using ex_ready [OF ex_bytes_length assms, of 1] taken_table(1)
  by (simp add: obj_ready_def obj_view_def taken_world_def ex_world_def ex_obj_def ex_st_def)

lemma taken_purged: "purged (g_supportUxpt (ux (taken_world f))) ex_table (ex_obj n) (ptes (ux (taken_world f)))"
  using taken_table(2) by (simp add: purged_def taken_world_def ex_st_def)

theorem failed_rebuild_is_shown_witness:
  "\<exists>w1 w2 bs2. PurgMemBeginRead (calm ex_pm_os) 0x40 (taken_world refuse) = Some (False, w1) \<and>
     PurgMemBeginRead (calm ex_pm_os) 0x40 w1 = Some (True, w2) \<and> regions w2 0x2000 = Some bs2 \<and> take 4 bs2 = replicate 4 0"
proof -
  have cnt: "buildDataCount (ex_obj 1) \<noteq> 0" "buildDataCount (ex_obj 1) + 1 \<noteq> 0" by (simp_all add: ex_obj_def)
  have "countable_entries ex_table (ptes (ux (taken_world refuse)))"
    by (simp add: countable_entries_def ex_slots taken_world_def taken_ptes_def split: option.split)
  from failed_rebuild_is_shown [OF taken_ready [OF ex_buffers(2)] ex_env ex_free(1) cnt this ex_log(2) taken_purged]
  show ?thesis by (simp add: ex_obj_def)
qed

section \<open>C++ objects\<close>

text \<open>
  C24. The same in C++: \<open>BeginRead\<close> of a purged \<open>PurgeableMem\<close> that was built before and whose builders now
  fail returns false, but the next \<open>BeginRead\<close> returns true, on what the failing builders have left.
\<close>

theorem cpp_failed_rebuild_is_shown:
  assumes rdy: "base_ready (calm os) ob w bs" and inv: "mem_inv os t ob w" and cnt: "m_buildDataCount ob \<noteq> 0"
    and gone: "mem_gone t ob w" and fails: "\<not> replays ob"
  shows "\<exists>w1 w2 bs2. BeginRead (calm os) (mem_vtable (calm os)) ob w = Some (False, ob, w1) \<and>
    BeginRead (calm os) (mem_vtable (calm os)) ob w1 = Some (True, ob, w2) \<and>
    regions w2 (m_dataPtr ob) = Some bs2 \<and> take (unat (m_dataSizeInput ob)) bs2 = logged ob"
proof -
  let ?bs = "with_content ob (logged ob) bs"
  have need: "mem.need t ob w" using gone by (simp add: mem.need_def)
  obtain r ob1 w1 where b1: "BeginRead (calm os) (mem_vtable (calm os)) ob w = Some (r, ob1, w1)"
    "mem.begin_post os t ob w bs r ob1 w1" using mem.begin_read_post [OF rdy inv] by blast
  then have "r = False" "ob1 = ob" using need fails by (auto simp: mem.begin_post_def)
  with b1 have w1: "BeginRead (calm os) (mem_vtable (calm os)) ob w = Some (False, ob, w1)" "mem_inv os t ob w1"
    "regions w1 = (regions w)(m_dataPtr ob \<mapsto> ?bs)"
    "mem_pins ob w1 = mem_down t (mem_mark t (mem_up t (mem_pins ob w)))"
    using need fails by (simp_all add: mem.begin_post_def)
  have supp: "g_supportUxpt (ux w)" using gone by (simp add: mem_gone_def)
  have "mem_inv os t ob (w\<lparr>ux := (ux w)\<lparr>ptes := pin_all True uxpte_inc t (ptes (ux w))\<rparr>\<rparr>)"
    by (rule mem_inv_cong [OF inv]) (simp_all add: pin_all_None)
  from mem_all_present_touched [OF this] have "\<not> mem_gone t ob w1"
    using w1(4) supp by (simp add: mem_state_defs)
  then have no: "\<not> mem.need t ob w1" using cnt by (simp add: mem.need_def)
  have rdy1: "base_ready (calm os) ob w1 ?bs"
    by (rule base_ready_rebuilt [OF rdy w1(3) length_with_logged [OF rdy]])
  obtain r2 ob2 w2 where b2: "BeginRead (calm os) (mem_vtable (calm os)) ob w1 = Some (r2, ob2, w2)"
    "mem.begin_post os t ob w1 ?bs r2 ob2 w2" using mem.begin_read_post [OF rdy1 w1(2)] by blast
  then have "r2 = True" "ob2 = ob" using no by (auto simp: mem.begin_post_def)
  with b2 have "BeginRead (calm os) (mem_vtable (calm os)) ob w1 = Some (True, ob, w2)" "regions w2 = regions w1"
    using no by (simp_all add: mem.begin_post_def)
  moreover have "take (unat (m_dataSizeInput ob)) ?bs = logged ob" using length_logged [OF rdy] by (simp add: with_content_def)
  ultimately show ?thesis using w1(1,3) by simp
qed

definition taken_cppw :: world where
  "taken_cppw = (ex_cppw ex_bytes)\<lparr>ux := ex_st\<lparr>ptes := taken_ptes\<rparr>\<rparr>"

theorem cpp_failed_rebuild_is_shown_witness:
  "\<exists>w1 w2 bs2. BeginRead (calm ex_pm_os) (mem_vtable (calm ex_pm_os)) (ex_cpp fail_build 1) taken_cppw = Some (False, ex_cpp fail_build 1, w1) \<and>
     BeginRead (calm ex_pm_os) (mem_vtable (calm ex_pm_os)) (ex_cpp fail_build 1) w1 = Some (True, ex_cpp fail_build 1, w2) \<and>
     regions w2 0x2000 = Some bs2 \<and> take 4 bs2 = logged (ex_cpp fail_build 1)"
proof -
  have "base_ready (calm ex_pm_os) (ex_cpp fail_build 1) taken_cppw ex_bytes"
    using ex_cpp_ready [OF ex_keeps(2) ex_bytes_length, of 1] by (simp add: base_ready_def taken_cppw_def ex_cppw_def)
  moreover have "mem_inv ex_pm_os ex_table (ex_cpp fail_build 1) taken_cppw"
    by (rule mem_inv_cong [OF ex_cpp_inv [of fail_build 1 ex_bytes]])
      (simp_all add: taken_cppw_def ex_cppw_def taken_ptes_def ex_st_def)
  moreover have "m_buildDataCount (ex_cpp fail_build 1) \<noteq> 0" by (simp add: ex_cpp_def)
  moreover have "mem_gone ex_table (ex_cpp fail_build 1) taken_cppw"
    using taken_table(2) by (simp add: mem_gone_def taken_cppw_def ex_st_def)
  ultimately show ?thesis using cpp_failed_rebuild_is_shown [OF _ _ _ _ ex_cpp_log(3)] by (fastforce simp: ex_cpp_def)
qed

end
