(* ===== verification/Meminfo.thy ===== *)
theory Meminfo
  imports Decimal "HOL-Library.Signed_Division"
begin

text \<open>
  The memory information library, \<open>src/libmeminfo\<close>: DMA, resident, proportional and graphics
  memory of processes. What it asks (the client library of the memory manager through
  \<open>dlopen\<close>, files below \<open>/proc\<close>, the memory tracker service) is the parameter \<open>mem_os\<close>; calls
  into the client library are recorded. \<open>None\<close> stands for undefined behaviour: reading past an
  array, overflow of signed integers.
\<close>

section \<open>Data\<close>

definition MAX_STRING_LEN :: nat where
  "MAX_STRING_LEN = 256"

record DmaNodeInfo =
  n_process :: string
  n_process_size :: int
  n_pid :: int
  n_fd :: int
  n_size_bytes :: int
  n_ino :: int
  n_exp_pid :: int
  n_exp_task_comm :: string
  n_exp_task_comm_size :: int
  n_buf_name :: string
  n_buf_name_size :: int
  n_exp_name :: string
  n_exp_name_size :: int
  n_can_reclaim :: bool
  n_is_reclaim :: bool
  n_buf_type :: string
  n_buf_type_size :: int
  n_reclaim_info :: string
  n_reclaim_info_size :: int
  n_leak_type :: string
  n_leak_type_size :: int

record DmaNodeInfoWrapper =
  w_process :: string
  w_pid :: int
  w_fd :: int
  w_size_bytes :: int
  w_ino :: int
  w_exp_pid :: int
  w_exp_task_comm :: string
  w_buf_name :: string
  w_exp_name :: string
  w_can_reclaim :: bool
  w_is_reclaim :: bool
  w_buf_type :: string
  w_reclaim_info :: string
  w_leak_type :: string

text \<open>\<open>std::cout\<close> prints a \<open>bool\<close> as a digit; \<open>std::endl\<close> is a newline.\<close>

definition NEWLINE :: char where
  "NEWLINE = CHR 0x0A"

definition bool_digit :: "bool \<Rightarrow> string" where
  "bool_digit b = (if b then ''1'' else ''0'')"

definition print :: "DmaNodeInfoWrapper \<Rightarrow> string" where
  "print i =
     ''process='' @ w_process i @ '', pid='' @ to_string (w_pid i) @ '', fd='' @ to_string (w_fd i) @
     '', size_bytes='' @ to_string (w_size_bytes i) @ '', ino='' @ to_string (w_ino i) @
     '', exp_pid='' @ to_string (w_exp_pid i) @ '', exp_task_comm='' @ w_exp_task_comm i @
     '', buf_name='' @ w_buf_name i @ '', exp_name='' @ w_exp_name i @
     '', can_reclaim='' @ bool_digit (w_can_reclaim i) @
     '', is_reclaim='' @ bool_digit (w_is_reclaim i) @ '', buf_type='' @ w_buf_type i @
     '', reclaim_info='' @ w_reclaim_info i @ '', leak_type='' @ w_leak_type i @ [NEWLINE]"

section \<open>Environment\<close>

datatype MemoryTrackerType =
  MEMORY_TRACKER_TYPE_GL | MEMORY_TRACKER_TYPE_GRAPH | MEMORY_TRACKER_TYPE_OTHER

record MemoryRecord =
  mr_flags :: "32 word"
  mr_size :: int

datatype dl_call =
    Dlopen string
  | Dlsym string
  | Call_GetDmaArr int
  | Call_FreeArr
  | Call_GetDmaValueByPidList "int list" int
  | Dlclose

text \<open>
  \<open>os_dlopen\<close>: the library can be opened; the three symbols, \<open>None\<close> when \<open>dlsym\<close> does not find
  them; \<open>GetDmaArr\<close> gives the number of nodes and the array, \<open>None\<close> for a null pointer;
  \<open>LoadStringFromFile\<close> and \<open>std::ifstream\<close>: the content of a file by name; the memory tracker
  service, whose \<open>GetDevMem\<close> gives \<open>None\<close> unless it returns \<open>HDF_SUCCESS\<close>.
\<close>

record mem_os =
  os_dlopen :: "string \<Rightarrow> bool"
  os_GetDmaArr :: "(int \<Rightarrow> int \<times> DmaNodeInfo list option) option"
  os_FreeArr :: bool
  os_GetDmaValue :: "(int list \<Rightarrow> int \<Rightarrow> int) option"
  os_LoadStringFromFile :: "string \<Rightarrow> string option"
  os_ifstream :: "string \<Rightarrow> string option"
  os_memtrack :: "(int \<Rightarrow> MemoryTrackerType \<Rightarrow> MemoryRecord list option) option"
  os_FLAG_UNMAPPED :: "32 word"

definition PAGE_TO_KB :: int where "PAGE_TO_KB = 4"
definition BYTE_PER_KB :: int where "BYTE_PER_KB = 1024"
definition ERROR_DMA_OPEN_SO :: int where "ERROR_DMA_OPEN_SO = - 1"

definition fits_int64 :: "int \<Rightarrow> bool" where
  "fits_int64 i \<longleftrightarrow> - (2 ^ 63) \<le> i \<and> i < 2 ^ 63"

text \<open>Addition of two \<open>int64_t\<close>.\<close>

definition add_int64 :: "int \<Rightarrow> int \<Rightarrow> int option" where
  "add_int64 a b = (if fits_int64 (a + b) then Some (a + b) else None)"

section \<open>DMA memory\<close>

text \<open>
  A computation of C++ that may be undefined (\<open>None\<close>), throw (\<open>Inl\<close>) or give a value (\<open>Inr\<close>).
\<close>

datatype cpp_exn = Length_Error

definition and_then :: "(cpp_exn + 'a) option \<Rightarrow> ('a \<Rightarrow> (cpp_exn + 'b) option) \<Rightarrow> (cpp_exn + 'b) option" where
  "and_then m k = (case m of None \<Rightarrow> None | Some (Inl e) \<Rightarrow> Some (Inl e) | Some (Inr x) \<Rightarrow> k x)"

lemma and_then_simps [simp]: "and_then (Some (Inr x)) k = k x" "and_then (Some (Inl e)) k = Some (Inl e)"
  by (simp_all add: and_then_def)

text \<open>
  \<open>std::string(arr, n)\<close> of a fixed array: the length becomes a \<open>size_t\<close>, so that a negative one exceeds
  the maximal size of a string and \<open>std::length_error\<close> is thrown; a read past the array is undefined.
\<close>

definition std_string :: "string \<Rightarrow> int \<Rightarrow> (cpp_exn + string) option" where
  "std_string arr n =
     (if n < 0 then Some (Inl Length_Error)
      else if nat n \<le> length arr then Some (Inr (take (nat n) arr)) else None)"

definition wrap_node :: "DmaNodeInfo \<Rightarrow> (cpp_exn + DmaNodeInfoWrapper) option" where
  "wrap_node d =
     and_then (std_string (n_process d) (n_process_size d)) (\<lambda>process.
     and_then (std_string (n_exp_task_comm d) (n_exp_task_comm_size d)) (\<lambda>exp_task_comm.
     and_then (std_string (n_buf_name d) (n_buf_name_size d)) (\<lambda>buf_name.
     and_then (std_string (n_exp_name d) (n_exp_name_size d)) (\<lambda>exp_name.
     and_then (std_string (n_buf_type d) (n_buf_type_size d)) (\<lambda>buf_type.
     and_then (std_string (n_reclaim_info d) (n_reclaim_info_size d)) (\<lambda>reclaim_info.
     and_then (std_string (n_leak_type d) (n_leak_type_size d)) (\<lambda>leak_type.
       Some (Inr
            \<lparr>w_process = process, w_pid = n_pid d, w_fd = n_fd d, w_size_bytes = n_size_bytes d,
             w_ino = n_ino d, w_exp_pid = n_exp_pid d, w_exp_task_comm = exp_task_comm,
             w_buf_name = buf_name, w_exp_name = exp_name, w_can_reclaim = n_can_reclaim d,
             w_is_reclaim = n_is_reclaim d, w_buf_type = buf_type, w_reclaim_info = reclaim_info,
             w_leak_type = leak_type\<rparr>))))))))"

text \<open>The loop \<open>for (i = 0; i < size; ++i)\<close> over the array, from index \<open>i\<close> on.\<close>

function wrap_nodes :: "DmaNodeInfo list \<Rightarrow> nat \<Rightarrow> int \<Rightarrow> (cpp_exn + DmaNodeInfoWrapper list) option" where
  "wrap_nodes arr i cnt =
     (if int i < cnt
      then if i < length arr
           then and_then (wrap_node (arr ! i)) (\<lambda>v. and_then (wrap_nodes arr (Suc i) cnt) (\<lambda>vs. Some (Inr (v # vs))))
           else None
      else Some (Inr []))"
  by pat_completeness auto
termination
  by (relation "measure (\<lambda>(arr, i, cnt). length arr - i)") auto

declare wrap_nodes.simps [simp del]

text \<open>An exception leaves the function: the array is not freed and the library stays open.\<close>

definition GetDmaInfo ::
  "mem_os \<Rightarrow> int \<Rightarrow> dl_call list \<Rightarrow> ((cpp_exn + DmaNodeInfoWrapper list) \<times> dl_call list) option" where
  "GetDmaInfo os pid cs =
     (let cs1 = cs @ [Dlopen ''libmemmgrclient.z.so''] in
      if \<not> os_dlopen os ''libmemmgrclient.z.so'' then Some (Inr [], cs1)
      else
      let cs2 = cs1 @ [Dlsym ''GetDmaArr'', Dlsym ''FreeArr''] in
      case os_GetDmaArr os of
        None \<Rightarrow> Some (Inr [], cs2 @ [Dlclose])
      | Some getDmaInfoFunc \<Rightarrow>
          if \<not> os_FreeArr os then Some (Inr [], cs2 @ [Dlclose])
          else
          let (cnt, dmaArr) = getDmaInfoFunc pid; cs3 = cs2 @ [Call_GetDmaArr pid] in
          if cnt > 0 \<and> dmaArr = None then Some (Inr [], cs3 @ [Dlclose])
          else
          case wrap_nodes (case dmaArr of None \<Rightarrow> [] | Some arr \<Rightarrow> arr) 0 cnt of
            None \<Rightarrow> None
          | Some (Inl e) \<Rightarrow> Some (Inl e, cs3)
          | Some (Inr dmaVec) \<Rightarrow> Some (Inr dmaVec, cs3 @ [Call_FreeArr, Dlclose]))"

definition GetDmaValueByPidList :: "mem_os \<Rightarrow> int list \<Rightarrow> dl_call list \<Rightarrow> int \<times> dl_call list" where
  "GetDmaValueByPidList os pidList cs =
     (let cs1 = cs @ [Dlopen ''libmemmgrclient.z.so''] in
      if \<not> os_dlopen os ''libmemmgrclient.z.so'' then (ERROR_DMA_OPEN_SO, cs1)
      else
      let cs2 = cs1 @ [Dlsym ''GetDmaValueByPidList''] in
      case os_GetDmaValue os of
        None \<Rightarrow> (ERROR_DMA_OPEN_SO, cs2 @ [Dlclose])
      | Some func \<Rightarrow>
          let pidSize = sint (of_nat (length pidList) :: 32 word)
          in (func pidList pidSize, cs2 @ [Call_GetDmaValueByPidList pidList pidSize, Dlclose]))"

section \<open>Files below \<open>/proc\<close>\<close>

definition GetRssByPid :: "mem_os \<Rightarrow> int \<Rightarrow> u64 option" where
  "GetRssByPid os pid =
     (case os_LoadStringFromFile os (''/proc/'' @ to_string pid @ ''/statm'') of
        None \<Rightarrow> Some 0
      | Some statm \<Rightarrow>
          let (vss, rest) = next_word statm; (rss, _) = next_word rest
          in do {
               pages \<leftarrow> atoi rss;
               if fits_int (pages * PAGE_TO_KB) then Some (of_int (pages * PAGE_TO_KB)) else None
             })"

text \<open>The lines \<open>getline\<close> delivers; an empty rest after the last newline is no line.\<close>

function lines_of :: "string \<Rightarrow> string list" where
  "lines_of s =
     (if s = [] then []
      else takeWhile (\<lambda>c. c \<noteq> NEWLINE) s # lines_of (tl (dropWhile (\<lambda>c. c \<noteq> NEWLINE) s)))"
  by pat_completeness auto
termination
proof (relation "measure length")
  fix s :: string
  assume "s \<noteq> []"
  moreover have "length (tl (dropWhile (\<lambda>c. c \<noteq> NEWLINE) s)) \<le> length s - 1"
    using length_dropWhile_le [of "\<lambda>c. c \<noteq> NEWLINE" s] by simp
  ultimately show "(tl (dropWhile (\<lambda>c. c \<noteq> NEWLINE) s), s) \<in> measure length"
    by (cases s) auto
qed simp

declare lines_of.simps [simp del]

text \<open>\<open>content.find(":")\<close> and the two \<open>substr\<close> around it.\<close>

definition split_colon :: "string \<Rightarrow> (string \<times> string) option" where
  "split_colon content =
     (if CHR '':'' \<in> set content
      then Some (takeWhile (\<lambda>c. c \<noteq> CHR '':'') content, tl (dropWhile (\<lambda>c. c \<noteq> CHR '':'') content))
      else None)"

fun GetPss_loop :: "string list \<Rightarrow> u64" where
  "GetPss_loop [] = 0"
| "GetPss_loop (content # rest) =
     (case split_colon content of
        None \<Rightarrow> GetPss_loop rest
      | Some (ty, valueStr) \<Rightarrow> if ty = ''Pss'' then strtoull valueStr else GetPss_loop rest)"

fun GetSwapPss_loop :: "string list \<Rightarrow> u64" where
  "GetSwapPss_loop [] = 0"
| "GetSwapPss_loop (content # rest) =
     (case split_colon content of
        None \<Rightarrow> GetSwapPss_loop rest
      | Some (ty, valueStr) \<Rightarrow> if ty = ''SwapPss'' then strtoull valueStr else GetSwapPss_loop rest)"

fun GetPssAndSwapPss_loop :: "u64 \<Rightarrow> string list \<Rightarrow> u64" where
  "GetPssAndSwapPss_loop acc [] = acc"
| "GetPssAndSwapPss_loop acc (content # rest) =
     (case split_colon content of
        None \<Rightarrow> GetPssAndSwapPss_loop acc rest
      | Some (ty, valueStr) \<Rightarrow>
          if ty = ''Pss'' \<or> ty = ''SwapPss'' then GetPssAndSwapPss_loop (acc + strtoull valueStr) rest
          else GetPssAndSwapPss_loop acc rest)"

definition smaps_rollup :: "int \<Rightarrow> string" where
  "smaps_rollup pid = ''/proc/'' @ to_string pid @ ''/smaps_rollup''"

definition GetPssByPid :: "mem_os \<Rightarrow> int \<Rightarrow> u64" where
  "GetPssByPid os pid =
     (case os_ifstream os (smaps_rollup pid) of None \<Rightarrow> 0 | Some txt \<Rightarrow> GetPss_loop (lines_of txt))"

definition GetSwapPssByPid :: "mem_os \<Rightarrow> int \<Rightarrow> u64" where
  "GetSwapPssByPid os pid =
     (case os_ifstream os (smaps_rollup pid) of None \<Rightarrow> 0 | Some txt \<Rightarrow> GetSwapPss_loop (lines_of txt))"

definition GetPssAndSwapPssByPid :: "mem_os \<Rightarrow> int \<Rightarrow> u64" where
  "GetPssAndSwapPssByPid os pid =
     (case os_ifstream os (smaps_rollup pid) of
        None \<Rightarrow> 0 | Some txt \<Rightarrow> GetPssAndSwapPss_loop 0 (lines_of txt))"

section \<open>Graphics memory and the total of an application\<close>

text \<open>The inner loop: the first record with the flag decides.\<close>

fun tracked_value :: "32 word \<Rightarrow> MemoryRecord list \<Rightarrow> u64" where
  "tracked_value flag [] = 0"
| "tracked_value flag (r # rs) =
     (if mr_flags r AND flag = flag then of_int (mr_size r sdiv BYTE_PER_KB) else tracked_value flag rs)"

definition MEMORY_TRACKER_TYPES :: "MemoryTrackerType list" where
  "MEMORY_TRACKER_TYPES =
     [MEMORY_TRACKER_TYPE_GL, MEMORY_TRACKER_TYPE_GRAPH, MEMORY_TRACKER_TYPE_OTHER]"

fun GetGraphicsMemory_loop ::
  "(MemoryTrackerType \<Rightarrow> MemoryRecord list option) \<Rightarrow> 32 word \<Rightarrow> MemoryTrackerType list \<Rightarrow>
   bool \<times> u64 \<times> u64 \<Rightarrow> bool \<times> u64 \<times> u64" where
  "GetGraphicsMemory_loop dev flag [] (ret, gl, graph) = (ret, gl, graph)"
| "GetGraphicsMemory_loop dev flag (ty # tys) (ret, gl, graph) =
     GetGraphicsMemory_loop dev flag tys
       (case dev ty of
          None \<Rightarrow> (ret, gl, graph)
        | Some records \<Rightarrow>
            if ty = MEMORY_TRACKER_TYPE_GL then (True, tracked_value flag records, graph)
            else if ty = MEMORY_TRACKER_TYPE_GRAPH then (True, gl, tracked_value flag records)
            else (ret, gl, graph))"

text \<open>\<open>gl\<close> and \<open>graph\<close> are references: the values they had are kept when nothing is written.\<close>

definition GetGraphicsMemory :: "mem_os \<Rightarrow> int \<Rightarrow> u64 \<Rightarrow> u64 \<Rightarrow> bool \<times> u64 \<times> u64" where
  "GetGraphicsMemory os pid gl graph =
     (case os_memtrack os of
        None \<Rightarrow> (False, gl, graph)
      | Some memtrack \<Rightarrow>
          GetGraphicsMemory_loop (memtrack pid) (os_FLAG_UNMAPPED os) MEMORY_TRACKER_TYPES
            (False, gl, graph))"

fun GetAppsTotalMemory_loop ::
  "mem_os \<Rightarrow> int list \<Rightarrow> int \<Rightarrow> int \<Rightarrow> u64 \<Rightarrow> u64 \<Rightarrow> (int \<times> int) option" where
  "GetAppsTotalMemory_loop os [] pssAndSwapPssMem gpuMem gl graph = Some (pssAndSwapPssMem, gpuMem)"
| "GetAppsTotalMemory_loop os (pid # pids) pssAndSwapPssMem gpuMem gl graph =
     do {
       pss1 \<leftarrow> add_int64 pssAndSwapPssMem (sint (GetPssAndSwapPssByPid os pid));
       let (_, gl1, graph1) = GetGraphicsMemory os pid gl graph
       in do {
            gpu1 \<leftarrow> add_int64 gpuMem (sint gl1);
            GetAppsTotalMemory_loop os pids pss1 gpu1 gl1 graph1
          }
     }"

definition GetAppsTotalMemory :: "mem_os \<Rightarrow> int list \<Rightarrow> dl_call list \<Rightarrow> (int \<times> dl_call list) option" where
  "GetAppsTotalMemory os pidList cs =
     (let (dma, cs1) = GetDmaValueByPidList os pidList cs;
          dmaMem = dma sdiv BYTE_PER_KB
      in if dmaMem = ERROR_DMA_OPEN_SO then Some (ERROR_DMA_OPEN_SO, cs1)
         else do {
           (pssAndSwapPssMem, gpuMem) \<leftarrow> GetAppsTotalMemory_loop os pidList 0 0 0 0;
           s1 \<leftarrow> add_int64 dmaMem pssAndSwapPssMem;
           s2 \<leftarrow> add_int64 s1 gpuMem;
           Some (s2, cs1)
         })"

end
