(* ===== verification/Meminfo_Props.thy ===== *)
theory Meminfo_Props
  imports Meminfo
begin

text \<open>
  Properties of the memory information library: the parsers read back what the kernel prints,
  the two ways to the sum of Pss and SwapPss agree, handles and arrays of the client library are
  released on every path, and what the total of an application is made of, its error path
  included.
\<close>

section \<open>Lines and rows\<close>

lemma lines_of_Nil [simp]: "lines_of [] = []"
  by (simp add: lines_of.simps)

lemma lines_of_line:
  assumes "NEWLINE \<notin> set l"
  shows "lines_of (l @ NEWLINE # s) = l # lines_of s"
proof -
  have no: "c \<in> set l \<Longrightarrow> c \<noteq> NEWLINE" for c using assms by auto
  have "takeWhile (\<lambda>c. c \<noteq> NEWLINE) (l @ NEWLINE # s) = l"
    using no by (subst takeWhile_append2) auto
  moreover have "dropWhile (\<lambda>c. c \<noteq> NEWLINE) (l @ NEWLINE # s) = NEWLINE # s"
    using no by (subst dropWhile_append2) auto
  ultimately show ?thesis by (subst lines_of.simps) simp
qed

lemma lines_of_lines:
  "\<forall>l \<in> set ls. NEWLINE \<notin> set l \<Longrightarrow> lines_of (concat (map (\<lambda>l. l @ [NEWLINE]) ls)) = ls"
  by (induction ls) (simp_all add: lines_of_line)

text \<open>A row of \<open>smaps_rollup\<close>: a name, a colon, padding, a number, the unit.\<close>

fun smaps_row :: "string \<times> string \<times> nat \<Rightarrow> string" where
  "smaps_row (k, pad, v) = k @ CHR '':'' # pad @ to_string_nat v @ '' kB''"

fun row_ok :: "string \<times> string \<times> nat \<Rightarrow> bool" where
  "row_ok (k, pad, v) \<longleftrightarrow>
     CHR '':'' \<notin> set k \<and> NEWLINE \<notin> set k \<and> (\<forall>c \<in> set pad. c = CHR '' '') \<and> v < 2 ^ 64"

definition smaps_text :: "string \<Rightarrow> (string \<times> string \<times> nat) list \<Rightarrow> string" where
  "smaps_text hdr rows = concat (map (\<lambda>l. l @ [NEWLINE]) (hdr # map smaps_row rows))"

text \<open>The first line names the address range; it is not one of the rows looked for.\<close>

definition header_ok :: "string \<Rightarrow> bool" where
  "header_ok hdr \<longleftrightarrow>
     NEWLINE \<notin> set hdr \<and> takeWhile (\<lambda>c. c \<noteq> CHR '':'') hdr \<notin> {''Pss'', ''SwapPss''}"

lemma NEWLINE_facts: "NEWLINE \<noteq> CHR '':''" "NEWLINE \<noteq> CHR '' ''" "NEWLINE \<notin> set '' kB''"
    "\<not> isdigit NEWLINE" "\<not> isdigit (CHR '' '')" "isspace (CHR '' '')"
  by (simp_all add: NEWLINE_def isdigit_def isspace_def)

lemma row_no_newline: "row_ok r \<Longrightarrow> NEWLINE \<notin> set (smaps_row r)"
  using NEWLINE_facts to_string_nat_all by (cases r) auto

lemma split_row:
  assumes "row_ok (k, pad, v)"
  shows "split_colon (smaps_row (k, pad, v)) = Some (k, pad @ to_string_nat v @ '' kB'')"
proof -
  let ?t = "pad @ to_string_nat v @ '' kB''"
  have no: "c \<in> set k \<Longrightarrow> c \<noteq> CHR '':''" for c using assms by auto
  have "takeWhile (\<lambda>c. c \<noteq> CHR '':'') (k @ CHR '':'' # ?t) = k"
    using no by (subst takeWhile_append2) auto
  moreover have "dropWhile (\<lambda>c. c \<noteq> CHR '':'') (k @ CHR '':'' # ?t) = CHR '':'' # ?t"
    using no by (subst dropWhile_append2) auto
  ultimately show ?thesis by (simp add: split_colon_def)
qed

lemma row_value:
  assumes "row_ok (k, pad, v)"
  shows "strtoull (pad @ to_string_nat v @ '' kB'') = of_nat v"
proof -
  have "\<forall>c \<in> set pad. c = CHR '' ''" using assms by simp
  then have "\<forall>c \<in> set pad. isspace c" using NEWLINE_facts(6) by metis
  moreover have "'' kB'' = [] \<or> \<not> isdigit (hd '' kB'')" using NEWLINE_facts(5) by simp
  moreover have "v < 2 ^ 64" using assms by simp
  ultimately show ?thesis by (rule strtoull_to_string)
qed

lemma header_skipped:
  assumes "header_ok hdr"
  shows "GetPss_loop (hdr # ls) = GetPss_loop ls" "GetSwapPss_loop (hdr # ls) = GetSwapPss_loop ls"
    "GetPssAndSwapPss_loop acc (hdr # ls) = GetPssAndSwapPss_loop acc ls"
  using assms by (simp_all add: header_ok_def split_colon_def)

text \<open>What the rows say.\<close>

definition row_table :: "(string \<times> string \<times> nat) list \<Rightarrow> (string \<times> nat) list" where
  "row_table rows = map (\<lambda>(k, pad, v). (k, v)) rows"

definition first_value :: "string \<Rightarrow> (string \<times> string \<times> nat) list \<Rightarrow> nat" where
  "first_value k rows = (case map_of (row_table rows) k of None \<Rightarrow> 0 | Some v \<Rightarrow> v)"

definition sum_values :: "string list \<Rightarrow> (string \<times> string \<times> nat) list \<Rightarrow> nat" where
  "sum_values ks rows = sum_list (map snd (filter (\<lambda>(k, v). k \<in> set ks) (row_table rows)))"

lemma rows_loops:
  assumes "\<forall>r \<in> set rows. row_ok r"
  shows "GetPss_loop (map smaps_row rows) = of_nat (first_value ''Pss'' rows)"
    "GetSwapPss_loop (map smaps_row rows) = of_nat (first_value ''SwapPss'' rows)"
    "GetPssAndSwapPss_loop acc (map smaps_row rows) = acc + of_nat (sum_values [''Pss'', ''SwapPss''] rows)"
  using assms
proof (induction rows arbitrary: acc)
  case Nil
  { case 1 show ?case by (simp add: first_value_def row_table_def) }
  { case 2 show ?case by (simp add: first_value_def row_table_def) }
  { case 3 show ?case by (simp add: sum_values_def row_table_def) }
next
  case (Cons r rows)
  obtain k pad v where r: "r = (k, pad, v)" by (cases r)
  have ok: "\<forall>r \<in> set (r # rows). row_ok r \<Longrightarrow> row_ok (k, pad, v)" by (simp add: r)
  { case 1 show ?case
      using Cons.IH(1) split_row [OF ok [OF 1]] row_value [OF ok [OF 1]] 1
      by (simp add: r first_value_def row_table_def del: smaps_row.simps row_ok.simps) }
  { case 2 show ?case
      using Cons.IH(2) split_row [OF ok [OF 2]] row_value [OF ok [OF 2]] 2
      by (simp add: r first_value_def row_table_def del: smaps_row.simps row_ok.simps) }
  { case 3 show ?case
      using Cons.IH(3) split_row [OF ok [OF 3]] row_value [OF ok [OF 3]] 3
      by (simp add: r sum_values_def row_table_def add.assoc del: smaps_row.simps row_ok.simps) }
qed

lemma lines_of_smaps:
  assumes "header_ok hdr" "\<forall>r \<in> set rows. row_ok r"
  shows "lines_of (smaps_text hdr rows) = hdr # map smaps_row rows"
  unfolding smaps_text_def
  by (rule lines_of_lines) (use assms row_no_newline in \<open>auto simp: header_ok_def\<close>)

section \<open>Reading \<open>smaps_rollup\<close>\<close>

text \<open>
  C36. The parsers read back what the kernel prints: on a file with a header line and rows of the
  form \<open>name: number kB\<close>, \<open>GetPssByPid\<close> and \<open>GetSwapPssByPid\<close> give the number of the first row of
  that name (0 without one), and \<open>GetPssAndSwapPssByPid\<close> the sum over all rows of both names.
\<close>

theorem smaps_read_back:
  assumes "os_ifstream os (smaps_rollup pid) = Some (smaps_text hdr rows)"
    "header_ok hdr" "\<forall>r \<in> set rows. row_ok r"
  shows "GetPssByPid os pid = of_nat (first_value ''Pss'' rows) \<and>
         GetSwapPssByPid os pid = of_nat (first_value ''SwapPss'' rows) \<and>
         GetPssAndSwapPssByPid os pid = of_nat (sum_values [''Pss'', ''SwapPss''] rows)"
  using assms(1) lines_of_smaps [OF assms(2,3)] header_skipped [OF assms(2)] rows_loops [OF assms(3)]
  by (simp add: GetPssByPid_def GetSwapPssByPid_def GetPssAndSwapPssByPid_def)

definition ex_rows :: "(string \<times> string \<times> nat) list" where
  "ex_rows = [(''Rss'', '' '', 900), (''Pss'', ''    '', 120), (''SwapPss'', '' '', 7)]"

definition ex_memos :: mem_os where
  "ex_memos = \<lparr>os_dlopen = (\<lambda>_. True), os_GetDmaArr = None, os_FreeArr = True,
     os_GetDmaValue = Some (\<lambda>pids n. 4096), os_LoadStringFromFile = (\<lambda>_. Some ''640 472 369 38 0 115 0''),
     os_ifstream = (\<lambda>_. Some (smaps_text ''00400000-7ffd ---p 00:00 [rollup]'' ex_rows)),
     os_memtrack = Some (\<lambda>pid ty. if pid = 7 then Some [\<lparr>mr_flags = 3, mr_size = 2048\<rparr>] else None),
     os_FLAG_UNMAPPED = 1\<rparr>"

lemma ex_rows_ok: "\<forall>r \<in> set ex_rows. row_ok r"
  by (simp add: ex_rows_def NEWLINE_def)

lemma ex_header_ok: "header_ok ''00400000-7ffd ---p 00:00 [rollup]''"
  by (simp add: header_ok_def NEWLINE_def)

theorem smaps_read_back_witness:
  "GetPssByPid ex_memos 7 = 120 \<and> GetSwapPssByPid ex_memos 7 = 7 \<and> GetPssAndSwapPssByPid ex_memos 7 = 127"
  using smaps_read_back [of ex_memos 7, OF _ ex_header_ok ex_rows_ok]
  by (simp add: ex_memos_def ex_rows_def first_value_def sum_values_def row_table_def)

text \<open>The names in front of the colons of a file.\<close>

definition line_types :: "string list \<Rightarrow> string list" where
  "line_types ls = List.map_filter (\<lambda>l. map_option fst (split_colon l)) ls"

lemma line_types_simps [simp]:
  "line_types [] = []"
  "line_types (l # ls) = (case split_colon l of None \<Rightarrow> [] | Some (ty, v) \<Rightarrow> [ty]) @ line_types ls"
  by (auto simp: line_types_def List.map_filter_def split: option.splits)

lemma loop_absent:
  "''Pss'' \<notin> set (line_types ls) \<Longrightarrow> GetPss_loop ls = 0"
  "''SwapPss'' \<notin> set (line_types ls) \<Longrightarrow> GetSwapPss_loop ls = 0"
  by (induction ls) (auto split: option.splits)

lemma sum_loop_agrees:
  assumes "distinct (filter (\<lambda>k. k = ''Pss'' \<or> k = ''SwapPss'') (line_types ls))"
  shows "GetPssAndSwapPss_loop acc ls = acc + GetPss_loop ls + GetSwapPss_loop ls"
  using assms
proof (induction ls arbitrary: acc)
  case (Cons l ls)
  show ?case
  proof (cases "split_colon l")
    case None
    then show ?thesis using Cons by simp
  next
    case (Some a)
    obtain ty v where a: "a = (ty, v)" by (cases a)
    have "GetPss_loop ls = 0" if "ty = ''Pss''"
      using that Cons.prems Some a by (intro loop_absent(1)) auto
    moreover have "GetSwapPss_loop ls = 0" if "ty = ''SwapPss''"
      using that Cons.prems Some a by (intro loop_absent(2)) auto
    ultimately show ?thesis
      using Cons Some a by (auto simp: add.assoc add.commute split: if_splits)
  qed
qed simp

text \<open>
  On any file in which \<open>Pss\<close> and \<open>SwapPss\<close> occur at most once each, whatever else it holds, the
  one-pass \<open>GetPssAndSwapPssByPid\<close> equals the sum of the two separate functions.
\<close>

theorem pss_and_swap_pss_agree:
  assumes "\<forall>txt. os_ifstream os (smaps_rollup pid) = Some txt \<longrightarrow>
      distinct (filter (\<lambda>k. k = ''Pss'' \<or> k = ''SwapPss'') (line_types (lines_of txt)))"
  shows "GetPssAndSwapPssByPid os pid = GetPssByPid os pid + GetSwapPssByPid os pid"
  using assms sum_loop_agrees [of _ 0]
  by (simp add: GetPssByPid_def GetSwapPssByPid_def GetPssAndSwapPssByPid_def split: option.splits)

theorem pss_and_swap_pss_agree_witness:
  "GetPssAndSwapPssByPid ex_memos 7 = GetPssByPid ex_memos 7 + GetSwapPssByPid ex_memos 7"
proof (rule pss_and_swap_pss_agree)
  have "line_types (lines_of (smaps_text ''00400000-7ffd ---p 00:00 [rollup]'' ex_rows)) =
      [''00400000-7ffd ---p 00'', ''Rss'', ''Pss'', ''SwapPss'']"
    using lines_of_smaps [OF ex_header_ok ex_rows_ok]
    by (simp add: ex_rows_def split_colon_def)
  then show "\<forall>txt. os_ifstream ex_memos (smaps_rollup 7) = Some txt \<longrightarrow>
      distinct (filter (\<lambda>k. k = ''Pss'' \<or> k = ''SwapPss'') (line_types (lines_of txt)))"
    by (simp add: ex_memos_def)
qed

section \<open>Reading \<open>statm\<close>\<close>

text \<open>
  \<open>GetRssByPid\<close> gives the resident pages of the second column of \<open>statm\<close> in kilobytes while
  that number fits an \<open>int\<close>; from \<open>2 ^ 29\<close> pages on the 32-bit product overflows.
\<close>

theorem rss_in_kilobytes:
  assumes "os_LoadStringFromFile os (''/proc/'' @ to_string pid @ ''/statm'') =
      Some (to_string_nat vss @ '' '' @ to_string_nat rss @ '' '' @ tail)"
  shows "GetRssByPid os pid = (if rss < 2 ^ 29 then Some (of_nat (4 * rss)) else None)"
proof -
  have sp: "isspace (CHR '' '')" by (rule NEWLINE_facts)
  have "next_word (to_string_nat vss @ '' '' @ to_string_nat rss @ '' '' @ tail) =
      (to_string_nat vss, '' '' @ to_string_nat rss @ '' '' @ tail)"
    using next_word_to_string [OF sp] by simp
  moreover have "next_word ('' '' @ to_string_nat rss @ '' '' @ tail) = (to_string_nat rss, '' '' @ tail)"
    using next_word_to_string [OF sp] next_word_skip [OF sp] by simp
  moreover have "atoi (to_string_nat rss) = (if rss < 2 ^ 31 then Some (int rss) else None)"
    using atoi_to_string [of "[]" "[]"] by simp
  ultimately show ?thesis
    using assms by (auto simp: GetRssByPid_def PAGE_TO_KB_def fits_int_def)
qed

theorem rss_in_kilobytes_witness: "GetRssByPid ex_memos 7 = Some 1888"
proof -
  have "to_string_nat 640 = ''640''" "to_string_nat 472 = ''472''"
    by code_simp+
  then show ?thesis
    using rss_in_kilobytes [of ex_memos 7 640 472 "''369 38 0 115 0''"] by (simp add: ex_memos_def)
qed

section \<open>The client library\<close>

abbreviation client_lib :: string where
  "client_lib \<equiv> ''libmemmgrclient.z.so''"

text \<open>The array sizes and strings of a node are in order: no string is longer than its array.\<close>

definition str_ok :: "string \<Rightarrow> int \<Rightarrow> bool" where
  "str_ok arr n \<longleftrightarrow> length arr = MAX_STRING_LEN \<and> 0 \<le> n \<and> n \<le> int MAX_STRING_LEN"

definition node_ok :: "DmaNodeInfo \<Rightarrow> bool" where
  "node_ok d \<longleftrightarrow>
     str_ok (n_process d) (n_process_size d) \<and> str_ok (n_exp_task_comm d) (n_exp_task_comm_size d) \<and>
     str_ok (n_buf_name d) (n_buf_name_size d) \<and> str_ok (n_exp_name d) (n_exp_name_size d) \<and>
     str_ok (n_buf_type d) (n_buf_type_size d) \<and> str_ok (n_reclaim_info d) (n_reclaim_info_size d) \<and>
     str_ok (n_leak_type d) (n_leak_type_size d)"

definition wrapped :: "DmaNodeInfo \<Rightarrow> DmaNodeInfoWrapper" where
  "wrapped d =
     \<lparr>w_process = take (nat (n_process_size d)) (n_process d), w_pid = n_pid d, w_fd = n_fd d,
      w_size_bytes = n_size_bytes d, w_ino = n_ino d, w_exp_pid = n_exp_pid d,
      w_exp_task_comm = take (nat (n_exp_task_comm_size d)) (n_exp_task_comm d),
      w_buf_name = take (nat (n_buf_name_size d)) (n_buf_name d),
      w_exp_name = take (nat (n_exp_name_size d)) (n_exp_name d),
      w_can_reclaim = n_can_reclaim d, w_is_reclaim = n_is_reclaim d,
      w_buf_type = take (nat (n_buf_type_size d)) (n_buf_type d),
      w_reclaim_info = take (nat (n_reclaim_info_size d)) (n_reclaim_info d),
      w_leak_type = take (nat (n_leak_type_size d)) (n_leak_type d)\<rparr>"

lemma std_string_ok: "str_ok arr n \<Longrightarrow> std_string arr n = Some (Inr (take (nat n) arr))"
  by (auto simp: str_ok_def std_string_def nat_le_iff)

lemma wrap_node_ok: "node_ok d \<Longrightarrow> wrap_node d = Some (Inr (wrapped d))"
  by (simp add: node_ok_def wrap_node_def wrapped_def std_string_ok)

lemma wrap_nodes_from:
  assumes "\<forall>d \<in> set arr. node_ok d" "i \<le> length arr"
  shows "wrap_nodes arr i (int (length arr)) = Some (Inr (map wrapped (drop i arr)))"
  using assms(2)
proof (induction "length arr - i" arbitrary: i)
  case 0
  then show ?case by (subst wrap_nodes.simps) simp
next
  case (Suc k)
  then have i: "i < length arr" and IH: "wrap_nodes arr (Suc i) (int (length arr)) =
      Some (Inr (map wrapped (drop (Suc i) arr)))" by auto
  have "wrap_node (arr ! i) = Some (Inr (wrapped (arr ! i)))" using assms(1) i by (simp add: wrap_node_ok)
  then show ?case
    using i IH by (subst wrap_nodes.simps) (simp add: Cons_nth_drop_Suc [symmetric])
qed

text \<open>
  C37. \<open>GetDmaInfo\<close> copies every node the client library reports, cutting each string at its length
  without reading past its array, then frees the array and closes the library. When the library,
  a symbol or the array is missing the answer is empty; whatever was opened is closed. The lengths the
  library reports have to be those of its arrays (\<open>node_ok\<close>); a negative one makes \<open>std::string\<close> throw,
  see \<open>dma_info_throws\<close>.
\<close>

theorem dma_info_spec:
  assumes f: "\<forall>get n arr. os_GetDmaArr os = Some get \<and> get pid = (n, Some arr) \<longrightarrow>
      n = int (length arr) \<and> (\<forall>d \<in> set arr. node_ok d)"
  shows "GetDmaInfo os pid cs =
    (if \<not> os_dlopen os client_lib then Some (Inr [], cs @ [Dlopen client_lib])
     else case os_GetDmaArr os of
       None \<Rightarrow> Some (Inr [], cs @ [Dlopen client_lib, Dlsym ''GetDmaArr'', Dlsym ''FreeArr'', Dlclose])
     | Some get \<Rightarrow>
         if \<not> os_FreeArr os
         then Some (Inr [], cs @ [Dlopen client_lib, Dlsym ''GetDmaArr'', Dlsym ''FreeArr'', Dlclose])
         else (case snd (get pid) of
           Some arr \<Rightarrow> Some (Inr (map wrapped arr), cs @ [Dlopen client_lib, Dlsym ''GetDmaArr'', Dlsym ''FreeArr'',
                             Call_GetDmaArr pid, Call_FreeArr, Dlclose])
         | None \<Rightarrow> Some (Inr [], cs @ [Dlopen client_lib, Dlsym ''GetDmaArr'', Dlsym ''FreeArr'', Call_GetDmaArr pid] @
                             (if fst (get pid) > 0 then [] else [Call_FreeArr]) @ [Dlclose])))"
proof (cases "os_GetDmaArr os")
  case (Some get)
  obtain n a where na: "get pid = (n, a)" by (cases "get pid")
  have none: "wrap_nodes [] 0 n = Some (Inr [])" if "n \<le> 0" using that by (subst wrap_nodes.simps) simp
  show ?thesis
  proof (cases a)
    case None
    then show ?thesis using Some na none by (simp add: GetDmaInfo_def)
  next
    case (Some arr)
    then have n: "n = int (length arr)" "\<forall>d \<in> set arr. node_ok d"
      using f \<open>os_GetDmaArr os = Some get\<close> na by auto
    then show ?thesis
      using \<open>os_GetDmaArr os = Some get\<close> Some na wrap_nodes_from [OF n(2), of 0]
      by (simp add: GetDmaInfo_def)
  qed
qed (simp add: GetDmaInfo_def)

definition ex_str :: string where
  "ex_str = replicate 256 (CHR ''x'')"

definition ex_dma_node :: DmaNodeInfo where
  "ex_dma_node = \<lparr>n_process = ex_str, n_process_size = 2, n_pid = 7, n_fd = 3, n_size_bytes = 4096,
     n_ino = 11, n_exp_pid = 7, n_exp_task_comm = ex_str, n_exp_task_comm_size = 1,
     n_buf_name = ex_str, n_buf_name_size = 1, n_exp_name = ex_str, n_exp_name_size = 0,
     n_can_reclaim = True, n_is_reclaim = False, n_buf_type = ex_str, n_buf_type_size = 1,
     n_reclaim_info = ex_str, n_reclaim_info_size = 1, n_leak_type = ex_str, n_leak_type_size = 1\<rparr>"

definition ex_client :: mem_os where
  "ex_client = ex_memos\<lparr>os_GetDmaArr := Some (\<lambda>pid. (1, Some [ex_dma_node]))\<rparr>"

theorem dma_info_spec_witness:
  "\<exists>v. GetDmaInfo ex_client 7 [] =
         Some (Inr [v], [Dlopen client_lib, Dlsym ''GetDmaArr'', Dlsym ''FreeArr'',
                     Call_GetDmaArr 7, Call_FreeArr, Dlclose]) \<and>
       w_process v = ''xx'' \<and> w_size_bytes v = 4096"
proof -
  have "length ex_str = MAX_STRING_LEN" by (simp only: ex_str_def MAX_STRING_LEN_def length_replicate)
  then have "node_ok ex_dma_node"
    by (simp add: node_ok_def str_ok_def ex_dma_node_def MAX_STRING_LEN_def)
  then have "\<forall>get n arr. os_GetDmaArr ex_client = Some get \<and> get 7 = (n, Some arr) \<longrightarrow>
      n = int (length arr) \<and> (\<forall>d \<in> set arr. node_ok d)"
    by (auto simp: ex_client_def)
  from dma_info_spec [OF this, of "[]"] show ?thesis
    by (simp add: ex_client_def ex_memos_def wrapped_def ex_dma_node_def ex_str_def numeral_eq_Suc)
qed

text \<open>
  A node with a negative length makes \<open>std::string\<close> throw; the exception leaves \<open>GetDmaInfo\<close> with the
  array not freed and the client library open.
\<close>

theorem dma_info_throws:
  assumes "os_dlopen os client_lib" "os_GetDmaArr os = Some get" "os_FreeArr os" "get pid = (1, Some [d])" "n_process_size d < 0"
  shows "GetDmaInfo os pid cs =
    Some (Inl Length_Error, cs @ [Dlopen client_lib, Dlsym ''GetDmaArr'', Dlsym ''FreeArr'', Call_GetDmaArr pid])"
proof -
  have "wrap_nodes [d] 0 1 = Some (Inl Length_Error)"
    using assms(5) by (subst wrap_nodes.simps) (simp add: wrap_node_def std_string_def)
  then show ?thesis using assms(1-4) by (simp add: GetDmaInfo_def)
qed

section \<open>The total of an application\<close>

text \<open>The graphics memory the service reports for a process, if it answers for it.\<close>

definition gl_answer :: "mem_os \<Rightarrow> int \<Rightarrow> u64 option" where
  "gl_answer os pid =
     (case os_memtrack os of
        None \<Rightarrow> None
      | Some memtrack \<Rightarrow>
          map_option (tracked_value (os_FLAG_UNMAPPED os)) (memtrack pid MEMORY_TRACKER_TYPE_GL))"

text \<open>What \<open>GetGraphicsMemory\<close> leaves in \<open>gl\<close>: the answer, or else the value it had.\<close>

lemma graphics_gl:
  "fst (snd (GetGraphicsMemory os pid gl graph)) =
     (case gl_answer os pid of None \<Rightarrow> gl | Some v \<Rightarrow> v)"
  by (simp add: GetGraphicsMemory_def gl_answer_def MEMORY_TRACKER_TYPES_def split: option.splits)

text \<open>The value counted for each process: its own answer, or that of the last one that had any.\<close>

fun gl_counted :: "mem_os \<Rightarrow> u64 \<Rightarrow> int list \<Rightarrow> u64 list" where
  "gl_counted os gl [] = []"
| "gl_counted os gl (pid # pids) =
     (let v = (case gl_answer os pid of None \<Rightarrow> gl | Some v \<Rightarrow> v) in v # gl_counted os v pids)"

definition pss_counted :: "mem_os \<Rightarrow> int list \<Rightarrow> u64 list" where
  "pss_counted os pids = map (GetPssAndSwapPssByPid os) pids"

definition sum64 :: "u64 list \<Rightarrow> int" where
  "sum64 vs = sum_list (map uint vs)"

lemma sum64_simps [simp]: "sum64 [] = 0" "sum64 (v # vs) = uint v + sum64 vs"
  by (simp_all add: sum64_def)

lemma sum64_nonneg: "0 \<le> sum64 vs"
  by (induction vs) simp_all

lemma sint_small: "uint (v :: u64) < 2 ^ 63 \<Longrightarrow> sint v = uint v"
proof -
  assume v: "uint v < 2 ^ 63"
  have "- (2 ^ 63) \<le> (0 :: int)" by simp
  also have "0 \<le> uint v" by simp
  finally have "- (2 ^ 63) \<le> uint v" .
  then show ?thesis using v by (simp add: sint_uint signed_take_bit_int_eq_self)
qed

lemma add_int64_nonneg: "0 \<le> a \<Longrightarrow> 0 \<le> b \<Longrightarrow> a + b < 2 ^ 63 \<Longrightarrow> add_int64 a b = Some (a + b)"
proof -
  assume "0 \<le> a" "0 \<le> b" "a + b < 2 ^ 63"
  moreover from this have "- (2 ^ 63) \<le> a + b" by linarith
  ultimately show ?thesis by (simp add: add_int64_def fits_int64_def)
qed

lemma total_loop:
  assumes "0 \<le> p" "0 \<le> g" "p + sum64 (pss_counted os pids) < 2 ^ 63"
    "g + sum64 (gl_counted os gl pids) < 2 ^ 63"
  shows "GetAppsTotalMemory_loop os pids p g gl graph =
         Some (p + sum64 (pss_counted os pids), g + sum64 (gl_counted os gl pids))"
  using assms
proof (induction pids arbitrary: p g gl graph)
  case (Cons pid pids)
  let ?x = "GetPssAndSwapPssByPid os pid" and ?rest = "sum64 (pss_counted os pids)"
  obtain b v graph1 where gr: "GetGraphicsMemory os pid gl graph = (b, v, graph1)"
    by (cases "GetGraphicsMemory os pid gl graph")
  have v: "v = (case gl_answer os pid of None \<Rightarrow> gl | Some v \<Rightarrow> v)"
    using graphics_gl [of os pid gl graph] gr by simp
  let ?grest = "sum64 (gl_counted os v pids)"
  have p: "p + uint ?x + ?rest < 2 ^ 63" using Cons.prems(3) by (simp add: pss_counted_def add.assoc)
  have g: "g + uint v + ?grest < 2 ^ 63" using Cons.prems(4) by (simp add: v Let_def add.assoc)
  have nn: "0 \<le> ?rest" "0 \<le> ?grest" "0 \<le> uint ?x" "0 \<le> uint v" by (simp_all add: sum64_nonneg)
  have s: "sint ?x = uint ?x" "sint v = uint v"
    using p g nn Cons.prems(1,2) by (simp_all add: sint_small)
  have "add_int64 p (sint ?x) = Some (p + uint ?x)" "add_int64 g (sint v) = Some (g + uint v)"
    using p g nn Cons.prems(1,2) by (simp_all add: s add_int64_nonneg)
  then show ?case
    using Cons.IH [of "p + uint ?x" "g + uint v" v graph1] p g nn Cons.prems(1,2) gr
    by (simp add: v [symmetric] Let_def pss_counted_def add.assoc)
qed (simp add: pss_counted_def)

lemma total_sum:
  assumes "dma sdiv BYTE_PER_KB = k" "GetDmaValueByPidList os pids cs = (dma, cs1)" "0 \<le> k"
    "k + sum64 (pss_counted os pids) + sum64 (gl_counted os 0 pids) < 2 ^ 63"
  shows "GetAppsTotalMemory os pids cs =
         Some (k + sum64 (pss_counted os pids) + sum64 (gl_counted os 0 pids), cs1)"
proof -
  have nn: "0 \<le> sum64 (pss_counted os pids)" "0 \<le> sum64 (gl_counted os 0 pids)"
    by (simp_all add: sum64_nonneg)
  have "GetAppsTotalMemory_loop os pids 0 0 0 0 =
      Some (sum64 (pss_counted os pids), sum64 (gl_counted os 0 pids))"
    using total_loop [of 0 0 os pids 0 0] assms(3,4) nn by simp
  then show ?thesis
    using assms nn by (simp add: GetAppsTotalMemory_def ERROR_DMA_OPEN_SO_def add_int64_nonneg)
qed

lemma sdiv_nonneg: "0 \<le> d \<Longrightarrow> d sdiv BYTE_PER_KB = d div 1024"
  by (simp add: BYTE_PER_KB_def signed_divide_int_def sgn_if)

text \<open>
  C38. If the client library opens and has its symbol and its answer is not negative, the memory tracker
  answers for every process and the sum fits, \<open>GetAppsTotalMemory\<close> is the DMA memory in kilobytes plus,
  over all processes, Pss and SwapPss and the graphics memory; the client library is closed again.
\<close>

theorem apps_total_memory:
  assumes "os_dlopen os client_lib" "os_GetDmaValue os = Some f"
    "f pids (sint (of_nat (length pids) :: 32 word)) = dma" "0 \<le> dma"
    "\<forall>pid \<in> set pids. gl_answer os pid = Some (g pid)"
    "dma div 1024 + sum64 (map (GetPssAndSwapPssByPid os) pids) + sum64 (map g pids) < 2 ^ 63"
  shows "GetAppsTotalMemory os pids cs =
    Some (dma div 1024 + sum64 (map (GetPssAndSwapPssByPid os) pids) + sum64 (map g pids),
          cs @ [Dlopen client_lib, Dlsym ''GetDmaValueByPidList'',
                Call_GetDmaValueByPidList pids (sint (of_nat (length pids) :: 32 word)), Dlclose])"
proof -
  have "gl_counted os x pids = map g pids" for x
    using assms(5) by (induction pids arbitrary: x) simp_all
  moreover have "dma sdiv BYTE_PER_KB = dma div 1024" using assms(4) by (rule sdiv_nonneg)
  ultimately show ?thesis
    using assms total_sum [of dma "dma div 1024" os pids cs]
    by (simp add: pss_counted_def GetDmaValueByPidList_def)
qed

theorem apps_total_memory_witness:
  "\<exists>cs. GetAppsTotalMemory ex_memos [7] [] = Some (4 + 127 + 2, cs)"
proof -
  have pss: "GetPssAndSwapPssByPid ex_memos 7 = 127"
    using lines_of_smaps [OF ex_header_ok ex_rows_ok] header_skipped(3) [OF ex_header_ok]
      rows_loops(3) [OF ex_rows_ok]
    by (simp add: GetPssAndSwapPssByPid_def ex_memos_def ex_rows_def sum_values_def row_table_def)
  have gl: "gl_answer ex_memos 7 = Some 2"
    by (simp add: gl_answer_def ex_memos_def BYTE_PER_KB_def signed_divide_int_def)
  show ?thesis
    using apps_total_memory [of ex_memos "\<lambda>pids n. 4096" "[7]" 4096 "\<lambda>_. 2" "[]"] pss gl
    by (simp add: ex_memos_def)
qed

text \<open>
  When the client library cannot be opened or lacks the symbol, \<open>GetAppsTotalMemory\<close> does not
  report the error: \<open>GetDmaValueByPidList\<close> answers -1, the division by 1024 makes it 0, the
  comparison with \<open>ERROR_DMA_OPEN_SO\<close> fails, and the sum without DMA memory is returned.
\<close>

theorem dma_error_is_lost:
  assumes "\<not> os_dlopen os client_lib \<or> os_GetDmaValue os = None"
    "sum64 (pss_counted os pids) + sum64 (gl_counted os 0 pids) < 2 ^ 63"
  shows "fst (GetDmaValueByPidList os pids cs) = ERROR_DMA_OPEN_SO \<and>
    (\<exists>cs'. GetAppsTotalMemory os pids cs =
       Some (sum64 (pss_counted os pids) + sum64 (gl_counted os 0 pids), cs'))"
proof -
  obtain d cs1 where d: "GetDmaValueByPidList os pids cs = (d, cs1)" by fastforce
  have e: "fst (GetDmaValueByPidList os pids cs) = ERROR_DMA_OPEN_SO"
    using assms(1) by (auto simp: GetDmaValueByPidList_def Let_def)
  moreover have "ERROR_DMA_OPEN_SO sdiv BYTE_PER_KB = 0"
    by (simp add: ERROR_DMA_OPEN_SO_def BYTE_PER_KB_def signed_divide_int_def)
  ultimately have "d sdiv BYTE_PER_KB = 0" using d by simp
  from total_sum [OF this d] e assms(2) show ?thesis by simp
qed

definition ex_nolib :: mem_os where
  "ex_nolib = ex_memos\<lparr>os_dlopen := (\<lambda>_. False), os_ifstream := (\<lambda>_. None)\<rparr>"

theorem dma_error_is_lost_witness:
  "fst (GetDmaValueByPidList ex_nolib [7] []) = - 1 \<and>
   (\<exists>cs. GetAppsTotalMemory ex_nolib [7] [] = Some (2, cs))"
proof -
  have "gl_answer ex_nolib 7 = Some 2"
    by (simp add: gl_answer_def ex_nolib_def ex_memos_def BYTE_PER_KB_def signed_divide_int_def)
  moreover have "GetPssAndSwapPssByPid ex_nolib 7 = 0"
    by (simp add: GetPssAndSwapPssByPid_def ex_nolib_def)
  ultimately show ?thesis
    using dma_error_is_lost [of ex_nolib "[7]" "[]"]
    by (simp add: ex_nolib_def ERROR_DMA_OPEN_SO_def pss_counted_def)
qed

text \<open>
  \<open>GetAppsTotalMemory\<close> ignores the verdict of \<open>GetGraphicsMemory\<close>: for a process the memory
  tracker does not answer for, the graphics memory of the process before it is counted again.
\<close>

theorem graphics_memory_counted_twice:
  assumes "gl_answer os p1 = Some v" "gl_answer os p2 = None"
    "\<not> os_dlopen os client_lib"
    "sum64 (pss_counted os [p1, p2]) + 2 * uint v < 2 ^ 63"
  shows "\<exists>cs'. GetAppsTotalMemory os [p1, p2] cs =
           Some (sum64 (pss_counted os [p1, p2]) + 2 * uint v, cs')"
proof -
  obtain d cs1 where d: "GetDmaValueByPidList os [p1, p2] cs = (d, cs1)" by fastforce
  have "d sdiv BYTE_PER_KB = 0"
    using assms(3) d
    by (auto simp: GetDmaValueByPidList_def ERROR_DMA_OPEN_SO_def BYTE_PER_KB_def signed_divide_int_def)
  from total_sum [OF this d] assms(1,2,4) show ?thesis by simp
qed

theorem graphics_memory_counted_twice_witness:
  "\<exists>cs'. GetAppsTotalMemory ex_nolib [7, 8] [] = Some (4, cs')"
proof -
  have "gl_answer ex_nolib 7 = Some 2" "gl_answer ex_nolib 8 = None"
    by (simp_all add: gl_answer_def ex_nolib_def ex_memos_def BYTE_PER_KB_def signed_divide_int_def)
  moreover have "pss_counted ex_nolib [7, 8] = [0, 0]"
    by (simp add: pss_counted_def GetPssAndSwapPssByPid_def ex_nolib_def)
  moreover have "\<not> os_dlopen ex_nolib client_lib" by (simp add: ex_nolib_def)
  ultimately show ?thesis
    using graphics_memory_counted_twice [of ex_nolib 7 2 8 "[]"] by simp
qed

end
