(* ===== verification/Spec2Isabelle.thy ===== *)
theory Spec2Isabelle
  imports Builder_Props Purgeable_Ndk Dmabuf Acc_Page_Props Purg_Frame Cpp_Thread_Props Cpp_Life_Props Failed_Props Meminfo_Props
begin

text \<open>
  A verification of the libraries of the memory utilities repository: the purgeable memory library
  (\<open>src/libpurgeablemem\<close>) in its C and its C++ form, the DMA buffer heap library
  (\<open>src/libdmabufheap\<close>) and the memory information library
  (\<open>src/libmeminfo\<close>).

  \<^bold>\<open>The program.\<close> A purgeable object is a memory region the kernel may drop when
  nobody uses it. The object remembers, as a chain of \<^emph>\<open>builders\<close>, the functions
  that produced its content; the next access replays them if the content is gone. Whether it is
  gone, and whether it may be dropped, is agreed with the kernel through the \<^emph>\<open>user
  extended page table\<close>: per page one 64-bit entry whose lowest bit says present and whose
  upper bits count the users of the page. A begin operation pins all pages, takes the object's
  read-write lock, and rebuilds if necessary; an end operation returns lock and pins. The C++
  library has the same design as a class hierarchy: the base class runs the accesses under a mutex
  and calls virtual methods to pin, unpin and ask; \<open>PurgeableMem\<close> implements them on
  the page table, \<open>PurgeableAshMem\<close> on requests to the anonymous shared memory driver.
  The memory information library reads and adds up numbers from files below \<open>/proc\<close>,
  from a client library loaded at run time and from a service.

  \<^bold>\<open>Theories and sources\<close> (paths under \<open>src/libpurgeablemem\<close> unless
  said otherwise).
  \<^item> \<open>PM_Prelude\<close>: machine types, C constants, the null check
    \<open>IF_NULL_LOG_ACTION\<close> of \<open>common/include/pm_ptr_util.h\<close>, lemmas on
    64-bit arithmetic. \<open>Thread_Count\<close>: counting threads by what they hold.
    \<open>Buffer_Spec\<close>: the abstract specification of an object, a buffer that is never
    purged, and the locale \<open>buffer_refinement\<close> of systems whose runs are runs of a
    buffer. A run shows its user events; three kinds of event are \<^emph>\<open>incidents\<close>
    in which the code breaks the promise: a modification that fails or cannot be logged but changed
    the content, a look while another thread modifies, and a pin that was not counted. Runs without
    them are \<open>clean\<close>, and the refinements are about clean runs.
  \<^item> \<open>PM_State\<close>: the state codes and their names,
    \<open>common/include/pm_state_c.h\<close> and \<open>common/src/pm_state_c.c\<close>.
  \<^item> \<open>Ux_Arith\<close>: index and rounding arithmetic at the head of
    \<open>common/src/ux_page_table_c.c\<close>.
  \<^item> \<open>Ux_Page_Table\<close>: the rest of that file, both builds: atomic entry operations
    with their compare-and-swap loops, the page loop \<open>UxpteOps\<close>, mapping, set-up,
    tear-down, the load-time probe, the exported operations. State \<open>uxpt_st\<close>: entries
    by address, table structs by address, the support flag.
  \<^item> \<open>Ux_Seq\<close>: what each operation does when nobody interferes. The locale
    \<open>page_op\<close> verifies the page loop once for every per-entry operation and is
    interpreted for get, put and clear; \<open>range_op\<close> is the contract of the exported
    operations and is interpreted for \<open>UxpteGet\<close>, \<open>UxptePut\<close> and
    \<open>UxpteClear\<close>.
  \<^item> \<open>Ux_Conc\<close>: the compare-and-swap loops under arbitrary interference: one
    linearisation point, and termination once the others settle. \<open>Ux_Threads\<close>: any
    number of threads pinning and unpinning one entry, as an interleaved step relation with an
    invariant.
  \<^item> \<open>Purg_Builder\<close>: the builder chain of
    \<open>c/src/purgeable_mem_builder_c.c\<close> on an explicit heap; the locale
    \<open>builder_chain\<close> is its contract (a list of modifications), interpreted on the
    linked list.
  \<^item> \<open>Purgeable_Mem\<close>: \<open>c/src/purgeable_mem_c.c\<close>: objects, locks,
    rebuilding, begin and end of accesses, logging of modifications, creation and destruction with
    all error exits. State \<open>world\<close>: page table component, builder heap, data regions,
    objects.
  \<^item> \<open>Purg_Seq\<close>, \<open>Purg_Access\<close>: every helper and every exported
    access operation as a map on views of one object. \<open>Purg_Recovery\<close>: the invariant
    that ties content and log, kept by all operations and by purges; the locale
    \<open>begin_access\<close> is what the two begin operations have in common, interpreted for
    both. \<open>Purg_Life\<close>: resources taken and released by creation and destruction.
  \<^item> \<open>Acc_Threads\<close>: any number of threads that use one C object, step by step:
    the control points of the begin and end operations (\<open>acc_next\<close>), interleaved with
    each other, with modifications, logged or not, with pins that are lost to a reclaim, and with
    purges by the kernel (\<open>acc_step\<close>).
    \<open>Acc_Inv\<close>: its invariant, by what each thread guarantees and the others rely on,
    and the interpretation of \<open>buffer_refinement\<close>. \<open>Acc_Live\<close>: a measure
    that every step decreases. \<open>Acc_Code\<close>: a thread on its own computes what the
    operations of \<open>Purgeable_Mem\<close> compute in memory. \<open>Acc_Pages\<close>: the
    same threads on the 64-bit entries, as the loop of \<open>UxpteOps\<close> treats the pages and
    the loops of \<open>UxpteAdd\<close> and \<open>UxpteSub\<close> each entry
    (\<open>pg_next\<close>, \<open>pg_step\<close>), while the kernel marks single entries as
    under reclaim and drops their pages, and the simulation by \<open>acc_step\<close>;
    \<open>Acc_Page_Live\<close>: that they, too, come to an end. \<open>Purg_Frame\<close>: operations leave other objects alone.
  \<^item> \<open>Purgeable_Ndk\<close>: the exported interface
    \<open>c/src/purgeable_memory.c\<close>.
  \<^item> \<open>Dmabuf\<close>: \<open>src/libdmabufheap/src/dmabuf_alloc.c\<close> over a history
    of system calls.
  \<^item> \<open>Cpp_Builder\<close>: the builder class,
    \<open>cpp/src/purgeable_mem_builder.cpp\<close>, as a datatype (a chain of owned successors).
    \<open>Cpp_Base\<close>: \<open>cpp/src/purgeable_mem_base.cpp\<close>; an object is a record
    that derived classes extend, the virtual methods are a record \<open>vtable\<close>,
    \<open>std::lock_guard\<close> is the combinator \<open>lock_guard\<close>.
    \<open>Cpp_Mem\<close>: \<open>cpp/src/ux_page_table.cpp\<close> and
    \<open>cpp/src/purgeable_mem.cpp\<close>. \<open>Cpp_Ashmem\<close>:
    \<open>cpp/src/purgeable_ashmem.cpp\<close>, on a state that extends \<open>world\<close> by the
    history of requests.
  \<^item> \<open>Cpp_Seq\<close>: the locale \<open>purgeable_class\<close> states what the base
    class needs of a derived class (pin, unpin and the question return and change only what they
    should; a rebuilt content is present; whether a store alone makes it so) and verifies the accesses and modifications once from it;
    \<open>balanced_class\<close> extends it by the law that unpinning undoes pinning.
    \<open>Cpp_Mem_Seq\<close> and \<open>Cpp_Ash_Seq\<close> interpret both for the two classes.
    \<open>Cpp_Bound\<close>: the rebuild loop for arbitrary virtual methods.
    \<open>Cpp_Reach\<close>: any sequence of operations and purges as a step relation, with its
    invariant. \<open>Cpp_Refine\<close>: the operations with the events their user sees and the
    number of open accesses, looks and modifications only inside accesses; the locale
    \<open>guarded_class\<close> extends the contract by what the pins are good for (the kernel
    leaves alone what is held), and it and \<open>buffer_refinement\<close> are interpreted for both
    classes. \<open>Cpp_Life\<close>:
    construction, destruction, and objects without a table.
  \<^item> \<open>Cpp_Threads\<close>: any number of threads that use one C++ object, step by step:
    the control points of the operations of the base class (\<open>ct_next\<close>), which run under
    the mutex, \<open>Build\<close> and \<open>AppendBuilder\<close> of a modification as two steps,
    interleaved with each other, with users inside their accesses, who hold only a pin and may look
    while another thread modifies, with \<open>SetDataValid\<close> and with purges
    (\<open>ct_step\<close>).
    \<open>Cpp_Thread_Inv\<close>: the books of mutex and pins, the invariant of the content, and the
    interpretation of \<open>buffer_refinement\<close>. \<open>Cpp_Thread_Live\<close>: a measure
    that every step decreases, from the books alone. \<open>Cpp_Thread_Code\<close>: a thread on its
    own computes what the operations compute in memory, proved once in
    \<open>purgeable_class\<close>.
  \<^item> \<open>Decimal\<close>: numbers as text in the C and C++ library. \<open>Meminfo\<close>:
    \<open>src/libmeminfo/src/meminfo.cpp\<close> and its header.
  \<^item> \<open>Ux_Props\<close>, \<open>Purg_Props\<close>, \<open>Life_Props\<close>,
    \<open>Acc_Props\<close>, \<open>Acc_Page_Props\<close>, \<open>Builder_Props\<close>, \<open>Cpp_Props\<close>,
    \<open>Cpp_Life_Props\<close>, \<open>Cpp_Thread_Props\<close>, \<open>Failed_Props\<close>, \<open>Meminfo_Props\<close>: the
    properties, each followed by a concrete instance of its hypotheses.

  \<^bold>\<open>What is shown.\<close> Page table: entry indices are in bounds and injective; every
  operation touches exactly the entries of the requested pages or, out of range, nothing; get and
  put cancel; the range check accepts some requests that wrap around; set-up gives a cleared table and tear-down undoes it; the entry updates are atomic and
  end once the interference ends; without reclaim the reference count is the number of holders; with
  reclaim it is not, because of a \<open>continue\<close> that runs into the compare-and-swap.
  Objects: the outcome of every begin operation in all three cases, round trips of accesses, no pin
  or lock left by failures, content recovered after any purge, creation and destruction release
  everything on every path, a session on one object leaves the others alone. In clean runs, threads that share an
  object see a buffer that is never purged, in every interleaving and whatever lock calls or
  \<open>memset_s\<close> calls fail; an unlogged modification, and a pin lost to a reclaim in
  progress, each break that; who writes or rebuilds is alone, and no byte changes before a
  reader; and once no new access begins, every schedule ends after at most
  \<open>3 n (12 + l)\<close> steps of \<open>n\<close> threads with a log of length
  \<open>l\<close>, with the object at rest. The same holds on the entries, with pins, unpins and
  looks that stop between two entries or inside a compare-and-swap loop and a kernel that reclaims single pages: its clean runs
  are runs of the coarser system, and they end. But a reader that loses a race with another rebuilding
  reader fails although the content is there, and the content a failed rebuild leaves behind is
  shown by the next access. Builders: replay, extension and destruction of the log, and that the C
  and the C++ builders are the same function. C++ objects: their users, too, see a buffer that is
  never purged, because the kernel takes only what no access pins; none of the five operations on the content goes wrong on a well-formed object; after any sequence of accesses,
  modifications and purges \<open>BeginRead\<close> gives the content the builders describe; pins
  are given back; the rebuild loop ends after four builds for any virtual methods; a life from
  construction to destruction leaves nothing behind. Threads that share a C++ object see a buffer
  that is never purged as well, in clean runs that lose no pin, although its accesses do not exclude each other: nobody is inside
  an access while the content is rebuilt, as long as no \<open>BeginWrite\<close> wraps the build
  count to zero, and then somebody is; every schedule ends after at most
  \<open>n (23 + 4 (l + n))\<close> steps, whatever the builders answer. Where the classes fall short: an object whose
  table could not be mapped, a content forgotten by \<open>ResizeData\<close>, memory leaked after
  \<open>ChangeAshmemData\<close>, a pin lost by \<open>SetDataValid\<close>. DMA heaps: the exact
  system calls of each operation. Memory information: the parsers read back what the kernel prints,
  the one-pass sum equals the separate ones, the total of an application is the sum of its parts; a
  lost error code, a value that is counted twice, and an exception that leaves the client library open.

  \<^bold>\<open>Conventions.\<close> Sizes and addresses are 64 bits wide. \<open>None\<close> is
  \<^emph>\<open>does not return\<close>: a loop that runs forever, a lock that is never granted, an
  access outside allocated memory. A C++ exception that leaves a function is a value (\<open>cpp_exn\<close>). Functions that loop are partial functions, or recursive with a
  termination proof where a counter or a text bounds the loop (\<open>BeginRead_while\<close>,
  \<open>lines_of\<close>, \<open>wrap_nodes\<close>); no fuel is used, and every property that
  describes a result also states that the operation returns. The answers of the kernel, of
  \<open>malloc\<close>, of the pthread and of the bounds-checking library are fields of
  \<open>uxpt_os\<close>, \<open>pm_os\<close>, \<open>dma_os\<close>, \<open>ash_os\<close> and
  \<open>mem_os\<close>; what the theorems rely on is named: \<open>touch_ok\<close> (an access sets
  the present bits), \<open>memset_ok\<close>, \<open>locks_ok\<close>, \<open>mmap_fresh\<close>,
  \<open>unmaps_ok\<close>, \<open>create_env\<close>, \<open>strcat_ok\<close>,
  \<open>kernel_purges\<close>, \<open>cpp_create_env\<close>, \<open>ash_kernel\<close> (requests
  are not interrupted, and the driver believes that a rebuild succeeded). User functions are
  arbitrary functions on the content that stay in their buffer (\<open>in_buffer\<close>,
  \<open>keeps_size\<close>). Interference is a field as well (\<open>ux_sched\<close>,
  \<open>os_sched\<close>), set to nothing by \<open>quieten\<close> and \<open>calm\<close>.

  \<^bold>\<open>Not modelled.\<close> Log output; \<open>pthread_rwlock_destroy\<close>, whose
  result is only logged; the memory order of the atomic accesses (they are sequentially consistent
  here); \<open>ResizeData\<close>, \<open>ChangeAshmemData\<close> and the destructors of a C++
  object while other threads use it (they do not take its mutex, so the caller has to exclude
  them); the log macros; the constants of \<open>pm_util.h\<close> for a build without
  tables (\<open>MAP_PURGEABLE\<close> is zero there); tests and build files. In the step relations
  of the threads of C++ objects a pin of the whole object is one step; a function of a builder runs in
  one step (who looks meanwhile may see anything), a lock call either waits or fails, the holder of a
  lock can release it, a
  \<open>memset_s\<close> that fails leaves the content alone, and users change the content only through
  \<open>PurgMemAppendModify\<close> and \<open>ModifyContentByBuilder\<close>, inside a write access;
  \<open>PurgMemDestroy\<close> while others use the object is left out, since the caller has to
  exclude it.
\<close>

section \<open>From creation to concurrent use\<close>

text \<open>
  C18. What a program gets from \<open>OH_PurgeableMemory_Create\<close> is a buffer. If the creation function turns
  zeros into \<open>d\<close>, then any number of threads that use the object, in any interleaving with each other
  and with the kernel's purges in which no pin is lost to a reclaim in progress and no unlogged
  modification changes the content, see a buffer that starts with \<open>d\<close> and is never purged; and when
  they stop beginning accesses, all of them are through after a bounded number of steps.
\<close>

theorem created_object_is_buffer:
  assumes env: "create_env os len w" and len: "0 < unat len" and ok: "\<not> create_refused os len w"
    and lk: "\<And>n. os_lock_init os n = 0" and os: "touch_ok os (new_table os len w)"
    and mem: "\<And>n. os_malloc os n \<noteq> NULL \<and> builders w (os_malloc os n) = None"
    and f: "in_buffer f" "f (replicate (unat len) 0) q = (True, d)"
  shows "\<exists>w1 ob bs. OH_PurgeableMemory_Create (calm os) len (Some f) q w = Some (obj_at os w, w1) \<and>
    objs w1 (obj_at os w) = Some ob \<and> regions w1 (dataPtr ob) = Some bs \<and>
    (\<forall>lf n es s. runs (acc_step lf n) (shared_object w1 (new_table os len w) ob bs [(f, q)]) es s \<and> clean es \<longrightarrow>
       buffer_run d es = Some (acc_value (a_st s)) \<and>
       (\<forall>k s'. (acc_drain n ^^ k) s s' \<longrightarrow>
          k \<le> 3 * n * (12 + length (a_log (a_st s))) \<and> ((\<exists>s''. acc_drain n s' s'') \<or> acc_rest n s')))"
proof -
  let ?p = "obj_at os w" and ?t = "new_table os len w"
  obtain w1 ob bs where w1: "PurgMemCreate (calm os) len (Some f) q w = Some (?p, w1)"
    and c: "content_ok w1 ?p ?t ob bs [(f, q)] d" "lock_free ob"
    using Create_content [OF env len ok lk os mem f] by blast
  have v: "obj_view w1 ?p ?t w1 ob bs (ptes (ux w1))" using c(1) by (simp add: content_ok_def obj_ready_def)
  then have "objs w1 ?p = Some ob" "regions w1 (dataPtr ob) = Some bs"
    using view_obj [OF v] by (auto simp: obj_view_def dest: fun_cong [where x = "dataPtr ob"])
  then show ?thesis
    using w1 shared_inv(2) [OF c] shared_finish [OF c] unfolding ndk_defs by blast
qed

theorem created_object_is_buffer_witness:
  "\<exists>w1 ob bs. OH_PurgeableMemory_Create (calm ex_pm_os) 4 (Some fill_nines) 0 empty_world = Some (0x100, w1) \<and>
     (\<forall>es s. runs (acc_step True 3) (shared_object w1 ex_table ob bs [(fill_nines, 0)]) es s \<and> clean es \<longrightarrow>
        buffer_run (replicate 4 9) es = Some (acc_value (a_st s)))"
proof -
  have len: "0 < unat (4 :: size_t)" by simp
  have lk: "os_lock_init ex_pm_os n = 0" for n by (simp add: ex_pm_os_def)
  have os: "touch_ok ex_pm_os (new_table ex_pm_os 4 empty_world)" using ex_env by (simp add: ex_requests pm_env_def)
  have mem: "os_malloc ex_pm_os n \<noteq> NULL \<and> builders empty_world (os_malloc ex_pm_os n) = None" for n
    by (simp add: ex_pm_os_def empty_world_def)
  have f: "fill_nines (replicate (unat (4 :: size_t)) 0) 0 = (True, replicate 4 9)" by (simp add: fill_nines_def)
  from created_object_is_buffer [OF ex_create_env(1) len ex_create_env(2) lk os mem ex_buffers(1) f]
  show ?thesis unfolding ex_requests by blast
qed



end
